(* ===== verification/Huldra_Prelude.thy ===== *)
theory Huldra_Prelude
  imports Complex_Main "HOL-Library.List_Lexorder" "HOL-Library.Char_ord"
    "HOL-Library.Product_Lexorder"
begin

text \<open>
  Shared vocabulary of the development: relational tables as lists of rows (in rowid order),
  the SQL statements the store issues on them (SELECT by key, UPDATE .. WHERE, DELETE .. WHERE,
  INSERT .. ON CONFLICT DO UPDATE), Python's order-preserving deduplication
  (dict.fromkeys), and the generic lemmas about them that the component theories use.
\<close>

named_theorems table_simps "how a table reads after one statement"
named_theorems table_intros "distinctness of keys is kept by every statement"

type_synonym seconds = rat

subsection \<open>Tables\<close>

text \<open>SELECT * FROM t WHERE key = k (fetchone).\<close>

definition tbl_get :: "('r \<Rightarrow> 'k) \<Rightarrow> 'k \<Rightarrow> 'r list \<Rightarrow> 'r option" where
  "tbl_get key k rs = find (\<lambda>r. key r = k) rs"

text \<open>UPDATE t SET .. WHERE P.\<close>

definition tbl_update :: "('r \<Rightarrow> bool) \<Rightarrow> ('r \<Rightarrow> 'r) \<Rightarrow> 'r list \<Rightarrow> 'r list" where
  "tbl_update P f rs = map (\<lambda>r. if P r then f r else r) rs"

text \<open>DELETE FROM t WHERE P.\<close>

definition tbl_delete :: "('r \<Rightarrow> bool) \<Rightarrow> 'r list \<Rightarrow> 'r list" where
  "tbl_delete P rs = filter (\<lambda>r. \<not> P r) rs"

text \<open>INSERT INTO t VALUES r ON CONFLICT(key) DO UPDATE SET f.\<close>

definition tbl_upsert :: "('r \<Rightarrow> 'k) \<Rightarrow> 'r \<Rightarrow> ('r \<Rightarrow> 'r) \<Rightarrow> 'r list \<Rightarrow> 'r list" where
  "tbl_upsert key r f rs =
     (if tbl_get key (key r) rs = None then rs @ [r]
      else tbl_update (\<lambda>x. key x = key r) f rs)"

text \<open>The rowcount of UPDATE .. WHERE P and DELETE .. WHERE P.\<close>

definition tbl_count :: "('r \<Rightarrow> bool) \<Rightarrow> 'r list \<Rightarrow> nat" where
  "tbl_count P rs = length (filter P rs)"

text \<open>PRIMARY KEY: no two rows share a key.\<close>

definition keyed :: "('r \<Rightarrow> 'k) \<Rightarrow> 'r list \<Rightarrow> bool" where
  "keyed key rs \<longleftrightarrow> distinct (map key rs)"

lemma tbl_get_None: "tbl_get key k rs = None \<longleftrightarrow> (\<forall>r\<in>set rs. key r \<noteq> k)"
  by (auto simp: tbl_get_def find_None_iff)

lemma tbl_get_SomeD: "tbl_get key k rs = Some r \<Longrightarrow> r \<in> set rs \<and> key r = k"
  by (auto simp: tbl_get_def find_Some_iff)

lemma tbl_get_Nil [simp]: "tbl_get key k [] = None"
  by (simp add: tbl_get_def)

lemma tbl_get_Cons: "tbl_get key k (r # rs) = (if key r = k then Some r else tbl_get key k rs)"
  by (simp add: tbl_get_def)

lemma tbl_get_append:
  "tbl_get key k (rs @ ss) = (case tbl_get key k rs of None \<Rightarrow> tbl_get key k ss | Some r \<Rightarrow> Some r)"
  by (induction rs) (auto simp: tbl_get_Cons)

lemma keyed_Nil [simp]: "keyed key []"
  by (simp add: keyed_def)

lemma keyed_Cons: "keyed key (r # rs) \<longleftrightarrow> tbl_get key (key r) rs = None \<and> keyed key rs"
  by (simp add: keyed_def tbl_get_None image_iff) metis

lemma tbl_get_memI:
  "keyed key rs \<Longrightarrow> r \<in> set rs \<Longrightarrow> key r = k \<Longrightarrow> tbl_get key k rs = Some r"
  by (induction rs) (auto simp: keyed_Cons tbl_get_Cons tbl_get_None)

lemma tbl_get_iff:
  "keyed key rs \<Longrightarrow> tbl_get key k rs = Some r \<longleftrightarrow> r \<in> set rs \<and> key r = k"
  by (auto dest: tbl_get_SomeD intro: tbl_get_memI)

lemma keyed_eqI:
  "keyed key rs \<Longrightarrow> r \<in> set rs \<Longrightarrow> r' \<in> set rs \<Longrightarrow> key r = key r' \<Longrightarrow> r = r'"
  by (metis option.inject tbl_get_memI)

lemma keyed_update [table_intros]:
  assumes "keyed key rs" and "\<And>r. key (f r) = key r"
  shows "keyed key (tbl_update P f rs)"
proof -
  have "map key (tbl_update P f rs) = map key rs"
    by (induction rs) (auto simp: tbl_update_def assms(2))
  with assms(1) show ?thesis by (simp add: keyed_def)
qed

lemma keyed_delete [table_intros]: "keyed key rs \<Longrightarrow> keyed key (tbl_delete P rs)"
  by (induction rs) (auto simp: keyed_def tbl_delete_def)

lemma keyed_snoc:
  "keyed key rs \<Longrightarrow> tbl_get key (key r) rs = None \<Longrightarrow> keyed key (rs @ [r])"
  by (simp add: keyed_def tbl_get_None image_iff) metis

lemma keyed_upsert [table_intros]:
  "keyed key rs \<Longrightarrow> (\<And>r. key (f r) = key r) \<Longrightarrow> keyed key (tbl_upsert key r f rs)"
  by (auto simp: tbl_upsert_def intro: keyed_update keyed_snoc)

lemma tbl_get_update [table_simps]:
  assumes "\<And>r. key (f r) = key r"
  shows "tbl_get key k (tbl_update P f rs) =
    map_option (\<lambda>r. if P r then f r else r) (tbl_get key k rs)"
  by (induction rs) (auto simp: tbl_update_def tbl_get_Cons assms)

lemma tbl_get_upsert [table_simps]:
  assumes "\<And>r. key (f r) = key r"
  shows "tbl_get key k (tbl_upsert key r f rs) =
    (if k = key r then Some (case tbl_get key k rs of None \<Rightarrow> r | Some x \<Rightarrow> f x)
     else tbl_get key k rs)"
proof (cases "tbl_get key (key r) rs")
  case None
  then show ?thesis
    by (auto simp: tbl_upsert_def tbl_get_append tbl_get_Cons split: option.splits)
next
  case (Some r0)
  have "tbl_get key k (tbl_upsert key r f rs) =
      map_option (\<lambda>x. if key x = key r then f x else x) (tbl_get key k rs)"
    using Some by (simp add: tbl_upsert_def tbl_get_update assms)
  with Some tbl_get_SomeD [of key k rs] show ?thesis
    by (cases "tbl_get key k rs") auto
qed

lemma tbl_get_delete [table_simps]:
  assumes "keyed key rs"
  shows "tbl_get key k (tbl_delete P rs) =
    (case tbl_get key k rs of None \<Rightarrow> None | Some r \<Rightarrow> if P r then None else Some r)"
  using assms
proof (induction rs)
  case (Cons r rs)
  then have "key r = k \<Longrightarrow> tbl_get key k rs = None"
    and "key r = k \<Longrightarrow> tbl_get key k (filter (\<lambda>x. \<not> P x) rs) = None"
    by (auto simp: keyed_Cons tbl_get_None)
  with Cons show ?case
    by (auto simp: tbl_delete_def keyed_Cons tbl_get_Cons split: option.splits)
qed (simp add: tbl_delete_def)

lemma set_tbl_update: "set (tbl_update P f rs) = (\<lambda>r. if P r then f r else r) ` set rs"
  by (simp add: tbl_update_def)

lemma set_tbl_delete: "set (tbl_delete P rs) = {r \<in> set rs. \<not> P r}"
  by (auto simp: tbl_delete_def)

lemma length_tbl_update [simp]: "length (tbl_update P f rs) = length rs"
  by (simp add: tbl_update_def)

lemma tbl_update_none: "(\<And>r. r \<in> set rs \<Longrightarrow> \<not> P r) \<Longrightarrow> tbl_update P f rs = rs"
  by (induction rs) (auto simp: tbl_update_def)

lemma tbl_count_delete: "length (tbl_delete P rs) + tbl_count P rs = length rs"
  by (induction rs) (auto simp: tbl_delete_def tbl_count_def)

lemma tbl_get_map:
  assumes "\<And>r. key (f r) = key r"
  shows "tbl_get key k (map f rs) = map_option f (tbl_get key k rs)"
  by (induction rs) (auto simp: tbl_get_Cons assms)

lemma keyed_map: "(\<And>r. key (f r) = key r) \<Longrightarrow> keyed key (map f rs) = keyed key rs"
  by (simp add: keyed_def comp_def)

lemma filter_keyed:
  assumes "keyed key rs"
  shows "filter (\<lambda>r. key r = k \<and> Q r) rs =
    (case tbl_get key k rs of None \<Rightarrow> [] | Some r \<Rightarrow> if Q r then [r] else [])"
  using assms
proof (induction rs)
  case (Cons r rs)
  then have IH: "filter (\<lambda>r. key r = k \<and> Q r) rs =
    (case tbl_get key k rs of None \<Rightarrow> [] | Some r \<Rightarrow> if Q r then [r] else [])"
    by (simp add: keyed_Cons)
  show ?case
  proof (cases "key r = k")
    case True
    then have "tbl_get key k rs = None" using Cons.prems by (simp add: keyed_Cons)
    with True IH show ?thesis by (simp add: tbl_get_Cons)
  next
    case False
    with IH show ?thesis by (simp add: tbl_get_Cons)
  qed
qed simp

lemma tbl_count_keyed:
  "keyed key rs \<Longrightarrow> tbl_count (\<lambda>r. key r = k \<and> Q r) rs =
    (case tbl_get key k rs of None \<Rightarrow> 0 | Some r \<Rightarrow> if Q r then 1 else 0)"
  by (simp add: tbl_count_def filter_keyed split: option.split)

subsection \<open>The keyed-table interface\<close>

text \<open>
  What every component assumes of a table: reading by key after a write. Interpreted below on
  the list tables for any key column.
\<close>

locale keyed_table =
  fixes key :: "'r \<Rightarrow> 'k"
    and get :: "'k \<Rightarrow> 't \<Rightarrow> 'r option"
    and update_where :: "('r \<Rightarrow> bool) \<Rightarrow> ('r \<Rightarrow> 'r) \<Rightarrow> 't \<Rightarrow> 't"
    and wf :: "'t \<Rightarrow> bool"
  assumes get_key: "get k t = Some r \<Longrightarrow> key r = k"
    and get_update_where: "(\<And>r. key (f r) = key r) \<Longrightarrow>
      get k (update_where P f t) = map_option (\<lambda>r. if P r then f r else r) (get k t)"
    and wf_update_where: "wf t \<Longrightarrow> (\<And>r. key (f r) = key r) \<Longrightarrow> wf (update_where P f t)"
begin

lemma get_update_key:
  assumes "\<And>r. key (f r) = key r"
  shows "get k (update_where (\<lambda>r. key r = k') f t) =
    (if k = k' then map_option f (get k t) else get k t)"
  using get_update_where [OF assms, where P = "\<lambda>r. key r = k'"] get_key
  by (cases "get k t") auto

lemma get_update_guarded:
  assumes "\<And>r. key (f r) = key r" and "get k t = Some r"
  shows "get k (update_where (\<lambda>r. key r = k \<and> Q r) f t) = Some (if Q r then f r else r)"
  using get_update_where [OF assms(1)] assms(2) get_key by auto

lemma get_update_other:
  assumes "\<And>r. key (f r) = key r" and "k \<noteq> k'"
  shows "get k (update_where (\<lambda>r. key r = k' \<and> Q r) f t) = get k t"
  using get_update_where [OF assms(1)] assms(2) get_key by (cases "get k t") auto

end

interpretation list_table: keyed_table key "tbl_get key" tbl_update "keyed key" for key
  by unfold_locales (auto simp: table_simps dest: tbl_get_SomeD intro: table_intros)

subsection \<open>dict.fromkeys\<close>

text \<open>tuple(dict.fromkeys(xs)): the first occurrences of xs, in order.\<close>

fun dedup :: "'a list \<Rightarrow> 'a list" where
  "dedup [] = []"
| "dedup (x # xs) = x # filter (\<lambda>y. y \<noteq> x) (dedup xs)"

lemma set_dedup [simp]: "set (dedup xs) = set xs"
  by (induction xs) auto

lemma distinct_dedup [simp]: "distinct (dedup xs)"
  by (induction xs) auto

lemma dedup_distinct: "distinct xs \<Longrightarrow> dedup xs = xs"
  by (induction xs) (auto intro!: filter_True)

lemma dedup_empty_iff [simp]: "dedup xs = [] \<longleftrightarrow> xs = []"
  by (cases xs) auto

lemma length_dedup_le: "length (dedup xs) \<le> length xs"
proof (induction xs)
  case (Cons x xs)
  have "length (filter (\<lambda>y. y \<noteq> x) (dedup xs)) \<le> length (dedup xs)" by simp
  with Cons show ?case by (simp del: length_filter_le)
qed simp

subsection \<open>Options\<close>

text \<open>Python's `a or b` and SQL's COALESCE(a, b) on optional values.\<close>

definition coalesce :: "'a option \<Rightarrow> 'a option \<Rightarrow> 'a option" where
  "coalesce a b = (case a of None \<Rightarrow> b | Some x \<Rightarrow> Some x)"

lemma coalesce_simps [simp]: "coalesce None b = b" "coalesce (Some x) b = Some x"
  "coalesce a None = a"
  by (auto simp: coalesce_def split: option.splits)

lemma coalesce_None [simp]: "coalesce a b = None \<longleftrightarrow> a = None \<and> b = None"
  by (auto simp: coalesce_def split: option.splits)

end
