(* ===== verification/Huldra_Time.thy ===== *)
theory Huldra_Time
  imports Huldra_Prelude
begin

text \<open>
  Time as the code has it (huldra/time.py, the date arithmetic of planner.py and keys.py, and
  the timestamp columns of the store). An aware UTC datetime is the number of microseconds
  since 0001-01-01T00:00:00Z (Python's datetime resolution and lower bound). The store writes
  datetimes as TEXT with isoformat and lets SQLite compare the texts; the theorem
  isoformat_less_iff shows that those text comparisons decide as the instants do, which is what
  allows the tables of the store to hold instants.
\<close>

subsection \<open>Instants, durations, calendar dates\<close>

type_synonym datetime = int

definition us_per_second :: int where "us_per_second = 1000000"
definition us_per_day :: int where "us_per_day = 86400 * 1000000"

text \<open>datetime.max is the last microsecond of 9999-12-31, the day with ordinal 3652059.\<close>

definition valid_datetime :: "datetime \<Rightarrow> bool" where
  "valid_datetime t \<longleftrightarrow> 0 \<le> t \<and> t < 3652059 * us_per_day"

text \<open>A datetime object: naive, or aware with its UTC offset in microseconds.\<close>

datatype py_datetime = Naive int | Aware int int

fun ensure_utc :: "py_datetime \<Rightarrow> datetime" where
  "ensure_utc (Naive local) = local"
| "ensure_utc (Aware local offset) = local - offset"

text \<open>
  timedelta(seconds=x) for a float x: x microseconds rounded to the nearest, ties to even;
  timedelta.total_seconds() is the quotient.
\<close>

definition round_half_even :: "rat \<Rightarrow> int" where
  "round_half_even x =
     (let n = \<lfloor>x\<rfloor>; d = x - of_int n
      in if d < 1/2 then n else if d > 1/2 then n + 1 else if even n then n else n + 1)"

definition timedelta_seconds :: "seconds \<Rightarrow> int" where
  "timedelta_seconds s = round_half_even (s * of_int us_per_second)"

definition total_seconds :: "int \<Rightarrow> seconds" where
  "total_seconds us = of_int us / of_int us_per_second"

lemma round_half_even_int [simp]: "round_half_even (of_int n) = n"
  by (simp add: round_half_even_def)

lemma round_half_even_bounds: "\<bar>of_int (round_half_even x) - x\<bar> \<le> 1/2"
proof -
  have "of_int \<lfloor>x\<rfloor> \<le> x" "x < of_int \<lfloor>x\<rfloor> + 1" by linarith+
  then have "of_int (round_half_even x) - x \<le> 1/2" "x - of_int (round_half_even x) \<le> 1/2"
    unfolding round_half_even_def Let_def by (auto; linarith)+
  then show ?thesis by (intro abs_leI) linarith+
qed

lemma round_half_even_mono: "x \<le> y \<Longrightarrow> round_half_even x \<le> round_half_even y"
proof (cases "\<lfloor>x\<rfloor> = \<lfloor>y\<rfloor>")
  case True
  moreover assume "x \<le> y"
  ultimately show ?thesis by (auto simp: round_half_even_def Let_def)
next
  case False
  moreover assume "x \<le> y"
  ultimately have "\<lfloor>x\<rfloor> + 1 \<le> \<lfloor>y\<rfloor>" using floor_mono [of x y] by linarith
  then show ?thesis by (auto simp: round_half_even_def Let_def)
qed

lemma timedelta_int: "timedelta_seconds (of_int n) = n * us_per_second"
  by (metis of_int_mult round_half_even_int timedelta_seconds_def)

lemma timedelta_numeral [simp]:
  "timedelta_seconds (numeral n) = numeral n * us_per_second"
  "timedelta_seconds 0 = 0" "timedelta_seconds 1 = us_per_second"
  using timedelta_int [of "numeral n"] timedelta_int [of 0] timedelta_int [of 1] by simp_all

lemma timedelta_mono: "s \<le> t \<Longrightarrow> timedelta_seconds s \<le> timedelta_seconds t"
  by (simp add: timedelta_seconds_def round_half_even_mono us_per_second_def)

lemma timedelta_nonneg: "0 \<le> s \<Longrightarrow> 0 \<le> timedelta_seconds s"
  using timedelta_mono [of 0 s] by simp

lemma total_seconds_roundtrip: "timedelta_seconds (total_seconds us) = us"
  by (simp add: timedelta_seconds_def total_seconds_def us_per_second_def)

lemma total_seconds_mono: "a \<le> b \<Longrightarrow> total_seconds a \<le> total_seconds b"
  by (simp add: total_seconds_def us_per_second_def divide_right_mono)

subsection \<open>The proleptic Gregorian calendar of datetime.date\<close>

definition is_leap :: "int \<Rightarrow> bool" where
  "is_leap y \<longleftrightarrow> y mod 4 = 0 \<and> (y mod 100 \<noteq> 0 \<or> y mod 400 = 0)"

definition days_before_year :: "int \<Rightarrow> int" where
  "days_before_year y = (let p = y - 1 in p * 365 + p div 4 - p div 100 + p div 400)"

definition year_length :: "int \<Rightarrow> int" where
  "year_length y = (if is_leap y then 366 else 365)"

definition month_lengths :: "bool \<Rightarrow> int list" where
  "month_lengths leap = [31, if leap then 29 else 28, 31, 30, 31, 30, 31, 31, 30, 31, 30, 31]"

text \<open>The year of day n, where day 0 is 0001-01-01.\<close>

definition year_of_day :: "int \<Rightarrow> int" where
  "year_of_day n =
     (let n400 = n div 146097; r = n mod 146097;
          n100 = min 3 (r div 36524); r = r - n100 * 36524;
          n4 = r div 1461; r = r mod 1461;
          n1 = min 3 (r div 365)
      in 400 * n400 + 100 * n100 + 4 * n4 + n1 + 1)"

text \<open>Month and day of month of the n-th day of a year.\<close>

fun month_day :: "int list \<Rightarrow> int \<Rightarrow> int \<Rightarrow> int \<times> int" where
  "month_day [] m n = (m, n + 1)"
| "month_day (l # ls) m n = (if n < l then (m, n + 1) else month_day ls (m + 1) (n - l))"

definition ymd_of_day :: "int \<Rightarrow> int \<times> int \<times> int" where
  "ymd_of_day n =
     (let y = year_of_day n
      in (y, month_day (month_lengths (is_leap y)) 1 (n - days_before_year y)))"

lemma div_pred:
  fixes y k :: int
  assumes "0 < k"
  shows "y div k = (y - 1) div k + (if y mod k = 0 then 1 else 0)"
proof -
  have y: "y = k * (y div k) + y mod k" by simp
  show ?thesis
  proof (cases "y mod k = 0")
    case True
    then have "y - 1 = k * (y div k - 1) + (k - 1)" using y by (simp add: algebra_simps)
    then have "(y - 1) div k = y div k - 1"
      by (rule int_div_pos_eq) (use assms in auto)
    with True show ?thesis by simp
  next
    case False
    then have r: "0 \<le> y mod k - 1" "y mod k - 1 < k"
      using assms pos_mod_bound [of k y] pos_mod_sign [of k y] by linarith+
    have "y - 1 = k * (y div k) + (y mod k - 1)" using y by linarith
    then have "(y - 1) div k = y div k" by (rule int_div_pos_eq) (use r in auto)
    with False show ?thesis by simp
  qed
qed

lemma days_before_year_Suc: "days_before_year (y + 1) = days_before_year y + year_length y"
proof -
  have "y mod 400 mod 100 = y mod 100" "y mod 100 mod 4 = y mod 4"
    by (simp_all add: mod_mod_cancel)
  then have m: "y mod 400 = 0 \<Longrightarrow> y mod 100 = 0" "y mod 100 = 0 \<Longrightarrow> y mod 4 = 0"
    by (metis mod_0)+
  have lhs: "days_before_year (y + 1) = y * 365 + y div 4 - y div 100 + y div 400"
    by (simp add: days_before_year_def)
  have rhs: "days_before_year y =
      (y - 1) * 365 + (y - 1) div 4 - (y - 1) div 100 + (y - 1) div 400"
    by (simp add: days_before_year_def Let_def)
  have count: "y * 365 + a4 - a100 + a400 =
      (y - 1) * 365 + b4 - b100 + b400 + (if P4 \<and> (\<not> P100 \<or> P400) then 366 else 365)"
    if "a4 = b4 + (if P4 then 1 else 0)" "a100 = b100 + (if P100 then 1 else 0)"
      "a400 = b400 + (if P400 then 1 else 0)" "P400 \<Longrightarrow> P100" "P100 \<Longrightarrow> P4"
    for a4 a100 a400 b4 b100 b400 :: int and P4 P100 P400
    using that by (cases P4; cases P100; cases P400) simp_all
  show ?thesis
    unfolding lhs rhs year_length_def is_leap_def
    by (rule count [OF div_pred div_pred div_pred m]) auto
qed

lemma days_before_year_mono: "y \<le> z \<Longrightarrow> days_before_year y \<le> days_before_year z"
proof (induction z rule: int_ge_induct)
  case (step z)
  then show ?case using days_before_year_Suc [of z] by (simp add: year_length_def split: if_splits)
qed simp

lemma year_of_day_bounds:
  assumes "0 \<le> n"
  defines "y \<equiv> year_of_day n"
  shows "days_before_year y \<le> n \<and> n < days_before_year y + year_length y"
proof -
  define a where "a = n div 146097"
  define r where "r = n mod 146097"
  define b where "b = min 3 (r div 36524)"
  define s where "s = r - b * 36524"
  define c where "c = s div 1461"
  define u where "u = s mod 1461"
  define d where "d = min 3 (u div 365)"
  have y: "y = 400 * a + 100 * b + 4 * c + d + 1"
    unfolding y_def year_of_day_def Let_def a_def r_def b_def s_def c_def u_def d_def ..
  have n: "n = 146097 * a + r" "0 \<le> r" "r < 146097" by (auto simp: a_def r_def)
  have b: "0 \<le> b" "b \<le> 3" "0 \<le> s" "s \<le> 36524" "b < 3 \<Longrightarrow> s < 36524"
  proof -
    define e where "e = r div 36524"
    have e: "r = 36524 * e + r mod 36524" "0 \<le> r mod 36524" "r mod 36524 < 36524"
      by (simp_all add: e_def)
    then have "0 \<le> e" "e \<le> 4" using n by linarith+
    then have "b = (if e = 4 then 3 else e)" by (simp add: b_def e_def [symmetric] min_def)
    then show "0 \<le> b" "b \<le> 3" "0 \<le> s" "s \<le> 36524" "b < 3 \<Longrightarrow> s < 36524"
      using e n \<open>0 \<le> e\<close> \<open>e \<le> 4\<close> by (auto simp: s_def split: if_splits)
  qed
  have c: "s = 1461 * c + u" "0 \<le> u" "u < 1461" by (auto simp: c_def u_def)
  have c': "0 \<le> c" "c \<le> 24" using b c by linarith+
  have d: "0 \<le> d" "d \<le> 3" "365 * d \<le> u" "d < 3 \<Longrightarrow> u < 365 * d + 365"
  proof -
    define e where "e = u div 365"
    have e: "u = 365 * e + u mod 365" "0 \<le> u mod 365" "u mod 365 < 365"
      by (simp_all add: e_def)
    then have "0 \<le> e" "e \<le> 4" using c by linarith+
    then have "d = (if e = 4 then 3 else e)" by (simp add: d_def e_def [symmetric] min_def)
    then show "0 \<le> d" "d \<le> 3" "365 * d \<le> u" "d < 3 \<Longrightarrow> u < 365 * d + 365"
      using e c \<open>0 \<le> e\<close> \<open>e \<le> 4\<close> by (auto split: if_splits)
  qed
  have dv: "(y - 1) div 4 = 100 * a + 25 * b + c" "(y - 1) div 100 = 4 * a + b"
      "(y - 1) div 400 = a"
  proof -
    have "y - 1 = 4 * (100 * a + 25 * b + c) + d" "y - 1 = 100 * (4 * a + b) + (4 * c + d)"
      "y - 1 = 400 * a + (100 * b + 4 * c + d)" by (simp_all add: y)
    then show "(y - 1) div 4 = 100 * a + 25 * b + c" "(y - 1) div 100 = 4 * a + b"
      "(y - 1) div 400 = a"
      using b c' d by (auto intro!: int_div_pos_eq)
  qed
  have db: "days_before_year y = 146097 * a + 36524 * b + 1461 * c + 365 * d"
    unfolding days_before_year_def Let_def dv by (simp add: y)
  have rest: "n - days_before_year y = u - 365 * d"
    unfolding db using n c by (simp add: s_def)
  have leap: "is_leap y \<longleftrightarrow> d = 3 \<and> (c \<noteq> 24 \<or> b = 3)"
  proof -
    have m4: "y mod 4 = (if d = 3 then 0 else d + 1)"
    proof (cases "d = 3")
      case True
      then have "y = 4 * (100 * a + 25 * b + c + 1) + 0" by (simp add: y)
      with True show ?thesis by simp
    next
      case False
      have "y = 4 * (100 * a + 25 * b + c) + (d + 1)" by (simp add: y)
      then have "y mod 4 = d + 1" by (rule int_mod_pos_eq) (use False d in auto)
      with False show ?thesis by simp
    qed
    have m100: "d = 3 \<Longrightarrow> y mod 100 = (if c = 24 then 0 else 4 * c + 4)"
    proof (cases "c = 24")
      case True
      assume "d = 3"
      then have "y = 100 * (4 * a + b + 1)" using True by (simp add: y)
      with True show ?thesis by simp
    next
      case False
      assume "d = 3"
      then have "y = 100 * (4 * a + b) + (4 * c + 4)" by (simp add: y)
      then have "y mod 100 = 4 * c + 4" by (rule int_mod_pos_eq) (use False c' in auto)
      with False show ?thesis by simp
    qed
    have m400: "d = 3 \<Longrightarrow> c = 24 \<Longrightarrow> y mod 400 = (if b = 3 then 0 else 100 * b + 100)"
    proof (cases "b = 3")
      case True
      assume "d = 3" "c = 24"
      then have "y = 400 * (a + 1)" using True by (simp add: y)
      with True show ?thesis by simp
    next
      case False
      assume "d = 3" "c = 24"
      then have "y = 400 * a + (100 * b + 100)" by (simp add: y)
      then have "y mod 400 = 100 * b + 100" by (rule int_mod_pos_eq) (use False b in auto)
      with False show ?thesis by simp
    qed
    show ?thesis using m4 m100 m400 b c' d by (auto simp: is_leap_def)
  qed
  show ?thesis
  proof (cases "d = 3")
    case False
    then show ?thesis using rest d leap by (simp add: year_length_def)
  next
    case True
    have "c = 24 \<Longrightarrow> b \<noteq> 3 \<Longrightarrow> u < 1460" using b c by linarith
    then show ?thesis using True rest c leap d by (auto simp: year_length_def)
  qed
qed

lemma year_of_day_mono: "0 \<le> n \<Longrightarrow> n \<le> n' \<Longrightarrow> year_of_day n \<le> year_of_day n'"
  using year_of_day_bounds [of n] year_of_day_bounds [of n']
    days_before_year_mono [of "year_of_day n' + 1" "year_of_day n"]
    days_before_year_Suc [of "year_of_day n'"]
  by fastforce

lemma year_of_day_range:
  assumes "0 \<le> n" "n < 3652059"
  shows "1 \<le> year_of_day n \<and> year_of_day n \<le> 9999"
proof -
  have "days_before_year 1 = 0" "days_before_year 10000 = 3652059"
    by (simp_all add: days_before_year_def Let_def)
  then show ?thesis
    using assms year_of_day_bounds [OF assms(1)]
      days_before_year_mono [of "year_of_day n + 1" 1] days_before_year_Suc [of "year_of_day n"]
      days_before_year_mono [of 10000 "year_of_day n"]
    by fastforce
qed

lemma month_day_fst: "\<forall>l\<in>set ls. 0 < l \<Longrightarrow> m \<le> fst (month_day ls m n)"
proof (induction ls arbitrary: m n)
  case (Cons l ls)
  then have "m + 1 \<le> fst (month_day ls (m + 1) (n - l))" by (intro Cons.IH) auto
  then show ?case by auto
qed simp

lemma month_day_strict_mono:
  "\<forall>l\<in>set ls. 0 < l \<Longrightarrow> n < n' \<Longrightarrow> month_day ls m n < month_day ls m n'"
proof (induction ls arbitrary: m n n')
  case (Cons l ls)
  have "m + 1 \<le> fst (month_day ls (m + 1) (n' - l))"
    using Cons.prems by (intro month_day_fst) auto
  moreover have "month_day ls (m + 1) (n - l) < month_day ls (m + 1) (n' - l)"
    using Cons.prems by (intro Cons.IH) auto
  ultimately show ?case
    using Cons.prems by (cases "month_day ls (m + 1) (n' - l)") auto
qed simp

lemma month_day_range:
  assumes "\<forall>l\<in>set ls. 0 < l \<and> l \<le> 31" "0 \<le> n" "n < sum_list ls"
  shows "m \<le> fst (month_day ls m n) \<and> fst (month_day ls m n) < m + int (length ls) \<and>
    1 \<le> snd (month_day ls m n) \<and> snd (month_day ls m n) \<le> 31"
  using assms
proof (induction ls arbitrary: m n)
  case (Cons l ls)
  show ?case
  proof (cases "n < l")
    case True
    with Cons.prems show ?thesis by auto
  next
    case False
    with Cons.prems show ?thesis using Cons.IH [of "n - l" "m + 1"] by auto
  qed
qed simp

lemma month_lengths_facts:
  "\<forall>l\<in>set (month_lengths b). 0 < l \<and> l \<le> 31" "length (month_lengths b) = 12"
  "sum_list (month_lengths (is_leap y)) = year_length y"
  by (auto simp: month_lengths_def year_length_def)

lemma ymd_strict_mono:
  assumes "0 \<le> n" "n < n'"
  shows "ymd_of_day n < ymd_of_day n'"
proof (cases "year_of_day n = year_of_day n'")
  case True
  then show ?thesis
    using assms month_lengths_facts(1) [of "is_leap (year_of_day n)"]
      month_day_strict_mono [of "month_lengths (is_leap (year_of_day n))"
        "n - days_before_year (year_of_day n)" "n' - days_before_year (year_of_day n)" 1]
    by (auto simp: ymd_of_day_def Let_def)
next
  case False
  then show ?thesis
    using assms year_of_day_mono [of n n'] by (auto simp: ymd_of_day_def Let_def)
qed

subsection \<open>datetime.isoformat\<close>

definition digit :: "int \<Rightarrow> char" where
  "digit k = char_of (48 + nat k)"

text \<open>n in decimal, zero-padded to w digits.\<close>

fun dec :: "nat \<Rightarrow> int \<Rightarrow> string" where
  "dec 0 n = []"
| "dec (Suc w) n = dec w (n div 10) @ [digit (n mod 10)]"

type_synonym fields = "(int \<times> int \<times> int) \<times> int \<times> int \<times> int \<times> int"

definition time_fields :: "datetime \<Rightarrow> fields" where
  "time_fields t =
     (let r = t mod us_per_day; s = r div us_per_second
      in (ymd_of_day (t div us_per_day),
          s div 3600, s mod 3600 div 60, s mod 60, r mod us_per_second))"

definition utc_fraction :: "int \<Rightarrow> string" where
  "utc_fraction us = (if us = 0 then [] else ''.'' @ dec 6 us) @ ''+00:00''"

fun fields_text :: "fields \<Rightarrow> string" where
  "fields_text ((y, m, d), h, mi, s, us) =
     dec 4 y @ ''-'' @ dec 2 m @ ''-'' @ dec 2 d @ ''T'' @
     dec 2 h @ '':'' @ dec 2 mi @ '':'' @ dec 2 s @ utc_fraction us"

text \<open>ensure_utc(value).isoformat() of an aware UTC datetime.\<close>

definition isoformat :: "datetime \<Rightarrow> string" where
  "isoformat t = fields_text (time_fields t)"

definition isoformat_or_none :: "py_datetime option \<Rightarrow> string option" where
  "isoformat_or_none v = map_option (\<lambda>d. isoformat (ensure_utc d)) v"

text \<open>value.date().isoformat() and strftime('%Y%m%d%H%M') (glibc pads no year; years from 1000).\<close>

definition date_text :: "datetime \<Rightarrow> string" where
  "date_text t = (case time_fields t of ((y, m, d), _) \<Rightarrow> dec 4 y @ ''-'' @ dec 2 m @ ''-'' @ dec 2 d)"

definition minute_text :: "datetime \<Rightarrow> string" where
  "minute_text t = (case time_fields t of ((y, m, d), h, mi, _) \<Rightarrow>
     dec 4 y @ dec 2 m @ dec 2 d @ dec 2 h @ dec 2 mi)"

text \<open>utc_day_floor (models.py).\<close>

definition utc_day_floor :: "datetime \<Rightarrow> datetime" where
  "utc_day_floor t = (t div us_per_day) * us_per_day"

lemma length_dec [simp]: "length (dec w n) = w"
  by (induction w arbitrary: n) auto

lemma str_less_append:
  fixes xs xs' :: string
  assumes "length xs = length xs'"
  shows "xs @ ys < xs' @ ys' \<longleftrightarrow> xs < xs' \<or> xs = xs' \<and> ys < ys'"
  using assms by (induction xs xs' rule: list_induct2) auto

lemma digit_less: "0 \<le> a \<Longrightarrow> a < 10 \<Longrightarrow> 0 \<le> b \<Longrightarrow> b < 10 \<Longrightarrow> digit a < digit b \<longleftrightarrow> a < b"
  by (auto simp: digit_def less_char_def)

lemma dec_order:
  assumes "0 \<le> m" "m < 10 ^ w" "0 \<le> n" "n < 10 ^ w"
  shows "(dec w m < dec w n \<longleftrightarrow> m < n) \<and> (dec w m = dec w n \<longleftrightarrow> m = n)"
  using assms
proof (induction w arbitrary: m n)
  case (Suc w)
  have m: "m = 10 * (m div 10) + m mod 10" "0 \<le> m mod 10" "m mod 10 < 10"
    and n: "n = 10 * (n div 10) + n mod 10" "0 \<le> n mod 10" "n mod 10 < 10" by simp_all
  have "0 \<le> m div 10" "m div 10 < 10 ^ w" "0 \<le> n div 10" "n div 10 < 10 ^ w"
    using Suc.prems by auto
  note IH = Suc.IH [OF this]
  have d: "digit (m mod 10) < digit (n mod 10) \<longleftrightarrow> m mod 10 < n mod 10"
    "digit (n mod 10) < digit (m mod 10) \<longleftrightarrow> n mod 10 < m mod 10"
    using m n by (simp_all add: digit_less)
  then have e: "digit (m mod 10) = digit (n mod 10) \<longleftrightarrow> m mod 10 = n mod 10"
    by (metis linorder_neq_iff)
  have mn: "m < n \<longleftrightarrow> m div 10 < n div 10 \<or> m div 10 = n div 10 \<and> m mod 10 < n mod 10"
    using m n by linarith
  have mne: "m = n \<longleftrightarrow> m div 10 = n div 10 \<and> m mod 10 = n mod 10"
    using m(1) n(1) by metis
  show ?case unfolding mn mne by (simp add: str_less_append IH d e)
qed simp

lemmas dec_less = dec_order [THEN conjunct1]
  and dec_eq = dec_order [THEN conjunct2]

definition valid_fields :: "fields \<Rightarrow> bool" where
  "valid_fields f = (case f of ((y, m, d), h, mi, s, us) \<Rightarrow>
     0 \<le> y \<and> y < 10000 \<and> 0 \<le> m \<and> m < 100 \<and> 0 \<le> d \<and> d < 100 \<and>
     0 \<le> h \<and> h < 100 \<and> 0 \<le> mi \<and> mi < 100 \<and> 0 \<le> s \<and> s < 100 \<and> 0 \<le> us \<and> us < 1000000)"

lemma utc_fraction_less:
  "0 \<le> u \<Longrightarrow> u < 1000000 \<Longrightarrow> 0 \<le> v \<Longrightarrow> v < 1000000 \<Longrightarrow>
   utc_fraction u < utc_fraction v \<longleftrightarrow> u < v"
  by (auto simp: utc_fraction_def str_less_append dec_less dec_eq less_char_def
      simp del: dec.simps)

lemma fields_text_less:
  assumes "valid_fields f" "valid_fields g"
  shows "fields_text f < fields_text g \<longleftrightarrow> f < g"
proof -
  obtain y m d h mi s us where f: "f = ((y, m, d), h, mi, s, us)" by (metis prod.exhaust)
  obtain y' m' d' h' mi' s' us' where g: "g = ((y', m', d'), h', mi', s', us')"
    by (metis prod.exhaust)
  show ?thesis
    using assms unfolding f g valid_fields_def
    by (simp add: str_less_append dec_less dec_eq utc_fraction_less del: dec.simps) auto
qed

lemma valid_fieldsI:
  "1 \<le> y \<Longrightarrow> y \<le> 9999 \<Longrightarrow> 1 \<le> m \<and> m < 13 \<and> 1 \<le> d \<and> d \<le> 31 \<Longrightarrow> 0 \<le> h \<Longrightarrow> h < 100 \<Longrightarrow>
   0 \<le> mi \<Longrightarrow> mi < 100 \<Longrightarrow> 0 \<le> s \<Longrightarrow> s < 100 \<Longrightarrow> 0 \<le> u \<Longrightarrow> u < 1000000 \<Longrightarrow> valid_fields ((y, m, d), h, mi, s, u)"
  unfolding valid_fields_def by simp

lemma time_fields_valid: "valid_datetime t \<Longrightarrow> valid_fields (time_fields t)"
proof -
  assume "valid_datetime t"
  then have n: "0 \<le> t div us_per_day" "t div us_per_day < 3652059"
    by (auto simp: valid_datetime_def us_per_day_def)
  define n where "n = t div us_per_day"
  have y: "1 \<le> year_of_day n" "year_of_day n \<le> 9999"
    using year_of_day_range n by (auto simp: n_def)
  obtain m d where eq: "month_day (month_lengths (is_leap (year_of_day n))) 1
      (n - days_before_year (year_of_day n)) = (m, d)" by fastforce
  have md: "1 \<le> m \<and> m < 13 \<and> 1 \<le> d \<and> d \<le> 31"
    using month_day_range [of "month_lengths (is_leap (year_of_day n))"
        "n - days_before_year (year_of_day n)" 1]
      year_of_day_bounds [of n] n month_lengths_facts eq by (simp add: n_def)
  define r where "r = t mod us_per_day"
  define q where "q = r div us_per_second"
  have "0 \<le> r" "r < 86400000000" by (simp_all add: r_def us_per_day_def)
  then have q: "0 \<le> q" "q < 86400" by (auto simp: q_def us_per_second_def)
  have tf: "time_fields t = ((year_of_day n, m, d), q div 3600, q mod 3600 div 60, q mod 60,
      r mod us_per_second)"
    by (simp add: time_fields_def ymd_of_day_def Let_def n_def [symmetric] r_def [symmetric]
        q_def [symmetric] eq)
  have hms: "0 \<le> q div 3600" "q div 3600 < 100" "0 \<le> q mod 3600 div 60" "q mod 3600 div 60 < 100"
    "0 \<le> q mod 60" "q mod 60 < 100"
    using q by linarith+
  have us: "0 \<le> r mod us_per_second" "r mod us_per_second < 1000000"
    by (simp_all add: us_per_second_def)
  show ?thesis
    unfolding tf by (rule valid_fieldsI [OF y md hms us])
qed

lemma divmod_less:
  fixes a b k :: int
  assumes "0 < k" "a < b"
  shows "a div k < b div k \<or> a div k = b div k \<and> a mod k < b mod k"
proof (cases "a div k = b div k")
  case True
  have "k * (a div k) + a mod k = a" "k * (b div k) + b mod k = b" by simp_all
  moreover have "k * (a div k) = k * (b div k)" using True by simp
  ultimately have "a mod k < b mod k" using assms by linarith
  with True show ?thesis by simp
next
  case False
  then show ?thesis using assms zdiv_mono1 [of a b k] by simp
qed

lemma time_fields_strict_mono:
  assumes "0 \<le> t" "t < t'"
  shows "time_fields t < time_fields t'"
proof -
  let ?d = "us_per_day"
  have dpos: "0 < ?d" by (simp add: us_per_day_def)
  have n0: "0 \<le> t div ?d" using assms dpos by (simp add: pos_imp_zdiv_nonneg_iff)
  have le: "t div ?d \<le> t' div ?d" using assms dpos by (simp add: zdiv_mono1)
  show ?thesis
  proof (cases "t div ?d = t' div ?d")
    case False
    then show ?thesis
      using ymd_strict_mono [OF n0, of "t' div ?d"] le by (simp add: time_fields_def Let_def)
  next
    case True
    define r where "r = t mod ?d"
    define r' where "r' = t' mod ?d"
    have rr: "r < r'"
      using divmod_less [OF dpos assms(2)] True by (simp add: r_def r'_def)
    define s where "s = r div us_per_second"
    define s' where "s' = r' div us_per_second"
    have "s < s' \<or> s = s' \<and> r mod us_per_second < r' mod us_per_second"
      unfolding s_def s'_def by (rule divmod_less) (simp_all add: us_per_second_def rr)
    moreover have "s < s' \<Longrightarrow> s div 3600 < s' div 3600 \<or> s div 3600 = s' div 3600 \<and>
        (s mod 3600 div 60 < s' mod 3600 div 60 \<or>
         s mod 3600 div 60 = s' mod 3600 div 60 \<and> s mod 60 < s' mod 60)"
    proof -
      assume ss: "s < s'"
      have hour: "s div 3600 < s' div 3600 \<or> s div 3600 = s' div 3600 \<and> s mod 3600 < s' mod 3600"
        by (rule divmod_less [OF _ ss]) simp
      have minute: "s mod 3600 < s' mod 3600 \<Longrightarrow> s mod 3600 div 60 < s' mod 3600 div 60 \<or>
          s mod 3600 div 60 = s' mod 3600 div 60 \<and> s mod 60 < s' mod 60"
        using divmod_less [of 60 "s mod 3600" "s' mod 3600"] by (simp add: mod_mod_cancel)
      show ?thesis using hour minute by blast
    qed
    ultimately show ?thesis
      using True by (auto simp: time_fields_def Let_def r_def [symmetric] r'_def [symmetric]
          s_def [symmetric] s'_def [symmetric])
  qed
qed

lemma time_fields_less_iff:
  "0 \<le> t \<Longrightarrow> 0 \<le> t' \<Longrightarrow> time_fields t < time_fields t' \<longleftrightarrow> t < t'"
  using time_fields_strict_mono [of t t'] time_fields_strict_mono [of t' t]
  by (cases t t' rule: linorder_cases) auto

text \<open>
  The order of the stored texts under SQLite's BINARY collation is the order of the instants.
\<close>

lemma isoformat_less_iff:
  "valid_datetime t \<Longrightarrow> valid_datetime t' \<Longrightarrow> isoformat t < isoformat t' \<longleftrightarrow> t < t'"
  by (simp add: isoformat_def fields_text_less time_fields_valid time_fields_less_iff
      valid_datetime_def)

lemma isoformat_inj:
  "valid_datetime t \<Longrightarrow> valid_datetime t' \<Longrightarrow> isoformat t = isoformat t' \<longleftrightarrow> t = t'"
  using isoformat_less_iff [of t t'] isoformat_less_iff [of t' t]
  by (metis linorder_less_linear order_less_irrefl)

end
