(* ===== verification/Huldra_Models.thy ===== *)
theory Huldra_Models
  imports Huldra_Time
begin

text \<open>
  The data model (huldra/models.py, huldra/config.py) and the Python string operations its
  validators use. Enumerations are datatypes with the source's members, pydantic classes are
  records, and the validators are functions from the raw arguments to the list of errors or
  the normalised value. Strings are ASCII character lists.
\<close>

subsection \<open>Python strings\<close>

text \<open>str.isspace on ASCII: tab, newline, vertical tab, form feed, return, FS, GS, RS, US, space.\<close>

definition is_space :: "char \<Rightarrow> bool" where
  "is_space c \<longleftrightarrow> (of_char c :: nat) \<in> {9, 10, 11, 12, 13, 28, 29, 30, 31, 32}"

definition is_digit :: "char \<Rightarrow> bool" where
  "is_digit c \<longleftrightarrow> 48 \<le> (of_char c :: nat) \<and> (of_char c :: nat) \<le> 57"

definition lstrip :: "string \<Rightarrow> string" where
  "lstrip s = dropWhile is_space s"

definition rstrip :: "string \<Rightarrow> string" where
  "rstrip s = rev (dropWhile is_space (rev s))"

definition strip :: "string \<Rightarrow> string" where
  "strip s = rstrip (lstrip s)"

definition lower_char :: "char \<Rightarrow> char" where
  "lower_char c = (let n = (of_char c :: nat) in if 65 \<le> n \<and> n \<le> 90 then char_of (n + 32) else c)"

definition lower :: "string \<Rightarrow> string" where
  "lower s = map lower_char s"

definition startswith :: "string \<Rightarrow> string \<Rightarrow> bool" where
  "startswith s p \<longleftrightarrow> take (length p) s = p"

definition endswith :: "string \<Rightarrow> string \<Rightarrow> bool" where
  "endswith s p \<longleftrightarrow> startswith (rev s) (rev p)"

definition removeprefix :: "string \<Rightarrow> string \<Rightarrow> string" where
  "removeprefix s p = (if startswith s p then drop (length p) s else s)"

text \<open>needle in haystack.\<close>

fun contains :: "string \<Rightarrow> string \<Rightarrow> bool" where
  "contains [] needle = (needle = [])"
| "contains (c # s) needle = (startswith (c # s) needle \<or> contains s needle)"

lemma strip_empty_iff: "strip s = [] \<longleftrightarrow> (\<forall>c\<in>set s. is_space c)"
  by (auto simp: strip_def rstrip_def lstrip_def dropWhile_eq_Nil_conv dest: set_dropWhileD)
    (metis dropWhile_eq_Nil_conv set_dropWhileD hd_dropWhile hd_in_set list.set_sel(1))

lemma lstrip_id: "s = [] \<or> \<not> is_space (hd s) \<Longrightarrow> lstrip s = s"
  by (cases s) (auto simp: lstrip_def)

lemma strip_hd: "strip s \<noteq> [] \<Longrightarrow> \<not> is_space (hd (strip s))"
proof -
  assume ne: "strip s \<noteq> []"
  let ?l = "lstrip s"
  have l: "?l \<noteq> []" using ne by (auto simp: strip_def rstrip_def)
  then have h: "\<not> is_space (hd ?l)" by (simp add: lstrip_def hd_dropWhile)
  obtain t where t: "?l = strip s @ t"
    unfolding strip_def rstrip_def
    by (metis rev_append rev_rev_ident takeWhile_dropWhile_id)
  with ne h show ?thesis by simp
qed

lemma strip_last: "strip s \<noteq> [] \<Longrightarrow> \<not> is_space (last (strip s))"
  by (auto simp: strip_def rstrip_def last_rev hd_dropWhile)

lemma strip_idem [simp]: "strip (strip s) = strip s"
proof (cases "strip s = []")
  case False
  let ?t = "strip s"
  have "lstrip ?t = ?t" using strip_hd [OF False] by (simp add: lstrip_id)
  moreover have "dropWhile is_space (rev ?t) = rev ?t"
    using strip_last [OF False] False by (cases "rev ?t") (auto simp: last_rev dropWhile_eq_self_iff hd_rev)
  ultimately show ?thesis by (simp add: strip_def [of ?t] rstrip_def)
next
  case True
  have "strip [] = []" by (simp add: strip_def lstrip_def rstrip_def)
  then show ?thesis unfolding True .
qed

subsection \<open>Enumerations\<close>

datatype cache_policy = CACHE_ONLY | CACHE_OR_ENQUEUE | WAIT_UNTIL_READY | STALE_WHILE_REVALIDATE
datatype readiness_mode = RAW_COMPLETED | ANALYSIS_READY
datatype request_status = QUEUED | DELAYED | CLAIMED | COMPLETED | FAILED
datatype queue_work_kind = FETCH_MISSING | REFRESH_COMPLETED
datatype coverage_status = SLICE | COMPLETE | PARTIAL | OVERFLOW | UNKNOWN
datatype legacy_sync_mode = MODE_SLICE | MODE_COMPLETE_WINDOW
datatype oai_harvest_mode = INITIAL | INCREMENTAL
datatype sort_by = Relevance | LastUpdatedDate | SubmittedDate
datatype sort_order = Ascending | Descending
datatype api_family = Legacy_search | Oai_pmh
datatype oai_metadata_prefix = ArXiv | ArXivRaw

text \<open>StrEnum values: what str(member) and the TEXT columns hold.\<close>

fun status_value :: "request_status \<Rightarrow> string" where
  "status_value QUEUED = ''queued''"
| "status_value DELAYED = ''delayed''"
| "status_value CLAIMED = ''claimed''"
| "status_value COMPLETED = ''completed''"
| "status_value FAILED = ''failed''"

fun work_kind_value :: "queue_work_kind \<Rightarrow> string" where
  "work_kind_value FETCH_MISSING = ''fetch_missing''"
| "work_kind_value REFRESH_COMPLETED = ''refresh_completed''"

fun coverage_value :: "coverage_status \<Rightarrow> string" where
  "coverage_value SLICE = ''slice''"
| "coverage_value COMPLETE = ''complete''"
| "coverage_value PARTIAL = ''partial''"
| "coverage_value OVERFLOW = ''overflow''"
| "coverage_value UNKNOWN = ''unknown''"

fun sync_mode_value :: "legacy_sync_mode \<Rightarrow> string" where
  "sync_mode_value MODE_SLICE = ''slice''"
| "sync_mode_value MODE_COMPLETE_WINDOW = ''complete_window''"

fun harvest_mode_value :: "oai_harvest_mode \<Rightarrow> string" where
  "harvest_mode_value INITIAL = ''initial''"
| "harvest_mode_value INCREMENTAL = ''incremental''"

fun sort_by_value :: "sort_by \<Rightarrow> string" where
  "sort_by_value Relevance = ''relevance''"
| "sort_by_value LastUpdatedDate = ''lastUpdatedDate''"
| "sort_by_value SubmittedDate = ''submittedDate''"

fun sort_order_value :: "sort_order \<Rightarrow> string" where
  "sort_order_value Ascending = ''ascending''"
| "sort_order_value Descending = ''descending''"

fun api_family_value :: "api_family \<Rightarrow> string" where
  "api_family_value Legacy_search = ''legacy_search''"
| "api_family_value Oai_pmh = ''oai_pmh''"

fun metadata_prefix_value :: "oai_metadata_prefix \<Rightarrow> string" where
  "metadata_prefix_value ArXiv = ''arXiv''"
| "metadata_prefix_value ArXivRaw = ''arXivRaw''"

text \<open>status IN ('queued', 'delayed', 'claimed'): the predicate of the unique index.\<close>

fun pending :: "request_status \<Rightarrow> bool" where
  "pending QUEUED = True"
| "pending DELAYED = True"
| "pending CLAIMED = True"
| "pending COMPLETED = False"
| "pending FAILED = False"

lemma pending_iff: "pending s \<longleftrightarrow> s \<in> {QUEUED, DELAYED, CLAIMED}"
  by (cases s) auto

subsection \<open>JSON values\<close>

datatype json = JNull | JBool bool | JInt int | JNum rat | JStr string
  | JList "json list" | JObj "(string \<times> json) list"

definition jstr :: "string option \<Rightarrow> json" where
  "jstr v = (case v of None \<Rightarrow> JNull | Some s \<Rightarrow> JStr s)"

definition jint :: "int option \<Rightarrow> json" where
  "jint v = (case v of None \<Rightarrow> JNull | Some i \<Rightarrow> JInt i)"

definition jnum :: "rat option \<Rightarrow> json" where
  "jnum v = (case v of None \<Rightarrow> JNull | Some i \<Rightarrow> JNum i)"

text \<open>isoformat_or_none(value) as a payload member.\<close>

definition jtime :: "datetime option \<Rightarrow> json" where
  "jtime v = (case v of None \<Rightarrow> JNull | Some t \<Rightarrow> JStr (isoformat t))"

subsection \<open>ArxivRequest\<close>

record arxiv_request =
  client_id :: string
  search_query :: "string option"
  id_list :: "string list"
  req_sort_by :: sort_by
  req_sort_order :: sort_order
  start :: int
  max_results :: int
  submitted_start :: "datetime option"
  submitted_end :: "datetime option"
  req_cache_policy :: cache_policy
  readiness :: readiness_mode
  req_maturity_lag_days :: "int option"
  priority :: int
  timeout_seconds :: "seconds option"
  refresh_interval_seconds :: int
  req_api_family :: api_family

text \<open>The arguments as received: the submitted bounds are datetimes of any offset.\<close>

record raw_request = arxiv_request +
  raw_start :: "py_datetime option"
  raw_end :: "py_datetime option"

text \<open>Field constraints and field validators, in the order of the fields.\<close>

definition minute_aligned :: "datetime \<Rightarrow> bool" where
  "minute_aligned t \<longleftrightarrow> (case time_fields t of (_, _, _, s, us) \<Rightarrow> s = 0 \<and> us = 0)"

definition bound_ok :: "py_datetime option \<Rightarrow> bool" where
  "bound_ok v = (case v of None \<Rightarrow> True | Some d \<Rightarrow> minute_aligned (ensure_utc d))"

definition field_errors :: "raw_request \<Rightarrow> string list" where
  "field_errors r =
     (if strip (client_id r) = [] then [''client_id cannot be blank''] else []) @
     (if start r < 0 then [''start''] else []) @
     (if max_results r < 1 \<or> max_results r > 2000 then [''max_results''] else []) @
     (if bound_ok (raw_start r) then []
      else [''submitted-date bounds must use UTC minute precision'']) @
     (if bound_ok (raw_end r) then []
      else [''submitted-date bounds must use UTC minute precision'']) @
     (case timeout_seconds r of Some t \<Rightarrow> if t > 0 then [] else [''timeout_seconds''] | None \<Rightarrow> []) @
     (if refresh_interval_seconds r < 60 \<or> refresh_interval_seconds r > 2592000
      then [''refresh_interval_seconds''] else []) @
     (if req_api_family r \<noteq> Legacy_search
      then [''ArxivRequest only supports api_family legacy_search''] else [])"

text \<open>A blank string is falsy: search_query.strip() if search_query else None, then `not query`.\<close>

definition stripped_query :: "string option \<Rightarrow> string option" where
  "stripped_query q = (case q of None \<Rightarrow> None | Some s \<Rightarrow> if s = [] then None else Some (strip s))"

definition truthy :: "string option \<Rightarrow> bool" where
  "truthy q = (case q of None \<Rightarrow> False | Some s \<Rightarrow> s \<noteq> [])"

text \<open>Python's a or b on an optional string: the empty string gives way too.\<close>

definition or_else :: "string option \<Rightarrow> string option \<Rightarrow> string option" where
  "or_else a b = (if truthy a then a else b)"

definition stripped_ids :: "string list \<Rightarrow> string list" where
  "stripped_ids ids = map strip (filter (\<lambda>i. strip i \<noteq> []) ids)"

text \<open>_validate_request_shape: the first failing check, or the normalised request.\<close>

definition validate_shape :: "arxiv_request \<Rightarrow> string + arxiv_request" where
  "validate_shape r =
     (let query = stripped_query (search_query r); ids = stripped_ids (id_list r);
          r' = r\<lparr>search_query := query, id_list := ids\<rparr>
      in if \<not> truthy query \<and> ids = [] then Inl ''search_query or id_list is required''
      else if (submitted_start r = None) \<noteq> (submitted_end r = None)
        then Inl ''submitted_start and submitted_end must be provided together''
      else case (submitted_start r, submitted_end r) of
        (Some s, Some e) \<Rightarrow>
          if s \<ge> e then Inl ''submitted_start must be before submitted_end''
          else if truthy query \<and> contains (lower (the query)) ''submitteddate:''
          then Inl ''do not combine submittedDate in search_query with submitted_start/submitted_end''
          else Inr r'
      | _ \<Rightarrow>
          if ids \<noteq> [] \<and> \<not> truthy query \<and> start r = 0 \<and> req_sort_by r = SubmittedDate \<and>
             req_sort_order r = Descending \<and> max_results r < int (length ids)
          then Inl ''max_results must be at least the number of requested IDs''
          else Inr r')"

definition make_request :: "raw_request \<Rightarrow> string list + arxiv_request" where
  "make_request r =
     (if field_errors r \<noteq> [] then Inl (field_errors r)
      else case validate_shape (arxiv_request.truncate r
             \<lparr>client_id := strip (client_id r),
              submitted_start := map_option ensure_utc (raw_start r),
              submitted_end := map_option ensure_utc (raw_end r)\<rparr>) of
        Inl e \<Rightarrow> Inl [e]
      | Inr q \<Rightarrow> Inr q)"

text \<open>What every constructed request satisfies (and model_copy updates in the code keep).\<close>

definition wf_request :: "arxiv_request \<Rightarrow> bool" where
  "wf_request r \<longleftrightarrow>
     strip (client_id r) = client_id r \<and> client_id r \<noteq> [] \<and> 0 \<le> start r \<and>
     1 \<le> max_results r \<and> max_results r \<le> 2000 \<and>
     (\<forall>t. timeout_seconds r = Some t \<longrightarrow> 0 < t) \<and>
     60 \<le> refresh_interval_seconds r \<and> refresh_interval_seconds r \<le> 2592000 \<and>
     req_api_family r = Legacy_search \<and>
     (truthy (search_query r) \<or> id_list r \<noteq> []) \<and>
     (\<forall>i\<in>set (id_list r). i \<noteq> [] \<and> strip i = i) \<and>
     (submitted_start r = None \<longleftrightarrow> submitted_end r = None) \<and>
     (\<forall>s e. submitted_start r = Some s \<longrightarrow> submitted_end r = Some e \<longrightarrow>
        s < e \<and> minute_aligned s \<and> minute_aligned e)"

lemma stripped_ids_wf: "i \<in> set (stripped_ids ids) \<Longrightarrow> i \<noteq> [] \<and> strip i = i"
  by (auto simp: stripped_ids_def)

lemma validate_shape_Inr:
  assumes "validate_shape r = Inr q"
  shows "q = r\<lparr>search_query := stripped_query (search_query r), id_list := stripped_ids (id_list r)\<rparr>"
    and "truthy (search_query q) \<or> id_list q \<noteq> []"
    and "submitted_start r = None \<longleftrightarrow> submitted_end r = None"
    and "submitted_start r = Some a \<Longrightarrow> submitted_end r = Some b \<Longrightarrow> a < b"
proof -
  note c = assms [unfolded validate_shape_def Let_def]
  show q: "q = r\<lparr>search_query := stripped_query (search_query r), id_list := stripped_ids (id_list r)\<rparr>"
    using c by (auto split: if_splits option.splits)
  show "truthy (search_query q) \<or> id_list q \<noteq> []"
    using c unfolding q by (auto split: if_splits)
  show "submitted_start r = None \<longleftrightarrow> submitted_end r = None"
    using c by (auto split: if_splits)
  show "submitted_start r = Some a \<Longrightarrow> submitted_end r = Some b \<Longrightarrow> a < b"
    using c by (auto split: if_splits)
qed

lemma field_errors_none:
  "field_errors r = [] \<longleftrightarrow>
     strip (client_id r) \<noteq> [] \<and> 0 \<le> start r \<and> 1 \<le> max_results r \<and> max_results r \<le> 2000 \<and>
     bound_ok (raw_start r) \<and> bound_ok (raw_end r) \<and>
     (\<forall>t. timeout_seconds r = Some t \<longrightarrow> 0 < t) \<and>
     60 \<le> refresh_interval_seconds r \<and> refresh_interval_seconds r \<le> 2592000 \<and>
     req_api_family r = Legacy_search"
  by (cases "timeout_seconds r") (simp_all add: field_errors_def not_less)

lemma make_request_wf:
  assumes "make_request r = Inr q"
  shows "wf_request q"
proof -
  define p where "p = arxiv_request.truncate r\<lparr>client_id := strip (client_id r),
      submitted_start := map_option ensure_utc (raw_start r),
      submitted_end := map_option ensure_utc (raw_end r)\<rparr>"
  have fe: "field_errors r = []" and vs: "validate_shape p = Inr q"
    using assms by (auto simp: make_request_def p_def split: if_splits sum.splits)
  note q = validate_shape_Inr [OF vs]
  have sel: "client_id p = strip (client_id r)" "start p = start r" "max_results p = max_results r"
    "timeout_seconds p = timeout_seconds r"
    "refresh_interval_seconds p = refresh_interval_seconds r"
    "req_api_family p = req_api_family r"
    "submitted_start p = map_option ensure_utc (raw_start r)"
    "submitted_end p = map_option ensure_utc (raw_end r)"
    by (simp_all add: p_def arxiv_request.truncate_def)
  have ids: "\<forall>i\<in>set (id_list q). i \<noteq> [] \<and> strip i = i"
    by (simp add: q(1) stripped_ids_wf)
  have bounds: "minute_aligned a" if "submitted_start q = Some a \<or> submitted_end q = Some a" for a
    using that fe by (auto simp: q(1) sel field_errors_none bound_ok_def split: option.splits)
  have "submitted_start q = None \<longleftrightarrow> submitted_end q = None" using q(3) by (simp add: q(1))
  moreover have "a < b" if "submitted_start q = Some a" "submitted_end q = Some b" for a b
    using q(4) [of a b] that by (simp add: q(1))
  ultimately show ?thesis
    using fe q(2) ids bounds unfolding wf_request_def field_errors_none
    by (simp add: q(1) sel)
qed

subsection \<open>Settings (config.py)\<close>

record huldra_settings =
  request_interval_seconds :: seconds
  cooldown_seconds :: int
  rate_limit_backoff_multiplier :: rat
  rate_limit_max_cooldown_seconds :: seconds
  rate_limit_jitter_seconds :: seconds
  request_timeout_seconds :: seconds
  worker_poll_interval_seconds :: seconds
  lease_timeout_seconds :: int
  queue_claim_timeout_seconds :: int
  maturity_lag_days :: int
  legacy_search_window_result_cap :: int
  oai_overlap_seconds :: int
  api_port :: int

definition default_settings :: huldra_settings where
  "default_settings = \<lparr>request_interval_seconds = 5, cooldown_seconds = 3600,
     rate_limit_backoff_multiplier = 2, rate_limit_max_cooldown_seconds = 86400,
     rate_limit_jitter_seconds = 60, request_timeout_seconds = 30,
     worker_poll_interval_seconds = 300, lease_timeout_seconds = 120,
     queue_claim_timeout_seconds = 300, maturity_lag_days = 1,
     legacy_search_window_result_cap = 10000, oai_overlap_seconds = 0, api_port = 8765\<rparr>"

text \<open>The field constraints and validators; the model validator runs once the fields are valid.\<close>

definition settings_errors :: "huldra_settings \<Rightarrow> string list" where
  "settings_errors s =
     (let fields =
       (if request_interval_seconds s < 3 then [''request_interval_seconds must be at least 3.0''] else []) @
       (if cooldown_seconds s \<le> 0 then [''value must be positive''] else []) @
       (if rate_limit_backoff_multiplier s < 1 then [''rate_limit_backoff_multiplier''] else []) @
       (if rate_limit_max_cooldown_seconds s \<le> 0 then [''rate_limit_max_cooldown_seconds''] else []) @
       (if rate_limit_jitter_seconds s < 0 then [''rate_limit_jitter_seconds''] else []) @
       (if worker_poll_interval_seconds s < 1 then [''worker_poll_interval_seconds''] else []) @
       (if lease_timeout_seconds s \<le> 0 then [''value must be positive''] else []) @
       (if legacy_search_window_result_cap s \<le> 0
        then [''legacy_search_window_result_cap must be positive''] else []) @
       (if oai_overlap_seconds s < 0 then [''oai_overlap_seconds cannot be negative''] else []) @
       (if api_port s < 1 \<or> api_port s > 65535 then [''api_port must be between 1 and 65535''] else [])
      in if fields \<noteq> [] then fields
      else if rate_limit_max_cooldown_seconds s
                < max (of_int (cooldown_seconds s)) (request_interval_seconds s)
      then [''rate_limit_max_cooldown_seconds must be at least the max cooldown safety floor'']
      else [])"

definition valid_settings :: "huldra_settings \<Rightarrow> bool" where
  "valid_settings s \<longleftrightarrow> settings_errors s = []"

lemma field_errors_Nil: "(if xs \<noteq> [] then xs else if b then [e] else []) = [] \<Longrightarrow> xs = [] \<and> \<not> b"
  by (simp split: if_split_asm)

lemma valid_settingsD:
  assumes "valid_settings s"
  shows "3 \<le> request_interval_seconds s" "0 < cooldown_seconds s"
    "1 \<le> rate_limit_backoff_multiplier s" "0 < rate_limit_max_cooldown_seconds s"
    "0 \<le> rate_limit_jitter_seconds s" "1 \<le> worker_poll_interval_seconds s"
    "0 < lease_timeout_seconds s" "0 < legacy_search_window_result_cap s"
    "0 \<le> oai_overlap_seconds s"
    "of_int (cooldown_seconds s) \<le> rate_limit_max_cooldown_seconds s"
    "request_interval_seconds s \<le> rate_limit_max_cooldown_seconds s"
proof -
  have nil: "(if b then [e] else []) = [] \<longleftrightarrow> \<not> b" for b and e :: string by simp
  have "settings_errors s = []" using assms by (simp add: valid_settings_def)
  note e = this [unfolded settings_errors_def Let_def]
  note f = this [THEN field_errors_Nil, unfolded append_is_Nil_conv nil not_le not_less max.bounded_iff de_Morgan_disj]
  then show "3 \<le> request_interval_seconds s" "0 < cooldown_seconds s"
    "1 \<le> rate_limit_backoff_multiplier s" "0 < rate_limit_max_cooldown_seconds s"
    "0 \<le> rate_limit_jitter_seconds s" "1 \<le> worker_poll_interval_seconds s"
    "0 < lease_timeout_seconds s" "0 < legacy_search_window_result_cap s"
    "0 \<le> oai_overlap_seconds s"
    "of_int (cooldown_seconds s) \<le> rate_limit_max_cooldown_seconds s"
    "request_interval_seconds s \<le> rate_limit_max_cooldown_seconds s"
    by blast+
qed

lemma default_settings_valid: "valid_settings default_settings"
  by (simp add: valid_settings_def settings_errors_def default_settings_def)

subsection \<open>OAI harvest requests\<close>

record oai_request =
  o_client_id :: string
  o_metadata_prefix :: oai_metadata_prefix
  o_set_spec :: "string option"
  o_from :: "string option"
  o_until :: "string option"
  o_token :: "string option"
  o_mode :: oai_harvest_mode
  o_cache_policy :: cache_policy
  o_priority :: int
  o_timeout_seconds :: "seconds option"
  o_max_pages :: int
  o_max_requests :: int
  o_runtime_budget_seconds :: seconds

text \<open>The field constraints, then the normalising validators.\<close>

definition oai_request_errors :: "oai_request \<Rightarrow> string list" where
  "oai_request_errors r =
     (if strip (o_client_id r) = [] then [''client_id cannot be blank''] else []) @
     (case o_timeout_seconds r of None \<Rightarrow> [] | Some t \<Rightarrow> if t \<le> 0 then [''timeout_seconds''] else []) @
     (if o_max_pages r < 1 \<or> o_max_pages r > 100000 then [''max_pages''] else []) @
     (if o_max_requests r < 1 \<or> o_max_requests r > 100000 then [''max_requests''] else []) @
     (if o_runtime_budget_seconds r \<le> 0 \<or> o_runtime_budget_seconds r > 604800 then [''runtime_budget_seconds''] else [])"

text \<open>value.strip() or None.\<close>

definition optional_text :: "string option \<Rightarrow> string option" where
  "optional_text v = (case v of None \<Rightarrow> None | Some s \<Rightarrow> if strip s = [] then None else Some (strip s))"

definition make_oai_request :: "oai_request \<Rightarrow> string list + oai_request" where
  "make_oai_request r =
     (if oai_request_errors r \<noteq> [] then Inl (oai_request_errors r)
      else Inr (r\<lparr>o_client_id := strip (o_client_id r), o_set_spec := optional_text (o_set_spec r),
                  o_from := optional_text (o_from r), o_until := optional_text (o_until r),
                  o_token := optional_text (o_token r)\<rparr>))"

lemma optional_text_idem [simp]: "optional_text (optional_text v) = optional_text v"
  by (auto simp: optional_text_def split: option.splits)

text \<open>A request that came out of validation is kept by validating it again (its JSON reads back).\<close>

lemma oai_errors_validated:
  "oai_request_errors (r\<lparr>o_client_id := strip (o_client_id r), o_set_spec := a, o_from := b, o_until := c, o_token := d\<rparr>)
   = oai_request_errors r"
  by (simp add: oai_request_errors_def)

lemma make_oai_request_idem: "make_oai_request r = Inr q \<Longrightarrow> make_oai_request q = Inr q"
  by (auto simp: make_oai_request_def oai_errors_validated split: if_split_asm)

end
