(* ===== verification/Huldra_Keys.thy ===== *)
theory Huldra_Keys
  imports Huldra_Models
begin

text \<open>
  Identities (huldra/keys.py): normalised arXiv ids and their version families, the request
  fingerprint and the cache key, and the parameters sent to the arXiv API. sha256 of the
  standard library is the argument hash; its only use is that equal texts have equal digests,
  and, where a lemma says so, that different texts have different digests.
\<close>

subsection \<open>urllib.parse.urlparse, as far as the code uses it\<close>

text \<open>str.partition at the first character satisfying P: the text before, and from it on.\<close>

definition scheme_char :: "char \<Rightarrow> bool" where
  "scheme_char c \<longleftrightarrow> is_digit c \<or> c \<in> set ''+-.'' \<or>
     (let n = (of_char (lower_char c) :: nat) in 97 \<le> n \<and> n \<le> 122)"

definition is_alpha :: "char \<Rightarrow> bool" where
  "is_alpha c \<longleftrightarrow> (let n = (of_char (lower_char c) :: nat) in 97 \<le> n \<and> n \<le> 122)"

definition before :: "char set \<Rightarrow> string \<Rightarrow> string" where
  "before cs s = takeWhile (\<lambda>c. c \<notin> cs) s"

definition from_char :: "char set \<Rightarrow> string \<Rightarrow> string" where
  "from_char cs s = dropWhile (\<lambda>c. c \<notin> cs) s"

record url_parts =
  url_scheme :: string
  url_netloc :: string
  url_path :: string
  url_fragment :: string

definition split_scheme :: "string \<Rightarrow> string \<times> string" where
  "split_scheme u =
     (let p = before {CHR '':''} u
      in if from_char {CHR '':''} u \<noteq> [] \<and> p \<noteq> [] \<and> is_alpha (hd p) \<and> (\<forall>c\<in>set p. scheme_char c)
         then (lower p, tl (from_char {CHR '':''} u)) else ([], u))"

text \<open>urlparse moves a ;params suffix of the last path segment out of the path.\<close>

definition uses_params :: "string \<Rightarrow> bool" where
  "uses_params scheme \<longleftrightarrow> scheme \<in> {[], ''ftp'', ''hdl'', ''prospero'', ''http'', ''imap'', ''https'',
     ''shttp'', ''rtsp'', ''rtsps'', ''rtspu'', ''sip'', ''sips'', ''mms'', ''sftp'', ''tel''}"

definition strip_params :: "string \<Rightarrow> string" where
  "strip_params path =
     (let seg = rev (takeWhile (\<lambda>c. c \<noteq> CHR ''/'') (rev path));
          dir = take (length path - length seg) path
      in dir @ before {CHR '';''} seg)"

definition urlparse :: "string \<Rightarrow> url_parts" where
  "urlparse url =
     (let u0 = filter (\<lambda>c. (of_char c :: nat) \<notin> {9, 10, 13})
                 (dropWhile (\<lambda>c. (of_char c :: nat) \<le> 32) url);
          (scheme, rest) = split_scheme u0;
          has_net = startswith rest ''//'';
          net = (if has_net then before {CHR ''/'', CHR ''?'', CHR ''#''} (drop 2 rest) else []);
          tail = (if has_net then from_char {CHR ''/'', CHR ''?'', CHR ''#''} (drop 2 rest) else rest);
          path = before {CHR ''?''} (before {CHR ''#''} tail);
          frag = drop 1 (from_char {CHR ''#''} tail)
      in \<lparr>url_scheme = scheme, url_netloc = net,
          url_path = (if uses_params scheme \<and> CHR '';'' \<in> set path then strip_params path else path),
          url_fragment = frag\<rparr>)"

subsection \<open>arXiv ids\<close>

text \<open>
  The regular expression v(\d+)$ of _VERSION_RE: `$` also matches before a trailing newline.
  The result is the text before the match and the digits.
\<close>

definition chomp :: "string \<Rightarrow> string \<times> string" where
  "chomp s = (if s \<noteq> [] \<and> last s = char_of (10::nat) then (butlast s, [char_of (10::nat)]) else (s, []))"

definition version_match :: "string \<Rightarrow> (string \<times> string) option" where
  "version_match s =
     (let digits = takeWhile is_digit (rev s); rest = dropWhile is_digit (rev s)
      in if digits \<noteq> [] \<and> rest \<noteq> [] \<and> hd rest = CHR ''v'' then Some (rev (tl rest), rev digits) else None)"

definition digits_value :: "string \<Rightarrow> int" where
  "digits_value ds = foldl (\<lambda>n c. 10 * n + (int (of_char c) - 48)) 0 ds"

definition arxiv_version :: "string \<Rightarrow> int option" where
  "arxiv_version value = map_option (\<lambda>(_, ds). digits_value ds) (version_match (fst (chomp value)))"

text \<open>re.sub of ^arxiv:\s* ignoring case.\<close>

definition drop_arxiv_prefix :: "string \<Rightarrow> string" where
  "drop_arxiv_prefix s = (if startswith (lower s) ''arxiv:'' then lstrip (drop 6 s) else s)"

definition normalize_arxiv_id :: "string \<Rightarrow> string" where
  "normalize_arxiv_id value =
     (let raw = strip value; parsed = urlparse raw;
          raw = (if url_scheme parsed \<noteq> [] \<and> url_netloc parsed \<noteq> []
                 then dropWhile (\<lambda>c. c = CHR ''/'') (url_path parsed) else raw);
          raw = strip (drop_arxiv_prefix raw);
          raw = removeprefix (removeprefix raw ''abs/'') ''/abs/'';
          raw = removeprefix (removeprefix raw ''pdf/'') ''/pdf/'';
          raw = removeprefix (removeprefix raw ''e-print/'') ''/e-print/'';
          raw = (if endswith raw ''.pdf'' then take (length raw - 4) raw else raw)
      in strip raw)"

text \<open>_VERSION_RE.sub('', ..) keeps what follows the match, a trailing newline at most.\<close>

definition strip_version :: "string \<Rightarrow> string" where
  "strip_version s = (case chomp s of (body, nl) \<Rightarrow>
     case version_match body of None \<Rightarrow> s | Some (base, _) \<Rightarrow> base @ nl)"

definition arxiv_id_family_base :: "string \<Rightarrow> string" where
  "arxiv_id_family_base value = strip_version (normalize_arxiv_id value)"

lemma normalize_arxiv_id_examples:
  "normalize_arxiv_id ''https://arxiv.org/abs/2401.00001v2'' = ''2401.00001v2''"
  "normalize_arxiv_id '' arXiv: 2401.00001 '' = ''2401.00001''"
  "normalize_arxiv_id ''http://arxiv.org/pdf/2401.00001v1.pdf'' = ''2401.00001v1''"
  "normalize_arxiv_id ''hep-th/9901001v3'' = ''hep-th/9901001v3''"
  "arxiv_id_family_base ''arXiv:2401.00001v12'' = ''2401.00001''"
  "arxiv_version ''2401.00001v12'' = Some 12" "arxiv_version ''2401.00001'' = None"
  by code_simp+

text \<open>An id is its family base followed by the version, when it has one.\<close>

lemma version_match_Some:
  assumes "version_match s = Some (base, ds)"
  shows "s = base @ CHR ''v'' # ds \<and> ds \<noteq> [] \<and> (\<forall>c\<in>set ds. is_digit c)"
proof -
  define digits where "digits = takeWhile is_digit (rev s)"
  define rest where "rest = dropWhile is_digit (rev s)"
  have c: "digits \<noteq> []" "rest \<noteq> []" "hd rest = CHR ''v''" "base = rev (tl rest)" "ds = rev digits"
    using assms by (auto simp: version_match_def Let_def digits_def rest_def split: if_splits)
  have "rev s = digits @ rest" by (simp add: digits_def rest_def)
  then have "s = rev rest @ rev digits" by (metis rev_append rev_rev_ident)
  moreover have "rev rest = rev (tl rest) @ [CHR ''v'']"
    using c by (metis list.collapse rev.simps(2))
  ultimately show ?thesis using c by (auto simp: digits_def dest: set_takeWhileD)
qed

lemma version_match_v:
  assumes "ds \<noteq> []" "\<forall>c\<in>set ds. is_digit c"
  shows "version_match (base @ CHR ''v'' # ds) = Some (base, ds)"
proof -
  have v: "\<not> is_digit (CHR ''v'')" by (simp add: is_digit_def)
  have "takeWhile is_digit (rev ds @ CHR ''v'' # rev base) = rev ds"
    "dropWhile is_digit (rev ds @ CHR ''v'' # rev base) = CHR ''v'' # rev base"
    using assms v by (auto simp: takeWhile_append dropWhile_append)
  then show ?thesis using assms by (simp add: version_match_def)
qed

subsection \<open>Cache keys\<close>

text \<open>_WHITESPACE_RE.sub(' ', s): every maximal run of whitespace becomes one space.\<close>

fun collapse_spaces :: "string \<Rightarrow> string" where
  "collapse_spaces [] = []"
| "collapse_spaces (c # s) =
     (if is_space c
      then (case collapse_spaces s of
              [] \<Rightarrow> [CHR '' '']
            | d # t \<Rightarrow> if s \<noteq> [] \<and> is_space (hd s) then d # t else CHR '' '' # d # t)
      else c # collapse_spaces s)"

definition normalize_search_query :: "string option \<Rightarrow> string option" where
  "normalize_search_query v = (case v of None \<Rightarrow> None | Some s \<Rightarrow>
     (let n = collapse_spaces (strip s) in if n = [] then None else Some n))"

definition NORMALIZATION_VERSION :: int where "NORMALIZATION_VERSION = 1"

fun nat_text :: "nat \<Rightarrow> string" where
  "nat_text n = (if n < 10 then [digit (int n)] else nat_text (n div 10) @ [digit (int (n mod 10))])"

declare nat_text.simps [simp del]

definition int_text :: "int \<Rightarrow> string" where
  "int_text i = (if i < 0 then CHR ''-'' # nat_text (nat (- i)) else nat_text (nat i))"

definition request_fingerprint_payload :: "arxiv_request \<Rightarrow> (string \<times> json) list" where
  "request_fingerprint_payload r =
     [(''normalization_version'', JInt NORMALIZATION_VERSION),
      (''api_family'', JStr (api_family_value (req_api_family r))),
      (''search_query'', jstr (normalize_search_query (search_query r))),
      (''id_list'', JList (map (JStr \<circ> normalize_arxiv_id) (id_list r))),
      (''sort_by'', JStr (sort_by_value (req_sort_by r))),
      (''sort_order'', JStr (sort_order_value (req_sort_order r))),
      (''start'', JInt (start r)),
      (''max_results'', JInt (max_results r)),
      (''submitted_start'', jtime (submitted_start r)),
      (''submitted_end'', jtime (submitted_end r))]"

text \<open>json.dumps(payload, sort_keys=True, separators=(',', ':')), with ensure_ascii escapes.\<close>

definition hex_digit :: "nat \<Rightarrow> char" where
  "hex_digit n = ''0123456789abcdef'' ! (n mod 16)"

definition json_escape :: "char \<Rightarrow> string" where
  "json_escape c =
     (let n = (of_char c :: nat)
      in if n = 34 then [CHR 0x5C, c] else if n = 92 then [c, c]
      else if n = 10 then [CHR 0x5C, CHR ''n''] else if n = 13 then [CHR 0x5C, CHR ''r'']
      else if n = 9 then [CHR 0x5C, CHR ''t''] else if n = 12 then [CHR 0x5C, CHR ''f'']
      else if n = 8 then [CHR 0x5C, CHR ''b'']
      else if n < 32 \<or> n > 126 \<and> n \<noteq> 127 then CHR 0x5C # ''u00'' @ [hex_digit (n div 16), hex_digit n]
      else [c])"

definition json_string :: "string \<Rightarrow> string" where
  "json_string s = CHR 0x22 # concat (map json_escape s) @ [CHR 0x22]"

fun join :: "string \<Rightarrow> string list \<Rightarrow> string" where
  "join sep [] = []"
| "join sep [x] = x"
| "join sep (x # y # ys) = x @ sep @ join sep (y # ys)"

text \<open>The values a fingerprint holds: null, text, integer and list of texts.\<close>

fun json_text :: "json \<Rightarrow> string" where
  "json_text JNull = ''null''"
| "json_text (JBool b) = (if b then ''true'' else ''false'')"
| "json_text (JInt i) = int_text i"
| "json_text (JNum q) = []"
| "json_text (JStr s) = json_string s"
| "json_text (JList xs) = ''['' @ join '','' (map json_text xs) @ '']''"
| "json_text (JObj kvs) = ''{'' @ join '',''
     (map (\<lambda>kv. json_string (fst kv) @ '':'' @ json_text (snd kv)) (sort_key fst kvs)) @ ''}''"

definition request_cache_key :: "(string \<Rightarrow> string) \<Rightarrow> arxiv_request \<Rightarrow> string" where
  "request_cache_key hash r =
     ''huldra:v'' @ int_text NORMALIZATION_VERSION @ '':'' @
     hash (json_text (JObj (request_fingerprint_payload r)))"

text \<open>
  Who asks, how urgently and under which readiness policy is not part of the identity of the
  work: requests that differ only there share one cache entry and one queue item.
\<close>

lemma cache_key_ignores_scheduling:
  "request_cache_key hash (r\<lparr>client_id := c, req_cache_policy := p, readiness := m,
     req_maturity_lag_days := d, priority := q, timeout_seconds := t,
     refresh_interval_seconds := i\<rparr>) = request_cache_key hash r"
  by (simp add: request_cache_key_def request_fingerprint_payload_def)

subsection \<open>API parameters\<close>

definition build_arxiv_api_params :: "arxiv_request \<Rightarrow> (string \<times> string) list" where
  "build_arxiv_api_params r =
     (let query0 = normalize_search_query (search_query r);
          query = (case (submitted_start r, submitted_end r) of
              (Some s, Some e) \<Rightarrow>
                (let date_filter = ''submittedDate:['' @ minute_text s @ '' TO '' @
                       minute_text (e - us_per_second) @ '']''
                 in case query0 of Some q \<Rightarrow> Some (''('' @ q @ '') AND '' @ date_filter)
                    | None \<Rightarrow> Some date_filter)
            | _ \<Rightarrow> query0)
      in [(''start'', int_text (start r)), (''max_results'', int_text (max_results r)),
          (''sortBy'', sort_by_value (req_sort_by r)), (''sortOrder'', sort_order_value (req_sort_order r))] @
         (case query of Some q \<Rightarrow> [(''search_query'', q)] | None \<Rightarrow> []) @
         (if id_list r \<noteq> []
          then [(''id_list'', join '','' (map normalize_arxiv_id (id_list r)))] else []))"

subsection \<open>Pure id-list requests (worker.py and broker.py define the same test)\<close>

definition is_pure_id_list_request :: "arxiv_request \<Rightarrow> bool" where
  "is_pure_id_list_request r \<longleftrightarrow>
     id_list r \<noteq> [] \<and> search_query r = None \<and> submitted_start r = None \<and> submitted_end r = None \<and>
     start r = 0 \<and> req_sort_by r = SubmittedDate \<and> req_sort_order r = Descending \<and>
     max_results r \<ge> int (length (id_list r))"

end
