(* ===== verification/Huldra_Store.thy ===== *)
theory Huldra_Store
  imports Huldra_Keys
begin

text \<open>
  The durable state (huldra/migrations.py creates the tables, HuldraStore in huldra/db.py
  reads and writes them). A table is the list of its rows in rowid order; a TEXT timestamp
  column holds the instant (see isoformat_less_iff), an _json column the value it encodes.
  One operation of the store is one transaction: BEGIN IMMEDIATE serialises writers, so an
  operation is a function from the database to its result and the new database.
\<close>

subsection \<open>Rows\<close>

record arxiv_paper =
  p_arxiv_id :: string
  p_version :: "int option"
  p_canonical_url :: string
  p_title :: string
  p_abstract :: "string option"
  p_authors :: "string list"
  p_primary_category :: "string option"
  p_categories :: "string list"
  p_published_at :: "datetime option"
  p_updated_at :: "datetime option"
  p_comment :: "string option"
  p_journal_ref :: "string option"
  p_doi :: "string option"
  p_raw_atom :: json
  p_authors_detail :: "json list"
  p_license :: "string option"
  p_oai_identifier :: "string option"
  p_oai_datestamp :: "datetime option"
  p_oai_set_specs :: "string list"
  p_links :: "json list"
  p_versions :: "json list"
  p_withdrawn :: bool
  p_deleted :: bool
  p_raw_metadata :: json

record paper_row =
  pr_paper :: arxiv_paper
  pr_first_seen_at :: datetime
  pr_last_seen_at :: datetime

abbreviation pr_id :: "paper_row \<Rightarrow> string" where "pr_id r \<equiv> p_arxiv_id (pr_paper r)"

record cache_entry =
  c_cache_key :: string
  c_request :: arxiv_request
  c_api_family :: api_family
  c_status :: string
  c_requested_at :: "datetime option"
  c_completed_at :: "datetime option"
  c_refresh_after :: "datetime option"
  c_cooldown_until :: "datetime option"
  c_upstream_status :: "int option"
  c_upstream_requests_total :: int
  c_result_count :: int
  c_total_results :: "int option"
  c_coverage_status :: coverage_status
  c_error_category :: "string option"
  c_error_message :: "string option"

record match_row =
  m_cache_key :: string
  m_arxiv_id :: string
  m_sort_position :: int
  m_matched_at :: datetime

record queue_row =
  q_request_id :: string
  q_cache_key :: string
  q_client_id :: string
  q_request :: arxiv_request
  q_priority :: int
  q_status :: request_status
  q_work_kind :: queue_work_kind
  q_upstream_budget_id :: "string option"
  q_gate_closed :: bool
  q_unbudgeted_demand :: bool
  q_created_at :: datetime
  q_updated_at :: datetime
  q_claimed_by :: "string option"
  q_claimed_until :: "datetime option"
  q_attempts_total :: int
  q_next_attempt_at :: "datetime option"
  q_completed_at :: "datetime option"
  q_error_category :: "string option"
  q_error_message :: "string option"

record budget_row =
  b_budget_id :: string
  b_max_requests :: int
  b_requests_started :: int
  b_deadline_at :: "datetime option"
  b_created_at :: datetime
  b_updated_at :: datetime

record membership_row =
  bm_request_id :: string
  bm_budget_id :: string
  bm_created_at :: datetime
  bm_first_attempt_number :: int
  bm_last_charged_attempt :: int

record rate_state =
  rs_name :: string
  rs_last_request_at :: "datetime option"
  rs_cooldown_until :: "datetime option"
  rs_consecutive_429_total :: int
  rs_upstream_429_total :: int
  rs_consecutive_rate_limit_total :: int
  rs_upstream_rate_limited_total :: int
  rs_upstream_oai_503_retry_after_total :: int
  rs_last_status :: "int option"
  rs_last_error_message :: "string option"
  rs_last_request_started_at :: "datetime option"
  rs_last_rate_wait_seconds :: "seconds option"
  rs_last_request_latency_ms :: "rat option"
  rs_last_retry_after_seconds :: "int option"
  rs_last_effective_cooldown_seconds :: "seconds option"
  rs_last_rate_limit_kind :: "string option"
  rs_last_api_family :: "string option"

record lease_row =
  l_name :: string
  l_owner_token :: string
  l_acquired_at :: datetime
  l_expires_at :: datetime

record reservation_row =
  v_arxiv_id :: string
  v_owner_token :: string
  v_request_id :: string
  v_acquired_at :: datetime
  v_expires_at :: datetime

record worker_row =
  w_name :: string
  w_last_started_at :: "datetime option"
  w_last_heartbeat_at :: "datetime option"
  w_last_completed_at :: "datetime option"
  w_next_wake_at :: "datetime option"
  w_last_error_category :: "string option"
  w_last_error_message :: "string option"

record event_row =
  e_id :: nat
  e_event_type :: string
  e_payload :: "(string \<times> json) list"
  e_created_at :: datetime

record sync_job_row =
  sj_sync_job_id :: string
  sj_mode :: legacy_sync_mode
  sj_request :: arxiv_request
  sj_status :: string
  sj_upstream_budget_id :: "string option"
  sj_coverage_status :: coverage_status
  sj_result_count :: int
  sj_total_results :: "int option"
  sj_pages_total :: int
  sj_pages_completed_total :: int
  sj_error_category :: "string option"
  sj_error_message :: "string option"
  sj_created_at :: datetime
  sj_updated_at :: datetime
  sj_completed_at :: "datetime option"

record sync_page_row =
  sp_sync_job_id :: string
  sp_cache_key :: string
  sp_request :: arxiv_request
  sp_start :: int
  sp_max_results :: int
  sp_status :: string
  sp_result_count :: int
  sp_total_results :: "int option"
  sp_attempt_diagnostics :: "(string \<times> json) list"
  sp_created_at :: datetime
  sp_updated_at :: datetime

record oai_record =
  or_oai_identifier :: string
  or_arxiv_id :: "string option"
  or_metadata_prefix :: oai_metadata_prefix
  or_datestamp :: "datetime option"
  or_set_specs :: "string list"
  or_deleted :: bool
  or_paper :: "arxiv_paper option"
  or_raw_xml :: "string option"

record oai_job_row =
  h_harvest_id :: string
  h_request :: oai_request
  h_status :: string
  h_metadata_prefix :: oai_metadata_prefix
  h_set_spec :: "string option"
  h_mode :: oai_harvest_mode
  h_records_processed :: int
  h_papers_upserted :: int
  h_deleted_records :: int
  h_pages_total :: int
  h_requests_total :: int
  h_current_watermark :: "string option"
  h_token :: "string option"
  h_last_response_date :: "string option"
  h_last_datestamp_seen :: "string option"
  h_deadline_at :: "datetime option"
  h_finished_paging :: bool
  h_error_category :: "string option"
  h_error_message :: "string option"
  h_started_at :: datetime
  h_updated_at :: datetime
  h_completed_at :: "datetime option"

record oai_page_row =
  op_harvest_id :: string
  op_page_index :: int
  op_request_params :: "(string \<times> string) list"
  op_token_hash :: "string option"
  op_status :: string
  op_response_date :: "string option"
  op_records_count :: int
  op_next_token_hash :: "string option"
  op_error_category :: "string option"
  op_error_message :: "string option"
  op_created_at :: datetime

record oai_record_row =
  rr_oai_identifier :: string
  rr_metadata_prefix :: oai_metadata_prefix
  rr_arxiv_id :: "string option"
  rr_datestamp :: "datetime option"
  rr_deleted :: bool
  rr_set_specs :: "string list"
  rr_raw_xml :: "string option"
  rr_first_seen_at :: datetime
  rr_last_seen_at :: datetime

record oai_watermark_row =
  wm_metadata_prefix :: oai_metadata_prefix
  wm_set_spec :: string
  wm_last_response_date :: "string option"
  wm_last_datestamp_seen :: "string option"
  wm_last_harvest_id :: "string option"
  wm_updated_at :: datetime

text \<open>
  The database. Events have AUTOINCREMENT ids, event_seq is the next one; event_clock gives the
  clock reading each event insert takes, by id, so that the time of an event is any reading.
\<close>

record db =
  papers :: "paper_row list"
  cache_entries :: "cache_entry list"
  cache_matches :: "match_row list"
  queue_items :: "queue_row list"
  budgets :: "budget_row list"
  memberships :: "membership_row list"
  rate_states :: "rate_state list"
  leases :: "lease_row list"
  reservations :: "reservation_row list"
  worker_states :: "worker_row list"
  sync_jobs :: "sync_job_row list"
  sync_pages :: "sync_page_row list"
  oai_jobs :: "oai_job_row list"
  oai_pages :: "oai_page_row list"
  oai_records :: "oai_record_row list"
  oai_watermarks :: "oai_watermark_row list"
  events :: "event_row list"
  event_seq :: nat
  event_clock :: "nat \<Rightarrow> datetime"

definition empty_db :: "(nat \<Rightarrow> datetime) \<Rightarrow> db" where
  "empty_db clock = \<lparr>papers = [], cache_entries = [], cache_matches = [], queue_items = [],
     budgets = [], memberships = [], rate_states = [], leases = [], reservations = [],
     worker_states = [], sync_jobs = [], sync_pages = [], oai_jobs = [], oai_pages = [],
     oai_records = [], oai_watermarks = [], events = [], event_seq = 1,
     event_clock = clock\<rparr>"

datatype store_error = IntegrityError string | ValueError string | RuntimeError string

text \<open>error_message[:1000] if error_message else None.\<close>

definition clip_message :: "string option \<Rightarrow> string option" where
  "clip_message m = (case m of None \<Rightarrow> None | Some s \<Rightarrow> if s = [] then None else Some (take 1000 s))"

subsection \<open>Events\<close>

definition record_event :: "string \<Rightarrow> (string \<times> json) list \<Rightarrow> db \<Rightarrow> db" where
  "record_event event_type payload d =
     d\<lparr>events := events d @ [\<lparr>e_id = event_seq d, e_event_type = event_type, e_payload = payload,
          e_created_at = event_clock d (event_seq d)\<rparr>],
       event_seq := Suc (event_seq d)\<rparr>"

lemma record_event_simps [simp]:
  "papers (record_event t p d) = papers d"
  "cache_entries (record_event t p d) = cache_entries d"
  "cache_matches (record_event t p d) = cache_matches d"
  "queue_items (record_event t p d) = queue_items d"
  "budgets (record_event t p d) = budgets d"
  "memberships (record_event t p d) = memberships d"
  "rate_states (record_event t p d) = rate_states d"
  "leases (record_event t p d) = leases d"
  "reservations (record_event t p d) = reservations d"
  "worker_states (record_event t p d) = worker_states d"
  "sync_jobs (record_event t p d) = sync_jobs d"
  "sync_pages (record_event t p d) = sync_pages d"
  "oai_jobs (record_event t p d) = oai_jobs d"
  "oai_pages (record_event t p d) = oai_pages d"
  "oai_records (record_event t p d) = oai_records d"
  "oai_watermarks (record_event t p d) = oai_watermarks d"
  by (simp_all add: record_event_def)

subsection \<open>Worker state\<close>

definition record_worker_started :: "string \<Rightarrow> datetime \<Rightarrow> db \<Rightarrow> db" where
  "record_worker_started name now d =
     d\<lparr>worker_states := tbl_upsert w_name
        \<lparr>w_name = name, w_last_started_at = Some now, w_last_heartbeat_at = Some now,
         w_last_completed_at = None, w_next_wake_at = None, w_last_error_category = None,
         w_last_error_message = None\<rparr>
        (\<lambda>r. r\<lparr>w_last_started_at := Some now, w_last_heartbeat_at := Some now\<rparr>)
        (worker_states d)\<rparr>"

definition record_worker_heartbeat ::
  "string \<Rightarrow> datetime option \<Rightarrow> string option \<Rightarrow> string option \<Rightarrow> datetime \<Rightarrow> db \<Rightarrow> db" where
  "record_worker_heartbeat name next_wake category msg now d =
     d\<lparr>worker_states := tbl_upsert w_name
        \<lparr>w_name = name, w_last_started_at = Some now, w_last_heartbeat_at = Some now,
         w_last_completed_at = None, w_next_wake_at = next_wake,
         w_last_error_category = category, w_last_error_message = clip_message msg\<rparr>
        (\<lambda>r. r\<lparr>w_last_heartbeat_at := Some now, w_next_wake_at := next_wake,
               w_last_error_category := category, w_last_error_message := clip_message msg\<rparr>)
        (worker_states d)\<rparr>"

definition record_worker_completed ::
  "string \<Rightarrow> datetime option \<Rightarrow> string option \<Rightarrow> string option \<Rightarrow> datetime \<Rightarrow> db \<Rightarrow> db" where
  "record_worker_completed name next_wake category msg now d =
     d\<lparr>worker_states := tbl_upsert w_name
        \<lparr>w_name = name, w_last_started_at = None, w_last_heartbeat_at = Some now,
         w_last_completed_at = Some now, w_next_wake_at = next_wake,
         w_last_error_category = category, w_last_error_message = clip_message msg\<rparr>
        (\<lambda>r. r\<lparr>w_last_completed_at := Some now, w_last_heartbeat_at := Some now,
               w_next_wake_at := next_wake, w_last_error_category := category,
               w_last_error_message := clip_message msg\<rparr>)
        (worker_states d)\<rparr>"

lemma worker_ops_simps [simp]:
  "papers (record_worker_started n t d) = papers d"
  "cache_entries (record_worker_started n t d) = cache_entries d"
  "cache_matches (record_worker_started n t d) = cache_matches d"
  "queue_items (record_worker_started n t d) = queue_items d"
  "budgets (record_worker_started n t d) = budgets d"
  "memberships (record_worker_started n t d) = memberships d"
  "rate_states (record_worker_started n t d) = rate_states d"
  "leases (record_worker_started n t d) = leases d"
  "reservations (record_worker_started n t d) = reservations d"
  "papers (record_worker_completed n w c m t d) = papers d"
  "cache_entries (record_worker_completed n w c m t d) = cache_entries d"
  "cache_matches (record_worker_completed n w c m t d) = cache_matches d"
  "queue_items (record_worker_completed n w c m t d) = queue_items d"
  "budgets (record_worker_completed n w c m t d) = budgets d"
  "memberships (record_worker_completed n w c m t d) = memberships d"
  "rate_states (record_worker_completed n w c m t d) = rate_states d"
  "leases (record_worker_completed n w c m t d) = leases d"
  "reservations (record_worker_completed n w c m t d) = reservations d"
  by (simp_all add: record_worker_started_def record_worker_completed_def)

subsection \<open>Queue items as the code hands them out\<close>

record queue_item =
  i_request_id :: string
  i_cache_key :: string
  i_client_id :: string
  i_request :: arxiv_request
  i_priority :: int
  i_status :: request_status
  i_work_kind :: queue_work_kind
  i_upstream_budget_id :: "string option"
  i_created_at :: datetime
  i_updated_at :: datetime
  i_claimed_by :: "string option"
  i_claimed_until :: "datetime option"
  i_attempts_total :: int
  i_next_attempt_at :: "datetime option"
  i_completed_at :: "datetime option"
  i_error_category :: "string option"
  i_error_message :: "string option"

definition queue_item_from_row :: "queue_row \<Rightarrow> queue_item" where
  "queue_item_from_row r = \<lparr>i_request_id = q_request_id r, i_cache_key = q_cache_key r,
     i_client_id = q_client_id r, i_request = q_request r, i_priority = q_priority r,
     i_status = q_status r, i_work_kind = q_work_kind r,
     i_upstream_budget_id = q_upstream_budget_id r, i_created_at = q_created_at r,
     i_updated_at = q_updated_at r, i_claimed_by = q_claimed_by r,
     i_claimed_until = q_claimed_until r, i_attempts_total = q_attempts_total r,
     i_next_attempt_at = q_next_attempt_at r, i_completed_at = q_completed_at r,
     i_error_category = q_error_category r, i_error_message = q_error_message r\<rparr>"

definition get_queue_row :: "string \<Rightarrow> db \<Rightarrow> queue_row option" where
  "get_queue_row request_id d = tbl_get q_request_id request_id (queue_items d)"

definition get_queue_item :: "string \<Rightarrow> db \<Rightarrow> queue_item option" where
  "get_queue_item request_id d = map_option queue_item_from_row (get_queue_row request_id d)"

definition get_budget :: "string \<Rightarrow> db \<Rightarrow> budget_row option" where
  "get_budget budget_id d = tbl_get b_budget_id budget_id (budgets d)"

definition get_lease :: "string \<Rightarrow> db \<Rightarrow> lease_row option" where
  "get_lease name d = tbl_get l_name name (leases d)"

definition get_reservation :: "string \<Rightarrow> db \<Rightarrow> reservation_row option" where
  "get_reservation arxiv_id d = tbl_get v_arxiv_id arxiv_id (reservations d)"

definition get_cache_entry :: "string \<Rightarrow> db \<Rightarrow> cache_entry option" where
  "get_cache_entry cache_key d = tbl_get c_cache_key cache_key (cache_entries d)"

definition get_paper_row :: "string \<Rightarrow> db \<Rightarrow> paper_row option" where
  "get_paper_row arxiv_id d = tbl_get pr_id arxiv_id (papers d)"

subsection \<open>What SQLite enforces\<close>

text \<open>
  PRIMARY KEY constraints, the partial unique index idx_queue_pending_cache_key, and the foreign
  keys of the membership table.
\<close>

definition one_pending_per_key :: "queue_row list \<Rightarrow> bool" where
  "one_pending_per_key qs \<longleftrightarrow> distinct (map q_cache_key (filter (\<lambda>r. pending (q_status r)) qs))"

definition schema_ok :: "db \<Rightarrow> bool" where
  "schema_ok d \<longleftrightarrow>
     keyed pr_id (papers d) \<and> keyed c_cache_key (cache_entries d) \<and>
     keyed (\<lambda>m. (m_cache_key m, m_arxiv_id m)) (cache_matches d) \<and>
     keyed q_request_id (queue_items d) \<and> keyed b_budget_id (budgets d) \<and>
     keyed (\<lambda>m. (bm_request_id m, bm_budget_id m)) (memberships d) \<and>
     keyed rs_name (rate_states d) \<and> keyed l_name (leases d) \<and>
     keyed v_arxiv_id (reservations d) \<and> keyed w_name (worker_states d) \<and>
     one_pending_per_key (queue_items d) \<and>
     (\<forall>m\<in>set (memberships d). get_queue_row (bm_request_id m) d \<noteq> None \<and>
        get_budget (bm_budget_id m) d \<noteq> None)"

lemma schema_okD:
  assumes "schema_ok d"
  shows "keyed pr_id (papers d)" "keyed c_cache_key (cache_entries d)"
    "keyed (\<lambda>m. (m_cache_key m, m_arxiv_id m)) (cache_matches d)"
    "keyed q_request_id (queue_items d)" "keyed b_budget_id (budgets d)"
    "keyed (\<lambda>m. (bm_request_id m, bm_budget_id m)) (memberships d)"
    "keyed rs_name (rate_states d)" "keyed l_name (leases d)"
    "keyed v_arxiv_id (reservations d)" "keyed w_name (worker_states d)"
    "one_pending_per_key (queue_items d)"
    "\<And>m. m \<in> set (memberships d) \<Longrightarrow> get_queue_row (bm_request_id m) d \<noteq> None"
    "\<And>m. m \<in> set (memberships d) \<Longrightarrow> get_budget (bm_budget_id m) d \<noteq> None"
  using assms by (auto simp: schema_ok_def)

lemma empty_db_schema: "schema_ok (empty_db clock)"
  by (simp add: schema_ok_def empty_db_def one_pending_per_key_def)

lemma schema_ok_record_event [table_intros]: "schema_ok d \<Longrightarrow> schema_ok (record_event t p d)"
  by (simp add: schema_ok_def get_queue_row_def get_budget_def)

lemma schema_ok_worker_ops [table_intros]:
  assumes "schema_ok d"
  shows "schema_ok (record_worker_started n t d)" "schema_ok (record_worker_completed n w c m t d)"
    "schema_ok (record_worker_heartbeat n w c m t d)"
  using assms
  by (auto simp: schema_ok_def get_queue_row_def get_budget_def record_worker_started_def
      record_worker_completed_def record_worker_heartbeat_def intro!: keyed_upsert)

end
