(* ===== verification/Huldra_Leases.thy ===== *)
theory Huldra_Leases
  imports Huldra_Store
begin

text \<open>
  Named leases and id-fetch reservations (huldra/db.py: acquire_lease, renew_lease_if_owned,
  renew_leases_if_owned, release_lease, acquire_id_fetch_reservations,
  renew_id_fetch_reservations), and the contract they share with every client that fetches:
  a resource is granted to one owner until an expiry time.
\<close>

subsection \<open>Leases\<close>

definition expiry :: "datetime \<Rightarrow> int \<Rightarrow> datetime" where
  "expiry now ttl_seconds = now + ttl_seconds * us_per_second"

definition acquire_lease :: "string \<Rightarrow> string \<Rightarrow> int \<Rightarrow> datetime \<Rightarrow> db \<Rightarrow> bool \<times> db" where
  "acquire_lease name owner_token ttl now d =
     (let new = \<lparr>l_name = name, l_owner_token = owner_token, l_acquired_at = now,
                 l_expires_at = expiry now ttl\<rparr>;
          taken = (case get_lease name d of None \<Rightarrow> False
                   | Some l \<Rightarrow> l_owner_token l \<noteq> owner_token \<and> l_expires_at l > now)
      in if taken then (False, d)
         else (True, d\<lparr>leases := tbl_upsert l_name new
                 (\<lambda>l. l\<lparr>l_owner_token := owner_token, l_acquired_at := now,
                       l_expires_at := expiry now ttl\<rparr>) (leases d)\<rparr>))"

definition lease_owned :: "string \<Rightarrow> string \<Rightarrow> db \<Rightarrow> bool" where
  "lease_owned name owner_token d \<longleftrightarrow>
     (case get_lease name d of None \<Rightarrow> False | Some l \<Rightarrow> l_owner_token l = owner_token)"

text \<open>UPDATE leases SET expires_at=? WHERE name=? AND owner_token=?.\<close>

definition extend_lease :: "datetime \<Rightarrow> string \<times> string \<times> int \<Rightarrow> db \<Rightarrow> db" where
  "extend_lease now req d = (case req of (name, owner_token, ttl) \<Rightarrow>
     d\<lparr>leases := tbl_update (\<lambda>l. l_name l = name \<and> l_owner_token l = owner_token)
          (\<lambda>l. l\<lparr>l_expires_at := expiry now ttl\<rparr>) (leases d)\<rparr>)"

definition renew_leases_if_owned ::
  "(string \<times> string \<times> int) list \<Rightarrow> datetime \<Rightarrow> db \<Rightarrow> (store_error + bool) \<times> db" where
  "renew_leases_if_owned reqs now d =
     (if reqs = [] then (Inr True, d)
      else if \<not> distinct (map fst reqs) then (Inl (ValueError ''lease names must be unique''), d)
      else if \<exists>(name, owner_token, _)\<in>set reqs. \<not> lease_owned name owner_token d then (Inr False, d)
      else (Inr True, fold (extend_lease now) reqs d))"

definition renew_lease_if_owned :: "string \<Rightarrow> string \<Rightarrow> int \<Rightarrow> datetime \<Rightarrow> db \<Rightarrow> bool \<times> db" where
  "renew_lease_if_owned name owner_token ttl now d =
     (case renew_leases_if_owned [(name, owner_token, ttl)] now d of
        (Inr ok, d') \<Rightarrow> (ok, d') | (Inl _, d') \<Rightarrow> (False, d'))"

definition release_lease :: "string \<Rightarrow> string \<Rightarrow> db \<Rightarrow> db" where
  "release_lease name owner_token d =
     d\<lparr>leases := tbl_delete (\<lambda>l. l_name l = name \<and> l_owner_token l = owner_token) (leases d)\<rparr>"

lemma lease_ops_simps [simp]:
  "papers (release_lease n w d) = papers d" "cache_entries (release_lease n w d) = cache_entries d"
  "cache_matches (release_lease n w d) = cache_matches d" "queue_items (release_lease n w d) = queue_items d"
  "budgets (release_lease n w d) = budgets d" "memberships (release_lease n w d) = memberships d"
  "rate_states (release_lease n w d) = rate_states d" "reservations (release_lease n w d) = reservations d"
  "papers (extend_lease t q d) = papers d" "cache_entries (extend_lease t q d) = cache_entries d"
  "cache_matches (extend_lease t q d) = cache_matches d" "queue_items (extend_lease t q d) = queue_items d"
  "budgets (extend_lease t q d) = budgets d" "memberships (extend_lease t q d) = memberships d"
  "rate_states (extend_lease t q d) = rate_states d" "reservations (extend_lease t q d) = reservations d"
  by (auto simp: release_lease_def extend_lease_def split: prod.splits)

lemma fold_extend_lease_simps [simp]:
  "papers (fold (extend_lease t) qs d) = papers d"
  "queue_items (fold (extend_lease t) qs d) = queue_items d"
  "reservations (fold (extend_lease t) qs d) = reservations d"
  "rate_states (fold (extend_lease t) qs d) = rate_states d"
  by (induction qs arbitrary: d) auto

text \<open>How a lease reads after each operation.\<close>

lemma get_lease_acquire:
  assumes "acquire_lease name own ttl now d = (True, d')"
  shows "get_lease n d' = (if n = name
     then Some \<lparr>l_name = name, l_owner_token = own, l_acquired_at = now, l_expires_at = expiry now ttl\<rparr>
     else get_lease n d)"
  using assms
  by (auto simp: acquire_lease_def Let_def get_lease_def tbl_get_upsert
      split: if_splits option.splits dest!: tbl_get_SomeD)

lemma acquire_lease_iff:
  "fst (acquire_lease name own ttl now d) \<longleftrightarrow>
     (\<forall>l. get_lease name d = Some l \<longrightarrow> l_owner_token l = own \<or> l_expires_at l \<le> now)"
  by (auto simp: acquire_lease_def Let_def split: option.splits)

lemma acquire_lease_False: "acquire_lease name own ttl now d = (False, d') \<Longrightarrow> d' = d"
  by (auto simp: acquire_lease_def Let_def split: if_splits)

lemma get_lease_name: "get_lease n d = Some l \<Longrightarrow> l_name l = n"
  by (auto simp: get_lease_def dest: tbl_get_SomeD)

lemma get_lease_extend:
  "get_lease n (extend_lease now (name, own, ttl) d) =
     (if n = name \<and> lease_owned name own d
      then map_option (\<lambda>l. l\<lparr>l_expires_at := expiry now ttl\<rparr>) (get_lease n d)
      else get_lease n d)"
proof -
  have "get_lease n (extend_lease now (name, own, ttl) d) =
    map_option (\<lambda>l. if l_name l = name \<and> l_owner_token l = own
                     then l\<lparr>l_expires_at := expiry now ttl\<rparr> else l) (get_lease n d)"
    by (simp add: extend_lease_def get_lease_def table_simps)
  then show ?thesis
    using get_lease_name [of n d] by (cases "get_lease n d") (auto simp: lease_owned_def)
qed

lemma lease_owned_extend:
  "lease_owned n w (extend_lease now q d) \<longleftrightarrow> lease_owned n w d"
  by (cases q) (auto simp: lease_owned_def get_lease_extend split: option.splits)

lemma get_lease_extend_all:
  assumes "distinct (map fst reqs)" "\<forall>(n, w, _)\<in>set reqs. lease_owned n w d"
  shows "get_lease n (fold (extend_lease now) reqs d) =
    (case map_of reqs n of None \<Rightarrow> get_lease n d
     | Some (w, ttl) \<Rightarrow> map_option (\<lambda>l. l\<lparr>l_expires_at := expiry now ttl\<rparr>) (get_lease n d))"
  using assms
proof (induction reqs arbitrary: d)
  case (Cons q reqs)
  obtain name own ttl where q: "q = (name, own, ttl)" by (metis prod.exhaust)
  have own: "lease_owned name own d" and dist: "distinct (map fst reqs)"
    using Cons.prems by (auto simp: q)
  have "\<forall>(n, w, _)\<in>set reqs. lease_owned n w (extend_lease now q d)"
    using Cons.prems by (auto simp: lease_owned_extend)
  note IH = Cons.IH [OF dist this]
  have notin: "map_of reqs name = None"
    using Cons.prems by (auto simp: q map_of_eq_None_iff)
  show ?case
  proof (cases "n = name")
    case True
    then show ?thesis using IH notin own by (simp add: q get_lease_extend)
  next
    case False
    then have "get_lease n (extend_lease now q d) = get_lease n d"
      by (simp add: q get_lease_extend)
    with False IH show ?thesis by (simp only: list.set fold_simps o_apply map_of.simps q fst_conv
          snd_conv fun_upd_other) simp
  qed
qed simp

lemma get_lease_release:
  assumes "keyed l_name (leases d)"
  shows "get_lease n (release_lease name own d) =
    (if n = name \<and> lease_owned name own d then None else get_lease n d)"
proof -
  have "get_lease n (release_lease name own d) =
    (case get_lease n d of None \<Rightarrow> None
     | Some l \<Rightarrow> if l_name l = name \<and> l_owner_token l = own then None else Some l)"
    using assms by (simp add: release_lease_def get_lease_def table_simps)
  then show ?thesis
    using get_lease_name [of n d] by (cases "get_lease n d") (auto simp: lease_owned_def)
qed

lemma keyed_lease_ops [table_intros]:
  assumes "keyed l_name (leases d)"
  shows "keyed l_name (leases (snd (acquire_lease n w ttl now d)))"
    "keyed l_name (leases (extend_lease now q d))"
    "keyed l_name (leases (release_lease n w d))"
    "keyed l_name (leases (fold (extend_lease now) qs d))"
proof -
  have ext: "keyed l_name (leases (extend_lease now q d))" if "keyed l_name (leases d)" for q d
    using that by (auto simp: extend_lease_def split: prod.splits intro!: keyed_update)
  show "keyed l_name (leases (snd (acquire_lease n w ttl now d)))"
    using assms by (auto simp: acquire_lease_def Let_def intro!: keyed_upsert)
  show "keyed l_name (leases (extend_lease now q d))" using assms by (rule ext)
  show "keyed l_name (leases (release_lease n w d))"
    using assms by (auto simp: release_lease_def intro!: keyed_delete)
  show "keyed l_name (leases (fold (extend_lease now) qs d))"
    using assms by (induction qs arbitrary: d) (auto intro: ext)
qed

lemma renew_leases_cases:
  assumes "renew_leases_if_owned reqs now d = (res, d')"
  obtains (none) "reqs = []" "res = Inr True" "d' = d"
  | (dup) "\<not> distinct (map fst reqs)" "res = Inl (ValueError ''lease names must be unique'')" "d' = d"
  | (lost) name own ttl where "(name, own, ttl) \<in> set reqs" "\<not> lease_owned name own d"
      "res = Inr False" "d' = d"
  | (renewed) "distinct (map fst reqs)" "\<forall>(n, w, _)\<in>set reqs. lease_owned n w d"
      "res = Inr True" "d' = fold (extend_lease now) reqs d"
proof -
  have res: "(res, d') = renew_leases_if_owned reqs now d" using assms by simp
  show thesis
  proof (cases "reqs = []")
    case True
    then show thesis using res none by (simp add: renew_leases_if_owned_def)
  next
    case ne: False
    show thesis
    proof (cases "distinct (map fst reqs)")
      case False
      then show thesis using res ne dup by (simp add: renew_leases_if_owned_def)
    next
      case dist: True
      show thesis
      proof (cases "\<exists>(n, w, _)\<in>set reqs. \<not> lease_owned n w d")
        case True
        then obtain n w u where "(n, w, u) \<in> set reqs" "\<not> lease_owned n w d" by auto
        then show thesis using res ne dist lost True by (simp add: renew_leases_if_owned_def)
      next
        case False
        then have "\<forall>(n, w, _)\<in>set reqs. lease_owned n w d" by auto
        then show thesis using res ne dist renewed False by (simp add: renew_leases_if_owned_def)
      qed
    qed
  qed
qed

subsection \<open>Id-fetch reservations\<close>

record id_reservation_result =
  acquired_ids :: "string list"
  blocked_until :: "datetime option"

text \<open>INSERT INTO id_fetch_reservations .. ON CONFLICT(arxiv_id) DO UPDATE.\<close>

definition reserve_id :: "string \<Rightarrow> string \<Rightarrow> datetime \<Rightarrow> datetime \<Rightarrow> string \<Rightarrow> db \<Rightarrow> db" where
  "reserve_id owner_token request_id now expires arxiv_id d =
     d\<lparr>reservations := tbl_upsert v_arxiv_id
        \<lparr>v_arxiv_id = arxiv_id, v_owner_token = owner_token, v_request_id = request_id,
         v_acquired_at = now, v_expires_at = expires\<rparr>
        (\<lambda>v. v\<lparr>v_owner_token := owner_token, v_request_id := request_id,
              v_acquired_at := now, v_expires_at := expires\<rparr>) (reservations d)\<rparr>"

definition acquire_id_fetch_reservations ::
  "string list \<Rightarrow> string \<Rightarrow> string \<Rightarrow> int \<Rightarrow> datetime \<Rightarrow> db \<Rightarrow> id_reservation_result \<times> db" where
  "acquire_id_fetch_reservations arxiv_ids owner_token request_id ttl_seconds now d =
     (if arxiv_ids = [] then (\<lparr>acquired_ids = [], blocked_until = None\<rparr>, d)
      else
       (let ids = dedup arxiv_ids;
            expires = expiry now ttl_seconds;
            d1 = d\<lparr>reservations := tbl_delete (\<lambda>v. v_expires_at v \<le> now) (reservations d)\<rparr>;
            rows = filter (\<lambda>v. v_arxiv_id v \<in> set ids) (reservations d1);
            blocked = map v_expires_at (filter (\<lambda>v. v_owner_token v \<noteq> owner_token) rows)
        in if blocked \<noteq> [] then (\<lparr>acquired_ids = [], blocked_until = Some (min_list blocked)\<rparr>, d1)
           else (\<lparr>acquired_ids = ids, blocked_until = None\<rparr>,
                 fold (reserve_id owner_token request_id now expires) ids d1)))"

text \<open>len(rows) == len(ids) and every row is the owner's.\<close>

definition reservations_owned :: "string list \<Rightarrow> string \<Rightarrow> db \<Rightarrow> bool" where
  "reservations_owned ids owner_token d \<longleftrightarrow>
     (let rows = filter (\<lambda>v. v_arxiv_id v \<in> set ids) (reservations d)
      in length rows = length ids \<and> (\<forall>v\<in>set rows. v_owner_token v = owner_token))"

definition extend_reservations :: "string list \<Rightarrow> string \<Rightarrow> datetime \<Rightarrow> datetime \<Rightarrow> db \<Rightarrow> db" where
  "extend_reservations ids owner_token now expires d =
     d\<lparr>reservations := tbl_update (\<lambda>v. v_owner_token v = owner_token \<and> v_arxiv_id v \<in> set ids)
        (\<lambda>v. v\<lparr>v_acquired_at := now, v_expires_at := expires\<rparr>) (reservations d)\<rparr>"

definition renew_id_fetch_reservations ::
  "string list \<Rightarrow> string \<Rightarrow> int \<Rightarrow> datetime \<Rightarrow> db \<Rightarrow> bool \<times> db" where
  "renew_id_fetch_reservations arxiv_ids owner_token ttl_seconds now d =
     (let ids = dedup arxiv_ids
      in if ids = [] then (True, d)
         else if \<not> reservations_owned ids owner_token d then (False, d)
         else (tbl_count (\<lambda>v. v_owner_token v = owner_token \<and> v_arxiv_id v \<in> set ids) (reservations d)
                 = length ids,
               extend_reservations ids owner_token now (expiry now ttl_seconds) d))"

lemma reserve_ids_simps [simp]:
  "papers (fold (reserve_id w q t e) ids d) = papers d"
  "cache_entries (fold (reserve_id w q t e) ids d) = cache_entries d"
  "cache_matches (fold (reserve_id w q t e) ids d) = cache_matches d"
  "queue_items (fold (reserve_id w q t e) ids d) = queue_items d"
  "budgets (fold (reserve_id w q t e) ids d) = budgets d"
  "memberships (fold (reserve_id w q t e) ids d) = memberships d"
  "rate_states (fold (reserve_id w q t e) ids d) = rate_states d"
  "leases (fold (reserve_id w q t e) ids d) = leases d"
  "worker_states (fold (reserve_id w q t e) ids d) = worker_states d"
  by (induction ids arbitrary: d) (auto simp: reserve_id_def)

lemma get_reservation_reserve_all:
  "get_reservation i (fold (reserve_id own req now e) ids d) =
     (if i \<in> set ids
      then Some \<lparr>v_arxiv_id = i, v_owner_token = own, v_request_id = req, v_acquired_at = now,
                 v_expires_at = e\<rparr>
      else get_reservation i d)"
proof (induction ids arbitrary: d)
  case (Cons a ids)
  have "get_reservation i (reserve_id own req now e a d) =
     (if i = a then Some \<lparr>v_arxiv_id = i, v_owner_token = own, v_request_id = req,
         v_acquired_at = now, v_expires_at = e\<rparr> else get_reservation i d)"
    by (auto simp: reserve_id_def get_reservation_def tbl_get_upsert split: option.splits
        dest!: tbl_get_SomeD)
  with Cons show ?case by auto
qed simp

lemma keyed_reservations [table_intros]:
  assumes "keyed v_arxiv_id (reservations d)"
  shows "keyed v_arxiv_id (reservations (fold (reserve_id w q t e) ids d))"
    "keyed v_arxiv_id (reservations (extend_reservations ids w t e d))"
proof -
  show "keyed v_arxiv_id (reservations (fold (reserve_id w q t e) ids d))"
    using assms
  proof (induction ids arbitrary: d)
    case (Cons i ids)
    have "keyed v_arxiv_id (reservations (reserve_id w q t e i d))"
      using Cons.prems by (auto simp: reserve_id_def intro!: keyed_upsert)
    then show ?case using Cons.IH by simp
  qed simp
  show "keyed v_arxiv_id (reservations (extend_reservations ids w t e d))"
    using assms by (auto simp: extend_reservations_def intro!: keyed_update)
qed

lemma reservations_owned_iff:
  assumes "keyed v_arxiv_id (reservations d)" "distinct ids"
  shows "reservations_owned ids own d \<longleftrightarrow>
    (\<forall>i\<in>set ids. \<exists>v. get_reservation i d = Some v \<and> v_owner_token v = own)"
proof -
  let ?rows = "filter (\<lambda>v. v_arxiv_id v \<in> set ids) (reservations d)"
  have dist: "distinct (map v_arxiv_id ?rows)"
    using assms(1) by (simp add: keyed_def distinct_map_filter)
  have sub: "set (map v_arxiv_id ?rows) \<subseteq> set ids" by auto
  have len: "length ?rows = card (set (map v_arxiv_id ?rows))"
    using distinct_card [OF dist] by simp
  have "length ?rows = length ids \<longleftrightarrow> set (map v_arxiv_id ?rows) = set ids"
    using len distinct_card [OF assms(2)] card_subset_eq [OF finite_set sub] by metis
  also have "\<dots> \<longleftrightarrow> (\<forall>i\<in>set ids. i \<in> set (map v_arxiv_id ?rows))"
    using sub by blast
  also have "\<dots> \<longleftrightarrow> (\<forall>i\<in>set ids. get_reservation i d \<noteq> None)"
    by (rule ball_cong [OF refl])
      (auto simp: get_reservation_def tbl_get_None image_iff simp del: not_None_eq)
  finally have all: "length ?rows = length ids \<longleftrightarrow> (\<forall>i\<in>set ids. get_reservation i d \<noteq> None)" .
  have own: "(\<forall>v\<in>set ?rows. v_owner_token v = own) \<longleftrightarrow>
    (\<forall>i\<in>set ids. \<forall>v. get_reservation i d = Some v \<longrightarrow> v_owner_token v = own)"
    by (simp add: get_reservation_def tbl_get_iff [OF assms(1)]) blast
  show ?thesis unfolding reservations_owned_def Let_def all own by fastforce
qed

subsection \<open>The contract: one unexpired owner per resource\<close>

text \<open>
  A run of the transactions of any number of processes. B r o is the expiry until which o may
  believe it holds r: set when a transaction grants or renews, cleared when o gives r up.
\<close>

inductive grant_reach ::
  "('s \<Rightarrow> bool) \<Rightarrow> (('r \<rightharpoonup> 'o \<times> datetime) \<Rightarrow> datetime \<Rightarrow> 's \<Rightarrow> 's \<Rightarrow> bool) \<Rightarrow>
   (('r \<times> 'o) set \<Rightarrow> datetime \<Rightarrow> 's \<Rightarrow> 's \<Rightarrow> bool) \<Rightarrow>
   datetime \<Rightarrow> 's \<Rightarrow> ('r \<Rightarrow> 'o \<Rightarrow> datetime option) \<Rightarrow> bool"
  for ok takes drops where
  begin_run: "ok s \<Longrightarrow> grant_reach ok takes drops t s (\<lambda>_ _. None)"
| take: "grant_reach ok takes drops t s B \<Longrightarrow> t \<le> now \<Longrightarrow> takes G now s s' \<Longrightarrow>
    grant_reach ok takes drops now s'
      (\<lambda>r w. case G r of Some (w', e) \<Rightarrow> if w = w' then Some e else B r w | None \<Rightarrow> B r w)"
| drop: "grant_reach ok takes drops t s B \<Longrightarrow> t \<le> now \<Longrightarrow> drops R now s s' \<Longrightarrow>
    grant_reach ok takes drops now s' (\<lambda>r w. if (r, w) \<in> R then None else B r w)"

locale exclusive_grant =
  fixes holder :: "'s \<Rightarrow> 'r \<Rightarrow> ('o \<times> datetime) option"
    and takes :: "('r \<rightharpoonup> 'o \<times> datetime) \<Rightarrow> datetime \<Rightarrow> 's \<Rightarrow> 's \<Rightarrow> bool"
    and drops :: "('r \<times> 'o) set \<Rightarrow> datetime \<Rightarrow> 's \<Rightarrow> 's \<Rightarrow> bool"
    and ok :: "'s \<Rightarrow> bool"
  assumes takes_holder: "ok s \<Longrightarrow> takes G now s s' \<Longrightarrow> G r = Some (w, e) \<Longrightarrow> holder s' r = Some (w, e)"
    and takes_excl: "ok s \<Longrightarrow> takes G now s s' \<Longrightarrow> G r = Some (w, e) \<Longrightarrow>
      holder s r = Some (w', e') \<Longrightarrow> w' \<noteq> w \<Longrightarrow> e' \<le> now"
    and takes_frame: "ok s \<Longrightarrow> takes G now s s' \<Longrightarrow> G r = None \<Longrightarrow>
      holder s r = Some (w, e) \<Longrightarrow> now < e \<Longrightarrow> holder s' r = Some (w, e)"
    and drops_frame: "ok s \<Longrightarrow> drops R now s s' \<Longrightarrow> holder s r = Some (w, e) \<Longrightarrow>
      now < e \<Longrightarrow> (r, w) \<notin> R \<Longrightarrow> holder s' r = Some (w, e)"
    and takes_ok: "ok s \<Longrightarrow> takes G now s s' \<Longrightarrow> ok s'"
    and drops_ok: "ok s \<Longrightarrow> drops R now s s' \<Longrightarrow> ok s'"
begin

lemma believed_held:
  "grant_reach ok takes drops t s B \<Longrightarrow>
     ok s \<and> (\<forall>r w e. B r w = Some e \<longrightarrow> t < e \<longrightarrow> holder s r = Some (w, e))"
proof (induction rule: grant_reach.induct)
  case (take t s B now G s')
  then have ok: "ok s" and IH: "\<And>r w e. B r w = Some e \<Longrightarrow> t < e \<Longrightarrow> holder s r = Some (w, e)"
    by auto
  have "holder s' r = Some (w, e)"
    if B': "(case G r of Some (w', e) \<Rightarrow> if w = w' then Some e else B r w | None \<Rightarrow> B r w) = Some e"
      and now: "now < e" for r w e
  proof (cases "G r")
    case None
    then show ?thesis
      using B' now IH [of r w e] takes_frame [OF ok take.hyps(3) None] take.hyps(2) by simp
  next
    case (Some p)
    obtain w' e' where p: "G r = Some (w', e')" using Some by (cases p) auto
    show ?thesis
    proof (cases "w = w'")
      case True
      then show ?thesis using B' p takes_holder [OF ok take.hyps(3) p] by simp
    next
      case False
      then have "holder s r = Some (w, e)"
        using B' p now take.hyps(2) IH [of r w e] by simp
      then show ?thesis using takes_excl [OF ok take.hyps(3) p] False now by fastforce
    qed
  qed
  with takes_ok [OF ok take.hyps(3)] show ?case by blast
next
  case (drop t s B now R s')
  then show ?case using drops_ok drops_frame by (auto split: if_splits)
qed simp

lemma exclusive:
  assumes "grant_reach ok takes drops t s B"
    and "B r w = Some e" "t < e" "B r w' = Some e'" "t < e'"
  shows "w = w' \<and> e = e'"
  using believed_held [OF assms(1)] assms(2-) by (metis option.inject prod.inject)

end

end
