(* ===== verification/Huldra_Budgets.thy ===== *)
theory Huldra_Budgets
  imports Huldra_Leases
begin

text \<open>
  Upstream request budgets (huldra/db.py: create_upstream_request_budget,
  reserve_upstream_request, reserve_queue_item_upstream_request, the deadline checks,
  fail_active_upstream_budget_items and their helpers). A budget caps how many upstream attempts
  its callers may start and until when; a queue item may be charged to several budgets, each
  through a membership row, and may have unbudgeted demand besides.
\<close>

subsection \<open>Creating a budget and reading it\<close>

definition create_upstream_request_budget ::
  "int \<Rightarrow> py_datetime option \<Rightarrow> string \<Rightarrow> datetime \<Rightarrow> db \<Rightarrow> (store_error + string) \<times> db" where
  "create_upstream_request_budget max_req deadline_at budget_id now d =
     (if max_req \<le> 0 then (Inl (ValueError ''max_requests must be positive''), d)
      else if get_budget budget_id d \<noteq> None then (Inl (IntegrityError ''budget_id''), d)
      else
       (let deadline = map_option ensure_utc deadline_at;
            d1 = d\<lparr>budgets := budgets d @ [\<lparr>b_budget_id = budget_id, b_max_requests = max_req,
                   b_requests_started = 0, b_deadline_at = deadline, b_created_at = now,
                   b_updated_at = now\<rparr>]\<rparr>
        in (Inr budget_id,
            record_event ''upstream_budget_created''
              [(''budget_id'', JStr budget_id), (''max_requests'', JInt max_req),
               (''deadline_at'', jtime deadline)] d1)))"

definition get_upstream_request_budget_requests_started :: "string \<Rightarrow> db \<Rightarrow> int option" where
  "get_upstream_request_budget_requests_started budget_id d =
     map_option b_requests_started (get_budget budget_id d)"

text \<open>SELECT .. FROM queue_item_upstream_budgets WHERE request_id=? ORDER BY created_at, budget_id.\<close>

definition membership_rows :: "string \<Rightarrow> db \<Rightarrow> membership_row list" where
  "membership_rows request_id d =
     sort_key (\<lambda>m. (bm_created_at m, bm_budget_id m))
       (filter (\<lambda>m. bm_request_id m = request_id) (memberships d))"

definition queue_item_upstream_budget_ids :: "string \<Rightarrow> db \<Rightarrow> string list" where
  "queue_item_upstream_budget_ids request_id d =
     (case get_queue_row request_id d of None \<Rightarrow> []
      | Some r \<Rightarrow>
         (let ids = map bm_budget_id (membership_rows request_id d)
          in dedup (case q_upstream_budget_id r of None \<Rightarrow> ids | Some b \<Rightarrow> b # ids)))"

text \<open>The least restrictive deadline among the consumers of the current attempt.\<close>

definition queue_item_upstream_deadline :: "string \<Rightarrow> db \<Rightarrow> datetime option" where
  "queue_item_upstream_deadline request_id d =
     (case get_queue_row request_id d of None \<Rightarrow> None
      | Some r \<Rightarrow>
         if q_unbudgeted_demand r then None
         else
          (let ms = filter (\<lambda>m. bm_request_id m = request_id \<and>
                      bm_first_attempt_number m \<le> q_attempts_total r) (memberships d);
               deadlines = map (\<lambda>m. Option.bind (get_budget (bm_budget_id m) d) b_deadline_at) ms
           in if ms = [] \<or> None \<in> set deadlines then None
              else Some (Max (set (map the deadlines)))))"

subsection \<open>The state of an item's current attempt\<close>

record attempt_state =
  attempt_number :: int
  unbudgeted_demand :: bool
  active_budget_ids :: "string list"
  uncharged_budget_ids :: "string list"
  future_budget_ids :: "string list"

definition queue_item_upstream_budget_attempt_state :: "string \<Rightarrow> db \<Rightarrow> attempt_state" where
  "queue_item_upstream_budget_attempt_state request_id d =
     (case get_queue_row request_id d of
        None \<Rightarrow> \<lparr>attempt_number = 0, unbudgeted_demand = False, active_budget_ids = [],
                 uncharged_budget_ids = [], future_budget_ids = []\<rparr>
      | Some r \<Rightarrow>
         (let n = q_attempts_total r; ms = membership_rows request_id d
          in \<lparr>attempt_number = n, unbudgeted_demand = q_unbudgeted_demand r,
              active_budget_ids =
                map bm_budget_id (filter (\<lambda>m. bm_first_attempt_number m \<le> n) ms),
              uncharged_budget_ids =
                map bm_budget_id (filter (\<lambda>m. bm_first_attempt_number m \<le> n \<and>
                                              bm_last_charged_attempt m < n) ms),
              future_budget_ids =
                map bm_budget_id (filter (\<lambda>m. bm_first_attempt_number m > n) ms)\<rparr>))"

subsection \<open>Errors of a budget\<close>

definition deadline_passed :: "budget_row \<Rightarrow> datetime \<Rightarrow> bool" where
  "deadline_passed b current = (case b_deadline_at b of None \<Rightarrow> False | Some t \<Rightarrow> current \<ge> t)"

definition budget_error :: "bool \<Rightarrow> datetime \<Rightarrow> db \<Rightarrow> string \<Rightarrow> string option" where
  "budget_error enforce_request_limit current d budget_id =
     (case get_budget budget_id d of
        None \<Rightarrow> Some ''request_budget_exceeded''
      | Some b \<Rightarrow>
         if deadline_passed b current then Some ''deadline_budget_exceeded''
         else if enforce_request_limit \<and> b_requests_started b \<ge> b_max_requests b
         then Some ''request_budget_exceeded''
         else None)"

definition upstream_budget_errors ::
  "string list \<Rightarrow> datetime \<Rightarrow> bool \<Rightarrow> db \<Rightarrow> (string \<times> string) list" where
  "upstream_budget_errors budget_ids current enforce d =
     List.map_filter (\<lambda>b. map_option (Pair b) (budget_error enforce current d b)) (dedup budget_ids)"

text \<open>invalid.setdefault(b, e) for every (b, e).\<close>

definition merge_errors :: "(string \<times> string) list \<Rightarrow> (string \<times> string) list \<Rightarrow> (string \<times> string) list" where
  "merge_errors invalid extra = invalid @ filter (\<lambda>(b, _). b \<notin> fst ` set invalid) extra"

definition preferred_upstream_budget_error :: "(string \<times> string) list \<Rightarrow> string" where
  "preferred_upstream_budget_error invalid =
     (if ''deadline_budget_exceeded'' \<in> snd ` set invalid then ''deadline_budget_exceeded''
      else ''request_budget_exceeded'')"

fun check_upstream_budget_deadlines :: "string list \<Rightarrow> datetime \<Rightarrow> db \<Rightarrow> string option" where
  "check_upstream_budget_deadlines [] current d = None"
| "check_upstream_budget_deadlines (b # bs) current d =
     (case budget_error False current d b of
        Some e \<Rightarrow> Some e | None \<Rightarrow> check_upstream_budget_deadlines bs current d)"

definition check_upstream_request_deadline :: "string \<Rightarrow> datetime \<Rightarrow> db \<Rightarrow> string option" where
  "check_upstream_request_deadline budget_id now d = check_upstream_budget_deadlines [budget_id] now d"

subsection \<open>Detaching memberships\<close>

text \<open>
  DELETE the memberships, then the primary budget of the item becomes its first remaining one.
\<close>

definition detach_queue_budget_memberships :: "string \<Rightarrow> string list \<Rightarrow> db \<Rightarrow> db" where
  "detach_queue_budget_memberships request_id budget_ids d =
     (let d1 = (if budget_ids = [] then d
                else d\<lparr>memberships := tbl_delete (\<lambda>m. bm_request_id m = request_id \<and>
                        bm_budget_id m \<in> set budget_ids) (memberships d)\<rparr>);
          replacement = (case membership_rows request_id d1 of [] \<Rightarrow> None
                         | m # _ \<Rightarrow> Some (bm_budget_id m))
      in d1\<lparr>queue_items := tbl_update (\<lambda>r. q_request_id r = request_id)
              (\<lambda>r. r\<lparr>q_upstream_budget_id := replacement\<rparr>) (queue_items d1)\<rparr>)"

definition exhausted_event :: "string \<Rightarrow> string \<times> string \<Rightarrow> db \<Rightarrow> db" where
  "exhausted_event request_id be d = record_event ''upstream_budget_exhausted''
     [(''budget_id'', JStr (fst be)), (''request_id'', JStr request_id),
      (''error_category'', JStr (snd be))] d"

definition detach_invalid_queue_budgets :: "string \<Rightarrow> (string \<times> string) list \<Rightarrow> db \<Rightarrow> db" where
  "detach_invalid_queue_budgets request_id invalid d =
     detach_queue_budget_memberships request_id (map fst invalid)
       (fold (exhausted_event request_id) invalid d)"

subsection \<open>Consuming an attempt\<close>

fun first_reserve_error :: "string list \<Rightarrow> datetime \<Rightarrow> db \<Rightarrow> (string \<times> string) option" where
  "first_reserve_error [] current d = None"
| "first_reserve_error (b # bs) current d =
     (case budget_error True current d b of
        Some e \<Rightarrow> Some (b, e) | None \<Rightarrow> first_reserve_error bs current d)"

definition charge_budget :: "datetime \<Rightarrow> string \<Rightarrow> db \<Rightarrow> db" where
  "charge_budget current budget_id d =
     d\<lparr>budgets := tbl_update (\<lambda>b. b_budget_id b = budget_id)
        (\<lambda>b. b\<lparr>b_requests_started := b_requests_started b + 1, b_updated_at := current\<rparr>)
        (budgets d)\<rparr>"

definition reserve_upstream_budgets :: "string list \<Rightarrow> datetime \<Rightarrow> db \<Rightarrow> string option \<times> db" where
  "reserve_upstream_budgets budget_ids current d =
     (case first_reserve_error budget_ids current d of
        Some (b, e) \<Rightarrow>
          (Some e, record_event ''upstream_budget_exhausted''
             [(''budget_id'', JStr b), (''error_category'', JStr e)] d)
      | None \<Rightarrow> (None, fold (charge_budget current) budget_ids d))"

definition reserve_upstream_request :: "string \<Rightarrow> datetime \<Rightarrow> db \<Rightarrow> string option \<times> db" where
  "reserve_upstream_request budget_id now d = reserve_upstream_budgets [budget_id] now d"

text \<open>UPDATE queue_item_upstream_budgets SET last_charged_attempt=? WHERE request_id=? AND budget_id IN ...\<close>

definition mark_charged :: "string \<Rightarrow> int \<Rightarrow> string list \<Rightarrow> db \<Rightarrow> db" where
  "mark_charged request_id attempt budget_ids d =
     d\<lparr>memberships := tbl_update (\<lambda>m. bm_request_id m = request_id \<and> bm_budget_id m \<in> set budget_ids)
        (\<lambda>m. m\<lparr>bm_last_charged_attempt := attempt\<rparr>) (memberships d)\<rparr>"

definition close_gate :: "string \<Rightarrow> db \<Rightarrow> db" where
  "close_gate request_id d =
     d\<lparr>queue_items := tbl_update (\<lambda>r. q_request_id r = request_id \<and> q_status r = CLAIMED)
        (\<lambda>r. r\<lparr>q_gate_closed := True\<rparr>) (queue_items d)\<rparr>"

definition reserve_queue_item_upstream_request ::
  "string \<Rightarrow> datetime \<Rightarrow> db \<Rightarrow> string option \<times> db" where
  "reserve_queue_item_upstream_request request_id now d =
     (let st = queue_item_upstream_budget_attempt_state request_id d;
          invalid = merge_errors
            (upstream_budget_errors (active_budget_ids st @ future_budget_ids st) now False d)
            (upstream_budget_errors (uncharged_budget_ids st @ future_budget_ids st) now True d);
          d1 = (if invalid = [] then d else detach_invalid_queue_budgets request_id invalid d);
          valid = (\<lambda>b. b \<notin> fst ` set invalid);
          active = filter valid (active_budget_ids st);
          future = filter valid (future_budget_ids st);
          uncharged = filter valid (uncharged_budget_ids st)
      in if \<not> unbudgeted_demand st \<and> active = []
         then (Some (if future \<noteq> [] then ''budget_deferred''
                     else preferred_upstream_budget_error invalid), d1)
         else case reserve_upstream_budgets uncharged now d1 of
           (Some e, d2) \<Rightarrow> (Some e, d2)
         | (None, d2) \<Rightarrow>
             (None, close_gate request_id
                (if uncharged = [] then d2
                 else mark_charged request_id (attempt_number st) uncharged d2)))"

definition check_queue_item_upstream_request_deadlines ::
  "string \<Rightarrow> datetime \<Rightarrow> db \<Rightarrow> string option \<times> db" where
  "check_queue_item_upstream_request_deadlines request_id now d =
     (let st = queue_item_upstream_budget_attempt_state request_id d;
          invalid = upstream_budget_errors (active_budget_ids st @ future_budget_ids st) now False d;
          d1 = (if invalid = [] then d else detach_invalid_queue_budgets request_id invalid d);
          valid = (\<lambda>b. b \<notin> fst ` set invalid)
      in if unbudgeted_demand st \<or> filter valid (active_budget_ids st) \<noteq> [] then (None, d1)
         else if filter valid (future_budget_ids st) \<noteq> [] then (Some ''budget_deferred'', d1)
         else (Some (preferred_upstream_budget_error invalid), d1))"

subsection \<open>Failing the items a spent budget leaves without demand\<close>

text \<open>One iteration of the loop over the affected rows: the failed total grows by the rowcount.\<close>

definition fail_budget_item :: "string \<Rightarrow> string \<Rightarrow> string \<Rightarrow> datetime \<Rightarrow> string \<Rightarrow> int \<times> db \<Rightarrow> int \<times> db" where
  "fail_budget_item budget_id category msg now request_id acc =
     (case acc of (failed, d) \<Rightarrow>
       (let d1 = detach_queue_budget_memberships request_id [budget_id] d
        in case get_queue_row request_id d1 of None \<Rightarrow> (failed, d1)
         | Some r \<Rightarrow>
            if q_unbudgeted_demand r then (failed, d1)
            else if \<exists>m\<in>set (memberships d1). bm_request_id m = request_id then (failed, d1)
            else
             (let P = (\<lambda>r. q_request_id r = request_id \<and> pending (q_status r))
              in (failed + int (tbl_count P (queue_items d1)),
                  d1\<lparr>queue_items := tbl_update P
                     (\<lambda>r. r\<lparr>q_status := FAILED, q_updated_at := now, q_claimed_by := None,
                           q_claimed_until := None, q_gate_closed := False,
                           q_next_attempt_at := None, q_error_category := Some category,
                           q_error_message := Some (take 1000 msg)\<rparr>) (queue_items d1)\<rparr>))))"

definition budget_affected :: "string \<Rightarrow> db \<Rightarrow> string list" where
  "budget_affected budget_id d =
     map q_request_id (filter (\<lambda>r. (q_upstream_budget_id r = Some budget_id \<or>
        (\<exists>m\<in>set (memberships d). bm_request_id m = q_request_id r \<and> bm_budget_id m = budget_id)) \<and>
        pending (q_status r)) (queue_items d))"

definition fail_active_upstream_budget_items ::
  "string \<Rightarrow> string \<Rightarrow> string \<Rightarrow> datetime \<Rightarrow> db \<Rightarrow> int \<times> db" where
  "fail_active_upstream_budget_items budget_id category msg now d =
     (let affected = budget_affected budget_id d;
          (failed, d1) = fold (fail_budget_item budget_id category msg now) affected (0, d)
      in (failed,
          if affected = [] then d1
          else record_event ''upstream_budget_queue_reconciled''
            [(''budget_id'', JStr budget_id), (''items_total'', JInt (int (length affected))),
             (''detached_total'', JInt (int (length affected))), (''failed_total'', JInt failed),
             (''preserved_total'', JInt (int (length affected) - failed)),
             (''error_category'', JStr category)] d1))"

subsection \<open>Frames and constraints\<close>

lemma one_pending_map:
  assumes "one_pending_per_key qs"
    and "\<And>r. r \<in> set qs \<Longrightarrow> q_cache_key (f r) = q_cache_key r \<and> (pending (q_status (f r)) \<longrightarrow> pending (q_status r))"
  shows "one_pending_per_key (map f qs)"
  using assms
proof (induction qs)
  case (Cons r qs)
  have IH: "one_pending_per_key (map f qs)"
    using Cons by (auto simp: one_pending_per_key_def split: if_splits)
  have sub: "set (map q_cache_key (filter (\<lambda>r. pending (q_status r)) (map f qs)))
      \<subseteq> set (map q_cache_key (filter (\<lambda>r. pending (q_status r)) qs))"
    using Cons.prems(2) by fastforce
  show ?case
    using IH sub Cons.prems by (auto simp: one_pending_per_key_def split: if_splits)
qed simp

text \<open>Rewriting queue rows in place keeps the constraints, when no row becomes pending.\<close>

lemma schema_ok_queue_map:
  assumes "schema_ok d" and "\<And>r. q_request_id (f r) = q_request_id r"
    and "\<And>r. r \<in> set (queue_items d) \<Longrightarrow>
      q_cache_key (f r) = q_cache_key r \<and> (pending (q_status (f r)) \<longrightarrow> pending (q_status r))"
  shows "schema_ok (d\<lparr>queue_items := map f (queue_items d)\<rparr>)"
proof -
  have "one_pending_per_key (map f (queue_items d))"
    using schema_okD(11) [OF assms(1)] assms(3) by (rule one_pending_map)
  with assms(1) show ?thesis
    by (simp add: schema_ok_def get_queue_row_def get_budget_def tbl_get_map keyed_map assms(2))
qed

lemma schema_ok_memberships_sub:
  assumes "schema_ok d" "keyed (\<lambda>m. (bm_request_id m, bm_budget_id m)) ms"
    and "\<And>m. m \<in> set ms \<Longrightarrow> \<exists>m'\<in>set (memberships d). bm_request_id m' = bm_request_id m \<and> bm_budget_id m' = bm_budget_id m"
  shows "schema_ok (d\<lparr>memberships := ms\<rparr>)"
proof -
  have "get_queue_row (bm_request_id m) d \<noteq> None \<and> get_budget (bm_budget_id m) d \<noteq> None"
    if "m \<in> set ms" for m
    using assms(3) [OF that] schema_okD(12,13) [OF assms(1)] by metis
  with assms show ?thesis by (simp add: schema_ok_def get_queue_row_def get_budget_def)
qed

lemma budget_frames [simp]:
  "budgets (detach_queue_budget_memberships rid bs d) = budgets d"
  "budgets (mark_charged rid n bs d) = budgets d"
  "budgets (close_gate rid d) = budgets d"
  "memberships (close_gate rid d) = memberships d"
  "queue_items (mark_charged rid n bs d) = queue_items d"
  "leases (detach_queue_budget_memberships rid bs d) = leases d"
  "reservations (detach_queue_budget_memberships rid bs d) = reservations d"
  "rate_states (detach_queue_budget_memberships rid bs d) = rate_states d"
  "leases (close_gate rid d) = leases d" "leases (mark_charged rid n bs d) = leases d"
  "reservations (close_gate rid d) = reservations d"
  "reservations (mark_charged rid n bs d) = reservations d"
  by (simp_all add: detach_queue_budget_memberships_def mark_charged_def close_gate_def Let_def)

lemma charge_frames [simp]:
  "memberships (fold (charge_budget t) bs d) = memberships d"
  "queue_items (fold (charge_budget t) bs d) = queue_items d"
  "leases (fold (charge_budget t) bs d) = leases d"
  "reservations (fold (charge_budget t) bs d) = reservations d"
  by (induction bs arbitrary: d) (auto simp: charge_budget_def)

lemma exhausted_frames [simp]:
  "memberships (fold (exhausted_event rid) es d) = memberships d"
  "queue_items (fold (exhausted_event rid) es d) = queue_items d"
  "budgets (fold (exhausted_event rid) es d) = budgets d"
  "leases (fold (exhausted_event rid) es d) = leases d"
  "reservations (fold (exhausted_event rid) es d) = reservations d"
  by (induction es arbitrary: d) (auto simp: exhausted_event_def)

lemma detach_memberships:
  "memberships (detach_queue_budget_memberships rid bs d) =
     tbl_delete (\<lambda>m. bm_request_id m = rid \<and> bm_budget_id m \<in> set bs) (memberships d)"
  by (auto simp: detach_queue_budget_memberships_def Let_def tbl_delete_def)

lemma detach_queue_items:
  "\<exists>rep. queue_items (detach_queue_budget_memberships rid bs d) =
     map (\<lambda>r. if q_request_id r = rid then r\<lparr>q_upstream_budget_id := rep\<rparr> else r) (queue_items d)"
  by (auto simp: detach_queue_budget_memberships_def Let_def tbl_update_def)

lemma get_queue_row_detach:
  "\<exists>rep. get_queue_row k (detach_queue_budget_memberships rid bs d) =
     map_option (\<lambda>r. if q_request_id r = rid then r\<lparr>q_upstream_budget_id := rep\<rparr> else r)
       (get_queue_row k d)"
proof -
  obtain rep where "queue_items (detach_queue_budget_memberships rid bs d) =
     map (\<lambda>r. if q_request_id r = rid then r\<lparr>q_upstream_budget_id := rep\<rparr> else r) (queue_items d)"
    using detach_queue_items by blast
  then show ?thesis by (auto simp: get_queue_row_def tbl_get_map)
qed

lemma set_membership_rows:
  "set (membership_rows rid d) = {m \<in> set (memberships d). bm_request_id m = rid}"
  by (auto simp: membership_rows_def)

lemma membership_ids_distinct:
  assumes "schema_ok d"
  shows "distinct (map bm_budget_id (filter P (membership_rows rid d)))"
proof -
  let ?l = "filter (\<lambda>m. bm_request_id m = rid) (memberships d)"
  have k: "keyed (\<lambda>m. (bm_request_id m, bm_budget_id m)) (memberships d)"
    using schema_okD(6) [OF assms] .
  have "inj_on bm_budget_id (set ?l)"
    by (rule inj_onI) (use keyed_eqI [OF k] in auto)
  moreover have "distinct ?l" using k by (auto simp: keyed_def distinct_map)
  ultimately have "distinct (map bm_budget_id (membership_rows rid d))"
    by (auto simp: membership_rows_def distinct_map inj_on_def)
  then show ?thesis by (rule distinct_map_filter)
qed

subsection \<open>What a reservation charges\<close>

lemma budget_error_cong: "budgets d' = budgets d \<Longrightarrow> budget_error e t d' b = budget_error e t d b"
  by (simp add: budget_error_def get_budget_def)

lemma budget_error_weaken: "budget_error True t d b = None \<Longrightarrow> budget_error False t d b = None"
  by (auto simp: budget_error_def split: option.splits if_splits)

lemma upstream_budget_errors_fst:
  "fst ` set (upstream_budget_errors bs t e d) = {b \<in> set bs. budget_error e t d b \<noteq> None}"
  by (force simp: upstream_budget_errors_def List.map_filter_def)

lemma merge_errors_fst: "fst ` set (merge_errors xs ys) = fst ` set xs \<union> fst ` set ys"
proof -
  have "fst ` (set xs \<union> {y \<in> set ys. fst y \<notin> fst ` set xs}) = fst ` set xs \<union> fst ` set ys" by blast
  then show ?thesis by (simp add: merge_errors_def case_prod_beta)
qed

lemma first_reserve_error_None:
  "first_reserve_error bs t d = None \<longleftrightarrow> (\<forall>b\<in>set bs. budget_error True t d b = None)"
  by (induction bs) (auto split: option.splits)

lemma get_budget_id: "get_budget k d = Some b \<Longrightarrow> b_budget_id b = k"
  by (auto simp: get_budget_def dest: tbl_get_SomeD)

lemma get_budget_charge:
  "get_budget k (charge_budget t b d) =
     map_option (\<lambda>r. if k = b then r\<lparr>b_requests_started := b_requests_started r + 1, b_updated_at := t\<rparr>
                     else r) (get_budget k d)"
  using get_budget_id [of k d]
  by (cases "get_budget k d") (auto simp: charge_budget_def get_budget_def table_simps)

lemma get_budget_charge_all:
  assumes "distinct bs"
  shows "get_budget k (fold (charge_budget t) bs d) =
     map_option (\<lambda>r. if k \<in> set bs then r\<lparr>b_requests_started := b_requests_started r + 1, b_updated_at := t\<rparr>
                     else r) (get_budget k d)"
  using assms
proof (induction bs arbitrary: d)
  case Nil
  then show ?case by (simp add: option.map_ident)
next
  case (Cons b bs)
  have "get_budget k (fold (charge_budget t) bs (charge_budget t b d)) =
     map_option (\<lambda>r. if k \<in> set bs then r\<lparr>b_requests_started := b_requests_started r + 1, b_updated_at := t\<rparr>
                     else r) (get_budget k (charge_budget t b d))"
    using Cons by simp
  with Cons.prems show ?case
    by (cases "get_budget k d") (auto simp: get_budget_charge)
qed

text \<open>The state of an attempt as sets, and what the next reservation charges.\<close>

definition chargeable :: "string \<Rightarrow> datetime \<Rightarrow> db \<Rightarrow> string set" where
  "chargeable rid t d = {b \<in> set (uncharged_budget_ids (queue_item_upstream_budget_attempt_state rid d)).
     budget_error True t d b = None}"

lemma attempt_state_subset:
  "set (uncharged_budget_ids (queue_item_upstream_budget_attempt_state rid d)) \<subseteq>
   set (active_budget_ids (queue_item_upstream_budget_attempt_state rid d))"
  by (auto simp: queue_item_upstream_budget_attempt_state_def Let_def split: option.splits)

lemma attempt_state_distinct:
  "schema_ok d \<Longrightarrow> distinct (uncharged_budget_ids (queue_item_upstream_budget_attempt_state rid d))"
  by (auto simp: queue_item_upstream_budget_attempt_state_def Let_def split: option.splits
      intro: membership_ids_distinct)

text \<open>reserve_queue_item_upstream_request, with its sequential tests resolved.\<close>

lemma reserve_queue_item_cases:
  assumes "reserve_queue_item_upstream_request rid t d = (res, d')"
  obtains (refused) e invalid where "res = Some e"
      "d' = (if invalid = [] then d else detach_invalid_queue_budgets rid invalid d)"
  | (charged) invalid st bs d1 d2 where "res = None"
      "st = queue_item_upstream_budget_attempt_state rid d"
      "d1 = (if invalid = [] then d else detach_invalid_queue_budgets rid invalid d)"
      "bs = filter (\<lambda>b. b \<notin> fst ` set invalid) (uncharged_budget_ids st)"
      "d2 = fold (charge_budget t) bs d1"
      "d' = close_gate rid (if bs = [] then d2 else mark_charged rid (attempt_number st) bs d2)"
      "set bs = chargeable rid t d"
      "\<And>b. b \<in> set (uncharged_budget_ids st) - chargeable rid t d \<Longrightarrow> b \<in> fst ` set invalid"
      "unbudgeted_demand st \<or> filter (\<lambda>b. b \<notin> fst ` set invalid) (active_budget_ids st) \<noteq> []"
proof -
  define st where "st = queue_item_upstream_budget_attempt_state rid d"
  define invalid where "invalid = merge_errors
    (upstream_budget_errors (active_budget_ids st @ future_budget_ids st) t False d)
    (upstream_budget_errors (uncharged_budget_ids st @ future_budget_ids st) t True d)"
  define d1 where "d1 = (if invalid = [] then d else detach_invalid_queue_budgets rid invalid d)"
  define bs where "bs = filter (\<lambda>b. b \<notin> fst ` set invalid) (uncharged_budget_ids st)"
  have bud: "budgets d1 = budgets d" by (simp add: d1_def detach_invalid_queue_budgets_def)
  have inv: "b \<in> fst ` set invalid \<longleftrightarrow>
      (b \<in> set (active_budget_ids st @ future_budget_ids st) \<and> budget_error False t d b \<noteq> None) \<or>
      (b \<in> set (uncharged_budget_ids st @ future_budget_ids st) \<and> budget_error True t d b \<noteq> None)" for b
    by (simp add: invalid_def merge_errors_fst upstream_budget_errors_fst)
  have bs: "set bs = chargeable rid t d"
    using inv budget_error_weaken by (auto simp: bs_def chargeable_def st_def)
  then have ok: "first_reserve_error bs t d1 = None"
    by (auto simp: first_reserve_error_None chargeable_def budget_error_cong [OF bud])
  have dead: "b \<in> fst ` set invalid" if "b \<in> set (uncharged_budget_ids st) - chargeable rid t d" for b
    using that inv by (auto simp: chargeable_def st_def)
  define go where "go \<longleftrightarrow> unbudgeted_demand st \<or> filter (\<lambda>b. b \<notin> fst ` set invalid) (active_budget_ids st) \<noteq> []"
  have eq: "reserve_queue_item_upstream_request rid t d =
    (if \<not> go then (Some (if filter (\<lambda>b. b \<notin> fst ` set invalid) (future_budget_ids st) \<noteq> []
                then ''budget_deferred'' else preferred_upstream_budget_error invalid), d1)
     else (None, close_gate rid (if bs = [] then fold (charge_budget t) bs d1
                 else mark_charged rid (attempt_number st) bs (fold (charge_budget t) bs d1))))"
    unfolding reserve_queue_item_upstream_request_def Let_def st_def [symmetric]
    unfolding invalid_def [symmetric]
    unfolding d1_def [symmetric] bs_def [symmetric]
    by (simp only: reserve_upstream_budgets_def ok option.case prod.case go_def de_Morgan_disj not_not)
  have res: "(res, d') = reserve_queue_item_upstream_request rid t d" using assms by simp
  show thesis
  proof (cases go)
    case True
    then have demand: "unbudgeted_demand st \<or> filter (\<lambda>b. b \<notin> fst ` set invalid) (active_budget_ids st) \<noteq> []"
      by (simp only: go_def)
    have "res = None"
      "d' = close_gate rid (if bs = [] then fold (charge_budget t) bs d1
              else mark_charged rid (attempt_number st) bs (fold (charge_budget t) bs d1))"
      using res unfolding eq by (simp_all only: True if_False not_True_eq_False prod.inject)
    then show thesis using charged [OF _ st_def d1_def bs_def refl _ bs dead demand] by simp
  next
    case False
    have "res = Some (if filter (\<lambda>b. b \<notin> fst ` set invalid) (future_budget_ids st) \<noteq> []
                then ''budget_deferred'' else preferred_upstream_budget_error invalid)" "d' = d1"
      using res unfolding eq by (simp_all only: False if_True not_False_eq_True prod.inject)
    then show thesis using refused [OF _ d1_def [folded \<open>d' = d1\<close>]] by simp
  qed
qed

text \<open>
  A refused attempt charges nothing, a granted one charges every chargeable budget of the item
  exactly once and no other budget.
\<close>

lemma reserve_queue_item_budgets:
  assumes "schema_ok d" "reserve_queue_item_upstream_request rid t d = (res, d')"
  shows "if res = None
    then (\<forall>b. get_budget b d' = map_option (\<lambda>r. if b \<in> chargeable rid t d
            then r\<lparr>b_requests_started := b_requests_started r + 1, b_updated_at := t\<rparr> else r)
            (get_budget b d))
    else budgets d' = budgets d"
  using assms(2)
proof (cases rule: reserve_queue_item_cases)
  case (refused e invalid)
  then show ?thesis by (simp add: detach_invalid_queue_budgets_def)
next
  case (charged invalid st bs d1 d2)
  have "distinct bs" using charged attempt_state_distinct [OF assms(1)] by simp
  moreover have "get_budget b d1 = get_budget b d" for b
    by (simp add: charged(3) get_budget_def detach_invalid_queue_budgets_def)
  moreover have "get_budget b d' = get_budget b d2" for b
    by (simp add: charged(6) get_budget_def)
  ultimately show ?thesis
    using charged(1,5,7) by (simp add: get_budget_charge_all)
qed

lemma mem_uncharged:
  "b \<in> set (uncharged_budget_ids (queue_item_upstream_budget_attempt_state rid d)) \<longleftrightarrow>
     (\<exists>r m. get_queue_row rid d = Some r \<and> m \<in> set (memberships d) \<and> bm_request_id m = rid \<and>
        bm_budget_id m = b \<and> bm_first_attempt_number m \<le> q_attempts_total r \<and>
        bm_last_charged_attempt m < q_attempts_total r)"
  by (auto simp: queue_item_upstream_budget_attempt_state_def Let_def set_membership_rows
      split: option.splits)

lemma attempts_after_reserve:
  assumes "reserve_queue_item_upstream_request rid t d = (res, d')"
  shows "map_option q_attempts_total (get_queue_row k d') = map_option q_attempts_total (get_queue_row k d)"
proof -
  have detach: "map_option q_attempts_total (get_queue_row k (detach_invalid_queue_budgets rid invalid d)) =
      map_option q_attempts_total (get_queue_row k d)" for invalid
  proof -
    obtain rep where r: "get_queue_row k (detach_queue_budget_memberships rid (map fst invalid)
          (fold (exhausted_event rid) invalid d)) =
        map_option (\<lambda>r. if q_request_id r = rid then r\<lparr>q_upstream_budget_id := rep\<rparr> else r)
       (get_queue_row k (fold (exhausted_event rid) invalid d))"
      using get_queue_row_detach by blast
    have "get_queue_row k (fold (exhausted_event rid) invalid d) = get_queue_row k d"
      by (simp add: get_queue_row_def)
    with r show ?thesis by (cases "get_queue_row k d") (simp_all add: detach_invalid_queue_budgets_def)
  qed
  have gate: "map_option q_attempts_total (get_queue_row k (close_gate rid d2)) =
      map_option q_attempts_total (get_queue_row k d2)" for d2
    by (cases "get_queue_row k d2") (simp_all add: close_gate_def get_queue_row_def table_simps)
  have same: "get_queue_row k d2 = get_queue_row k d1" if "queue_items d2 = queue_items d1" for d1 d2
    using that by (simp add: get_queue_row_def)
  from assms show ?thesis
  proof (cases rule: reserve_queue_item_cases)
    case (refused e invalid)
    then show ?thesis by (simp add: detach)
  next
    case (charged invalid st bs d1 d2)
    have "map_option q_attempts_total (get_queue_row k d') = map_option q_attempts_total (get_queue_row k d1)"
      unfolding charged(6) gate using charged(5) same [of "mark_charged rid (attempt_number st) bs d2" d1]
        same [of d2 d1] by simp
    with charged(3) show ?thesis by (simp add: detach)
  qed
qed

text \<open>
  After a granted reservation no budget of the item is left to charge for this attempt, so
  asking again (a retry after a crash, a second worker step) charges nothing more.
\<close>

lemma uncharged_after_reserve:
  assumes "schema_ok d" "reserve_queue_item_upstream_request rid t d = (None, d')"
  shows "uncharged_budget_ids (queue_item_upstream_budget_attempt_state rid d') = []"
  using assms(2)
proof (cases rule: reserve_queue_item_cases)
  case (charged invalid st bs d1 d2)
  have "b \<notin> set (uncharged_budget_ids (queue_item_upstream_budget_attempt_state rid d'))" for b
  proof
    assume "b \<in> set (uncharged_budget_ids (queue_item_upstream_budget_attempt_state rid d'))"
    then obtain r m where r: "get_queue_row rid d' = Some r"
      and m: "m \<in> set (memberships d')" "bm_request_id m = rid" "bm_budget_id m = b"
        "bm_first_attempt_number m \<le> q_attempts_total r" "bm_last_charged_attempt m < q_attempts_total r"
      unfolding mem_uncharged by blast
    have "map_option q_attempts_total (get_queue_row rid d) = Some (q_attempts_total r)"
      using attempts_after_reserve [OF assms(2), of rid] r by simp
    then obtain r0 where r0: "get_queue_row rid d = Some r0" "q_attempts_total r0 = q_attempts_total r"
      by auto
    then have n: "attempt_number st = q_attempts_total r"
      by (simp add: charged(2) queue_item_upstream_budget_attempt_state_def Let_def)
    have d1m: "memberships d1 = filter (\<lambda>m. \<not> (bm_request_id m = rid \<and> bm_budget_id m \<in> fst ` set invalid))
        (memberships d)"
      using charged(3) by (simp add: detach_invalid_queue_budgets_def detach_memberships tbl_delete_def)
    have "\<exists>m0\<in>set (memberships d1). m = (if bm_request_id m0 = rid \<and> bm_budget_id m0 \<in> set bs
        then m0\<lparr>bm_last_charged_attempt := q_attempts_total r\<rparr> else m0)"
      using m(1) charged(5,6) n by (auto simp: mark_charged_def set_tbl_update split: if_splits)
    then obtain m0 where m0: "m0 \<in> set (memberships d1)" "m = (if bm_request_id m0 = rid \<and>
        bm_budget_id m0 \<in> set bs then m0\<lparr>bm_last_charged_attempt := q_attempts_total r\<rparr> else m0)"
      by blast
    with m have eq: "m = m0" "b \<notin> set bs" by (auto split: if_splits)
    have "m \<in> set (memberships d)" "b \<notin> fst ` set invalid" using m0(1) m(2,3) by (auto simp: eq d1m)
    moreover from this m r0 have "b \<in> set (uncharged_budget_ids st)"
      unfolding charged(2) mem_uncharged by fastforce
    ultimately show False using charged(7,8) eq(2) by auto
  qed
  then show ?thesis by (metis last_in_set)
qed simp

lemma reserve_nothing_left:
  assumes "uncharged_budget_ids (queue_item_upstream_budget_attempt_state rid d) = []"
    and "reserve_queue_item_upstream_request rid t d = (res, d')"
  shows "budgets d' = budgets d"
  using assms(2)
  by (cases rule: reserve_queue_item_cases) (simp_all add: assms(1) detach_invalid_queue_budgets_def)

subsection \<open>No budget is overspent\<close>

definition budgets_ok :: "db \<Rightarrow> bool" where
  "budgets_ok d \<longleftrightarrow> (\<forall>b\<in>set (budgets d). 0 < b_max_requests b \<and> 0 \<le> b_requests_started b \<and>
     b_requests_started b \<le> b_max_requests b)"

lemma budgets_ok_get:
  assumes "keyed b_budget_id (budgets d)"
  shows "budgets_ok d \<longleftrightarrow> (\<forall>k b. get_budget k d = Some b \<longrightarrow> 0 < b_max_requests b \<and>
     0 \<le> b_requests_started b \<and> b_requests_started b \<le> b_max_requests b)"
  by (auto simp: budgets_ok_def get_budget_def tbl_get_iff [OF assms])

lemma keyed_charge: "keyed b_budget_id (budgets d) \<Longrightarrow> keyed b_budget_id (budgets (fold (charge_budget t) bs d))"
proof (induction bs arbitrary: d)
  case (Cons b bs)
  have "keyed b_budget_id (budgets (charge_budget t b d))"
    using Cons.prems by (auto simp: charge_budget_def intro!: keyed_update)
  then show ?case using Cons.IH by simp
qed simp

lemma budgets_ok_charge:
  assumes "keyed b_budget_id (budgets d)" "budgets_ok d" "distinct bs"
    and "\<forall>b\<in>set bs. budget_error True t d b = None"
  shows "budgets_ok (fold (charge_budget t) bs d)"
proof -
  have "0 < b_max_requests b \<and> 0 \<le> b_requests_started b \<and> b_requests_started b \<le> b_max_requests b"
    if g: "get_budget k (fold (charge_budget t) bs d) = Some b" for k b
  proof -
    obtain b0 where b0: "get_budget k d = Some b0"
      and b: "b = (if k \<in> set bs then b0\<lparr>b_requests_started := b_requests_started b0 + 1, b_updated_at := t\<rparr> else b0)"
      using g by (auto simp: get_budget_charge_all [OF assms(3)])
    have ok: "0 < b_max_requests b0 \<and> 0 \<le> b_requests_started b0 \<and> b_requests_started b0 \<le> b_max_requests b0"
      using assms(2) b0 unfolding budgets_ok_get [OF assms(1)] by blast
    have "k \<in> set bs \<Longrightarrow> b_requests_started b0 < b_max_requests b0"
      using assms(4) b0 by (auto simp: budget_error_def split: if_splits)
    with ok b show ?thesis by auto
  qed
  then show ?thesis using keyed_charge [OF assms(1)] by (simp add: budgets_ok_get)
qed

lemma budgets_ok_reserve_item:
  assumes "schema_ok d" "budgets_ok d" "reserve_queue_item_upstream_request rid t d = (res, d')"
  shows "budgets_ok d'"
  using assms(3)
proof (cases rule: reserve_queue_item_cases)
  case (refused e invalid)
  then show ?thesis using assms(2) by (simp add: budgets_ok_def detach_invalid_queue_budgets_def)
next
  case (charged invalid st bs d1 d2)
  have bud: "budgets d1 = budgets d" by (simp add: charged(3) detach_invalid_queue_budgets_def)
  have "budgets_ok d2" unfolding charged(5)
  proof (rule budgets_ok_charge)
    show "keyed b_budget_id (budgets d1)" "budgets_ok d1"
      using bud assms(2) schema_okD(5) [OF assms(1)] by (simp_all add: budgets_ok_def)
    show "distinct bs" using charged(2,4) attempt_state_distinct [OF assms(1)] by simp
    show "\<forall>b\<in>set bs. budget_error True t d1 b = None"
      using charged(7) by (auto simp: chargeable_def budget_error_cong [OF bud])
  qed
  with charged(6) show ?thesis by (simp add: budgets_ok_def)
qed

lemma budgets_ok_reserve:
  assumes "schema_ok d" "budgets_ok d" "reserve_upstream_request b t d = (res, d')"
  shows "budgets_ok d'"
proof (cases "first_reserve_error [b] t d")
  case None
  then have "\<forall>k\<in>set [b]. budget_error True t d k = None" by (simp only: first_reserve_error_None)
  moreover have "d' = fold (charge_budget t) [b] d"
    using assms(3) None by (simp add: reserve_upstream_request_def reserve_upstream_budgets_def)
  ultimately show ?thesis
    using budgets_ok_charge [of d "[b]" t] assms(2) schema_okD(5) [OF assms(1)] by simp
next
  case (Some p)
  then have "budgets d' = budgets d"
    using assms(3) by (cases p) (auto simp: reserve_upstream_request_def reserve_upstream_budgets_def)
  then show ?thesis using assms(2) by (simp add: budgets_ok_def)
qed

subsection \<open>The effect of a spent budget on the queue\<close>

text \<open>What fail_active_upstream_budget_items leaves of an affected row, given the memberships.\<close>

definition remaining_budget :: "string \<Rightarrow> string \<Rightarrow> db \<Rightarrow> string option" where
  "remaining_budget budget_id request_id d =
     (case filter (\<lambda>m. bm_budget_id m \<noteq> budget_id) (membership_rows request_id d) of
        [] \<Rightarrow> None | m # _ \<Rightarrow> Some (bm_budget_id m))"

definition spent_row :: "string \<Rightarrow> string \<Rightarrow> string \<Rightarrow> datetime \<Rightarrow> db \<Rightarrow> queue_row \<Rightarrow> queue_row" where
  "spent_row budget_id category msg now d r =
     (let rest = remaining_budget budget_id (q_request_id r) d;
          r1 = r\<lparr>q_upstream_budget_id := rest\<rparr>
      in if q_unbudgeted_demand r \<or> rest \<noteq> None then r1
         else r1\<lparr>q_status := FAILED, q_updated_at := now, q_claimed_by := None, q_claimed_until := None,
                 q_gate_closed := False, q_next_attempt_at := None, q_error_category := Some category,
                 q_error_message := Some (take 1000 msg)\<rparr>)"

lemma spent_row_key [simp]:
  "q_request_id (spent_row b c m t d r) = q_request_id r" "q_cache_key (spent_row b c m t d r) = q_cache_key r"
  by (simp_all add: spent_row_def Let_def)

lemma remaining_None: "remaining_budget b rid d = None \<longleftrightarrow>
    (\<forall>m\<in>set (memberships d). bm_request_id m = rid \<longrightarrow> bm_budget_id m = b)"
proof -
  have "remaining_budget b rid d = None \<longleftrightarrow> filter (\<lambda>m. bm_budget_id m \<noteq> b) (membership_rows rid d) = []"
    by (simp add: remaining_budget_def split: list.split)
  then show ?thesis by (auto simp: filter_empty_conv set_membership_rows)
qed

lemma fail_budget_item_step:
  assumes k: "keyed q_request_id (queue_items d)" and r: "get_queue_row rid d = Some r"
    and p: "pending (q_status r)"
  shows "fail_budget_item b c msg t rid (f, d) =
    (f + (if q_unbudgeted_demand r \<or> remaining_budget b rid d \<noteq> None then 0 else 1),
     d\<lparr>memberships := tbl_delete (\<lambda>m. bm_request_id m = rid \<and> bm_budget_id m = b) (memberships d),
       queue_items := map (\<lambda>x. if q_request_id x = rid then spent_row b c msg t d x else x) (queue_items d)\<rparr>)"
proof -
  let ?ms = "tbl_delete (\<lambda>m. bm_request_id m = rid \<and> bm_budget_id m = b) (memberships d)"
  define rest where "rest = remaining_budget b rid d"
  define d1 where "d1 = detach_queue_budget_memberships rid [b] d"
  have rows: "membership_rows rid (d\<lparr>memberships := ?ms\<rparr>) =
      filter (\<lambda>m. bm_budget_id m \<noteq> b) (membership_rows rid d)"
    by (simp add: membership_rows_def tbl_delete_def filter_sort [symmetric] conj_commute)
      (metis (mono_tags, lifting))
  have d1: "d1 = d\<lparr>memberships := ?ms, queue_items := tbl_update (\<lambda>x. q_request_id x = rid)
      (\<lambda>x. x\<lparr>q_upstream_budget_id := rest\<rparr>) (queue_items d)\<rparr>"
    by (simp add: d1_def detach_queue_budget_memberships_def Let_def rows rest_def remaining_budget_def)
  have id: "q_request_id r = rid" using r by (auto simp: get_queue_row_def dest: tbl_get_SomeD)
  have row: "get_queue_row rid d1 = Some (r\<lparr>q_upstream_budget_id := rest\<rparr>)"
    using r id by (simp add: d1 get_queue_row_def table_simps)
  have more: "(\<exists>m\<in>set (memberships d1). bm_request_id m = rid) \<longleftrightarrow> rest \<noteq> None"
    by (auto simp: d1 rest_def remaining_None set_tbl_delete)
  have uniq: "x = r" if "x \<in> set (queue_items d)" "q_request_id x = rid" for x
    using keyed_eqI [OF k that(1)] that(2) id r tbl_get_SomeD unfolding get_queue_row_def by metis
  show ?thesis
  proof (cases "q_unbudgeted_demand r \<or> rest \<noteq> None")
    case True
    have "map (\<lambda>x. if q_request_id x = rid then spent_row b c msg t d x else x) (queue_items d) =
        queue_items d1"
      using True uniq by (auto simp: d1 tbl_update_def spent_row_def Let_def rest_def [symmetric])
    moreover have "fail_budget_item b c msg t rid (f, d) = (f, d1)"
      using True row more by (auto simp: fail_budget_item_def Let_def d1_def [symmetric])
    ultimately show ?thesis using True by (simp add: d1 rest_def [symmetric])
  next
    case False
    let ?P = "\<lambda>x. q_request_id x = rid \<and> pending (q_status x)"
    have "keyed q_request_id (queue_items d1)" using k by (simp add: d1 keyed_update)
    then have one: "tbl_count ?P (queue_items d1) = 1"
      using row p by (simp add: tbl_count_keyed get_queue_row_def)
    have "map (\<lambda>x. if q_request_id x = rid then spent_row b c msg t d x else x) (queue_items d) =
        tbl_update ?P (\<lambda>r. r\<lparr>q_status := FAILED, q_updated_at := t, q_claimed_by := None,
              q_claimed_until := None, q_gate_closed := False, q_next_attempt_at := None,
              q_error_category := Some c, q_error_message := Some (take 1000 msg)\<rparr>) (queue_items d1)"
      using False uniq p by (auto simp: d1 tbl_update_def spent_row_def Let_def rest_def [symmetric])
    moreover have "fail_budget_item b c msg t rid (f, d) = (f + 1,
        d1\<lparr>queue_items := tbl_update ?P (\<lambda>r. r\<lparr>q_status := FAILED, q_updated_at := t, q_claimed_by := None,
              q_claimed_until := None, q_gate_closed := False, q_next_attempt_at := None,
              q_error_category := Some c, q_error_message := Some (take 1000 msg)\<rparr>) (queue_items d1)\<rparr>)"
      using False row more one by (auto simp: fail_budget_item_def Let_def d1_def [symmetric])
    ultimately show ?thesis using False by (simp add: d1 rest_def [symmetric])
  qed
qed

lemma fail_budget_items:
  assumes "keyed q_request_id (queue_items d)" "distinct rids"
    and "\<And>rid. rid \<in> set rids \<Longrightarrow> \<exists>r. get_queue_row rid d = Some r \<and> pending (q_status r)"
  shows "snd (fold (fail_budget_item b c msg t) rids (f, d)) =
     d\<lparr>memberships := tbl_delete (\<lambda>m. bm_request_id m \<in> set rids \<and> bm_budget_id m = b) (memberships d),
       queue_items := map (\<lambda>x. if q_request_id x \<in> set rids then spent_row b c msg t d x else x) (queue_items d)\<rparr>"
  using assms
proof (induction rids arbitrary: d f)
  case Nil
  then show ?case by (simp add: tbl_delete_def)
next
  case (Cons rid rids)
  obtain r where r: "get_queue_row rid d = Some r" "pending (q_status r)" using Cons.prems(3) by auto
  define g where "g = (\<lambda>x. if q_request_id x = rid then spent_row b c msg t d x else x)"
  define d1 where "d1 = d\<lparr>memberships := tbl_delete (\<lambda>m. bm_request_id m = rid \<and> bm_budget_id m = b)
      (memberships d), queue_items := map g (queue_items d)\<rparr>"
  obtain f1 where step: "fail_budget_item b c msg t rid (f, d) = (f1, d1)"
    using fail_budget_item_step [OF Cons.prems(1) r] by (simp add: d1_def g_def)
  have gk: "q_request_id (g x) = q_request_id x" for x by (simp add: g_def)
  have k1: "keyed q_request_id (queue_items d1)"
    using Cons.prems(1) by (simp add: d1_def keyed_map gk)
  have p1: "\<exists>r. get_queue_row k d1 = Some r \<and> pending (q_status r)" if k: "k \<in> set rids" for k
  proof -
    have "k \<noteq> rid" using k Cons.prems(2) by auto
    obtain x where x: "get_queue_row k d = Some x" "pending (q_status x)"
      using k Cons.prems(3) [of k] by auto
    then have "q_request_id x = k" unfolding get_queue_row_def using tbl_get_SomeD by metis
    note x = x this
    from x have "get_queue_row k d1 = Some (g x)"
      by (simp add: d1_def get_queue_row_def tbl_get_map gk)
    with x \<open>k \<noteq> rid\<close> show ?thesis by (simp add: g_def)
  qed
  have rows: "membership_rows k d1 = membership_rows k d" if "k \<noteq> rid" for k
    using that by (auto simp: membership_rows_def d1_def tbl_delete_def intro!: arg_cong [where f = "sort_key _"] filter_cong)
  have spent: "spent_row b c msg t d1 x = spent_row b c msg t d x" if "q_request_id x \<noteq> rid" for x
    using rows [OF that] by (simp add: spent_row_def remaining_budget_def)
  have qs: "map (\<lambda>x. if q_request_id x \<in> set rids then spent_row b c msg t d1 x else x) (queue_items d1) =
      map (\<lambda>x. if q_request_id x \<in> set (rid # rids) then spent_row b c msg t d x else x) (queue_items d)"
    using spent Cons.prems(2) by (auto simp: d1_def g_def)
  have ms: "tbl_delete (\<lambda>m. bm_request_id m \<in> set rids \<and> bm_budget_id m = b) (memberships d1) =
      tbl_delete (\<lambda>m. bm_request_id m \<in> set (rid # rids) \<and> bm_budget_id m = b) (memberships d)"
    by (auto simp: d1_def tbl_delete_def intro: filter_cong)
  have "snd (fold (fail_budget_item b c msg t) (rid # rids) (f, d)) =
     d1\<lparr>memberships := tbl_delete (\<lambda>m. bm_request_id m \<in> set rids \<and> bm_budget_id m = b) (memberships d1),
       queue_items := map (\<lambda>x. if q_request_id x \<in> set rids then spent_row b c msg t d1 x else x) (queue_items d1)\<rparr>"
    using Cons.IH [OF k1 _ p1] Cons.prems(2) by (simp add: step)
  then show ?case unfolding qs ms by (simp add: d1_def)
qed

lemma fail_active_queue:
  assumes "schema_ok d" "fail_active_upstream_budget_items b c msg t d = (n, d')"
  shows "queue_items d' = map (\<lambda>x. if q_request_id x \<in> set (budget_affected b d)
        then spent_row b c msg t d x else x) (queue_items d)"
    and "memberships d' = tbl_delete (\<lambda>m. bm_request_id m \<in> set (budget_affected b d) \<and> bm_budget_id m = b)
        (memberships d)"
    and "budgets d' = budgets d"
proof -
  have k: "keyed q_request_id (queue_items d)" using schema_okD(4) [OF assms(1)] .
  have dist: "distinct (budget_affected b d)"
    using k by (simp add: budget_affected_def keyed_def distinct_map_filter)
  have ex: "\<exists>r. get_queue_row rid d = Some r \<and> pending (q_status r)" if "rid \<in> set (budget_affected b d)" for rid
    using that tbl_get_iff [OF k] by (auto simp: budget_affected_def get_queue_row_def)
  obtain n1 d1 where fold: "fold (fail_budget_item b c msg t) (budget_affected b d) (0, d) = (n1, d1)"
    by fastforce
  have d1: "d1 = d\<lparr>memberships := tbl_delete (\<lambda>m. bm_request_id m \<in> set (budget_affected b d) \<and> bm_budget_id m = b) (memberships d),
       queue_items := map (\<lambda>x. if q_request_id x \<in> set (budget_affected b d) then spent_row b c msg t d x else x) (queue_items d)\<rparr>"
    using fail_budget_items [OF k dist ex, of b c msg t 0] by (simp add: fold)
  have d': "d' = (if budget_affected b d = [] then d1 else record_event ''upstream_budget_queue_reconciled''
     [(''budget_id'', JStr b), (''items_total'', JInt (int (length (budget_affected b d)))),
             (''detached_total'', JInt (int (length (budget_affected b d)))), (''failed_total'', JInt n1),
             (''preserved_total'', JInt (int (length (budget_affected b d)) - n1)),
             (''error_category'', JStr c)] d1)"
    using assms(2) fold by (simp add: fail_active_upstream_budget_items_def Let_def)
  show "queue_items d' = map (\<lambda>x. if q_request_id x \<in> set (budget_affected b d)
        then spent_row b c msg t d x else x) (queue_items d)"
    "memberships d' = tbl_delete (\<lambda>m. bm_request_id m \<in> set (budget_affected b d) \<and> bm_budget_id m = b)
        (memberships d)" "budgets d' = budgets d"
    by (simp_all add: d' d1)
qed

lemma spent_row_pending:
  "pending (q_status (spent_row b c m t d r)) \<Longrightarrow> pending (q_status r)"
  by (auto simp: spent_row_def Let_def split: if_splits)

subsection \<open>The constraints are kept\<close>

lemma schema_ok_budgets_map:
  assumes "schema_ok d" and "\<And>b. b_budget_id (f b) = b_budget_id b"
  shows "schema_ok (d\<lparr>budgets := map f (budgets d)\<rparr>)"
  using assms(1)
  by (simp add: schema_ok_def get_queue_row_def get_budget_def tbl_get_map keyed_map assms(2))

lemma schema_ok_detach:
  assumes "schema_ok d"
  shows "schema_ok (detach_queue_budget_memberships rid bs d)"
proof -
  define d1 where "d1 = d\<lparr>memberships := tbl_delete (\<lambda>m. bm_request_id m = rid \<and> bm_budget_id m \<in> set bs) (memberships d)\<rparr>"
  have d1: "schema_ok d1"
    unfolding d1_def using assms
    by (intro schema_ok_memberships_sub keyed_delete schema_okD(6)) (auto simp: tbl_delete_def)
  have del: "(if bs = [] then d else d1) = d1" by (simp add: d1_def tbl_delete_def)
  have "detach_queue_budget_memberships rid bs d =
    d1\<lparr>queue_items := map (\<lambda>r. if q_request_id r = rid then r\<lparr>q_upstream_budget_id :=
         (case membership_rows rid d1 of [] \<Rightarrow> None | m # _ \<Rightarrow> Some (bm_budget_id m))\<rparr> else r) (queue_items d1)\<rparr>"
    unfolding detach_queue_budget_memberships_def Let_def d1_def [symmetric] del
    by (simp add: tbl_update_def)
  then show ?thesis using schema_ok_queue_map [OF d1] by simp
qed

lemma schema_ok_events: "schema_ok d \<Longrightarrow> schema_ok (fold (exhausted_event rid) es d)"
  by (induction es arbitrary: d) (auto simp: exhausted_event_def intro: schema_ok_record_event)

lemma schema_ok_detach_invalid: "schema_ok d \<Longrightarrow> schema_ok (detach_invalid_queue_budgets rid es d)"
  by (simp add: detach_invalid_queue_budgets_def schema_ok_detach schema_ok_events)

lemma schema_ok_charge: "schema_ok d \<Longrightarrow> schema_ok (fold (charge_budget t) bs d)"
proof (induction bs arbitrary: d)
  case (Cons b bs)
  have "schema_ok (charge_budget t b d)"
    unfolding charge_budget_def tbl_update_def using Cons.prems by (intro schema_ok_budgets_map) auto
  then show ?case using Cons.IH by simp
qed simp

lemma schema_ok_mark: "schema_ok d \<Longrightarrow> schema_ok (mark_charged rid n bs d)"
  unfolding mark_charged_def
  by (intro schema_ok_memberships_sub keyed_update schema_okD(6)) (auto simp: set_tbl_update)

lemma schema_ok_gate: "schema_ok d \<Longrightarrow> schema_ok (close_gate rid d)"
  unfolding close_gate_def tbl_update_def by (intro schema_ok_queue_map) auto

lemma schema_ok_reserve_item [table_intros]:
  assumes "schema_ok d" "reserve_queue_item_upstream_request rid t d = (res, d')"
  shows "schema_ok d'"
  using assms(2)
proof (cases rule: reserve_queue_item_cases)
  case (refused e invalid)
  then show ?thesis using assms(1) by (simp add: schema_ok_detach_invalid)
next
  case (charged invalid st bs d1 d2)
  then show ?thesis using assms(1)
    by (simp add: schema_ok_detach_invalid schema_ok_charge schema_ok_mark schema_ok_gate)
qed

lemma schema_ok_check_item [table_intros]:
  "schema_ok d \<Longrightarrow> schema_ok (snd (check_queue_item_upstream_request_deadlines rid t d))"
  by (simp add: check_queue_item_upstream_request_deadlines_def Let_def schema_ok_detach_invalid)

lemma schema_ok_create_budget [table_intros]:
  assumes "schema_ok d"
  shows "schema_ok (snd (create_upstream_request_budget n dl b t d))"
proof (cases "n \<le> 0 \<or> get_budget b d \<noteq> None")
  case True
  with assms show ?thesis by (auto simp: create_upstream_request_budget_def)
next
  case False
  define row where "row = \<lparr>b_budget_id = b, b_max_requests = n, b_requests_started = 0,
    b_deadline_at = map_option ensure_utc dl, b_created_at = t, b_updated_at = t\<rparr>"
  have fresh: "tbl_get b_budget_id (b_budget_id row) (budgets d) = None"
    using False by (simp add: row_def get_budget_def)
  have "keyed b_budget_id (budgets d @ [row])"
    using keyed_snoc [OF schema_okD(5) [OF assms] fresh] .
  then have "schema_ok (d\<lparr>budgets := budgets d @ [row]\<rparr>)"
    using assms by (auto simp: schema_ok_def get_queue_row_def get_budget_def tbl_get_append)
  then show ?thesis
    using False by (simp add: create_upstream_request_budget_def Let_def row_def schema_ok_record_event)
qed

lemma schema_ok_fail_active [table_intros]:
  assumes "schema_ok d"
  shows "schema_ok (snd (fail_active_upstream_budget_items b c msg t d))"
proof -
  have step: "schema_ok (snd (fail_budget_item b c msg t rid (n, d)))" if "schema_ok d" for rid n d
  proof -
    have d1: "schema_ok (detach_queue_budget_memberships rid [b] d)" using that by (rule schema_ok_detach)
    show ?thesis unfolding fail_budget_item_def Let_def tbl_update_def
      by (auto split: option.split if_splits intro!: d1 schema_ok_queue_map [OF d1])
  qed
  have "schema_ok (snd (fold (fail_budget_item b c msg t) rids (n, d)))" for rids n
    using assms
  proof (induction rids arbitrary: n d)
    case (Cons rid rids)
    then show ?case using step [of d rid n] by (cases "fail_budget_item b c msg t rid (n, d)") simp
  qed simp
  from this [of "budget_affected b d" 0] show ?thesis
    by (auto simp: fail_active_upstream_budget_items_def Let_def split: prod.split intro: schema_ok_record_event)
qed

subsection \<open>A concrete store\<close>

definition sample_request :: arxiv_request where
  "sample_request = \<lparr>client_id = ''c'', search_query = None, id_list = [''2401.00001''],
     req_sort_by = SubmittedDate, req_sort_order = Descending, start = 0, max_results = 1,
     submitted_start = None, submitted_end = None, req_cache_policy = CACHE_OR_ENQUEUE,
     readiness = RAW_COMPLETED, req_maturity_lag_days = None, priority = 0, timeout_seconds = None,
     refresh_interval_seconds = 60, req_api_family = Legacy_search\<rparr>"

definition sample_row :: queue_row where
  "sample_row = \<lparr>q_request_id = ''r'', q_cache_key = ''k'', q_client_id = ''c'',
     q_request = sample_request, q_priority = 0, q_status = CLAIMED, q_work_kind = FETCH_MISSING,
     q_upstream_budget_id = Some ''b'', q_gate_closed = False, q_unbudgeted_demand = False,
     q_created_at = 0, q_updated_at = 0, q_claimed_by = Some ''w'', q_claimed_until = Some 100,
     q_attempts_total = 1, q_next_attempt_at = None, q_completed_at = None,
     q_error_category = None, q_error_message = None\<rparr>"

definition sample_store :: db where
  "sample_store = (empty_db (\<lambda>_. 0))\<lparr>queue_items := [sample_row],
     budgets := [\<lparr>b_budget_id = ''b'', b_max_requests = 2, b_requests_started = 0,
       b_deadline_at = Some 50, b_created_at = 0, b_updated_at = 0\<rparr>],
     memberships := [\<lparr>bm_request_id = ''r'', bm_budget_id = ''b'', bm_created_at = 0,
       bm_first_attempt_number = 1, bm_last_charged_attempt = 0\<rparr>]\<rparr>"

lemma sample_store_ok: "schema_ok sample_store" "budgets_ok sample_store"
  by (auto simp: sample_store_def empty_db_def schema_ok_def one_pending_per_key_def sample_row_def
      get_queue_row_def get_budget_def tbl_get_Cons keyed_Cons budgets_ok_def)

subsection \<open>Properties\<close>

text \<open>
  C6. reserve_queue_item_upstream_request either refuses the attempt
  and leaves every budget as it was, or grants it and charges one attempt to each budget that is
  joined to the item's current attempt, not yet charged for it, before its deadline and below
  its limit, and to no other budget.
\<close>

theorem budget_reservation_exact:
  assumes "schema_ok d"
  shows "if fst (reserve_queue_item_upstream_request rid t d) = None
    then (\<forall>b. get_upstream_request_budget_requests_started b (snd (reserve_queue_item_upstream_request rid t d)) =
          map_option (\<lambda>n. if b \<in> chargeable rid t d then n + 1 else n)
            (get_upstream_request_budget_requests_started b d))
    else budgets (snd (reserve_queue_item_upstream_request rid t d)) = budgets d"
proof -
  obtain res d' where r: "reserve_queue_item_upstream_request rid t d = (res, d')" by fastforce
  have "map_option b_requests_started (map_option (\<lambda>r. if c then r\<lparr>b_requests_started := b_requests_started r + 1,
        b_updated_at := t\<rparr> else r) x) = map_option (\<lambda>n. if c then n + 1 else n) (map_option b_requests_started x)"
    for c and x :: "budget_row option" by (cases x) auto
  with reserve_queue_item_budgets [OF assms r] show ?thesis
    by (cases res) (simp_all add: r get_upstream_request_budget_requests_started_def)
qed

theorem budget_reservation_exact_witness:
  "fst (reserve_queue_item_upstream_request ''r'' 10 sample_store) = None \<and>
   get_upstream_request_budget_requests_started ''b''
     (snd (reserve_queue_item_upstream_request ''r'' 10 sample_store)) = Some 1 \<and>
   ''b'' \<in> chargeable ''r'' 10 sample_store \<and>
   budgets (snd (reserve_queue_item_upstream_request ''r'' 60 sample_store)) = budgets sample_store"
proof -
  have a: "fst (reserve_queue_item_upstream_request ''r'' 10 sample_store) = None"
    "fst (reserve_queue_item_upstream_request ''r'' 60 sample_store) = Some ''deadline_budget_exceeded''"
    "get_upstream_request_budget_requests_started ''b''
     (snd (reserve_queue_item_upstream_request ''r'' 10 sample_store)) = Some 1"
    "''b'' \<in> chargeable ''r'' 10 sample_store"
    by (code_simp)+
  with budget_reservation_exact [OF sample_store_ok(1), of "''r''" 60] show ?thesis by simp
qed

text \<open>
  C14. A granted attempt is charged once: asking for the same attempt
  again, at any later time and whatever the answer, changes no budget.
\<close>

theorem charged_once_per_attempt:
  assumes "schema_ok d" "reserve_queue_item_upstream_request rid t d = (None, d1)"
  shows "budgets (snd (reserve_queue_item_upstream_request rid t' d1)) = budgets d1"
proof -
  obtain res d2 where "reserve_queue_item_upstream_request rid t' d1 = (res, d2)" by fastforce
  with reserve_nothing_left [OF uncharged_after_reserve [OF assms] this] show ?thesis by simp
qed

theorem charged_once_per_attempt_witness:
  "let d1 = snd (reserve_queue_item_upstream_request ''r'' 10 sample_store)
   in budgets (snd (reserve_queue_item_upstream_request ''r'' 20 d1)) = budgets d1 \<and>
      budgets d1 \<noteq> budgets sample_store"
proof -
  have r: "reserve_queue_item_upstream_request ''r'' 10 sample_store =
    (None, snd (reserve_queue_item_upstream_request ''r'' 10 sample_store))"
    by (rule prod_eqI, code_simp, simp)
  have ne: "map b_requests_started (budgets (snd (reserve_queue_item_upstream_request ''r'' 10 sample_store))) = [1]"
    "map b_requests_started (budgets sample_store) = [0]" by code_simp+
  show ?thesis unfolding Let_def
    using charged_once_per_attempt [OF sample_store_ok(1) r, of 20] ne by auto
qed

text \<open>
  C15. fail_active_upstream_budget_items on a budget: afterwards
  no pending item is joined to it; every item keeps its identity and its work; an item fails
  only if it was pending and joined to this budget alone, without unbudgeted demand, and exactly
  those items fail.
\<close>

theorem spent_budget_spares_other_demand:
  assumes "schema_ok d"
  shows "let d' = snd (fail_active_upstream_budget_items b c msg t d) in
     (\<forall>r\<in>set (queue_items d'). pending (q_status r) \<longrightarrow>
        (\<forall>m\<in>set (memberships d'). bm_request_id m = q_request_id r \<longrightarrow> bm_budget_id m \<noteq> b)) \<and>
     map q_request_id (queue_items d') = map q_request_id (queue_items d) \<and>
     (\<forall>r\<in>set (queue_items d). \<exists>r'\<in>set (queue_items d'). q_request_id r' = q_request_id r \<and>
         q_cache_key r' = q_cache_key r \<and> q_request r' = q_request r \<and>
         q_status r' = (if q_request_id r \<in> set (budget_affected b d) \<and> \<not> q_unbudgeted_demand r \<and>
              (\<forall>m\<in>set (memberships d). bm_request_id m = q_request_id r \<longrightarrow> bm_budget_id m = b)
            then FAILED else q_status r))"
proof -
  define d' where "d' = snd (fail_active_upstream_budget_items b c msg t d)"
  obtain n where run: "fail_active_upstream_budget_items b c msg t d = (n, d')"
    using surjective_pairing unfolding d'_def by blast
  note q = fail_active_queue [OF assms(1) run]
  let ?f = "\<lambda>x. if q_request_id x \<in> set (budget_affected b d) then spent_row b c msg t d x else x"
  have aff: "q_request_id x \<in> set (budget_affected b d)"
    if "x \<in> set (queue_items d)" "pending (q_status x)" "m \<in> set (memberships d)"
      "bm_request_id m = q_request_id x" "bm_budget_id m = b" for x m
    using that by (auto simp: budget_affected_def)
  have "\<forall>r\<in>set (queue_items d'). pending (q_status r) \<longrightarrow>
      (\<forall>m\<in>set (memberships d'). bm_request_id m = q_request_id r \<longrightarrow> bm_budget_id m \<noteq> b)"
  proof (intro ballI impI)
    fix r m assume r: "r \<in> set (queue_items d')" "pending (q_status r)"
      and m: "m \<in> set (memberships d')" "bm_request_id m = q_request_id r"
    obtain x where x: "x \<in> set (queue_items d)" "r = ?f x" using r(1) q(1) by auto
    have "pending (q_status x)" using r(2) x(2) spent_row_pending by (auto split: if_splits)
    with aff [OF x(1) this, of m] m x(2) show "bm_budget_id m \<noteq> b"
      by (auto simp: q(2) set_tbl_delete split: if_splits)
  qed
  moreover have "map q_request_id (queue_items d') = map q_request_id (queue_items d)"
    by (simp add: q(1))
  moreover have "\<exists>r'\<in>set (queue_items d'). q_request_id r' = q_request_id r \<and>
         q_cache_key r' = q_cache_key r \<and> q_request r' = q_request r \<and>
         q_status r' = (if q_request_id r \<in> set (budget_affected b d) \<and> \<not> q_unbudgeted_demand r \<and>
              (\<forall>m\<in>set (memberships d). bm_request_id m = q_request_id r \<longrightarrow> bm_budget_id m = b)
            then FAILED else q_status r)" if "r \<in> set (queue_items d)" for r
  proof -
  from that have "?f r \<in> set (queue_items d')" by (auto simp: q(1))
  then show ?thesis
    using remaining_None [of b "q_request_id r" d]
    by (intro bexI [where x = "?f r"]) (auto simp: spent_row_def Let_def)
  qed
  ultimately show ?thesis unfolding Let_def d'_def [symmetric] by blast
qed

theorem spent_budget_spares_other_demand_witness:
  "map q_status (queue_items (snd (fail_active_upstream_budget_items ''b'' ''budget'' ''m'' 7 sample_store))) = [FAILED] \<and>
   map q_request_id (queue_items (snd (fail_active_upstream_budget_items ''b'' ''budget'' ''m'' 7 sample_store))) = [''r'']"
proof -
  have "map q_status (queue_items (snd (fail_active_upstream_budget_items ''b'' ''budget'' ''m'' 7 sample_store))) = [FAILED]"
    by code_simp
  moreover have "map q_request_id (queue_items (snd (fail_active_upstream_budget_items ''b'' ''budget'' ''m'' 7
      sample_store))) = map q_request_id (queue_items sample_store)"
    using spent_budget_spares_other_demand [OF sample_store_ok(1), of "''b''" "''budget''" "''m''" 7]
    by (simp only: Let_def)
  ultimately show ?thesis by (simp add: sample_store_def sample_row_def)
qed

end
