(* ===== verification/Huldra_Queue.thy ===== *)
theory Huldra_Queue
  imports Huldra_Budgets
begin

text \<open>
  The request queue (huldra/db.py: enqueue_request_for_work, enqueue_refresh_if_due,
  claim_next_queue_item, renew_queue_claim, complete_queue_item, release_or_delay_queue_item).
  There is at most one pending item per cache key; a request for work that is already pending
  joins it.
\<close>

subsection \<open>Enqueueing\<close>

text \<open>request.timeout_seconds or default_timeout_seconds.\<close>

definition timeout_or :: "seconds option \<Rightarrow> seconds \<Rightarrow> seconds" where
  "timeout_or t dflt = (case t of None \<Rightarrow> dflt | Some x \<Rightarrow> if x = 0 then dflt else x)"

definition default_work_kind :: "arxiv_request \<Rightarrow> queue_work_kind" where
  "default_work_kind r =
     (if req_cache_policy r = STALE_WHILE_REVALIDATE then REFRESH_COMPLETED else FETCH_MISSING)"

definition pending_row :: "string \<Rightarrow> db \<Rightarrow> queue_row option" where
  "pending_row cache_key d =
     (case sort_key q_created_at
        (filter (\<lambda>r. q_cache_key r = cache_key \<and> pending (q_status r)) (queue_items d)) of
        [] \<Rightarrow> None | r # _ \<Rightarrow> Some r)"

text \<open>The request and work kind a join leaves on the pending item, None for no rewrite.\<close>

definition join_kind :: "queue_work_kind \<Rightarrow> queue_row \<Rightarrow> queue_work_kind" where
  "join_kind work_kind r =
     (if work_kind = REFRESH_COMPLETED \<and> q_work_kind r \<noteq> REFRESH_COMPLETED
      then REFRESH_COMPLETED else q_work_kind r)"

definition join_replacement ::
  "arxiv_request \<Rightarrow> queue_work_kind \<Rightarrow> seconds \<Rightarrow> queue_row \<Rightarrow> arxiv_request option" where
  "join_replacement request work_kind dflt r =
     (let existing = q_request r;
          replacement =
            (if work_kind = REFRESH_COMPLETED
             then if q_work_kind r \<noteq> REFRESH_COMPLETED then Some request
                  else if refresh_interval_seconds request < refresh_interval_seconds existing
                  then Some (existing\<lparr>refresh_interval_seconds := refresh_interval_seconds request\<rparr>)
                  else None
             else None);
          merged = (case replacement of None \<Rightarrow> existing | Some q \<Rightarrow> q);
          timeout = max (timeout_or (timeout_seconds existing) dflt)
                        (timeout_or (timeout_seconds request) dflt);
          prio = max (priority existing) (priority request)
      in if timeout_seconds merged \<noteq> Some timeout \<or> priority merged \<noteq> prio
         then Some (merged\<lparr>timeout_seconds := Some timeout, priority := prio\<rparr>)
         else replacement)"

definition joins_current_attempt :: "queue_row \<Rightarrow> bool" where
  "joins_current_attempt r \<longleftrightarrow> q_status r = CLAIMED \<and> \<not> q_gate_closed r"

definition first_attempt_number :: "queue_row \<Rightarrow> int" where
  "first_attempt_number r =
     max 1 (if joins_current_attempt r then q_attempts_total r else q_attempts_total r + 1)"

text \<open>The three UPDATE statements of a join, on the pending row.\<close>

definition join_row ::
  "arxiv_request \<Rightarrow> queue_work_kind \<Rightarrow> string option \<Rightarrow> seconds \<Rightarrow> datetime \<Rightarrow> queue_row \<Rightarrow> queue_row" where
  "join_row request work_kind budget_id dflt now r =
     (let r1 = (case join_replacement request work_kind dflt r of
            None \<Rightarrow> r
          | Some q \<Rightarrow> r\<lparr>q_work_kind := join_kind work_kind r, q_request := q,
                       q_priority := priority q, q_updated_at := now\<rparr>);
          r2 = (if budget_id = None \<and> \<not> q_unbudgeted_demand r
                then r1\<lparr>q_unbudgeted_demand := True, q_updated_at := now\<rparr> else r1)
      in case budget_id of
           None \<Rightarrow> r2
         | Some b \<Rightarrow> r2\<lparr>q_upstream_budget_id := coalesce (q_upstream_budget_id r2) (Some b),
                       q_updated_at := now\<rparr>)"

text \<open>INSERT OR IGNORE INTO queue_item_upstream_budgets; the foreign key still applies.\<close>

definition insert_membership ::
  "string \<Rightarrow> string \<Rightarrow> datetime \<Rightarrow> int \<Rightarrow> membership_row list \<Rightarrow> membership_row list" where
  "insert_membership request_id budget_id now first_attempt ms =
     (if tbl_get (\<lambda>m. (bm_request_id m, bm_budget_id m)) (request_id, budget_id) ms = None
      then ms @ [\<lparr>bm_request_id = request_id, bm_budget_id = budget_id, bm_created_at = now,
                  bm_first_attempt_number = first_attempt, bm_last_charged_attempt = 0\<rparr>]
      else ms)"

definition new_queue_row ::
  "arxiv_request \<Rightarrow> string \<Rightarrow> queue_work_kind \<Rightarrow> string option \<Rightarrow> datetime \<Rightarrow> string \<Rightarrow> queue_row" where
  "new_queue_row request cache_key work_kind budget_id now request_id =
     \<lparr>q_request_id = request_id, q_cache_key = cache_key, q_client_id = client_id request,
      q_request = request, q_priority = priority request, q_status = QUEUED,
      q_work_kind = work_kind, q_upstream_budget_id = budget_id, q_gate_closed = False,
      q_unbudgeted_demand = (budget_id = None), q_created_at = now, q_updated_at = now,
      q_claimed_by = None, q_claimed_until = None, q_attempts_total = 0, q_next_attempt_at = None,
      q_completed_at = None, q_error_category = None, q_error_message = None\<rparr>"

definition enqueue_request_for_work_conn ::
  "arxiv_request \<Rightarrow> string \<Rightarrow> queue_work_kind \<Rightarrow> string option \<Rightarrow> seconds \<Rightarrow> datetime \<Rightarrow> string \<Rightarrow> db
   \<Rightarrow> (store_error + queue_item \<times> bool) \<times> db" where
  "enqueue_request_for_work_conn request cache_key work_kind budget_id dflt now uuid d =
     (case pending_row cache_key d of
        Some r \<Rightarrow>
          if budget_id \<noteq> None \<and> get_budget (the budget_id) d = None
          then (Inl (IntegrityError ''FOREIGN KEY''), d)
          else (Inr (queue_item_from_row (join_row request work_kind budget_id dflt now r), True),
                d\<lparr>queue_items := tbl_update (\<lambda>x. q_request_id x = q_request_id r)
                     (join_row request work_kind budget_id dflt now) (queue_items d),
                  memberships := (case budget_id of None \<Rightarrow> memberships d
                     | Some b \<Rightarrow> insert_membership (q_request_id r) b now (first_attempt_number r)
                                  (memberships d))\<rparr>)
      | None \<Rightarrow>
          if get_queue_row uuid d \<noteq> None then (Inl (IntegrityError ''queue_items.request_id''), d)
          else if budget_id \<noteq> None \<and> get_budget (the budget_id) d = None
          then (Inl (IntegrityError ''FOREIGN KEY''), d)
          else
           (let row = new_queue_row request cache_key work_kind budget_id now uuid
            in (Inr (queue_item_from_row row, False),
                record_event ''request_enqueued''
                  [(''request_id'', JStr uuid), (''cache_key'', JStr cache_key),
                   (''client_id'', JStr (client_id request)),
                   (''work_kind'', JStr (work_kind_value work_kind))]
                  (d\<lparr>queue_items := queue_items d @ [row],
                     memberships := (case budget_id of None \<Rightarrow> memberships d
                       | Some b \<Rightarrow> insert_membership uuid b now 1 (memberships d))\<rparr>))))"

text \<open>cache_key is the caller's key, or request_cache_key request.\<close>

definition enqueue_request_for_work ::
  "arxiv_request \<Rightarrow> string \<Rightarrow> queue_work_kind option \<Rightarrow> string option \<Rightarrow> seconds \<Rightarrow> datetime \<Rightarrow> string \<Rightarrow> db
   \<Rightarrow> (store_error + queue_item \<times> bool) \<times> db" where
  "enqueue_request_for_work request cache_key work_kind budget_id dflt now uuid d =
     enqueue_request_for_work_conn request cache_key
       (case work_kind of Some k \<Rightarrow> k | None \<Rightarrow> default_work_kind request)
       budget_id dflt now uuid d"

subsection \<open>Refreshing completed entries\<close>

definition set_refresh_after :: "string \<Rightarrow> datetime option \<Rightarrow> db \<Rightarrow> db" where
  "set_refresh_after cache_key t d =
     d\<lparr>cache_entries := tbl_update (\<lambda>c. c_cache_key c = cache_key)
        (\<lambda>c. c\<lparr>c_refresh_after := t\<rparr>) (cache_entries d)\<rparr>"

definition requested_refresh_after :: "arxiv_request \<Rightarrow> cache_entry \<Rightarrow> datetime option" where
  "requested_refresh_after request c =
     map_option (\<lambda>t. expiry t (refresh_interval_seconds request)) (c_completed_at c)"

definition effective_refresh_after :: "arxiv_request \<Rightarrow> cache_entry \<Rightarrow> datetime option" where
  "effective_refresh_after request c =
     (case (requested_refresh_after request c, c_refresh_after c) of
        (Some q, None) \<Rightarrow> Some q
      | (Some q, Some a) \<Rightarrow> Some (if q < a then q else a)
      | (None, a) \<Rightarrow> a)"

definition enqueue_refresh_if_due ::
  "arxiv_request \<Rightarrow> string \<Rightarrow> seconds \<Rightarrow> datetime \<Rightarrow> string \<Rightarrow> db
   \<Rightarrow> (store_error + queue_item option \<times> bool) \<times> db" where
  "enqueue_refresh_if_due request cache_key dflt now uuid d =
     (let enqueue = (\<lambda>d. case enqueue_request_for_work_conn request cache_key REFRESH_COMPLETED None
              dflt now uuid d of
            (Inl e, d') \<Rightarrow> (Inl e, d') | (Inr (i, joined), d') \<Rightarrow> (Inr (Some i, joined), d'))
      in if pending_row cache_key d \<noteq> None then enqueue d
         else case get_cache_entry cache_key d of
           None \<Rightarrow> (Inr (None, False), d)
         | Some c \<Rightarrow>
             if c_status c \<noteq> ''completed'' then (Inr (None, False), d)
             else case effective_refresh_after request c of
               Some t \<Rightarrow>
                 if t > now
                 then (Inr (None, False),
                       if Some t \<noteq> c_refresh_after c then set_refresh_after cache_key (Some t) d else d)
                 else (case enqueue (set_refresh_after cache_key
                               (Some (expiry now (refresh_interval_seconds request))) d) of
                         (Inl e, _) \<Rightarrow> (Inl e, d) | ok \<Rightarrow> ok)
             | None \<Rightarrow>
                 (case enqueue (set_refresh_after cache_key
                               (Some (expiry now (refresh_interval_seconds request))) d) of
                    (Inl e, _) \<Rightarrow> (Inl e, d) | ok \<Rightarrow> ok))"

subsection \<open>Claiming\<close>

definition claimable :: "datetime \<Rightarrow> string list option \<Rightarrow> string list option \<Rightarrow> queue_row \<Rightarrow> bool" where
  "claimable now cache_keys request_ids r \<longleftrightarrow>
     ((q_status r = QUEUED \<or> q_status r = DELAYED) \<and>
        (case q_next_attempt_at r of None \<Rightarrow> True | Some t \<Rightarrow> t \<le> now) \<or>
      q_status r = CLAIMED \<and>
        (case q_claimed_until r of None \<Rightarrow> False | Some t \<Rightarrow> t \<le> now)) \<and>
     (case cache_keys of None \<Rightarrow> True | Some ks \<Rightarrow> q_cache_key r \<in> set ks) \<and>
     (case request_ids of None \<Rightarrow> True | Some ks \<Rightarrow> q_request_id r \<in> set ks)"

definition claim_row :: "string \<Rightarrow> datetime \<Rightarrow> datetime \<Rightarrow> queue_row \<Rightarrow> queue_row" where
  "claim_row owner_token until now r =
     r\<lparr>q_status := CLAIMED, q_claimed_by := Some owner_token, q_claimed_until := Some until,
       q_gate_closed := False, q_attempts_total := q_attempts_total r + 1, q_updated_at := now\<rparr>"

definition claim_next_queue_item ::
  "string \<Rightarrow> int \<Rightarrow> string list option \<Rightarrow> string list option \<Rightarrow> datetime \<Rightarrow> db \<Rightarrow> queue_item option \<times> db" where
  "claim_next_queue_item owner_token claim_timeout cache_keys request_ids now d =
     (if cache_keys = Some [] \<or> request_ids = Some [] then (None, d)
      else case sort_key (\<lambda>r. (- q_priority r, q_created_at r))
             (filter (claimable now cache_keys request_ids) (queue_items d)) of
        [] \<Rightarrow> (None, d)
      | r # _ \<Rightarrow>
          (let f = claim_row owner_token (expiry now claim_timeout) now;
               d' = d\<lparr>queue_items := tbl_update (\<lambda>x. q_request_id x = q_request_id r) f (queue_items d)\<rparr>
           in (get_queue_item (q_request_id r) d', d')))"

definition claim_owned :: "string \<Rightarrow> string \<Rightarrow> queue_row \<Rightarrow> bool" where
  "claim_owned request_id owner_token r \<longleftrightarrow>
     q_request_id r = request_id \<and> q_status r = CLAIMED \<and> q_claimed_by r = Some owner_token"

definition extend_claim :: "string \<Rightarrow> string \<Rightarrow> datetime \<Rightarrow> datetime \<Rightarrow> db \<Rightarrow> db" where
  "extend_claim request_id owner_token until now d =
     d\<lparr>queue_items := tbl_update (claim_owned request_id owner_token)
        (\<lambda>r. r\<lparr>q_claimed_until := Some until, q_updated_at := now\<rparr>) (queue_items d)\<rparr>"

definition renew_queue_claim ::
  "string \<Rightarrow> string \<Rightarrow> int \<Rightarrow> datetime \<Rightarrow> db \<Rightarrow> queue_item option \<times> db" where
  "renew_queue_claim request_id owner_token claim_timeout now d =
     (let d' = extend_claim request_id owner_token (expiry now claim_timeout) now d
      in if tbl_count (claim_owned request_id owner_token) (queue_items d) \<noteq> 1 then (None, d')
         else (get_queue_item request_id d', d'))"

subsection \<open>Finishing\<close>

definition complete_queue_item :: "string \<Rightarrow> datetime \<Rightarrow> db \<Rightarrow> db" where
  "complete_queue_item request_id now d =
     d\<lparr>queue_items := tbl_update (\<lambda>r. q_request_id r = request_id)
        (\<lambda>r. r\<lparr>q_status := COMPLETED, q_completed_at := Some now, q_updated_at := now,
              q_claimed_by := None, q_claimed_until := None, q_error_category := None,
              q_error_message := None\<rparr>) (queue_items d)\<rparr>"

text \<open>The partial unique index rejects a second pending row of a cache key; the rollback keeps d.\<close>

definition release_or_delay_queue_item ::
  "string \<Rightarrow> datetime option \<Rightarrow> string option \<Rightarrow> string option \<Rightarrow> request_status \<Rightarrow> datetime \<Rightarrow> db
   \<Rightarrow> (store_error + unit) \<times> db" where
  "release_or_delay_queue_item request_id next_attempt category msg status now d =
     (let d' = d\<lparr>queue_items := tbl_update (\<lambda>r. q_request_id r = request_id)
            (\<lambda>r. r\<lparr>q_status := status, q_next_attempt_at := next_attempt, q_updated_at := now,
                  q_claimed_by := None, q_claimed_until := None, q_gate_closed := False,
                  q_error_category := category, q_error_message := clip_message msg\<rparr>) (queue_items d)\<rparr>
      in if one_pending_per_key (queue_items d') then (Inr (), d')
         else (Inl (IntegrityError ''queue_items.cache_key''), d))"

subsection \<open>Lemmas\<close>

lemma sort_key_hd:
  assumes "sort_key k xs = r # rs"
  shows "r \<in> set xs" "x \<in> set xs \<Longrightarrow> k r \<le> k x"
proof -
  have s: "set xs = set (r # rs)" using assms by (metis set_sort)
  then show "r \<in> set xs" by simp
  have "sorted (map k (r # rs))" using assms by (metis sorted_sort_key)
  then show "x \<in> set xs \<Longrightarrow> k r \<le> k x" using s by auto
qed

lemma sort_key_Nil: "sort_key k xs = [] \<longleftrightarrow> xs = []"
  by (metis set_empty set_sort)

lemma pending_row_Some:
  "pending_row k d = Some r \<Longrightarrow> r \<in> set (queue_items d) \<and> q_cache_key r = k \<and> pending (q_status r)"
  by (auto simp: pending_row_def split: list.splits dest!: sort_key_hd(1))

lemma pending_row_None:
  "pending_row k d = None \<longleftrightarrow> (\<forall>r\<in>set (queue_items d). q_cache_key r = k \<longrightarrow> \<not> pending (q_status r))"
proof -
  have "pending_row k d = None \<longleftrightarrow> sort_key q_created_at
      (filter (\<lambda>r. q_cache_key r = k \<and> pending (q_status r)) (queue_items d)) = []"
    by (simp add: pending_row_def split: list.split)
  then show ?thesis by (auto simp: sort_key_Nil filter_empty_conv)
qed

lemma join_row_frame [simp]:
  "q_request_id (join_row q k b t n r) = q_request_id r" "q_cache_key (join_row q k b t n r) = q_cache_key r"
  "q_status (join_row q k b t n r) = q_status r" "q_claimed_by (join_row q k b t n r) = q_claimed_by r"
  "q_claimed_until (join_row q k b t n r) = q_claimed_until r"
  "q_created_at (join_row q k b t n r) = q_created_at r"
  "q_attempts_total (join_row q k b t n r) = q_attempts_total r"
  by (auto simp: join_row_def Let_def split: option.split)

lemma claim_row_frame [simp]:
  "q_request_id (claim_row w u n r) = q_request_id r" "q_cache_key (claim_row w u n r) = q_cache_key r"
  "q_status (claim_row w u n r) = CLAIMED"
  by (simp_all add: claim_row_def)

lemma claimable_pending: "claimable t ks rs r \<Longrightarrow> pending (q_status r)"
  by (auto simp: claimable_def)

lemma one_pending_Cons: "one_pending_per_key (r # qs) \<longleftrightarrow> one_pending_per_key qs \<and>
     (pending (q_status r) \<longrightarrow> (\<forall>x\<in>set qs. pending (q_status x) \<longrightarrow> q_cache_key x \<noteq> q_cache_key r))"
  by (simp add: one_pending_per_key_def image_iff) metis

lemma one_pending_unique:
  assumes "one_pending_per_key qs" "r \<in> set qs" "x \<in> set qs" "pending (q_status r)" "pending (q_status x)"
    "q_cache_key r = q_cache_key x"
  shows "r = x"
  using assms
proof (induction qs)
  case (Cons y qs)
  then show ?case unfolding one_pending_Cons by (metis set_ConsD)
qed simp

lemma one_pending_snoc:
  assumes "one_pending_per_key qs" "\<forall>x\<in>set qs. q_cache_key x = q_cache_key r \<longrightarrow> \<not> pending (q_status x)"
  shows "one_pending_per_key (qs @ [r])"
  using assms by (auto simp: one_pending_per_key_def)

lemma schema_ok_cache_map:
  assumes "schema_ok d" and "\<And>c. c_cache_key (f c) = c_cache_key c"
  shows "schema_ok (d\<lparr>cache_entries := map f (cache_entries d)\<rparr>)"
  using assms(1) by (simp add: schema_ok_def get_queue_row_def get_budget_def keyed_map assms(2))

lemma schema_ok_insert_membership:
  assumes ok: "schema_ok d" and ids: "get_queue_row rid d \<noteq> None" "get_budget b d \<noteq> None"
  shows "schema_ok (d\<lparr>memberships := insert_membership rid b t n (memberships d)\<rparr>)"
proof -
  have "keyed (\<lambda>m. (bm_request_id m, bm_budget_id m)) (insert_membership rid b t n (memberships d))"
    using schema_okD(6) [OF ok] by (auto simp: insert_membership_def intro!: keyed_snoc)
  moreover have "get_queue_row (bm_request_id m) d \<noteq> None \<and> get_budget (bm_budget_id m) d \<noteq> None"
    if "m \<in> set (insert_membership rid b t n (memberships d))" for m
  proof -
    have "m \<in> set (memberships d) \<or> (bm_request_id m = rid \<and> bm_budget_id m = b)"
      using that by (auto simp: insert_membership_def split: if_splits)
    with ids schema_okD(12,13) [OF ok] show ?thesis by blast
  qed
  ultimately show ?thesis using ok by (simp add: schema_ok_def get_queue_row_def get_budget_def)
qed

lemma schema_ok_add_row:
  assumes ok: "schema_ok d" and "get_queue_row (q_request_id row) d = None"
    and "pending_row (q_cache_key row) d = None"
  shows "schema_ok (d\<lparr>queue_items := queue_items d @ [row]\<rparr>)"
proof -
  have "keyed q_request_id (queue_items d @ [row])"
    using assms(2) schema_okD(4) [OF ok] by (auto simp: get_queue_row_def intro: keyed_snoc)
  moreover have "one_pending_per_key (queue_items d @ [row])"
    using assms(3) schema_okD(11) [OF ok] by (auto simp: pending_row_None intro: one_pending_snoc)
  ultimately show ?thesis
    using ok by (auto simp: schema_ok_def get_queue_row_def get_budget_def tbl_get_append)
qed

text \<open>The three ways an enqueue ends.\<close>

lemma enqueue_cases:
  assumes "enqueue_request_for_work_conn q k w b t now u d = (res, d')"
  obtains (error) e where "res = Inl e" "d' = d"
      "(b \<noteq> None \<and> get_budget (the b) d = None) \<or> (pending_row k d = None \<and> get_queue_row u d \<noteq> None)"
  | (joined) r where "pending_row k d = Some r" "res = Inr (queue_item_from_row (join_row q w b t now r), True)"
      "b \<noteq> None \<longrightarrow> get_budget (the b) d \<noteq> None"
      "d' = d\<lparr>queue_items := tbl_update (\<lambda>x. q_request_id x = q_request_id r)
                     (join_row q w b t now) (queue_items d),
                  memberships := (case b of None \<Rightarrow> memberships d
                     | Some b \<Rightarrow> insert_membership (q_request_id r) b now (first_attempt_number r)
                                  (memberships d))\<rparr>"
  | (created) p where "pending_row k d = None" "get_queue_row u d = None"
      "res = Inr (queue_item_from_row (new_queue_row q k w b now u), False)"
      "b \<noteq> None \<longrightarrow> get_budget (the b) d \<noteq> None"
      "d' = record_event ''request_enqueued'' p
                  (d\<lparr>queue_items := queue_items d @ [new_queue_row q k w b now u],
                     memberships := (case b of None \<Rightarrow> memberships d
                       | Some b \<Rightarrow> insert_membership u b now 1 (memberships d))\<rparr>)"
proof (cases "pending_row k d")
  case None
  show thesis
  proof (cases "get_queue_row u d \<noteq> None \<or> (b \<noteq> None \<and> get_budget (the b) d = None)")
    case True
    with None assms error show thesis
      by (cases "get_queue_row u d \<noteq> None") (auto simp: enqueue_request_for_work_conn_def)
  next
    case False
    then have u: "get_queue_row u d = None"
      and fk: "(b \<noteq> None \<and> get_budget (the b) d = None) = False" by blast+
    have bud: "b \<noteq> None \<longrightarrow> get_budget (the b) d \<noteq> None" using False by (cases b) auto
    have run: "(res, d') = enqueue_request_for_work_conn q k w b t now u d" using assms by simp
    show thesis
      using run unfolding enqueue_request_for_work_conn_def None u fk Let_def
      by (simp only: option.case if_False not_True_eq_False prod.inject simp_thms)
        (rule created [OF None u _ bud]; simp)
  qed
next
  case (Some r)
  show thesis
  proof (cases "b \<noteq> None \<and> get_budget (the b) d = None")
    case True
    with Some assms error show thesis by (auto simp: enqueue_request_for_work_conn_def)
  next
    case False
    then have fk: "(b \<noteq> None \<and> get_budget (the b) d = None) = False" by blast
    have bud: "b \<noteq> None \<longrightarrow> get_budget (the b) d \<noteq> None" using False by (cases b) auto
    have run: "(res, d') = enqueue_request_for_work_conn q k w b t now u d" using assms by simp
    show thesis
      using run unfolding enqueue_request_for_work_conn_def Some fk Let_def
      by (simp only: option.case if_False prod.inject) (rule joined [OF Some _ bud]; simp)
  qed
qed

lemma schema_ok_enqueue [table_intros]:
  assumes ok: "schema_ok d" and run: "enqueue_request_for_work_conn q k w b t now u d = (res, d')"
  shows "schema_ok d'"
  using run
proof (cases rule: enqueue_cases)
  case (error e)
  then show ?thesis using ok by simp
next
  case (joined r)
  define d1 where "d1 = d\<lparr>queue_items := tbl_update (\<lambda>x. q_request_id x = q_request_id r)
      (join_row q w b t now) (queue_items d)\<rparr>"
  have ok1: "schema_ok d1"
    unfolding d1_def tbl_update_def using ok by (intro schema_ok_queue_map) auto
  have "get_queue_row (q_request_id r) d \<noteq> None"
    using pending_row_Some [OF joined(1)] tbl_get_memI [OF schema_okD(4) [OF ok]]
    by (fastforce simp: get_queue_row_def)
  then have "get_queue_row (q_request_id r) d1 \<noteq> None"
    by (simp add: d1_def get_queue_row_def table_simps)
  with joined ok1 schema_ok_insert_membership [OF ok1] show ?thesis
    by (cases b) (simp_all add: d1_def get_budget_def)
next
  case (created p)
  define d1 where "d1 = d\<lparr>queue_items := queue_items d @ [new_queue_row q k w b now u]\<rparr>"
  have ok1: "schema_ok d1"
    unfolding d1_def using ok created by (intro schema_ok_add_row) (simp_all add: new_queue_row_def)
  have "get_queue_row u d1 \<noteq> None"
    using created(2) by (simp add: d1_def get_queue_row_def tbl_get_append tbl_get_Cons new_queue_row_def)
  with created ok1 schema_ok_insert_membership [OF ok1] show ?thesis
    by (cases b) (simp_all add: d1_def get_budget_def schema_ok_record_event)
qed

text \<open>claim_next_queue_item takes the best claimable row, and fails only when there is none.\<close>

lemma claim_next_cases:
  assumes "schema_ok d" "claim_next_queue_item w ttl ks rs now d = (res, d')"
  obtains (nothing) "res = None" "d' = d" "\<forall>r\<in>set (queue_items d). \<not> claimable now ks rs r"
  | (claimed) r where "r \<in> set (queue_items d)" "claimable now ks rs r"
      "\<forall>x\<in>set (queue_items d). claimable now ks rs x \<longrightarrow>
         (- q_priority r, q_created_at r) \<le> (- q_priority x, q_created_at x)"
      "res = Some (queue_item_from_row (claim_row w (expiry now ttl) now r))"
      "d' = d\<lparr>queue_items := map (\<lambda>x. if q_request_id x = q_request_id r
          then claim_row w (expiry now ttl) now x else x) (queue_items d)\<rparr>"
proof (cases "ks = Some [] \<or> rs = Some []")
  case True
  then have "\<forall>r\<in>set (queue_items d). \<not> claimable now ks rs r" by (auto simp: claimable_def)
  moreover have "res = None" "d' = d"
    using True assms(2) by (auto simp: claim_next_queue_item_def split: if_splits)
  ultimately show thesis by - (rule nothing; assumption)
next
  case ne: False
  let ?rows = "sort_key (\<lambda>r. (- q_priority r, q_created_at r)) (filter (claimable now ks rs) (queue_items d))"
  show thesis
  proof (cases ?rows)
    case Nil
    then have "\<forall>r\<in>set (queue_items d). \<not> claimable now ks rs r"
      by (simp add: sort_key_Nil filter_empty_conv)
    moreover have "res = None" "d' = d"
      using ne Nil assms(2) by (auto simp: claim_next_queue_item_def split: if_splits)
    ultimately show thesis by - (rule nothing; assumption)
  next
    case (Cons r rest)
    have r: "r \<in> set (queue_items d)" "claimable now ks rs r"
      using sort_key_hd(1) [OF Cons] by auto
    have best: "\<forall>x\<in>set (queue_items d). claimable now ks rs x \<longrightarrow>
         (- q_priority r, q_created_at r) \<le> (- q_priority x, q_created_at x)"
      using sort_key_hd(2) [OF Cons] by auto
    have "tbl_get q_request_id (q_request_id r) (queue_items d) = Some r"
      using tbl_get_memI [OF schema_okD(4) [OF assms(1)] r(1)] by simp
    then have get: "tbl_get q_request_id (q_request_id r) (map (\<lambda>x. if q_request_id x = q_request_id r
          then claim_row w (expiry now ttl) now x else x) (queue_items d)) =
        Some (claim_row w (expiry now ttl) now r)"
      by (simp add: tbl_get_map)
    show thesis
      using assms(2) ne Cons get claimed [OF r best]
      by (simp add: claim_next_queue_item_def Let_def get_queue_item_def get_queue_row_def tbl_update_def)
  qed
qed

lemma schema_ok_claim [table_intros]:
  assumes "schema_ok d" "claim_next_queue_item w ttl ks rs now d = (res, d')"
  shows "schema_ok d'"
  using assms
proof (cases rule: claim_next_cases)
  case (claimed r)
  have same: "x = r" if "x \<in> set (queue_items d)" "q_request_id x = q_request_id r" for x
    using keyed_eqI [OF schema_okD(4) [OF assms(1)] that(1) claimed(1) that(2)] .
  show ?thesis unfolding claimed(5)
    by (intro schema_ok_queue_map) (auto dest!: same simp: claimable_pending [OF claimed(2)] assms(1))
qed (simp add: assms(1))

lemma extend_claim_map: "extend_claim rid w u now d = d\<lparr>queue_items := map (\<lambda>r. if claim_owned rid w r
     then r\<lparr>q_claimed_until := Some u, q_updated_at := now\<rparr> else r) (queue_items d)\<rparr>"
  by (simp add: extend_claim_def tbl_update_def)

lemma schema_ok_extend_claim [table_intros]: "schema_ok d \<Longrightarrow> schema_ok (extend_claim rid w u now d)"
  unfolding extend_claim_map by (intro schema_ok_queue_map) auto

lemma schema_ok_renew [table_intros]: "schema_ok d \<Longrightarrow> schema_ok (snd (renew_queue_claim rid w ttl now d))"
  by (simp add: renew_queue_claim_def Let_def schema_ok_extend_claim)

lemma schema_ok_complete [table_intros]: "schema_ok d \<Longrightarrow> schema_ok (complete_queue_item rid now d)"
  unfolding complete_queue_item_def tbl_update_def by (intro schema_ok_queue_map) auto

lemma schema_ok_release [table_intros]:
  assumes "schema_ok d"
  shows "schema_ok (snd (release_or_delay_queue_item rid t c m s now d))"
  using assms
  by (simp add: release_or_delay_queue_item_def Let_def schema_ok_def get_queue_row_def get_budget_def
      tbl_update_def tbl_get_map keyed_map if_distrib [of q_request_id])

lemma schema_ok_set_refresh: "schema_ok d \<Longrightarrow> schema_ok (set_refresh_after k t d)"
  unfolding set_refresh_after_def tbl_update_def by (intro schema_ok_cache_map) auto

lemma schema_ok_refresh [table_intros]:
  assumes ok: "schema_ok d" and run: "enqueue_refresh_if_due q k t now u d = (res, d')"
  shows "schema_ok d'"
  using run ok schema_ok_set_refresh [OF ok] schema_ok_enqueue [OF ok]
    schema_ok_enqueue [OF schema_ok_set_refresh [OF ok]]
  unfolding enqueue_refresh_if_due_def Let_def
  by (auto split: option.splits prod.splits sum.splits if_splits)

lemma join_priority: "priority (q_request (join_row q w b t n r)) = max (priority (q_request r)) (priority q)"
proof -
  have "(case join_replacement q w t r of None \<Rightarrow> priority (q_request r) | Some x \<Rightarrow> priority x)
      = max (priority (q_request r)) (priority q)"
    by (auto simp: join_replacement_def Let_def split: if_splits)
  then show ?thesis
    by (auto simp: join_row_def Let_def split: option.splits)
qed

lemma join_timeout: "timeout_or (timeout_seconds (q_request (join_row q w b t n r))) t \<ge> timeout_or (timeout_seconds q) t"
  if "0 < t" "\<forall>x. timeout_seconds q = Some x \<longrightarrow> 0 < x" "\<forall>x. timeout_seconds (q_request r) = Some x \<longrightarrow> 0 < x"
proof -
  let ?m = "max (timeout_or (timeout_seconds (q_request r)) t) (timeout_or (timeout_seconds q) t)"
  have pos: "0 < ?m" using that by (auto simp: timeout_or_def max_def split: option.splits)
  have "(case join_replacement q w t r of None \<Rightarrow> timeout_seconds (q_request r) | Some x \<Rightarrow> timeout_seconds x)
      = Some ?m"
    by (auto simp: join_replacement_def Let_def split: if_splits)
  then have "timeout_seconds (q_request (join_row q w b t n r)) = Some ?m"
    by (auto simp: join_row_def Let_def split: option.splits)
  with pos show ?thesis by (simp add: timeout_or_def)
qed

lemma join_unbudgeted: "q_unbudgeted_demand (join_row q w b t n r) \<longleftrightarrow> q_unbudgeted_demand r \<or> b = None"
  by (auto simp: join_row_def Let_def split: option.splits)

lemma insert_membership_has:
  "\<exists>m\<in>set (insert_membership rid b t n ms). bm_request_id m = rid \<and> bm_budget_id m = b"
proof (cases "tbl_get (\<lambda>m. (bm_request_id m, bm_budget_id m)) (rid, b) ms")
  case (Some m)
  then show ?thesis using tbl_get_SomeD [OF Some] by (auto simp: insert_membership_def)
qed (simp add: insert_membership_def)

text \<open>The demand of a caller: unbudgeted, or charged to its budget.\<close>

definition demand_recorded :: "string \<Rightarrow> string option \<Rightarrow> db \<Rightarrow> bool" where
  "demand_recorded request_id budget_id d =
     (case budget_id of
        None \<Rightarrow> (case get_queue_row request_id d of None \<Rightarrow> False | Some r \<Rightarrow> q_unbudgeted_demand r)
      | Some b \<Rightarrow> \<exists>m\<in>set (memberships d). bm_request_id m = request_id \<and> bm_budget_id m = b)"

subsection \<open>Properties\<close>

text \<open>
  C16. enqueue_request_for_work under a fresh id and a known budget
  never fails. Afterwards the cache key has exactly one pending item, the one returned; it
  existed before exactly when the call says it joined; its priority is at least the request's;
  the caller's demand is on record, so that the item cannot fail for someone else's budget.
\<close>

theorem enqueue_keeps_one_pending_item:
  assumes ok: "schema_ok d" and fresh: "get_queue_row uuid d = None"
    and budget: "\<forall>b. budget_id = Some b \<longrightarrow> get_budget b d \<noteq> None"
  shows "\<exists>item joined d'. enqueue_request_for_work request key kind budget_id dflt now uuid d = (Inr (item, joined), d') \<and>
     (\<exists>r. {r \<in> set (queue_items d'). q_cache_key r = key \<and> pending (q_status r)} = {r} \<and>
          item = queue_item_from_row r \<and> priority request \<le> priority (q_request r)) \<and>
     (joined \<longleftrightarrow> (\<exists>r\<in>set (queue_items d). q_cache_key r = key \<and> pending (q_status r))) \<and>
     demand_recorded (i_request_id item) budget_id d' \<and> schema_ok d'"
proof -
  let ?k = "case kind of Some k \<Rightarrow> k | None \<Rightarrow> default_work_kind request"
  obtain res d' where run: "enqueue_request_for_work_conn request key ?k budget_id dflt now uuid d = (res, d')"
    by fastforce
  have ok': "schema_ok d'" using schema_ok_enqueue [OF ok run] .
  have uniq: "{r \<in> set (queue_items d'). q_cache_key r = key \<and> pending (q_status r)} = {r}"
    if "r \<in> set (queue_items d')" "q_cache_key r = key" "pending (q_status r)" for r
    using that one_pending_unique [OF schema_okD(11) [OF ok']] by blast
  have fin: "?thesis" if "res = Inr (queue_item_from_row r, j)" "r \<in> set (queue_items d')" "q_cache_key r = key"
    "pending (q_status r)" "priority request \<le> priority (q_request r)"
    "j \<longleftrightarrow> pending_row key d \<noteq> None" "demand_recorded (q_request_id r) budget_id d'" for r j
  proof -
    have "(\<exists>r\<in>set (queue_items d). q_cache_key r = key \<and> pending (q_status r)) \<longleftrightarrow> pending_row key d \<noteq> None"
      unfolding pending_row_None by simp
    moreover have "i_request_id (queue_item_from_row r) = q_request_id r" by (simp add: queue_item_from_row_def)
    moreover have "enqueue_request_for_work request key kind budget_id dflt now uuid d =
        (Inr (queue_item_from_row r, j), d')"
      using that(1) run by (simp add: enqueue_request_for_work_def)
    moreover note uniq [OF that(2-4)] that(5-7) ok'
    ultimately show ?thesis by (intro exI conjI) (assumption | rule refl | simp)+
  qed
  from run show ?thesis
  proof (cases rule: enqueue_cases)
    case (error e)
    then show ?thesis using fresh budget by (cases budget_id) auto
  next
    case (joined r)
    note r = pending_row_Some [OF joined(1)]
    let ?r = "join_row request ?k budget_id dflt now r"
    have mem: "?r \<in> set (queue_items d')" using r by (auto simp: joined(4) set_tbl_update)
    have "get_queue_row (q_request_id r) d' = Some ?r"
      using tbl_get_memI [OF schema_okD(4) [OF ok'] mem] by (simp add: get_queue_row_def)
    then have dem: "demand_recorded (q_request_id ?r) budget_id d'"
    proof (cases budget_id)
      case (Some b)
      then show ?thesis using insert_membership_has by (simp add: demand_recorded_def joined(4))
    qed (simp add: demand_recorded_def join_unbudgeted)
    show ?thesis
      by (rule fin [OF joined(2) mem]) (use r joined(1) dem in \<open>simp_all add: join_priority\<close>)
  next
    case (created p)
    let ?r = "new_queue_row request key ?k budget_id now uuid"
    have mem: "?r \<in> set (queue_items d')" by (simp add: created(5))
    have "get_queue_row uuid d' = Some ?r"
      using tbl_get_memI [OF schema_okD(4) [OF ok'] mem] by (simp add: get_queue_row_def new_queue_row_def)
    then have dem: "demand_recorded (q_request_id ?r) budget_id d'"
    proof (cases budget_id)
      case (Some b)
      then show ?thesis using insert_membership_has
        by (simp add: demand_recorded_def created(5) new_queue_row_def)
    qed (simp add: demand_recorded_def new_queue_row_def)
    show ?thesis
      by (rule fin [OF created(3) mem]) (use created(1) dem in \<open>simp_all add: new_queue_row_def\<close>)
  qed
qed

theorem enqueue_keeps_one_pending_item_witness:
  "(\<exists>item joined d'. enqueue_request_for_work (sample_request\<lparr>priority := 7\<rparr>) ''k'' None (Some ''b'') 30 5 ''u'' sample_store
      = (Inr (item, joined), d') \<and> joined \<and> i_request_id item = ''r'' \<and> i_priority item = 7 \<and>
      length (queue_items d') = 1)"
proof -
  have *: "get_queue_row ''u'' sample_store = None" "get_budget ''b'' sample_store \<noteq> None"
    by (code_simp)+
  have "\<exists>item joined d'. enqueue_request_for_work (sample_request\<lparr>priority := 7\<rparr>) ''k'' None (Some ''b'') 30 5 ''u'' sample_store
      = (Inr (item, joined), d')"
    using enqueue_keeps_one_pending_item [OF sample_store_ok(1) *(1), where budget_id = "Some ''b''"] *(2) by blast
  then obtain item joined d' where run: "enqueue_request_for_work (sample_request\<lparr>priority := 7\<rparr>) ''k'' None (Some ''b'') 30 5 ''u'' sample_store
      = (Inr (item, joined), d')" by blast
  have "(case fst (enqueue_request_for_work (sample_request\<lparr>priority := 7\<rparr>) ''k'' None (Some ''b'') 30 5 ''u'' sample_store) of
      Inr (i, j) \<Rightarrow> j \<and> i_request_id i = ''r'' \<and> i_priority i = 7 | Inl e \<Rightarrow> False)"
    "length (queue_items (snd (enqueue_request_for_work (sample_request\<lparr>priority := 7\<rparr>) ''k'' None (Some ''b'') 30 5 ''u'' sample_store))) = 1"
    by code_simp+
  with run show ?thesis by auto
qed

text \<open>
  C17. claim_next_queue_item returns None only when no item of the
  targets is due, and then changes nothing. Otherwise it claims one due item with no due item of
  higher priority and, at that priority, none created earlier; the item is queued or delayed
  with its next attempt reached, or held by a claim that has expired: a live claim is never
  taken. The claimed item carries the new owner and one more attempt; no other row changes.
\<close>

theorem claim_takes_best_claimable:
  assumes "schema_ok d" "claim_next_queue_item w ttl ks rs now d = (res, d')"
  shows "case res of
      None \<Rightarrow> d' = d \<and> (\<forall>r\<in>set (queue_items d). \<not> claimable now ks rs r)
    | Some i \<Rightarrow> (\<exists>r\<in>set (queue_items d). claimable now ks rs r \<and>
        (q_status r = CLAIMED \<longrightarrow> (\<exists>e. q_claimed_until r = Some e \<and> e \<le> now)) \<and>
        (\<forall>x\<in>set (queue_items d). claimable now ks rs x \<longrightarrow> q_priority x < q_priority r \<or>
            q_priority x = q_priority r \<and> q_created_at r \<le> q_created_at x) \<and>
        i_request_id i = q_request_id r \<and> i_status i = CLAIMED \<and> i_claimed_by i = Some w \<and>
        i_claimed_until i = Some (expiry now ttl) \<and> i_attempts_total i = q_attempts_total r + 1 \<and>
        (\<forall>k. k \<noteq> q_request_id r \<longrightarrow> get_queue_row k d' = get_queue_row k d) \<and>
        get_queue_item (q_request_id r) d' = Some i)"
  using assms
proof (cases rule: claim_next_cases)
  case nothing
  then show ?thesis by simp
next
  case (claimed r)
  let ?f = "\<lambda>x. if q_request_id x = q_request_id r then claim_row w (expiry now ttl) now x else x"
  have get: "get_queue_row k d' = map_option ?f (get_queue_row k d)" for k
    by (simp add: claimed(5) get_queue_row_def tbl_get_map)
  have other: "get_queue_row k d' = get_queue_row k d" if "k \<noteq> q_request_id r" for k
    using that by (cases "get_queue_row k d")
      (auto simp: get, auto simp: get_queue_row_def dest: tbl_get_SomeD)
  have "get_queue_row (q_request_id r) d = Some r"
    using tbl_get_memI [OF schema_okD(4) [OF assms(1)] claimed(1)] by (simp add: get_queue_row_def)
  then have self: "get_queue_item (q_request_id r) d' =
      Some (queue_item_from_row (claim_row w (expiry now ttl) now r))"
    by (simp add: get_queue_item_def get)
  have live: "q_status r = CLAIMED \<longrightarrow> (\<exists>e. q_claimed_until r = Some e \<and> e \<le> now)"
    using claimed(2) by (auto simp: claimable_def split: option.splits)
  have best: "\<forall>x\<in>set (queue_items d). claimable now ks rs x \<longrightarrow> q_priority x < q_priority r \<or>
            q_priority x = q_priority r \<and> q_created_at r \<le> q_created_at x"
    using claimed(3) by auto
  show ?thesis
    unfolding claimed(4) option.case
    by (rule bexI [OF _ claimed(1)])
      (use claimed(2) live best self other in \<open>simp add: queue_item_from_row_def claim_row_def\<close>)
qed

theorem claim_takes_best_claimable_witness:
  "\<exists>i d'. claim_next_queue_item ''v'' 300 None None 100 sample_store = (Some i, d') \<and>
     i_request_id i = ''r'' \<and> i_claimed_by i = Some ''v'' \<and>
     claim_next_queue_item ''v'' 300 None None 99 sample_store = (None, sample_store)"
proof -
  obtain res d' where run: "claim_next_queue_item ''v'' 300 None None 100 sample_store = (res, d')" by fastforce
  have "fst (claim_next_queue_item ''v'' 300 None None 100 sample_store) \<noteq> None" by code_simp
  then obtain i where i: "res = Some i" using run by auto
  have late: "\<not> claimable 99 None None sample_row"
    by (simp add: claimable_def sample_row_def)
  have "i_request_id i = ''r'' \<and> i_claimed_by i = Some ''v''"
    using claim_takes_best_claimable [OF sample_store_ok(1) run]
    by (auto simp: i sample_store_def sample_row_def)
  moreover have "claim_next_queue_item ''v'' 300 None None 99 sample_store = (None, sample_store)"
    using late by (simp add: claim_next_queue_item_def sample_store_def)
  ultimately show ?thesis using run i by simp
qed

text \<open>
  For a completed entry with no pending work, enqueue_refresh_if_due
  enqueues a refresh exactly when the earlier of the stored and the requested refresh time has
  been reached (or neither exists). When it does, the entry's next refresh moves one interval
  ahead; when it does not, the queue is untouched and the stored refresh time only moves earlier.
\<close>

theorem refresh_only_when_due:
  assumes "schema_ok d" "get_queue_row uuid d = None" "pending_row key d = None"
    and "get_cache_entry key d = Some c" "c_status c = ''completed''"
  shows "case enqueue_refresh_if_due request key dflt now uuid d of
      (Inr (Some i, joined), d') \<Rightarrow>
        (\<forall>t. effective_refresh_after request c = Some t \<longrightarrow> t \<le> now) \<and> \<not> joined \<and>
        i_work_kind i = REFRESH_COMPLETED \<and> i_cache_key i = key \<and>
        map_option c_refresh_after (get_cache_entry key d') =
          Some (Some (expiry now (refresh_interval_seconds request)))
    | (Inr (None, _), d') \<Rightarrow>
        (\<exists>t. effective_refresh_after request c = Some t \<and> now < t \<and>
           map_option c_refresh_after (get_cache_entry key d') = Some (Some t) \<and>
           (\<forall>a. c_refresh_after c = Some a \<longrightarrow> t \<le> a)) \<and> queue_items d' = queue_items d
    | (Inl _, _) \<Rightarrow> False"
proof -
  have set: "map_option c_refresh_after (get_cache_entry key (set_refresh_after key t d)) = Some t" for t
    using assms(4) tbl_get_SomeD [of c_cache_key key "cache_entries d" c]
    by (auto simp: set_refresh_after_def get_cache_entry_def table_simps)
  have enq: "enqueue_request_for_work_conn request key REFRESH_COMPLETED None dflt now uuid (set_refresh_after key t d) =
      (Inr (queue_item_from_row (new_queue_row request key REFRESH_COMPLETED None now uuid), False),
       snd (enqueue_request_for_work_conn request key REFRESH_COMPLETED None dflt now uuid (set_refresh_after key t d)))"
    and frame: "cache_entries (snd (enqueue_request_for_work_conn request key REFRESH_COMPLETED None dflt now uuid (set_refresh_after key t d)))
      = cache_entries (set_refresh_after key t d)" for t
  proof -
    have "pending_row key (set_refresh_after key t d) = None" "get_queue_row uuid (set_refresh_after key t d) = None"
      using assms(2,3) by (simp_all add: pending_row_def get_queue_row_def set_refresh_after_def)
    then show "enqueue_request_for_work_conn request key REFRESH_COMPLETED None dflt now uuid (set_refresh_after key t d) =
      (Inr (queue_item_from_row (new_queue_row request key REFRESH_COMPLETED None now uuid), False),
       snd (enqueue_request_for_work_conn request key REFRESH_COMPLETED None dflt now uuid (set_refresh_after key t d)))"
      "cache_entries (snd (enqueue_request_for_work_conn request key REFRESH_COMPLETED None dflt now uuid (set_refresh_after key t d)))
      = cache_entries (set_refresh_after key t d)"
      by (simp_all add: enqueue_request_for_work_conn_def Let_def)
  qed
  let ?go = "\<lambda>t. enqueue_request_for_work_conn request key REFRESH_COMPLETED None dflt now uuid (set_refresh_after key t d)"
  have go: "map_option c_refresh_after (get_cache_entry key (snd (?go t))) = Some t" for t
    using set [of t] frame [of t] by (simp add: get_cache_entry_def)
  have due: ?thesis if "effective_refresh_after request c = None \<or> (\<exists>t. effective_refresh_after request c = Some t \<and> t \<le> now)"
  proof -
    have "enqueue_refresh_if_due request key dflt now uuid d =
      (Inr (Some (queue_item_from_row (new_queue_row request key REFRESH_COMPLETED None now uuid)), False),
        snd (?go (Some (expiry now (refresh_interval_seconds request)))))"
    proof -
      obtain X where X: "?go (Some (expiry now (refresh_interval_seconds request))) =
        (Inr (queue_item_from_row (new_queue_row request key REFRESH_COMPLETED None now uuid), False), X)"
        using enq by blast
      show ?thesis using that assms(3-5) by (auto simp: enqueue_refresh_if_due_def Let_def X)
    qed
    with that go show ?thesis by (auto simp: queue_item_from_row_def new_queue_row_def)
  qed
  show ?thesis
  proof (cases "effective_refresh_after request c = None \<or> (\<exists>t. effective_refresh_after request c = Some t \<and> t \<le> now)")
    case False
    then obtain t where t: "effective_refresh_after request c = Some t" "now < t"
      by (cases "effective_refresh_after request c") auto
    have le: "\<forall>a. c_refresh_after c = Some a \<longrightarrow> t \<le> a"
      using t(1) by (auto simp: effective_refresh_after_def split: option.splits if_splits)
    have "enqueue_refresh_if_due request key dflt now uuid d =
      (Inr (None, False), if Some t \<noteq> c_refresh_after c then set_refresh_after key (Some t) d else d)"
      using t assms(3-5) by (auto simp: enqueue_refresh_if_due_def Let_def)
    with t le set assms(4) show ?thesis
      by (auto simp: set_refresh_after_def)
  qed (rule due)
qed

definition sample_entry :: cache_entry where
  "sample_entry = \<lparr>c_cache_key = ''done'', c_request = sample_request, c_api_family = Legacy_search,
     c_status = ''completed'', c_requested_at = Some 0, c_completed_at = Some 0,
     c_refresh_after = Some (60 * us_per_second), c_cooldown_until = None, c_upstream_status = Some 200,
     c_upstream_requests_total = 1, c_result_count = 0, c_total_results = Some 0,
     c_coverage_status = SLICE, c_error_category = None, c_error_message = None\<rparr>"

definition refresh_store :: db where
  "refresh_store = (empty_db (\<lambda>_. 0))\<lparr>cache_entries := [sample_entry]\<rparr>"

lemma refresh_store_ok: "schema_ok refresh_store"
  by (simp add: refresh_store_def empty_db_def schema_ok_def one_pending_per_key_def keyed_Cons)

theorem refresh_only_when_due_witness:
  "fst (enqueue_refresh_if_due sample_request ''done'' 30 (59 * us_per_second) ''u'' refresh_store) = Inr (None, False) \<and>
   (case fst (enqueue_refresh_if_due sample_request ''done'' 30 (60 * us_per_second) ''u'' refresh_store) of
      Inr (Some i, joined) \<Rightarrow> \<not> joined \<and> i_work_kind i = REFRESH_COMPLETED | _ \<Rightarrow> False)"
proof -
  have pre: "get_queue_row ''u'' refresh_store = None" "pending_row ''done'' refresh_store = None"
    "get_cache_entry ''done'' refresh_store = Some sample_entry" "c_status sample_entry = ''completed''"
    by (simp_all add: refresh_store_def empty_db_def get_queue_row_def pending_row_def get_cache_entry_def
        tbl_get_Cons sample_entry_def)
  have "fst (enqueue_refresh_if_due sample_request ''done'' 30 (59 * us_per_second) ''u'' refresh_store) = Inr (None, False)"
    by code_simp
  moreover have "effective_refresh_after sample_request sample_entry = Some (60 * us_per_second)" by code_simp
  ultimately show ?thesis
    using refresh_only_when_due [OF refresh_store_ok pre, where request = sample_request and
        dflt = 30 and now = "60 * us_per_second"]
    by (auto split: prod.splits sum.splits option.splits)
qed

text \<open>
  The refresh period that enqueue_refresh_if_due reserves does not survive a failed refresh: the
  entry keeps its old completed_at, so the requested refresh time stays in the past and overrides
  the reserved one. One microsecond after the failure a second refresh is enqueued, long before
  the reserved time of the first.
\<close>

lemma refresh_reservation_lost_after_failure:
  "let t1 = 60 * us_per_second;
       d1 = snd (enqueue_refresh_if_due sample_request ''done'' 30 t1 ''u1'' refresh_store);
       d2 = snd (release_or_delay_queue_item ''u1'' None (Some ''http_error'') None FAILED (t1 + 1) d1)
   in map_option c_refresh_after (get_cache_entry ''done'' d2) = Some (Some (120 * us_per_second)) \<and>
      (case fst (enqueue_refresh_if_due sample_request ''done'' 30 (t1 + 2) ''u2'' d2) of
         Inr (Some i, joined) \<Rightarrow> i_request_id i = ''u2'' \<and> \<not> joined | _ \<Rightarrow> False)"
  by code_simp

text \<open>
  complete_queue_item and release_or_delay_queue_item are not fenced by the owner: a worker whose
  claim expired can still reset the claim of the worker that took the item over.
\<close>

lemma release_not_fenced_by_owner:
  "let d1 = snd (claim_next_queue_item ''v'' 300 None None 100 sample_store);
       d2 = snd (release_or_delay_queue_item ''r'' None (Some ''lost_claim'') None QUEUED 101 d1)
   in map_option i_claimed_by (get_queue_item ''r'' d1) = Some (Some ''v'') \<and>
      map_option i_claimed_by (get_queue_item ''r'' d2) = Some None \<and>
      map_option i_status (get_queue_item ''r'' d2) = Some QUEUED"
  by code_simp

end
