(* ===== verification/Huldra_Ownership.thy ===== *)
theory Huldra_Ownership
  imports Huldra_Queue
begin

text \<open>
  Ownership of a fetch (huldra/db.py: renew_worker_fetch_ownership,
  release_id_fetch_reservations and the wake-up of the items it blocked), and the contract
  exclusive_grant on the three resources a worker holds: leases, id reservations, queue claims.
\<close>

subsection \<open>The fence\<close>

definition claim_held :: "string \<Rightarrow> string \<Rightarrow> db \<Rightarrow> bool" where
  "claim_held request_id owner_token d \<longleftrightarrow>
     (case get_queue_row request_id d of None \<Rightarrow> False
      | Some r \<Rightarrow> q_status r = CLAIMED \<and> q_claimed_by r = Some owner_token)"

definition renew_worker_fetch_ownership ::
  "string \<Rightarrow> string \<Rightarrow> string \<Rightarrow> int \<Rightarrow> string list \<Rightarrow> datetime \<Rightarrow> db \<Rightarrow> string option \<times> db" where
  "renew_worker_fetch_ownership request_id owner_token lease_name ttl reserved_ids now d =
     (let ids = dedup reserved_ids; expires = expiry now ttl
      in if \<not> lease_owned lease_name owner_token d then (Some ''lost_lease'', d)
         else if \<not> claim_held request_id owner_token d then (Some ''lost_claim'', d)
         else if ids \<noteq> [] \<and> \<not> reservations_owned ids owner_token d then (Some ''id_fetch_reserved'', d)
         else
          (let d1 = extend_lease now (lease_name, owner_token, ttl) d;
               d2 = extend_claim request_id owner_token expires now d1
           in (None, if ids = [] then d2 else extend_reservations ids owner_token now expires d2)))"

subsection \<open>Releasing reservations\<close>

definition blocked_on_ids :: "string list \<Rightarrow> queue_row \<Rightarrow> bool" where
  "blocked_on_ids released r \<longleftrightarrow>
     q_status r = DELAYED \<and> q_error_category r = Some ''id_fetch_reserved'' \<and>
     (\<exists>v\<in>set (id_list (q_request r)). normalize_arxiv_id v \<in> set released)"

definition wake_id_fetch_reserved_queue_items :: "string list \<Rightarrow> datetime \<Rightarrow> db \<Rightarrow> db" where
  "wake_id_fetch_reserved_queue_items released now d =
     (let request_ids = map q_request_id (filter (blocked_on_ids released) (queue_items d))
      in if request_ids = [] then d
         else d\<lparr>queue_items := tbl_update (\<lambda>r. q_request_id r \<in> set request_ids)
            (\<lambda>r. r\<lparr>q_status := QUEUED, q_next_attempt_at := None, q_updated_at := now,
                  q_claimed_by := None, q_claimed_until := None, q_gate_closed := False,
                  q_error_category := None, q_error_message := None\<rparr>) (queue_items d)\<rparr>)"

definition release_id_fetch_reservations :: "string list \<Rightarrow> string \<Rightarrow> datetime \<Rightarrow> db \<Rightarrow> db" where
  "release_id_fetch_reservations arxiv_ids owner_token now d =
     (if arxiv_ids = [] then d
      else
       (let ids = dedup arxiv_ids;
            P = (\<lambda>v. v_owner_token v = owner_token \<and> v_arxiv_id v \<in> set ids);
            d1 = d\<lparr>reservations := tbl_delete P (reservations d)\<rparr>
        in if tbl_count P (reservations d) > 0
           then wake_id_fetch_reserved_queue_items ids now d1 else d1))"

subsection \<open>Lemmas\<close>

lemma ownership_frames [simp]:
  "leases (extend_claim rid w u n d) = leases d"
  "reservations (extend_claim rid w u n d) = reservations d"
  "leases (extend_reservations ids w n e d) = leases d"
  "queue_items (extend_reservations ids w n e d) = queue_items d"
  "leases (wake_id_fetch_reserved_queue_items ids n d) = leases d"
  "reservations (wake_id_fetch_reserved_queue_items ids n d) = reservations d"
  by (simp_all add: extend_claim_def extend_reservations_def wake_id_fetch_reserved_queue_items_def Let_def)

lemma get_reservation_id: "get_reservation i d = Some v \<Longrightarrow> v_arxiv_id v = i"
  by (auto simp: get_reservation_def dest: tbl_get_SomeD)

lemma get_reservation_extend:
  "get_reservation i (extend_reservations ids w now e d) =
     map_option (\<lambda>v. if v_owner_token v = w \<and> i \<in> set ids
        then v\<lparr>v_acquired_at := now, v_expires_at := e\<rparr> else v) (get_reservation i d)"
  using get_reservation_id [of i d]
  by (cases "get_reservation i d")
    (auto simp: extend_reservations_def get_reservation_def table_simps)

lemma get_queue_row_id: "get_queue_row k d = Some r \<Longrightarrow> q_request_id r = k"
  by (auto simp: get_queue_row_def dest: tbl_get_SomeD)

lemma get_queue_row_extend_claim:
  "get_queue_row k (extend_claim rid w u now d) =
     map_option (\<lambda>r. if claim_owned rid w r then r\<lparr>q_claimed_until := Some u, q_updated_at := now\<rparr> else r)
       (get_queue_row k d)"
  by (simp add: extend_claim_map get_queue_row_def tbl_get_map)

lemma schema_ok_leases:
  "schema_ok d \<Longrightarrow> keyed l_name ls \<Longrightarrow> schema_ok (d\<lparr>leases := ls\<rparr>)"
  by (simp add: schema_ok_def get_queue_row_def get_budget_def)

lemma schema_ok_reservations:
  "schema_ok d \<Longrightarrow> keyed v_arxiv_id vs \<Longrightarrow> schema_ok (d\<lparr>reservations := vs\<rparr>)"
  by (simp add: schema_ok_def get_queue_row_def get_budget_def)

lemma schema_ok_acquire_lease [table_intros]:
  "schema_ok d \<Longrightarrow> schema_ok (snd (acquire_lease n w ttl now d))"
  by (auto simp: acquire_lease_def Let_def intro!: schema_ok_leases keyed_upsert schema_okD(8))

lemma schema_ok_extend_lease: "schema_ok d \<Longrightarrow> schema_ok (extend_lease now q d)"
  by (cases q) (auto simp: extend_lease_def intro!: schema_ok_leases keyed_update schema_okD(8))

lemma schema_ok_renew_leases [table_intros]:
  "schema_ok d \<Longrightarrow> schema_ok (snd (renew_leases_if_owned reqs now d))"
proof -
  have "schema_ok d \<Longrightarrow> schema_ok (fold (extend_lease now) reqs d)" for d
    by (induction reqs arbitrary: d) (simp_all add: schema_ok_extend_lease)
  then show "schema_ok d \<Longrightarrow> schema_ok (snd (renew_leases_if_owned reqs now d))"
    by (simp add: renew_leases_if_owned_def)
qed

lemma schema_ok_release_lease [table_intros]: "schema_ok d \<Longrightarrow> schema_ok (release_lease n w d)"
  by (auto simp: release_lease_def intro!: schema_ok_leases keyed_delete schema_okD(8))

lemma schema_ok_reserve_all: "schema_ok d \<Longrightarrow> schema_ok (fold (reserve_id w rid now e) ids d)"
proof (induction ids arbitrary: d)
  case (Cons i ids)
  have "schema_ok (reserve_id w rid now e i d)"
    using Cons.prems unfolding reserve_id_def
    by (intro schema_ok_reservations keyed_upsert schema_okD(9)) auto
  then show ?case using Cons.IH by simp
qed simp

lemma schema_ok_acquire_ids [table_intros]:
  "schema_ok d \<Longrightarrow> schema_ok (snd (acquire_id_fetch_reservations ids w rid ttl now d))"
  by (auto simp: acquire_id_fetch_reservations_def Let_def
      intro!: schema_ok_reserve_all schema_ok_reservations keyed_delete schema_okD(9))

lemma schema_ok_extend_reservations: "schema_ok d \<Longrightarrow> schema_ok (extend_reservations ids w now e d)"
  by (auto simp: extend_reservations_def intro!: schema_ok_reservations keyed_update schema_okD(9))

lemma schema_ok_renew_ids [table_intros]:
  "schema_ok d \<Longrightarrow> schema_ok (snd (renew_id_fetch_reservations ids w ttl now d))"
  by (auto simp: renew_id_fetch_reservations_def Let_def schema_ok_extend_reservations)

lemma schema_ok_fence [table_intros]:
  "schema_ok d \<Longrightarrow> schema_ok (snd (renew_worker_fetch_ownership rid w n ttl ids now d))"
  by (auto simp: renew_worker_fetch_ownership_def Let_def
      intro!: schema_ok_extend_reservations schema_ok_extend_claim schema_ok_extend_lease)

lemma wake_map: "wake_id_fetch_reserved_queue_items ids now d =
    d\<lparr>queue_items := map (\<lambda>r. if q_request_id r \<in> q_request_id ` {x \<in> set (queue_items d). blocked_on_ids ids x}
       then r\<lparr>q_status := QUEUED, q_next_attempt_at := None, q_updated_at := now,
                  q_claimed_by := None, q_claimed_until := None, q_gate_closed := False,
                  q_error_category := None, q_error_message := None\<rparr> else r) (queue_items d)\<rparr>"
proof (cases "filter (blocked_on_ids ids) (queue_items d) = []")
  case True
  then have e: "{x \<in> set (queue_items d). blocked_on_ids ids x} = {}" by (simp add: filter_empty_conv)
  show ?thesis unfolding e
    using True by (simp add: wake_id_fetch_reserved_queue_items_def Let_def)
next
  case False
  then show ?thesis by (simp add: wake_id_fetch_reserved_queue_items_def Let_def tbl_update_def)
qed

lemma schema_ok_wake: 
  assumes "schema_ok d"
  shows "schema_ok (wake_id_fetch_reserved_queue_items ids now d)"
proof -
  have "pending (q_status r)" if r: "r \<in> set (queue_items d)"
    and key: "q_request_id r \<in> q_request_id ` {x \<in> set (queue_items d). blocked_on_ids ids x}" for r
  proof -
    obtain x where x: "x \<in> set (queue_items d)" "blocked_on_ids ids x" "q_request_id r = q_request_id x"
      using key by auto
    have "r = x" using keyed_eqI [OF schema_okD(4) [OF assms] r x(1) x(3)] .
    with x show ?thesis by (simp add: blocked_on_ids_def)
  qed
  then show ?thesis unfolding wake_map by (intro schema_ok_queue_map assms) auto
qed

lemma schema_ok_release_ids [table_intros]:
  "schema_ok d \<Longrightarrow> schema_ok (release_id_fetch_reservations ids w now d)"
  by (auto simp: release_id_fetch_reservations_def Let_def
      intro!: schema_ok_wake schema_ok_reservations keyed_delete schema_okD(9))

lemma fence_cases:
  assumes "renew_worker_fetch_ownership rid w n ttl ids now d = (res, d')"
  obtains (lost) e where "res = Some e" "d' = d"
      "\<not> (lease_owned n w d \<and> claim_held rid w d \<and> (ids = [] \<or> reservations_owned (dedup ids) w d))"
  | (held) "res = None" "lease_owned n w d" "claim_held rid w d" "ids = [] \<or> reservations_owned (dedup ids) w d"
      "d' = (let d2 = extend_claim rid w (expiry now ttl) now (extend_lease now (n, w, ttl) d)
             in if ids = [] then d2 else extend_reservations (dedup ids) w now (expiry now ttl) d2)"
proof (cases "lease_owned n w d \<and> claim_held rid w d \<and> (ids = [] \<or> reservations_owned (dedup ids) w d)")
  case True
  then have "renew_worker_fetch_ownership rid w n ttl ids now d = (None,
     (let d2 = extend_claim rid w (expiry now ttl) now (extend_lease now (n, w, ttl) d)
             in if ids = [] then d2 else extend_reservations (dedup ids) w now (expiry now ttl) d2))"
    by (auto simp: renew_worker_fetch_ownership_def Let_def)
  with assms True show thesis by (intro held) auto
next
  case False
  then have "snd (renew_worker_fetch_ownership rid w n ttl ids now d) = d"
    "fst (renew_worker_fetch_ownership rid w n ttl ids now d) \<noteq> None"
    by (auto simp: renew_worker_fetch_ownership_def Let_def)
  with assms False show thesis by (cases res) (auto intro: lost)
qed

text \<open>How each resource reads after the fence held.\<close>

lemma fence_reads:
  assumes "schema_ok d" "renew_worker_fetch_ownership rid w n ttl ids now d = (None, d')"
  shows "get_lease k d' = (if k = n then map_option (\<lambda>l. l\<lparr>l_expires_at := expiry now ttl\<rparr>) (get_lease k d)
      else get_lease k d)"
    and "get_reservation i d' = (if i \<in> set ids
      then map_option (\<lambda>v. v\<lparr>v_acquired_at := now, v_expires_at := expiry now ttl\<rparr>) (get_reservation i d)
      else get_reservation i d)"
    and "get_queue_row q d' = (if q = rid
      then map_option (\<lambda>r. r\<lparr>q_claimed_until := Some (expiry now ttl), q_updated_at := now\<rparr>) (get_queue_row q d)
      else get_queue_row q d)"
proof -
  from assms(2) have own: "lease_owned n w d" "claim_held rid w d"
    "ids = [] \<or> reservations_owned (dedup ids) w d"
    and d': "d' = (let d2 = extend_claim rid w (expiry now ttl) now (extend_lease now (n, w, ttl) d)
             in if ids = [] then d2 else extend_reservations (dedup ids) w now (expiry now ttl) d2)"
    by (cases rule: fence_cases; simp)+
  have res: "\<exists>v. get_reservation i d = Some v \<and> v_owner_token v = w" if "i \<in> set ids" for i
    using own(3) that reservations_owned_iff [OF schema_okD(9) [OF assms(1)] distinct_dedup, of ids w] by auto
  have q: "claim_owned rid w r \<longleftrightarrow> q = rid" if "get_queue_row q d = Some r" for q r
    using that own(2) get_queue_row_id [OF that] by (auto simp: claim_owned_def claim_held_def)
  show "get_lease k d' = (if k = n then map_option (\<lambda>l. l\<lparr>l_expires_at := expiry now ttl\<rparr>) (get_lease k d)
      else get_lease k d)"
  proof -
    have "get_lease k d' = get_lease k (extend_lease now (n, w, ttl) d)"
      by (simp add: d' Let_def get_lease_def)
    then show ?thesis using own(1) by (simp add: get_lease_extend)
  qed
  show "get_reservation i d' = (if i \<in> set ids
      then map_option (\<lambda>v. v\<lparr>v_acquired_at := now, v_expires_at := expiry now ttl\<rparr>) (get_reservation i d)
      else get_reservation i d)"
  proof -
    have "get_reservation i (extend_claim rid w (expiry now ttl) now (extend_lease now (n, w, ttl) d)) =
        get_reservation i d"
      by (simp add: get_reservation_def)
    moreover from this have "i \<in> set ids \<Longrightarrow> ?thesis" using res [of i]
      by (auto simp: d' Let_def get_reservation_extend)
    ultimately show ?thesis
      by (cases "i \<in> set ids", blast, cases "get_reservation i d")
        (simp_all add: d' Let_def get_reservation_extend)
  qed
  show "get_queue_row q d' = (if q = rid
      then map_option (\<lambda>r. r\<lparr>q_claimed_until := Some (expiry now ttl), q_updated_at := now\<rparr>) (get_queue_row q d)
      else get_queue_row q d)"
  proof -
    have "get_queue_row q (extend_lease now (n, w, ttl) d) = get_queue_row q d"
      by (simp add: get_queue_row_def)
    then have "get_queue_row q d' = map_option (\<lambda>r. if claim_owned rid w r
        then r\<lparr>q_claimed_until := Some (expiry now ttl), q_updated_at := now\<rparr> else r) (get_queue_row q d)"
    proof -
      have "get_queue_row q d' = get_queue_row q (extend_claim rid w (expiry now ttl) now (extend_lease now (n, w, ttl) d))"
        by (simp add: d' Let_def get_queue_row_def)
      with \<open>get_queue_row q (extend_lease now (n, w, ttl) d) = get_queue_row q d\<close> show ?thesis
        by (simp add: get_queue_row_extend_claim)
    qed
    then show ?thesis using q by (cases "get_queue_row q d") auto
  qed
qed

subsection \<open>The contract on leases\<close>

definition lease_holder :: "db \<Rightarrow> string \<Rightarrow> (string \<times> datetime) option" where
  "lease_holder d n = map_option (\<lambda>l. (l_owner_token l, l_expires_at l)) (get_lease n d)"

text \<open>Every transaction that grants or extends leases, or leaves the lease table alone.\<close>

inductive lease_takes :: "(string \<rightharpoonup> string \<times> datetime) \<Rightarrow> datetime \<Rightarrow> db \<Rightarrow> db \<Rightarrow> bool" where
  acquire: "acquire_lease n w ttl now d = (True, d') \<Longrightarrow> lease_takes [n \<mapsto> (w, expiry now ttl)] now d d'"
| refuse: "acquire_lease n w ttl now d = (False, d') \<Longrightarrow> lease_takes Map.empty now d d'"
| renew: "renew_leases_if_owned reqs now d = (Inr True, d') \<Longrightarrow>
    lease_takes (\<lambda>n. map_option (\<lambda>(w, ttl). (w, expiry now ttl)) (map_of reqs n)) now d d'"
| fence: "renew_worker_fetch_ownership rid w n ttl ids now d = (None, d') \<Longrightarrow>
    lease_takes [n \<mapsto> (w, expiry now ttl)] now d d'"
| other: "leases d' = leases d \<Longrightarrow> schema_ok d' \<Longrightarrow> lease_takes Map.empty now d d'"

definition lease_drops :: "(string \<times> string) set \<Rightarrow> datetime \<Rightarrow> db \<Rightarrow> db \<Rightarrow> bool" where
  "lease_drops R now d d' \<longleftrightarrow> (\<exists>n w. R = {(n, w)} \<and> d' = release_lease n w d)"

text \<open>
  What a transaction that grants G must do: the grants show, none of them takes the place of
  another owner's unexpired grant, and every other unexpired grant stays.
\<close>

definition grants :: "('s \<Rightarrow> 'r \<Rightarrow> ('o \<times> datetime) option) \<Rightarrow> ('r \<rightharpoonup> 'o \<times> datetime) \<Rightarrow> datetime \<Rightarrow> 's \<Rightarrow> 's \<Rightarrow> bool" where
  "grants holder G now s s' \<longleftrightarrow> (\<forall>r.
     (\<forall>w e. G r = Some (w, e) \<longrightarrow> holder s' r = Some (w, e) \<and>
        (\<forall>w' e'. holder s r = Some (w', e') \<longrightarrow> w' \<noteq> w \<longrightarrow> e' \<le> now)) \<and>
     (\<forall>w e. G r = None \<longrightarrow> holder s r = Some (w, e) \<longrightarrow> now < e \<longrightarrow> holder s' r = Some (w, e)))"

lemma grants_none: "(\<And>r w e. holder s r = Some (w, e) \<Longrightarrow> now < e \<Longrightarrow> holder s' r = Some (w, e)) \<Longrightarrow>
    grants holder Map.empty now s s'"
  by (simp add: grants_def)

lemma exclusive_grantI:
  assumes t: "\<And>s G now s'. ok s \<Longrightarrow> takes G now s s' \<Longrightarrow> grants holder G now s s' \<and> ok s'"
    and d: "\<And>s R now s'. ok s \<Longrightarrow> drops R now s s' \<Longrightarrow> ok s' \<and>
      (\<forall>r w e. holder s r = Some (w, e) \<longrightarrow> now < e \<longrightarrow> (r, w) \<notin> R \<longrightarrow> holder s' r = Some (w, e))"
  shows "exclusive_grant holder takes drops ok"
proof unfold_locales
  fix s G now s' r w e w' e' R
  { assume "ok s" "takes G now s s'"
    from t [OF this] have g: "grants holder G now s s'" and "ok s'" by auto
    { assume "G r = Some (w, e)"
      then show "holder s' r = Some (w, e)" using g by (simp add: grants_def) }
    { assume "G r = Some (w, e)" "holder s r = Some (w', e')" "w' \<noteq> w"
      then show "e' \<le> now" using g by (auto simp: grants_def) }
    { assume "G r = None" "holder s r = Some (w, e)" "now < e"
      then show "holder s' r = Some (w, e)" using g by (auto simp: grants_def) }
    show "ok s'" by fact }
  { assume "ok s" "drops R now s s'" "holder s r = Some (w, e)" "now < e" "(r, w) \<notin> R"
    then show "holder s' r = Some (w, e)" using d by blast }
  { assume "ok s" "drops R now s s'"
    then show "ok s'" using d by blast }
qed

lemma lease_takes_grants:
  assumes "schema_ok d" "lease_takes G now d d'"
  shows "grants lease_holder G now d d' \<and> schema_ok d'"
  using assms(2)
proof (cases rule: lease_takes.cases)
  case (acquire n w ttl)
  have "schema_ok (snd (acquire_lease n w ttl now d))" using assms(1) by (rule schema_ok_acquire_lease)
  moreover have "fst (acquire_lease n w ttl now d)" using acquire by simp
  ultimately show ?thesis
    unfolding acquire_lease_iff
    by (auto simp: acquire grants_def lease_holder_def get_lease_acquire [OF acquire(2)] split: if_splits)
next
  case (refuse n w ttl)
  have "d' = d" using acquire_lease_False [OF refuse(2)] .
  then show ?thesis using refuse assms(1) by (auto intro: grants_none)
next
  case (renew reqs)
  have ok: "schema_ok d'" using schema_ok_renew_leases [OF assms(1), of reqs now] renew by simp
  from renew(2) show ?thesis
  proof (cases rule: renew_leases_cases)
    case renewed
    have own: "\<exists>l. get_lease r d = Some l \<and> l_owner_token l = w" if "map_of reqs r = Some (w, ttl)" for r w ttl
      using renewed(2) map_of_SomeD [OF that] by (auto simp: lease_owned_def split: option.splits)
    have "grants lease_holder G now d d'"
      unfolding grants_def
    proof (intro allI conjI impI)
      fix r w e assume "G r = Some (w, e)"
      then obtain ttl where q: "map_of reqs r = Some (w, ttl)" "e = expiry now ttl"
        by (auto simp: renew(1))
      from own [OF q(1)] q show "lease_holder d' r = Some (w, e)"
        by (auto simp: lease_holder_def renewed(4) get_lease_extend_all [OF renewed(1,2)])
      fix w' e' assume "lease_holder d r = Some (w', e')" "w' \<noteq> w"
      with own [OF q(1)] show "e' \<le> now" by (auto simp: lease_holder_def)
    next
      fix r w e assume "G r = None" "lease_holder d r = Some (w, e)"
      then show "lease_holder d' r = Some (w, e)"
        by (auto simp: renew(1) lease_holder_def renewed(4) get_lease_extend_all [OF renewed(1,2)])
    qed
    with ok show ?thesis by simp
  qed (use ok renew in \<open>auto intro: grants_none\<close>)
next
  case (fence rid w n ttl ids)
  have ok: "schema_ok d'"
    using schema_ok_fence [OF assms(1), of rid w n ttl ids now] fence by simp
  have "lease_owned n w d" using fence(2) by (cases rule: fence_cases) auto
  then obtain l where l: "get_lease n d = Some l" "l_owner_token l = w"
    by (auto simp: lease_owned_def split: option.splits)
  then show ?thesis using ok
    by (auto simp: fence(1) grants_def lease_holder_def fence_reads(1) [OF assms(1) fence(2)] split: if_splits)
next
  case other
  then show ?thesis by (auto simp: lease_holder_def get_lease_def intro: grants_none)
qed

interpretation lease_grant: exclusive_grant lease_holder lease_takes lease_drops schema_ok
proof (rule exclusive_grantI)
  fix s s' :: db and G now
  show "schema_ok s \<Longrightarrow> lease_takes G now s s' \<Longrightarrow> grants lease_holder G now s s' \<and> schema_ok s'"
    by (rule lease_takes_grants)
next
  fix s s' :: db and R now
  assume ok: "schema_ok s" and d: "lease_drops R now s s'"
  then obtain n v where R: "R = {(n, v)}" and s': "s' = release_lease n v s" by (auto simp: lease_drops_def)
  have "lease_holder s' r = Some (w, e)" if h: "lease_holder s r = Some (w, e)" "(r, w) \<notin> R" for r w e
  proof -
    have "\<not> (r = n \<and> lease_owned n v s)" using h R by (auto simp: lease_holder_def lease_owned_def)
    with h(1) show ?thesis
      unfolding s' lease_holder_def get_lease_release [OF schema_okD(8) [OF ok]] by simp
  qed
  with ok show "schema_ok s' \<and> (\<forall>r w e. lease_holder s r = Some (w, e) \<longrightarrow> now < e \<longrightarrow> (r, w) \<notin> R \<longrightarrow>
      lease_holder s' r = Some (w, e))"
    by (simp add: s' schema_ok_release_lease)
qed

subsection \<open>The contract on id reservations\<close>

definition reservation_holder :: "db \<Rightarrow> string \<Rightarrow> (string \<times> datetime) option" where
  "reservation_holder d i = map_option (\<lambda>v. (v_owner_token v, v_expires_at v)) (get_reservation i d)"

inductive reservation_takes :: "(string \<rightharpoonup> string \<times> datetime) \<Rightarrow> datetime \<Rightarrow> db \<Rightarrow> db \<Rightarrow> bool" where
  acquire: "acquire_id_fetch_reservations ids w rid ttl now d = (res, d') \<Longrightarrow> blocked_until res = None \<Longrightarrow>
    reservation_takes (\<lambda>i. if i \<in> set ids then Some (w, expiry now ttl) else None) now d d'"
| blocked: "acquire_id_fetch_reservations ids w rid ttl now d = (res, d') \<Longrightarrow> blocked_until res \<noteq> None \<Longrightarrow>
    reservation_takes Map.empty now d d'"
| renew: "renew_id_fetch_reservations ids w ttl now d = (True, d') \<Longrightarrow>
    reservation_takes (\<lambda>i. if i \<in> set ids then Some (w, expiry now ttl) else None) now d d'"
| fence: "renew_worker_fetch_ownership rid w n ttl ids now d = (None, d') \<Longrightarrow>
    reservation_takes (\<lambda>i. if i \<in> set ids then Some (w, expiry now ttl) else None) now d d'"
| other: "reservations d' = reservations d \<Longrightarrow> schema_ok d' \<Longrightarrow> reservation_takes Map.empty now d d'"

definition reservation_drops :: "(string \<times> string) set \<Rightarrow> datetime \<Rightarrow> db \<Rightarrow> db \<Rightarrow> bool" where
  "reservation_drops R now d d' \<longleftrightarrow>
     (\<exists>ids w. R = {(i, w) |i. i \<in> set ids} \<and> d' = release_id_fetch_reservations ids w now d)"

definition purge_reservations :: "datetime \<Rightarrow> db \<Rightarrow> db" where
  "purge_reservations now d = d\<lparr>reservations := tbl_delete (\<lambda>v. v_expires_at v \<le> now) (reservations d)\<rparr>"

lemma get_reservation_purge:
  "schema_ok d \<Longrightarrow> get_reservation i (purge_reservations now d) =
     (case get_reservation i d of None \<Rightarrow> None | Some v \<Rightarrow> if v_expires_at v \<le> now then None else Some v)"
  by (simp add: purge_reservations_def get_reservation_def table_simps schema_okD(9))

lemma acquire_ids_cases:
  assumes ok: "schema_ok d" and run: "acquire_id_fetch_reservations ids w rid ttl now d = (res, d')"
  obtains (none) "ids = []" "acquired_ids res = []" "blocked_until res = None" "d' = d"
  | (blocked) v where "ids \<noteq> []" "acquired_ids res = []" "blocked_until res = Some (v_expires_at v)"
      "v_arxiv_id v \<in> set ids" "get_reservation (v_arxiv_id v) d = Some v" "v_owner_token v \<noteq> w" "now < v_expires_at v"
      "\<forall>x i. i \<in> set ids \<longrightarrow> get_reservation i d = Some x \<longrightarrow> now < v_expires_at x \<longrightarrow> v_owner_token x \<noteq> w \<longrightarrow>
          v_expires_at v \<le> v_expires_at x"
      "d' = purge_reservations now d"
  | (acquired) "ids \<noteq> []" "acquired_ids res = dedup ids" "blocked_until res = None"
      "\<forall>i v. i \<in> set ids \<longrightarrow> get_reservation i d = Some v \<longrightarrow> v_owner_token v \<noteq> w \<longrightarrow> v_expires_at v \<le> now"
      "d' = fold (reserve_id w rid now (expiry now ttl)) (dedup ids) (purge_reservations now d)"
proof (cases "ids = []")
  case True
  then show thesis using run none by (auto simp: acquire_id_fetch_reservations_def)
next
  case ne: False
  define rows where "rows = filter (\<lambda>v. v_owner_token v \<noteq> w)
    (filter (\<lambda>v. v_arxiv_id v \<in> set (dedup ids)) (reservations (purge_reservations now d)))"
  have k: "keyed v_arxiv_id (reservations d)" using schema_okD(9) [OF ok] .
  have mem: "v \<in> set rows \<longleftrightarrow> v_arxiv_id v \<in> set ids \<and> get_reservation (v_arxiv_id v) d = Some v \<and>
      v_owner_token v \<noteq> w \<and> now < v_expires_at v" for v
    by (auto simp: rows_def purge_reservations_def tbl_delete_def get_reservation_def tbl_get_iff [OF k])
  have eq: "acquire_id_fetch_reservations ids w rid ttl now d =
    (if map v_expires_at rows \<noteq> [] then (\<lparr>acquired_ids = [], blocked_until = Some (min_list (map v_expires_at rows))\<rparr>,
        purge_reservations now d)
     else (\<lparr>acquired_ids = dedup ids, blocked_until = None\<rparr>,
        fold (reserve_id w rid now (expiry now ttl)) (dedup ids) (purge_reservations now d)))"
    unfolding acquire_id_fetch_reservations_def Let_def purge_reservations_def [symmetric]
    by (simp only: ne if_False rows_def)
  show thesis
  proof (cases "rows = []")
    case True
    have "\<forall>i v. i \<in> set ids \<longrightarrow> get_reservation i d = Some v \<longrightarrow> v_owner_token v \<noteq> w \<longrightarrow> v_expires_at v \<le> now"
    proof (intro allI impI)
      fix i v assume "i \<in> set ids" "get_reservation i d = Some v" "v_owner_token v \<noteq> w"
      then show "v_expires_at v \<le> now" using mem [of v] get_reservation_id [of i d v] True by auto
    qed
    with ne True eq run show thesis by (intro acquired) auto
  next
    case False
    then have "min_list (map v_expires_at rows) = Min (set (map v_expires_at rows))"
      by (intro min_list_Min) simp
    moreover have "Min (set (map v_expires_at rows)) \<in> set (map v_expires_at rows)"
      using False by (intro Min_in) auto
    ultimately obtain v where v: "v \<in> set rows" "min_list (map v_expires_at rows) = v_expires_at v" by auto
    have least: "v_expires_at v \<le> v_expires_at x" if "x \<in> set rows" for x
    proof -
      have "Min (set (map v_expires_at rows)) \<le> v_expires_at x" using that by (intro Min_le) auto
      with v(2) \<open>min_list (map v_expires_at rows) = Min (set (map v_expires_at rows))\<close> show ?thesis by simp
    qed
    have all: "\<forall>x i. i \<in> set ids \<longrightarrow> get_reservation i d = Some x \<longrightarrow> now < v_expires_at x \<longrightarrow> v_owner_token x \<noteq> w \<longrightarrow>
          v_expires_at v \<le> v_expires_at x"
    proof (intro allI impI)
      fix x i assume "i \<in> set ids" "get_reservation i d = Some x" "now < v_expires_at x" "v_owner_token x \<noteq> w"
      then show "v_expires_at v \<le> v_expires_at x"
        using mem [of x] get_reservation_id [of i d x] by (intro least) auto
    qed
    have res: "res = \<lparr>acquired_ids = [], blocked_until = Some (v_expires_at v)\<rparr>" "d' = purge_reservations now d"
      using eq run False v(2) by auto
    show thesis using v(1) [unfolded mem] all res by (intro blocked [OF ne, of v]) auto
  qed
qed

lemma release_ids_reservations:
  "reservations (release_id_fetch_reservations ids w now d) =
     tbl_delete (\<lambda>v. v_owner_token v = w \<and> v_arxiv_id v \<in> set ids) (reservations d)"
  by (auto simp: release_id_fetch_reservations_def Let_def tbl_delete_def)

lemma reservation_takes_grants:
  assumes ok: "schema_ok d" and run: "reservation_takes G now d d'"
  shows "grants reservation_holder G now d d' \<and> schema_ok d'"
  using run
proof (cases rule: reservation_takes.cases)
  case (acquire ids w rid ttl res)
  have "schema_ok d'" using schema_ok_acquire_ids [OF ok, of ids w rid ttl now] acquire by simp
  from ok acquire(2) show ?thesis
  proof (cases rule: acquire_ids_cases)
    case none
    then show ?thesis using ok by (auto simp: acquire(1) grants_def)
  next
    case blocked
    then show ?thesis using acquire(3) by simp
  next
    case acquired
    have get: "get_reservation i d' = (if i \<in> set ids
      then Some \<lparr>v_arxiv_id = i, v_owner_token = w, v_request_id = rid, v_acquired_at = now, v_expires_at = expiry now ttl\<rparr>
      else get_reservation i (purge_reservations now d))" for i
      by (simp add: acquired(5) get_reservation_reserve_all)
    show ?thesis using \<open>schema_ok d'\<close> acquired(4)
      by (auto simp: acquire(1) grants_def reservation_holder_def get get_reservation_purge [OF ok] split: if_splits)
  qed
next
  case (blocked ids w rid ttl res)
  have "schema_ok d'" using schema_ok_acquire_ids [OF ok, of ids w rid ttl now] blocked by simp
  from ok blocked(2) have "d' = d \<or> d' = purge_reservations now d"
    by (cases rule: acquire_ids_cases) (use blocked(3) in auto)
  then have "grants reservation_holder Map.empty now d d'"
    by (auto intro!: grants_none simp: reservation_holder_def get_reservation_purge [OF ok])
  with \<open>schema_ok d'\<close> show ?thesis by (simp add: blocked(1))
next
  case (renew ids w ttl)
  have "schema_ok d'" using schema_ok_renew_ids [OF ok, of ids w ttl now] renew by simp
  have own: "\<exists>v. get_reservation i d = Some v \<and> v_owner_token v = w" if "i \<in> set ids" for i
    using renew(2) that reservations_owned_iff [OF schema_okD(9) [OF ok] distinct_dedup, of ids w]
    by (auto simp: renew_id_fetch_reservations_def Let_def split: if_splits)
  have "d' = d \<and> ids = [] \<or> d' = extend_reservations (dedup ids) w now (expiry now ttl) d"
    using renew(2) by (auto simp: renew_id_fetch_reservations_def Let_def split: if_splits)
  then have get: "get_reservation i d' = (if i \<in> set ids
      then map_option (\<lambda>v. v\<lparr>v_acquired_at := now, v_expires_at := expiry now ttl\<rparr>) (get_reservation i d)
      else get_reservation i d)" for i
    using own [of i] by (cases "get_reservation i d") (auto simp: get_reservation_extend)
  show ?thesis using own \<open>schema_ok d'\<close>
    by (fastforce simp: renew(1) grants_def reservation_holder_def get split: if_splits)
next
  case (fence rid w n ttl ids)
  have "schema_ok d'" using schema_ok_fence [OF ok, of rid w n ttl ids now] fence by simp
  have own: "\<exists>v. get_reservation i d = Some v \<and> v_owner_token v = w" if "i \<in> set ids" for i
    using fence(2) by (cases rule: fence_cases)
      (use that reservations_owned_iff [OF schema_okD(9) [OF ok] distinct_dedup, of ids w] in auto)
  show ?thesis using own \<open>schema_ok d'\<close>
    by (fastforce simp: fence(1) grants_def reservation_holder_def fence_reads(2) [OF ok fence(2)] split: if_splits)
next
  case other
  then show ?thesis by (auto simp: reservation_holder_def get_reservation_def intro: grants_none)
qed

interpretation reservation_grant: exclusive_grant reservation_holder reservation_takes reservation_drops schema_ok
proof (rule exclusive_grantI)
  fix s s' :: db and G now
  show "schema_ok s \<Longrightarrow> reservation_takes G now s s' \<Longrightarrow> grants reservation_holder G now s s' \<and> schema_ok s'"
    by (rule reservation_takes_grants)
next
  fix s s' :: db and R now
  assume ok: "schema_ok s" and d: "reservation_drops R now s s'"
  then obtain ids w where R: "R = {(i, w) |i. i \<in> set ids}" and s': "s' = release_id_fetch_reservations ids w now s"
    by (auto simp: reservation_drops_def)
  have "reservation_holder s' r = Some (v, e)" if h: "reservation_holder s r = Some (v, e)" "(r, v) \<notin> R" for r v e
  proof -
    obtain x where x: "get_reservation r s = Some x" "v_owner_token x = v" "v_expires_at x = e"
      using h(1) by (auto simp: reservation_holder_def)
    then have "\<not> (v_owner_token x = w \<and> v_arxiv_id x \<in> set ids)"
      using h(2) R get_reservation_id [OF x(1)] by auto
    then have "get_reservation r s' = Some x"
      using x(1) by (simp add: s' get_reservation_def release_ids_reservations table_simps schema_okD(9) [OF ok])
    with x show ?thesis by (simp add: reservation_holder_def)
  qed
  with ok show "schema_ok s' \<and> (\<forall>r w e. reservation_holder s r = Some (w, e) \<longrightarrow> now < e \<longrightarrow> (r, w) \<notin> R \<longrightarrow>
      reservation_holder s' r = Some (w, e))"
    by (simp add: s' schema_ok_release_ids)
qed

subsection \<open>The contract on queue claims\<close>

definition claim_holder :: "db \<Rightarrow> string \<Rightarrow> (string \<times> datetime) option" where
  "claim_holder d rid =
     (case get_queue_row rid d of
        None \<Rightarrow> None
      | Some r \<Rightarrow> if q_status r = CLAIMED
          then (case (q_claimed_by r, q_claimed_until r) of (Some w, Some e) \<Rightarrow> Some (w, e) | _ \<Rightarrow> None)
          else None)"

inductive claim_takes :: "(string \<rightharpoonup> string \<times> datetime) \<Rightarrow> datetime \<Rightarrow> db \<Rightarrow> db \<Rightarrow> bool" where
  claim: "claim_next_queue_item w ttl ks rs now d = (Some i, d') \<Longrightarrow>
    claim_takes [i_request_id i \<mapsto> (w, expiry now ttl)] now d d'"
| renew: "renew_queue_claim rid w ttl now d = (Some i, d') \<Longrightarrow>
    claim_takes [rid \<mapsto> (w, expiry now ttl)] now d d'"
| fence: "renew_worker_fetch_ownership rid w n ttl ids now d = (None, d') \<Longrightarrow>
    claim_takes [rid \<mapsto> (w, expiry now ttl)] now d d'"
| enqueue: "enqueue_request_for_work_conn q k wk b t now u d = (res, d') \<Longrightarrow> claim_takes Map.empty now d d'"
| reserve: "reserve_queue_item_upstream_request rid now d = (res, d') \<Longrightarrow> claim_takes Map.empty now d d'"
| wake: "release_id_fetch_reservations ids w now d = d' \<Longrightarrow> claim_takes Map.empty now d d'"
| check: "check_queue_item_upstream_request_deadlines rid now d = (err, d') \<Longrightarrow> claim_takes Map.empty now d d'"
| collect: "queue_items d' = tbl_delete P (queue_items d) \<Longrightarrow> \<forall>r\<in>set (queue_items d). P r \<longrightarrow> \<not> pending (q_status r)
    \<Longrightarrow> schema_ok d' \<Longrightarrow> claim_takes Map.empty now d d'"
| other: "queue_items d' = queue_items d \<Longrightarrow> schema_ok d' \<Longrightarrow> claim_takes Map.empty now d d'"

text \<open>
  Completing, releasing and failing an item ends its claim, whoever holds it and whoever asks: these
  three updates of huldra/db.py name the item only, not the worker.
\<close>

inductive claim_drops :: "(string \<times> string) set \<Rightarrow> datetime \<Rightarrow> db \<Rightarrow> db \<Rightarrow> bool" where
  complete: "claim_drops {(rid, w) |w. True} now d (complete_queue_item rid now d)"
| release: "release_or_delay_queue_item rid t c m s now d = (res, d') \<Longrightarrow> claim_drops {(rid, w) |w. True} now d d'"
| spent: "fail_active_upstream_budget_items b c m now d = (n, d') \<Longrightarrow>
    claim_drops {(rid, w) |rid w. rid \<in> set (budget_affected b d)} now d d'"

definition claim_view :: "queue_row \<Rightarrow> request_status \<times> string option \<times> datetime option" where
  "claim_view r = (q_status r, q_claimed_by r, q_claimed_until r)"

lemma claim_holder_cong:
  assumes "map_option claim_view (get_queue_row k d') = map_option claim_view (get_queue_row k d)"
  shows "claim_holder d' k = claim_holder d k"
  using assms by (cases "get_queue_row k d"; cases "get_queue_row k d'")
    (auto simp: claim_holder_def claim_view_def)

text \<open>A rewrite of the queue rows that leaves the claim columns of the rows it holds.\<close>

lemma claim_holder_map:
  assumes "queue_items d' = map f (queue_items d)" "\<And>r. q_request_id (f r) = q_request_id r"
    and "\<And>r. get_queue_row k d = Some r \<Longrightarrow> q_status r = CLAIMED \<Longrightarrow> claim_view (f r) = claim_view r"
    and "\<And>r. get_queue_row k d = Some r \<Longrightarrow> q_status r \<noteq> CLAIMED \<Longrightarrow> q_status (f r) \<noteq> CLAIMED"
  shows "claim_holder d' k = claim_holder d k"
proof -
  have get: "get_queue_row k d' = map_option f (get_queue_row k d)"
    using assms(1,2) by (simp add: get_queue_row_def tbl_get_map)
  show ?thesis
  proof (cases "get_queue_row k d")
    case (Some r)
    then show ?thesis
      using get assms(3) [OF Some] assms(4) [OF Some]
      by (cases "q_status r = CLAIMED") (simp_all add: claim_holder_def claim_view_def)
  qed (simp add: get claim_holder_def)
qed

lemma claim_holder_detach: "claim_holder (detach_queue_budget_memberships rid bs d) k = claim_holder d k"
proof -
  obtain rep where "queue_items (detach_queue_budget_memberships rid bs d) =
     map (\<lambda>r. if q_request_id r = rid then r\<lparr>q_upstream_budget_id := rep\<rparr> else r) (queue_items d)"
    using detach_queue_items by blast
  then show ?thesis by (rule claim_holder_map) (auto simp: claim_view_def)
qed

lemma claim_holder_same: "queue_items d' = queue_items d \<Longrightarrow> claim_holder d' k = claim_holder d k"
  by (simp add: claim_holder_def get_queue_row_def)

lemma claim_holder_detach_invalid:
  "claim_holder (detach_invalid_queue_budgets rid invalid d) k = claim_holder d k"
  unfolding detach_invalid_queue_budgets_def claim_holder_detach
  by (rule claim_holder_same) simp

lemma claim_holder_reserve:
  assumes "reserve_queue_item_upstream_request rid now d = (res, d')"
  shows "claim_holder d' k = claim_holder d k"
  using assms
proof (cases rule: reserve_queue_item_cases)
  case (refused e invalid)
  then show ?thesis by (simp add: claim_holder_detach_invalid)
next
  case (charged invalid st bs d1 d2)
  have gate: "claim_holder (close_gate rid x) k = claim_holder x k" for x
    by (rule claim_holder_map [where f = "\<lambda>r. if q_request_id r = rid \<and> q_status r = CLAIMED
        then r\<lparr>q_gate_closed := True\<rparr> else r"])
      (auto simp: close_gate_def tbl_update_def claim_view_def)
  have "claim_holder d' k = claim_holder d1 k"
    unfolding charged(6) gate by (intro claim_holder_same) (simp add: charged(5))
  then show ?thesis by (simp add: charged(3) claim_holder_detach_invalid)
qed

lemma claim_holder_enqueue:
  assumes "enqueue_request_for_work_conn q k wk b t now u d = (res, d')"
  shows "claim_holder d' i = claim_holder d i"
  using assms
proof (cases rule: enqueue_cases)
  case (joined r)
  show ?thesis
    by (rule claim_holder_map [where f = "\<lambda>x. if q_request_id x = q_request_id r then join_row q wk b t now x else x"])
      (auto simp: joined(4) tbl_update_def claim_view_def)
next
  case (created p)
  then show ?thesis
    by (auto simp: claim_holder_def get_queue_row_def tbl_get_append tbl_get_Cons new_queue_row_def
        split: option.split)
qed simp

lemma claim_holder_wake:
  assumes "schema_ok d"
  shows "claim_holder (release_id_fetch_reservations ids w now d) k = claim_holder d k"
proof -
  have wake: "claim_holder (wake_id_fetch_reserved_queue_items js now x) k = claim_holder x k"
    if ok: "schema_ok x" for js and x :: db
  proof (rule claim_holder_map [where f = "\<lambda>r. if q_request_id r \<in> q_request_id ` {y \<in> set (queue_items x). blocked_on_ids js y}
       then r\<lparr>q_status := QUEUED, q_next_attempt_at := None, q_updated_at := now,
                  q_claimed_by := None, q_claimed_until := None, q_gate_closed := False,
                  q_error_category := None, q_error_message := None\<rparr> else r"])
    fix r assume r: "get_queue_row k x = Some r" "q_status r = CLAIMED"
    have "r \<in> set (queue_items x)" using r by (auto simp: get_queue_row_def dest: tbl_get_SomeD)
    then have "q_request_id r \<notin> q_request_id ` {y \<in> set (queue_items x). blocked_on_ids js y}"
    proof -
      assume mem: "r \<in> set (queue_items x)"
      have "\<not> blocked_on_ids js y" if "y \<in> set (queue_items x)" "q_request_id r = q_request_id y" for y
        using keyed_eqI [OF schema_okD(4) [OF ok] mem that] r(2) by (auto simp: blocked_on_ids_def)
      then show ?thesis by auto
    qed
    then show "claim_view (if q_request_id r \<in> q_request_id ` {y \<in> set (queue_items x). blocked_on_ids js y}
       then r\<lparr>q_status := QUEUED, q_next_attempt_at := None, q_updated_at := now,
                  q_claimed_by := None, q_claimed_until := None, q_gate_closed := False,
                  q_error_category := None, q_error_message := None\<rparr> else r) = claim_view r" by simp
  qed (auto simp: wake_map)
  have ok1: "schema_ok (d\<lparr>reservations := tbl_delete P (reservations d)\<rparr>)" for P
    using assms by (intro schema_ok_reservations keyed_delete schema_okD(9))
  show ?thesis
    by (auto simp: release_id_fetch_reservations_def Let_def wake [OF ok1] intro: claim_holder_same)
qed

lemma claim_takes_grants:
  assumes ok: "schema_ok d" and run: "claim_takes G now d d'"
  shows "grants claim_holder G now d d' \<and> schema_ok d'"
  using run
proof (cases rule: claim_takes.cases)
  case (claim w ttl ks rs i)
  have "schema_ok d'" using schema_ok_claim [OF ok claim(2)] .
  from ok claim(2) show ?thesis
  proof (cases rule: claim_next_cases)
    case (claimed r)
    let ?f = "\<lambda>x. if q_request_id x = q_request_id r then claim_row w (expiry now ttl) now x else x"
    have i: "i_request_id i = q_request_id r" using claimed(4) by (simp add: queue_item_from_row_def)
    have get: "get_queue_row k d' = map_option ?f (get_queue_row k d)" for k
      by (simp add: claimed(5) get_queue_row_def tbl_get_map)
    have r: "get_queue_row (q_request_id r) d = Some r"
      using tbl_get_memI [OF schema_okD(4) [OF ok] claimed(1)] by (simp add: get_queue_row_def)
    have new: "claim_holder d' (q_request_id r) = Some (w, expiry now ttl)"
      by (simp add: claim_holder_def get r claim_row_def)
    have old: "e' \<le> now" if "claim_holder d (q_request_id r) = Some (w', e')" for w' e'
      using that claimed(2) by (auto simp: claim_holder_def r claimable_def split: if_splits option.splits)
    have other: "claim_holder d' k = claim_holder d k" if "k \<noteq> q_request_id r" for k
    proof (rule claim_holder_cong)
      show "map_option claim_view (get_queue_row k d') = map_option claim_view (get_queue_row k d)"
        using that get_queue_row_id [of k d] by (cases "get_queue_row k d") (auto simp: get)
    qed
    show ?thesis using \<open>schema_ok d'\<close> new old other by (auto simp: claim(1) i grants_def split: if_splits)
  qed simp
next
  case (renew rid w ttl i)
  have "schema_ok d'" using schema_ok_renew [OF ok, of rid w ttl now] renew by simp
  have d': "d' = extend_claim rid w (expiry now ttl) now d"
    and one: "tbl_count (claim_owned rid w) (queue_items d) = 1"
    using renew(2) by (auto simp: renew_queue_claim_def Let_def split: if_splits)
  have "tbl_count (\<lambda>r. q_request_id r = rid \<and> (q_status r = CLAIMED \<and> q_claimed_by r = Some w)) (queue_items d) = 1"
    using one by (simp add: claim_owned_def [abs_def])
  then obtain r where r: "get_queue_row rid d = Some r" "q_status r = CLAIMED" "q_claimed_by r = Some w"
    by (auto simp: tbl_count_keyed [OF schema_okD(4) [OF ok]] get_queue_row_def split: option.splits if_splits)
  have "q_request_id r = rid" using get_queue_row_id [OF r(1)] .
  then have new: "claim_holder d' rid = Some (w, expiry now ttl)"
    using r by (simp add: claim_holder_def d' get_queue_row_extend_claim claim_owned_def)
  have old: "w' = w" if "claim_holder d rid = Some (w', e')" for w' e'
    using that r by (auto simp: claim_holder_def split: option.splits)
  have other: "claim_holder d' k = claim_holder d k" if "k \<noteq> rid" for k
  proof (rule claim_holder_cong)
    show "map_option claim_view (get_queue_row k d') = map_option claim_view (get_queue_row k d)"
      using that get_queue_row_id [of k d]
      by (cases "get_queue_row k d") (auto simp: d' get_queue_row_extend_claim claim_owned_def)
  qed
  show ?thesis using \<open>schema_ok d'\<close> new old other by (auto simp: renew(1) grants_def split: if_splits)
next
  case (fence rid w n ttl ids)
  have "schema_ok d'" using schema_ok_fence [OF ok, of rid w n ttl ids now] fence by simp
  have "claim_held rid w d" using fence(2) by (cases rule: fence_cases) auto
  then obtain r where r: "get_queue_row rid d = Some r" "q_status r = CLAIMED" "q_claimed_by r = Some w"
    by (auto simp: claim_held_def split: option.splits)
  note get = fence_reads(3) [OF ok fence(2)]
  have new: "claim_holder d' rid = Some (w, expiry now ttl)" using r by (simp add: claim_holder_def get)
  have old: "w' = w" if "claim_holder d rid = Some (w', e')" for w' e'
    using that r by (auto simp: claim_holder_def split: option.splits)
  have other: "claim_holder d' k = claim_holder d k" if "k \<noteq> rid" for k
    using that by (simp add: claim_holder_def get)
  show ?thesis using \<open>schema_ok d'\<close> new old other by (auto simp: fence(1) grants_def split: if_splits)
next
  case (enqueue q k wk b t u res)
  then show ?thesis using schema_ok_enqueue [OF ok enqueue(2)] claim_holder_enqueue [OF enqueue(2)]
    by (auto intro: grants_none)
next
  case (reserve rid res)
  then show ?thesis using schema_ok_reserve_item [OF ok reserve(2)] claim_holder_reserve [OF reserve(2)]
    by (auto intro: grants_none)
next
  case (wake ids w)
  then show ?thesis using schema_ok_release_ids [OF ok, of ids w now] claim_holder_wake [OF ok, of ids w now]
    by (auto intro: grants_none)
next
  case (check rid err)
  have "claim_holder d' k = claim_holder d k" for k
    using check(2) by (auto simp: check_queue_item_upstream_request_deadlines_def Let_def claim_holder_detach_invalid split: if_splits)
  moreover have "schema_ok d'" using schema_ok_check_item [OF ok, of rid now] check(2) by simp
  ultimately show ?thesis using check(1) by (auto intro: grants_none)
next
  case (collect P)
  have "claim_holder d' k = Some (w, e)" if h: "claim_holder d k = Some (w, e)" for k w e
  proof -
    obtain r where r: "get_queue_row k d = Some r" "q_status r = CLAIMED" using h by (cases "get_queue_row k d") (auto simp: claim_holder_def split: if_splits)
    then have "\<not> P r" using collect(3) by (auto simp: get_queue_row_def dest: tbl_get_SomeD)
    then have "get_queue_row k d' = get_queue_row k d"
      using r(1) by (simp add: get_queue_row_def collect(2) table_simps schema_okD(4) [OF ok])
    with h show ?thesis by (simp add: claim_holder_def)
  qed
  with collect show ?thesis by (auto intro: grants_none)
next
  case other
  have "claim_holder d' k = claim_holder d k" for k by (rule claim_holder_same) (rule other(2))
  with other show ?thesis by (auto intro: grants_none)
qed

lemma claim_drops_effect:
  assumes ok: "schema_ok s" and run: "claim_drops R now s s'"
  shows "schema_ok s' \<and> (\<forall>r w e. claim_holder s r = Some (w, e) \<longrightarrow> now < e \<longrightarrow> (r, w) \<notin> R \<longrightarrow>
      claim_holder s' r = Some (w, e))"
  using run
proof (cases rule: claim_drops.cases)
  case (complete rid)
  have "claim_holder s' r = claim_holder s r" if "r \<noteq> rid" for r
    by (rule claim_holder_map [where f = "\<lambda>x. if q_request_id x = rid then x\<lparr>q_status := COMPLETED, q_completed_at := Some now, q_updated_at := now,
              q_claimed_by := None, q_claimed_until := None, q_error_category := None,
              q_error_message := None\<rparr> else x"])
      (use that get_queue_row_id [of r s] in \<open>auto simp: complete complete_queue_item_def tbl_update_def\<close>)
  then show ?thesis using ok by (auto simp: complete schema_ok_complete)
next
  case (release rid t c m st res)
  have "schema_ok s'" using schema_ok_release [OF ok, of rid t c m st now] release by simp
  have eq: "s' = s \<or> queue_items s' = map (\<lambda>x. if q_request_id x = rid then x\<lparr>q_status := st, q_next_attempt_at := t, q_updated_at := now,
                  q_claimed_by := None, q_claimed_until := None, q_gate_closed := False,
                  q_error_category := c, q_error_message := clip_message m\<rparr> else x) (queue_items s)"
    using release(2) by (auto simp: release_or_delay_queue_item_def Let_def tbl_update_def split: if_splits)
  have "claim_holder s' r = claim_holder s r" if "r \<noteq> rid" for r
    using eq
  proof
    assume q: "queue_items s' = map (\<lambda>x. if q_request_id x = rid then x\<lparr>q_status := st, q_next_attempt_at := t, q_updated_at := now,
                  q_claimed_by := None, q_claimed_until := None, q_gate_closed := False,
                  q_error_category := c, q_error_message := clip_message m\<rparr> else x) (queue_items s)"
    show ?thesis
      by (rule claim_holder_map [OF q]) (use that get_queue_row_id [of r s] in auto)
  qed simp
  then show ?thesis using \<open>schema_ok s'\<close> by (auto simp: release(1))
next
  case (spent b c m n)
  have "schema_ok s'" using schema_ok_fail_active [OF ok, of b c m now] spent by simp
  note q = fail_active_queue(1) [OF ok spent(2)]
  have "claim_holder s' r = claim_holder s r" if "r \<notin> set (budget_affected b s)" for r
    by (rule claim_holder_map [OF q]) (use that get_queue_row_id [of r s] in auto)
  then show ?thesis using \<open>schema_ok s'\<close> by (auto simp: spent(1))
qed

interpretation claim_grant: exclusive_grant claim_holder claim_takes claim_drops schema_ok
  by (rule exclusive_grantI, erule (1) claim_takes_grants, erule (1) claim_drops_effect)

subsection \<open>Properties\<close>

text \<open>
  C11. renew_worker_fetch_ownership answers None exactly when the worker
  still owns the lease, the claim and every id reservation. It then extends all three to the
  same expiry and changes no lease, item or reservation of anyone else; otherwise the database
  is exactly as before.
\<close>

theorem fence_all_or_nothing:
  assumes ok: "schema_ok d" and run: "renew_worker_fetch_ownership rid w n ttl ids now d = (res, d')"
  shows "(res = None \<longleftrightarrow> lease_owned n w d \<and> claim_held rid w d \<and>
            (\<forall>i\<in>set ids. \<exists>e. reservation_holder d i = Some (w, e))) \<and>
     (if res = None
      then lease_holder d' n = Some (w, expiry now ttl) \<and> claim_holder d' rid = Some (w, expiry now ttl) \<and>
        (\<forall>i\<in>set ids. reservation_holder d' i = Some (w, expiry now ttl)) \<and>
        (\<forall>k. k \<noteq> n \<longrightarrow> get_lease k d' = get_lease k d) \<and>
        (\<forall>k. k \<noteq> rid \<longrightarrow> get_queue_row k d' = get_queue_row k d) \<and>
        (\<forall>i. i \<notin> set ids \<longrightarrow> get_reservation i d' = get_reservation i d)
      else d' = d)"
proof -
  have own: "(ids = [] \<or> reservations_owned (dedup ids) w d) \<longleftrightarrow> (\<forall>i\<in>set ids. \<exists>e. reservation_holder d i = Some (w, e))"
    using reservations_owned_iff [OF schema_okD(9) [OF ok] distinct_dedup, of ids w]
    by (auto simp: reservation_holder_def)
  from run show ?thesis
  proof (cases rule: fence_cases)
    case (lost e)
    then show ?thesis unfolding own by simp
  next
    case held
    have run': "renew_worker_fetch_ownership rid w n ttl ids now d = (None, d')" using run held(1) by simp
    note reads = fence_reads [OF ok run']
    obtain l where l: "get_lease n d = Some l" "l_owner_token l = w"
      using held(2) by (auto simp: lease_owned_def split: option.splits)
    obtain r where r: "get_queue_row rid d = Some r" "q_status r = CLAIMED" "q_claimed_by r = Some w"
      using held(3) by (auto simp: claim_held_def split: option.splits)
    have res: "\<forall>i\<in>set ids. \<exists>e. reservation_holder d i = Some (w, e)" using held(4) own by blast
    have "\<forall>i\<in>set ids. reservation_holder d' i = Some (w, expiry now ttl)"
      using res by (auto simp: reservation_holder_def reads(2))
    moreover have "lease_holder d' n = Some (w, expiry now ttl)" using l by (simp add: lease_holder_def reads(1))
    moreover have "claim_holder d' rid = Some (w, expiry now ttl)" using r by (simp add: claim_holder_def reads(3))
    ultimately show ?thesis using held(1-3) res by (simp add: reads)
  qed
qed

definition owned_store :: db where
  "owned_store = sample_store\<lparr>
     leases := [\<lparr>l_name = ''l'', l_owner_token = ''w'', l_acquired_at = 0, l_expires_at = 100\<rparr>],
     reservations := [\<lparr>v_arxiv_id = ''i'', v_owner_token = ''w'', v_request_id = ''r'',
        v_acquired_at = 0, v_expires_at = 100\<rparr>]\<rparr>"

lemma owned_store_ok: "schema_ok owned_store"
  using sample_store_ok(1)
  by (simp add: schema_ok_def owned_store_def keyed_Cons get_queue_row_def get_budget_def sample_store_def empty_db_def)

theorem fence_all_or_nothing_witness:
  "fst (renew_worker_fetch_ownership ''r'' ''w'' ''l'' 300 [''i''] 50 owned_store) = None \<and>
   lease_holder (snd (renew_worker_fetch_ownership ''r'' ''w'' ''l'' 300 [''i''] 50 owned_store)) ''l''
     = Some (''w'', expiry 50 300) \<and>
   renew_worker_fetch_ownership ''r'' ''w'' ''l'' 300 [''i'', ''j''] 50 owned_store = (Some ''id_fetch_reserved'', owned_store)"
proof -
  have a: "fst (renew_worker_fetch_ownership ''r'' ''w'' ''l'' 300 [''i''] 50 owned_store) = None"
    "fst (renew_worker_fetch_ownership ''r'' ''w'' ''l'' 300 [''i'', ''j''] 50 owned_store) = Some ''id_fetch_reserved''"
    by code_simp+
  show ?thesis
    using fence_all_or_nothing [OF owned_store_ok surjective_pairing, of "''r''" "''w''" "''l''" 300 "[''i'']" 50]
      fence_all_or_nothing [OF owned_store_ok surjective_pairing, of "''r''" "''w''" "''l''" 300 "[''i'', ''j'']" 50] a
    by (auto intro!: prod_eqI)
qed

text \<open>
  C8. Whatever transactions any number of processes run in whatever order
  (a clock that does not go back), two owners are never both told that they hold the same lease
  at the same time: if each was granted or renewed it up to an expiry that has not passed, and
  has not released it, they are the same owner.
\<close>

theorem lease_mutual_exclusion:
  assumes "grant_reach schema_ok lease_takes lease_drops t d B"
    and "B name w = Some e" "t < e" "B name w' = Some e'" "t < e'"
  shows "w = w' \<and> lease_holder d name = Some (w, e)"
  using lease_grant.exclusive [OF assms] lease_grant.believed_held [OF assms(1)] assms(2,3) by blast

text \<open>
  C10. The same for id reservations: along any run, an arXiv id has at
  most one worker that was granted it and whose reservation has not expired.
\<close>

theorem reservation_mutual_exclusion:
  assumes "grant_reach schema_ok reservation_takes reservation_drops t d B"
    and "B i w = Some e" "t < e" "B i w' = Some e'" "t < e'"
  shows "w = w' \<and> reservation_holder d i = Some (w, e)"
  using reservation_grant.exclusive [OF assms] reservation_grant.believed_held [OF assms(1)] assms(2,3) by blast

text \<open>
  C7. The same for queue items: along any run of the operations that write queue_items (claims,
  renewals, fences, enqueues and joins, budget reservations and deadline checks, wake-ups, and the
  retention that deletes rows no longer pending), an item has at most one worker whose claim on it
  has not expired, and the store shows that worker. A worker's claim counts until it expires or the
  item is completed, released or failed by anyone: those updates do not ask who holds the item, see
  release_not_fenced_by_owner.
\<close>

theorem claim_mutual_exclusion:
  assumes "grant_reach schema_ok claim_takes claim_drops t d B"
    and "B rid w = Some e" "t < e" "B rid w' = Some e'" "t < e'"
  shows "w = w' \<and> claim_holder d rid = Some (w, e)"
  using claim_grant.exclusive [OF assms] claim_grant.believed_held [OF assms(1)] assms(2,3) by blast

text \<open>A run in which w is granted the lease and a rival is refused one microsecond later.\<close>

theorem lease_mutual_exclusion_witness:
  "\<exists>B. grant_reach schema_ok lease_takes lease_drops 1 (snd (acquire_lease ''l'' ''v'' 300 1
        (snd (acquire_lease ''l'' ''w'' 300 0 (empty_db (\<lambda>_. 0)))))) B \<and>
     B ''l'' ''w'' = Some (expiry 0 300) \<and>
     lease_holder (snd (acquire_lease ''l'' ''v'' 300 1 (snd (acquire_lease ''l'' ''w'' 300 0 (empty_db (\<lambda>_. 0))))))
       ''l'' = Some (''w'', expiry 0 300)"
proof -
  let ?d1 = "snd (acquire_lease ''l'' ''w'' 300 0 (empty_db (\<lambda>_. 0)))"
  let ?d2 = "snd (acquire_lease ''l'' ''v'' 300 1 ?d1)"
  let ?B1 = "\<lambda>r w. case [''l'' \<mapsto> (''w'', expiry 0 300)] r of Some (w', e) \<Rightarrow> if w = w' then Some e else None | None \<Rightarrow> None"
  let ?B2 = "\<lambda>r w. case Map.empty r of Some (w', e) \<Rightarrow> if w = w' then Some e else ?B1 r w | None \<Rightarrow> ?B1 r w"
  have a: "acquire_lease ''l'' ''w'' 300 0 (empty_db (\<lambda>_. 0)) = (True, ?d1)"
    by (rule prod_eqI, code_simp, simp)
  have b: "acquire_lease ''l'' ''v'' 300 1 ?d1 = (False, ?d2)"
    by (rule prod_eqI, code_simp, simp)
  have r1: "grant_reach schema_ok lease_takes lease_drops 0 ?d1 ?B1"
    by (rule grant_reach.take [where takes = lease_takes and ok = schema_ok, OF grant_reach.begin_run [where ok = schema_ok, OF empty_db_schema] order_refl lease_takes.acquire [OF a]])
  have r2: "grant_reach schema_ok lease_takes lease_drops 1 ?d2 ?B2"
    by (rule grant_reach.take [where takes = lease_takes and ok = schema_ok, OF r1 _ lease_takes.refuse [OF b]]) simp
  have e: "1 < expiry 0 300" by (simp add: expiry_def us_per_second_def)
  have B: "?B2 ''l'' ''w'' = Some (expiry 0 300)" by simp
  show ?thesis
    by (rule exI, intro conjI, rule r2, rule B,
        rule lease_mutual_exclusion [where name = "''l''" and w = "''w''" and w' = "''w''", OF r2 B e B e, THEN conjunct2])
qed

theorem reservation_mutual_exclusion_witness:
  "\<exists>B. grant_reach schema_ok reservation_takes reservation_drops 0
        (snd (acquire_id_fetch_reservations [''i''] ''w'' ''r'' 300 0 (empty_db (\<lambda>_. 0)))) B \<and>
     B ''i'' ''w'' = Some (expiry 0 300) \<and>
     reservation_holder (snd (acquire_id_fetch_reservations [''i''] ''w'' ''r'' 300 0 (empty_db (\<lambda>_. 0)))) ''i''
       = Some (''w'', expiry 0 300)"
proof -
  let ?r1 = "acquire_id_fetch_reservations [''i''] ''w'' ''r'' 300 0 (empty_db (\<lambda>_. 0))"
  let ?G = "\<lambda>i. if i \<in> set [''i''] then Some (''w'', expiry 0 300) else None"
  let ?B1 = "\<lambda>r w. case ?G r of Some (w', e) \<Rightarrow> if w = w' then Some e else None | None \<Rightarrow> None"
  have b: "blocked_until (fst ?r1) = None" by code_simp
  have r1: "grant_reach schema_ok reservation_takes reservation_drops 0 (snd ?r1) ?B1"
    by (rule grant_reach.take [where takes = reservation_takes and ok = schema_ok, OF grant_reach.begin_run [where ok = schema_ok, OF empty_db_schema] order_refl
        reservation_takes.acquire [OF surjective_pairing b]])
  have e: "0 < expiry 0 300" by (simp add: expiry_def us_per_second_def)
  have B: "?B1 ''i'' ''w'' = Some (expiry 0 300)" by simp
  show ?thesis
    by (rule exI, intro conjI, rule r1, rule B,
        rule reservation_mutual_exclusion [where i = "''i''" and w = "''w''" and w' = "''w''", OF r1 B e B e, THEN conjunct2])
qed

theorem claim_mutual_exclusion_witness:
  "\<exists>B. grant_reach schema_ok claim_takes claim_drops 100 (snd (claim_next_queue_item ''v'' 300 None None 100 sample_store)) B \<and>
     B ''r'' ''v'' = Some (expiry 100 300) \<and>
     claim_holder (snd (claim_next_queue_item ''v'' 300 None None 100 sample_store)) ''r'' = Some (''v'', expiry 100 300)"
proof -
  let ?r1 = "claim_next_queue_item ''v'' 300 None None 100 sample_store"
  have "map_option i_request_id (fst ?r1) = Some ''r''" by code_simp
  then obtain i where i: "fst ?r1 = Some i" "i_request_id i = ''r''" by auto
  let ?G = "[i_request_id i \<mapsto> (''v'', expiry 100 300)]"
  let ?B1 = "\<lambda>r w. case ?G r of Some (w', e) \<Rightarrow> if w = w' then Some e else None | None \<Rightarrow> None"
  have run: "?r1 = (Some i, snd ?r1)" using i(1) by (simp add: prod_eq_iff)
  have r1: "grant_reach schema_ok claim_takes claim_drops 100 (snd ?r1) ?B1"
    by (rule grant_reach.take [where takes = claim_takes and ok = schema_ok, OF grant_reach.begin_run [where ok = schema_ok, OF sample_store_ok(1)] order_refl claim_takes.claim [OF run]])
  have e: "100 < expiry 100 300" by (simp add: expiry_def us_per_second_def)
  have B: "?B1 ''r'' ''v'' = Some (expiry 100 300)" using i(2) by simp
  show ?thesis
    by (rule exI, intro conjI, rule r1, rule B,
        rule claim_mutual_exclusion [where rid = "''r''" and w = "''v''" and w' = "''v''", OF r1 B e B e, THEN conjunct2])
qed

text \<open>
  acquire_id_fetch_reservations grants all of the requested ids
  or none. It is refused exactly when another owner holds an unexpired reservation of one of
  them, and then answers the earliest expiry among those, without touching any unexpired row.
\<close>

theorem reservations_all_or_nothing:
  assumes ok: "schema_ok d" and run: "acquire_id_fetch_reservations ids w rid ttl now d = (res, d')"
  shows "if \<exists>i\<in>set ids. \<exists>v e. reservation_holder d i = Some (v, e) \<and> v \<noteq> w \<and> now < e
    then acquired_ids res = [] \<and>
      blocked_until res = Some (Min {e. \<exists>i\<in>set ids. \<exists>v. reservation_holder d i = Some (v, e) \<and> v \<noteq> w \<and> now < e}) \<and>
      (\<forall>i. reservation_holder d' i = (case reservation_holder d i of
          Some (v, e) \<Rightarrow> if e \<le> now then None else Some (v, e) | None \<Rightarrow> None))
    else set (acquired_ids res) = set ids \<and> blocked_until res = None \<and>
      (\<forall>i\<in>set ids. reservation_holder d' i = Some (w, expiry now ttl))"
  using ok run
proof (cases rule: acquire_ids_cases)
  case none
  then show ?thesis by simp
next
  case (blocked v)
  let ?S = "{e. \<exists>i\<in>set ids. \<exists>v. reservation_holder d i = Some (v, e) \<and> v \<noteq> w \<and> now < e}"
  have mem: "v_expires_at v \<in> ?S" using blocked(4-7) by (force simp: reservation_holder_def)
  have "?S \<subseteq> (\<lambda>i. snd (the (reservation_holder d i))) ` set ids" by force
  then have fin: "finite ?S" using finite_subset by blast
  have "\<forall>e\<in>?S. v_expires_at v \<le> e" using blocked(8) by (auto simp: reservation_holder_def)
  then have "Min ?S = v_expires_at v" using fin mem by (intro Min_eqI) auto
  moreover have "\<exists>i\<in>set ids. \<exists>v e. reservation_holder d i = Some (v, e) \<and> v \<noteq> w \<and> now < e"
    using mem by blast
  moreover have "reservation_holder d' i = (case reservation_holder d i of
          Some (v, e) \<Rightarrow> if e \<le> now then None else Some (v, e) | None \<Rightarrow> None)" for i
    by (simp add: blocked(9) reservation_holder_def get_reservation_purge [OF ok] split: option.split)
  ultimately show ?thesis using blocked(2,3) by simp
next
  case acquired
  have "\<not> (\<exists>i\<in>set ids. \<exists>v e. reservation_holder d i = Some (v, e) \<and> v \<noteq> w \<and> now < e)"
    using acquired(4) by (fastforce simp: reservation_holder_def)
  then show ?thesis using acquired(2,3)
    by (simp add: acquired(5) reservation_holder_def get_reservation_reserve_all)
qed

theorem reservations_all_or_nothing_witness:
  "fst (acquire_id_fetch_reservations [''i'', ''j''] ''v'' ''q'' 300 50 owned_store)
     = \<lparr>acquired_ids = [], blocked_until = Some 100\<rparr> \<and>
   set (acquired_ids (fst (acquire_id_fetch_reservations [''i'', ''j''] ''v'' ''q'' 300 100 owned_store))) = {''i'', ''j''}"
proof -
  have a: "fst (acquire_id_fetch_reservations [''i'', ''j''] ''v'' ''q'' 300 50 owned_store)
     = \<lparr>acquired_ids = [], blocked_until = Some 100\<rparr>"
    by code_simp
  have "reservation_holder owned_store ''i'' = Some (''w'', 100)" "reservation_holder owned_store ''j'' = None"
    by code_simp+
  then show ?thesis
    using a reservations_all_or_nothing [OF owned_store_ok surjective_pairing, where ids = "[''i'', ''j'']" and w = "''v''" and rid = "''q''"
        and ttl = 300 and now = 100]
    by auto
qed

end
