(* ===== verification/Huldra_World.thy ===== *)
theory Huldra_World
  imports Huldra_Ownership
begin

text \<open>
  Programs that run several transactions (huldra/limiter.py, huldra/worker.py). A program is a
  function of the world: the shared store, the readings of the clock, the other processes, which
  may run any transactions between two of ours, and the upstream API. Python exceptions are
  values of a sum type.
\<close>

record fetch_result =
  f_papers :: "arxiv_paper list"
  f_total_results :: "int option"
  f_upstream_status :: int

text \<open>One page of an OAI-PMH list and the call that asks for it (OaiPmhPage and OaiFetcher of oai.py).\<close>

record oai_protocol_error =
  pe_code :: "string option"
  pe_message :: string

record oai_page =
  og_records :: "oai_record list"
  og_response_date :: "string option"
  og_token :: "string option"
  og_errors :: "oai_protocol_error list"
  og_request_params :: "(string \<times> string) list"

record oai_call =
  oc_metadata_prefix :: oai_metadata_prefix
  oc_set_spec :: "string option"
  oc_from :: "string option"
  oc_until :: "string option"
  oc_token :: "string option"
  oc_timeout :: seconds

text \<open>Exceptions: of the store, the hierarchy of fetcher.HuldraFetchError, and any other.\<close>

datatype exn = StoreExn store_error
  | RateLimitedError "int option" "int option" string
  | TransientFetchError "int option" string
  | NonRetryableFetchError "int option" string
  | HuldraFetchError "int option" string
  | OtherExn string

record world =
  store :: db
  clock :: "nat \<Rightarrow> datetime"
  reads :: nat
  others :: "nat \<Rightarrow> db \<Rightarrow> db"
  txs :: nat
  upstream :: "nat \<Rightarrow> arxiv_request \<Rightarrow> exn + fetch_result"
  fetches :: "(arxiv_request \<times> db) list"
  slept :: "seconds list"
  oai_upstream :: "nat \<Rightarrow> oai_call \<Rightarrow> exn + oai_page"
  oai_calls :: "(oai_call \<times> db) list"
  mono_clock :: "nat \<Rightarrow> seconds"
  mono_reads :: nat
  uuid_source :: "nat \<Rightarrow> string"
  uuids_used :: nat

type_synonym 'a act = "world \<Rightarrow> (exn + 'a) \<times> world"

definition returnM :: "'a \<Rightarrow> 'a act" where "returnM x w = (Inr x, w)"

definition raiseM :: "exn \<Rightarrow> 'a act" where "raiseM e w = (Inl e, w)"

definition bindM :: "'a act \<Rightarrow> ('a \<Rightarrow> 'b act) \<Rightarrow> 'b act" where
  "bindM m k w = (case m w of (Inl e, w') \<Rightarrow> (Inl e, w') | (Inr x, w') \<Rightarrow> k x w')"

definition thenM :: "'a act \<Rightarrow> 'b act \<Rightarrow> 'b act" where
  "thenM m k = bindM m (\<lambda>_. k)"

text \<open>try m except e: h e.\<close>

definition catchM :: "'a act \<Rightarrow> (exn \<Rightarrow> 'a act) \<Rightarrow> 'a act" where
  "catchM m h w = (case m w of (Inl e, w') \<Rightarrow> h e w' | (Inr x, w') \<Rightarrow> (Inr x, w'))"

text \<open>try m except e: h e else x: k x.\<close>

definition try_elseM :: "'a act \<Rightarrow> (exn \<Rightarrow> 'b act) \<Rightarrow> ('a \<Rightarrow> 'b act) \<Rightarrow> 'b act" where
  "try_elseM m h k w = (case m w of (Inl e, w') \<Rightarrow> h e w' | (Inr x, w') \<Rightarrow> k x w')"

text \<open>try m finally f: an exception of f replaces the outcome of m.\<close>

definition finallyM :: "'a act \<Rightarrow> unit act \<Rightarrow> 'a act" where
  "finallyM m f w = (case m w of (r, w') \<Rightarrow>
     (case f w' of (Inl e, w'') \<Rightarrow> (Inl e, w'') | (Inr _, w'') \<Rightarrow> (r, w'')))"

text \<open>utc_now().\<close>

definition utc_now :: "datetime act" where
  "utc_now w = (Inr (clock w (reads w)), w\<lparr>reads := Suc (reads w)\<rparr>)"

text \<open>time.monotonic() and str(uuid4()).\<close>

definition monotonic :: "seconds act" where
  "monotonic w = (Inr (mono_clock w (mono_reads w)), w\<lparr>mono_reads := Suc (mono_reads w)\<rparr>)"

definition uuid4 :: "string act" where
  "uuid4 w = (Inr (uuid_source w (uuids_used w)), w\<lparr>uuids_used := Suc (uuids_used w)\<rparr>)"

text \<open>Waiting for the write lock: whatever the others do first.\<close>

definition acquire_lock :: "world \<Rightarrow> world" where
  "acquire_lock w = w\<lparr>store := others w (txs w) (store w), txs := Suc (txs w)\<rparr>"

text \<open>
  One transaction that cannot fail, one that samples the clock once it holds the lock, one that
  may raise, and a read.
\<close>

definition tx :: "(db \<Rightarrow> 'a \<times> db) \<Rightarrow> 'a act" where
  "tx f w = (let w1 = acquire_lock w; (x, d) = f (store w1) in (Inr x, w1\<lparr>store := d\<rparr>))"

definition tx_do :: "(db \<Rightarrow> db) \<Rightarrow> unit act" where
  "tx_do f = tx (\<lambda>d. ((), f d))"

definition tx_now :: "(datetime \<Rightarrow> db \<Rightarrow> 'a \<times> db) \<Rightarrow> 'a act" where
  "tx_now f w = (let w1 = acquire_lock w; t = clock w1 (reads w1); (x, d) = f t (store w1)
     in (Inr x, w1\<lparr>store := d, reads := Suc (reads w1)\<rparr>))"

definition tx_try :: "(db \<Rightarrow> (store_error + 'a) \<times> db) \<Rightarrow> 'a act" where
  "tx_try f w = (let w1 = acquire_lock w; (x, d) = f (store w1); w2 = w1\<lparr>store := d\<rparr>
     in case x of Inl e \<Rightarrow> (Inl (StoreExn e), w2) | Inr v \<Rightarrow> (Inr v, w2))"

definition readM :: "(db \<Rightarrow> 'a) \<Rightarrow> 'a act" where
  "readM f = tx (\<lambda>d. (f d, d))"

text \<open>now or utc_now(), sampled under the lock: an explicit instant, or the clock.\<close>

definition tx_at :: "datetime option \<Rightarrow> (datetime \<Rightarrow> db \<Rightarrow> 'a \<times> db) \<Rightarrow> 'a act" where
  "tx_at now f = (case now of None \<Rightarrow> tx_now f | Some t \<Rightarrow> tx (f t))"

definition now_or :: "datetime option \<Rightarrow> datetime act" where
  "now_or now = (case now of None \<Rightarrow> utc_now | Some t \<Rightarrow> returnM t)"

definition sleepM :: "seconds \<Rightarrow> unit act" where
  "sleepM s w = (Inr (), w\<lparr>slept := slept w @ [s]\<rparr>)"

text \<open>The one upstream call; the response is the world's. The log keeps the store at that moment.\<close>

definition fetchM :: "arxiv_request \<Rightarrow> fetch_result act" where
  "fetchM r w = (upstream w (length (fetches w)) r, w\<lparr>fetches := fetches w @ [(r, store w)]\<rparr>)"

definition oaiM :: "oai_call \<Rightarrow> oai_page act" where
  "oaiM c w = (oai_upstream w (length (oai_calls w)) c, w\<lparr>oai_calls := oai_calls w @ [(c, store w)]\<rparr>)"

subsection \<open>Laws\<close>

lemma bindM_return [simp]: "bindM (returnM x) k = k x"
  by (rule ext) (simp add: bindM_def returnM_def)

lemma bindM_raise [simp]: "bindM (raiseM e) k = raiseM e"
  by (rule ext) (simp add: bindM_def raiseM_def)

lemma bindM_assoc: "bindM (bindM m k) h = bindM m (\<lambda>x. bindM (k x) h)"
  by (rule ext) (auto simp: bindM_def split: prod.split sum.split)

lemma bindM_return_right [simp]: "bindM m returnM = m"
  by (rule ext) (auto simp: bindM_def returnM_def split: prod.split sum.split)

lemma runM_return [simp]: "returnM x w = (Inr x, w)"
  by (simp add: returnM_def)

subsection \<open>What a program does to the record of the I/O\<close>

text \<open>
  fetching n P m: m appends to the log of upstream calls at most n requests, all of them satisfying
  P, leaves the other processes and the clocks as they are, and does not read the monotonic clock.
\<close>

definition env :: "world \<Rightarrow> (nat \<Rightarrow> db \<Rightarrow> db) \<times> (nat \<Rightarrow> datetime) \<times> (nat \<Rightarrow> seconds)" where
  "env w = (others w, clock w, mono_clock w)"

definition still :: "world \<Rightarrow> ((nat \<Rightarrow> db \<Rightarrow> db) \<times> (nat \<Rightarrow> datetime) \<times> (nat \<Rightarrow> seconds)) \<times> nat" where
  "still w = (env w, mono_reads w)"

definition fetching :: "nat \<Rightarrow> (arxiv_request \<times> db \<Rightarrow> bool) \<Rightarrow> 'a act \<Rightarrow> bool" where
  "fetching n P m \<longleftrightarrow> (\<forall>w. still (snd (m w)) = still w \<and>
     (\<exists>rs. fetches (snd (m w)) = fetches w @ rs \<and> length rs \<le> n \<and> list_all P rs))"

lemma fetchingE:
  assumes "fetching n P m" "m w = (r, w')"
  obtains rs where "still w' = still w" "fetches w' = fetches w @ rs" "length rs \<le> n" "list_all P rs"
proof -
  have "still (snd (m w)) = still w \<and> (\<exists>rs. fetches (snd (m w)) = fetches w @ rs \<and> length rs \<le> n \<and> list_all P rs)"
    using assms(1) unfolding fetching_def by blast
  then show thesis unfolding assms(2) snd_conv using that by blast
qed

lemma fetchingI:
  assumes "\<And>w r w'. m w = (r, w') \<Longrightarrow>
    \<exists>rs. still w' = still w \<and> fetches w' = fetches w @ rs \<and> length rs \<le> n \<and> list_all P rs"
  shows "fetching n P m"
  unfolding fetching_def
proof
  fix w
  obtain r w' where m: "m w = (r, w')" by fastforce
  from assms [OF m] show "still (snd (m w)) = still w \<and>
      (\<exists>rs. fetches (snd (m w)) = fetches w @ rs \<and> length rs \<le> n \<and> list_all P rs)"
    unfolding m snd_conv by blast
qed

lemma fetching_weaken: "fetching n P m \<Longrightarrow> n \<le> k \<Longrightarrow> fetching k P m"
  unfolding fetching_def by (meson order_trans)

lemma fetching_bind:
  assumes "fetching a P m" "\<And>x. fetching b P (k x)"
  shows "fetching (a + b) P (bindM m k)"
proof (rule fetchingI)
  fix w q w'
  assume run: "bindM m k w = (q, w')"
  obtain r w1 where m: "m w = (r, w1)" by fastforce
  from assms(1) m obtain rs where rs: "still w1 = still w" "fetches w1 = fetches w @ rs" "length rs \<le> a" "list_all P rs"
    by (rule fetchingE)
  show "\<exists>rs. still w' = still w \<and> fetches w' = fetches w @ rs \<and> length rs \<le> a + b \<and> list_all P rs"
  proof (cases r)
    case (Inl e)
    then show ?thesis using run m rs by (auto simp: bindM_def intro: exI [of _ rs])
  next
    case (Inr x)
    then have k: "k x w1 = (q, w')" using run m by (simp add: bindM_def)
    from assms(2) k obtain ss where "still w' = still w1" "fetches w' = fetches w1 @ ss" "length ss \<le> b" "list_all P ss"
      by (rule fetchingE)
    then show ?thesis using rs by (auto intro!: exI [of _ "rs @ ss"])
  qed
qed

lemma fetching_prims [simp, intro]:
  "fetching 0 P (returnM x)" "fetching 0 P (raiseM e)" "fetching 0 P utc_now" "fetching 0 P (tx f)"
  "fetching 0 P (tx_do g)" "fetching 0 P (tx_now h)" "fetching 0 P (tx_try u)" "fetching 0 P (readM v)"
  "fetching 0 P (tx_at now h)" "fetching 0 P (now_or now)" "fetching 0 P (sleepM s)" "fetching 0 P uuid4"
  by (auto simp: fetching_def still_def env_def returnM_def raiseM_def utc_now_def tx_def tx_do_def tx_now_def tx_try_def
      readM_def tx_at_def now_or_def sleepM_def uuid4_def acquire_lock_def Let_def split: prod.split sum.split option.split)

lemma fetching_bind0: "fetching 0 P m \<Longrightarrow> (\<And>x. fetching n P (k x)) \<Longrightarrow> fetching n P (bindM m k)"
  using fetching_bind [of 0 P m n k] by simp

lemma fetching_then0: "fetching 0 P m \<Longrightarrow> fetching n P k \<Longrightarrow> fetching n P (thenM m k)"
  unfolding thenM_def by (rule fetching_bind0)

lemma fetching_finally:
  assumes "fetching a P m" "fetching 0 P f"
  shows "fetching a P (finallyM m f)"
proof (rule fetchingI)
  fix w q w'
  assume run: "finallyM m f w = (q, w')"
  obtain r w1 where m: "m w = (r, w1)" by fastforce
  obtain s w2 where f: "f w1 = (s, w2)" by fastforce
  from assms(1) m obtain rs where rs: "still w1 = still w" "fetches w1 = fetches w @ rs" "length rs \<le> a" "list_all P rs"
    by (rule fetchingE)
  from assms(2) f obtain ss where "still w2 = still w1" "fetches w2 = fetches w1 @ ss" "length ss \<le> 0"
    by (rule fetchingE)
  then have "still w2 = still w1" "fetches w2 = fetches w1" by simp_all
  then show "\<exists>rs. still w' = still w \<and> fetches w' = fetches w @ rs \<and> length rs \<le> a \<and> list_all P rs"
    using run m f rs by (cases s) (auto simp: finallyM_def)
qed

lemma fetching_catch:
  assumes "fetching a P m" "\<And>e. fetching 0 P (h e)"
  shows "fetching a P (catchM m h)"
proof (rule fetchingI)
  fix w q w'
  assume run: "catchM m h w = (q, w')"
  obtain r w1 where m: "m w = (r, w1)" by fastforce
  from assms(1) m obtain rs where rs: "still w1 = still w" "fetches w1 = fetches w @ rs" "length rs \<le> a" "list_all P rs"
    by (rule fetchingE)
  have h: "still w2 = still w1 \<and> fetches w2 = fetches w1" if "h e w1 = (q', w2)" for e q' w2
    using fetchingE [OF assms(2) that] by auto
  show "\<exists>rs. still w' = still w \<and> fetches w' = fetches w @ rs \<and> length rs \<le> a \<and> list_all P rs"
    using run m rs by (cases r) (auto simp: catchM_def dest: h)
qed

lemma fetching_oai [simp, intro]: "fetching 0 P (oaiM c)"
  by (simp add: fetching_def still_def env_def oaiM_def)

lemma fetching_fetch: "(\<And>d. P (r, d)) \<Longrightarrow> fetching 1 P (fetchM r)"
  by (simp add: fetching_def still_def env_def fetchM_def)

subsection \<open>Running alone\<close>

text \<open>No other process acts: each transaction sees the store of the one before.\<close>

definition quiet :: "world \<Rightarrow> bool" where
  "quiet w \<longleftrightarrow> (\<forall>n d. others w n d = d)"

lemma quiet_lock: "quiet w \<Longrightarrow> acquire_lock w = w\<lparr>txs := Suc (txs w)\<rparr>"
  by (simp add: quiet_def acquire_lock_def)

lemma quiet_update [simp]:
  "quiet (w\<lparr>store := d\<rparr>) = quiet w" "quiet (w\<lparr>reads := n\<rparr>) = quiet w" "quiet (w\<lparr>txs := n\<rparr>) = quiet w"
  "quiet (w\<lparr>fetches := rs\<rparr>) = quiet w" "quiet (w\<lparr>slept := ss\<rparr>) = quiet w"
  "quiet (w\<lparr>oai_calls := cs\<rparr>) = quiet w" "quiet (w\<lparr>mono_reads := n\<rparr>) = quiet w"
  "quiet (w\<lparr>uuids_used := n\<rparr>) = quiet w"
  by (simp_all add: quiet_def)

lemma tx_quiet: "quiet w \<Longrightarrow> tx f w = (Inr (fst (f (store w))), w\<lparr>store := snd (f (store w)), txs := Suc (txs w)\<rparr>)"
  by (simp add: tx_def Let_def quiet_lock split: prod.split)

lemma tx_do_quiet: "quiet w \<Longrightarrow> tx_do f w = (Inr (), w\<lparr>store := f (store w), txs := Suc (txs w)\<rparr>)"
  by (simp add: tx_do_def tx_quiet)

lemma readM_quiet: "quiet w \<Longrightarrow> readM f w = (Inr (f (store w)), w\<lparr>txs := Suc (txs w)\<rparr>)"
  by (simp add: readM_def tx_quiet)

lemma tx_at_quiet: "quiet w \<Longrightarrow> tx_at (Some t) f w =
    (Inr (fst (f t (store w))), w\<lparr>store := snd (f t (store w)), txs := Suc (txs w)\<rparr>)"
  by (simp add: tx_at_def tx_quiet)

lemmas run_simps = bindM_def thenM_def catchM_def finallyM_def returnM_def raiseM_def
  tx_do_quiet readM_quiet tx_at_quiet now_or_def

text \<open>
  A world with one process, a store, a clock that ticks in microseconds, a monotonic clock that
  ticks in seconds, numbered uuids, and an API.
\<close>

definition alone :: "db \<Rightarrow> (nat \<Rightarrow> arxiv_request \<Rightarrow> exn + fetch_result) \<Rightarrow> world" where
  "alone d up = \<lparr>store = d, clock = int, reads = 0, others = (\<lambda>_ d. d), txs = 0, upstream = up,
     fetches = [], slept = [], oai_upstream = (\<lambda>_ _. Inl (OtherExn ''offline'')), oai_calls = [],
     mono_clock = of_nat, mono_reads = 0, uuid_source = (\<lambda>n. ''uuid-'' @ replicate n (CHR ''0'')), uuids_used = 0\<rparr>"

lemma alone_quiet: "quiet (alone d up)"
  by (simp add: quiet_def alone_def)

end
