(* ===== verification/Huldra_Limiter.thy ===== *)
theory Huldra_Limiter
  imports Huldra_World
begin

text \<open>
  The upstream rate limiter (huldra/limiter.py) over the durable rate state (get_rate_state and
  set_rate_state of huldra/db.py): one fetch at a time under the shared lease, spaced by the
  request interval, and a cooldown after a rate limit that backs off exponentially.
\<close>

subsection \<open>The durable rate state\<close>

definition new_rate_state :: "string \<Rightarrow> rate_state" where
  "new_rate_state name = \<lparr>rs_name = name, rs_last_request_at = None, rs_cooldown_until = None,
     rs_consecutive_429_total = 0, rs_upstream_429_total = 0, rs_consecutive_rate_limit_total = 0,
     rs_upstream_rate_limited_total = 0, rs_upstream_oai_503_retry_after_total = 0,
     rs_last_status = None, rs_last_error_message = None, rs_last_request_started_at = None,
     rs_last_rate_wait_seconds = None, rs_last_request_latency_ms = None,
     rs_last_retry_after_seconds = None, rs_last_effective_cooldown_seconds = None,
     rs_last_rate_limit_kind = None, rs_last_api_family = None\<rparr>"

definition get_rate_state :: "string \<Rightarrow> db \<Rightarrow> rate_state" where
  "get_rate_state name d =
     (case tbl_get rs_name name (rate_states d) of None \<Rightarrow> new_rate_state name | Some s \<Rightarrow> s)"

definition set_rate_state :: "rate_state \<Rightarrow> db \<Rightarrow> db" where
  "set_rate_state s d =
     d\<lparr>rate_states := tbl_upsert rs_name s (\<lambda>r. s\<lparr>rs_name := rs_name r\<rparr>) (rate_states d)\<rparr>"

lemma get_rate_state_name [simp]: "rs_name (get_rate_state n d) = n"
  by (auto simp: get_rate_state_def new_rate_state_def split: option.split dest: tbl_get_SomeD)

lemma get_set_rate_state [simp]:
  "get_rate_state n (set_rate_state s d) = (if n = rs_name s then s else get_rate_state n d)"
  by (auto simp: get_rate_state_def set_rate_state_def tbl_get_upsert split: option.split dest: tbl_get_SomeD)

lemma rate_frames [simp]:
  "leases (set_rate_state s d) = leases d" "queue_items (set_rate_state s d) = queue_items d"
  "budgets (set_rate_state s d) = budgets d" "memberships (set_rate_state s d) = memberships d"
  "reservations (set_rate_state s d) = reservations d" "cache_entries (set_rate_state s d) = cache_entries d"
  "get_rate_state n (record_event t p d) = get_rate_state n d"
  "get_rate_state n (release_lease l w d) = get_rate_state n d"
  by (simp_all add: set_rate_state_def get_rate_state_def)

lemma schema_ok_set_rate_state [table_intros]: "schema_ok d \<Longrightarrow> schema_ok (set_rate_state s d)"
  by (auto simp: schema_ok_def set_rate_state_def get_queue_row_def get_budget_def intro!: keyed_upsert)

subsection \<open>The arithmetic of the limit\<close>

definition seconds_until_next_request :: "huldra_settings \<Rightarrow> rate_state \<Rightarrow> datetime \<Rightarrow> seconds" where
  "seconds_until_next_request cfg s now =
     (case rs_last_request_at s of
        None \<Rightarrow> 0
      | Some t \<Rightarrow> max 0 (total_seconds (t + timedelta_seconds (request_interval_seconds cfg) - now)))"

text \<open>float ** int raises OverflowError from 2.0 ** 1024 on.\<close>

definition FLOAT_LIMIT :: rat where "FLOAT_LIMIT = 2 ^ 1024"

definition safety_floor :: "huldra_settings \<Rightarrow> seconds" where
  "safety_floor cfg = max (of_int (cooldown_seconds cfg)) (request_interval_seconds cfg)"

definition effective_cooldown_seconds ::
  "huldra_settings \<Rightarrow> (seconds \<Rightarrow> seconds) \<Rightarrow> int option \<Rightarrow> int \<Rightarrow> seconds" where
  "effective_cooldown_seconds cfg jitter retry_after consecutive =
     (let exponent = nat (max 0 (consecutive - 1));
          power = rate_limit_backoff_multiplier cfg ^ exponent;
          adaptive = (if power \<ge> FLOAT_LIMIT then rate_limit_max_cooldown_seconds cfg
                      else safety_floor cfg * power);
          adaptive = min adaptive (rate_limit_max_cooldown_seconds cfg);
          retry_after_floor = of_int (max 0 (case retry_after of None \<Rightarrow> 0 | Some s \<Rightarrow> s));
          lower_bound = max adaptive retry_after_floor;
          jitter_max = rate_limit_jitter_seconds cfg;
          sampled = (if jitter_max > 0 then jitter jitter_max else 0)
      in lower_bound + min jitter_max (max 0 sampled))"

definition api_family_of_owner :: "string \<Rightarrow> string" where
  "api_family_of_owner owner_token = (if startswith owner_token ''oai:'' then ''oai_pmh'' else ''legacy_api'')"

definition rate_limit_kind :: "int \<Rightarrow> string" where
  "rate_limit_kind status = (if status = 503 then ''oai_503_retry_after'' else ''http_429'')"

record diagnostics =
  dg_api_family :: string
  dg_request_started_at :: datetime
  dg_rate_wait_seconds :: seconds
  dg_latency_ms :: rat

definition request_diagnostics ::
  "rate_state \<Rightarrow> datetime \<Rightarrow> string \<Rightarrow> string option \<Rightarrow> diagnostics" where
  "request_diagnostics s current owner_token api_fam =
     (let started = (case rs_last_request_started_at s of None \<Rightarrow> current | Some t \<Rightarrow> t)
      in \<lparr>dg_api_family = (case coalesce api_fam (rs_last_api_family s) of
              Some f \<Rightarrow> f | None \<Rightarrow> api_family_of_owner owner_token),
          dg_request_started_at = started,
          dg_rate_wait_seconds = (case rs_last_rate_wait_seconds s of None \<Rightarrow> 0 | Some x \<Rightarrow> x),
          dg_latency_ms = max 0 (total_seconds (current - started) * 1000)\<rparr>)"

definition diagnostics_payload :: "diagnostics \<Rightarrow> (string \<times> json) list" where
  "diagnostics_payload g =
     [(''api_family'', JStr (dg_api_family g)),
      (''request_started_at'', JStr (isoformat (dg_request_started_at g))),
      (''rate_wait_seconds'', JNum (dg_rate_wait_seconds g)), (''latency_ms'', JNum (dg_latency_ms g))]"

subsection \<open>The limiter's operations\<close>

record limiter =
  lim_name :: string
  lim_lease :: string
  lim_settings :: huldra_settings
  lim_store_timeout :: seconds
  lim_jitter :: "seconds \<Rightarrow> seconds"

record rate_limit_decision =
  can_fetch :: bool
  wait_seconds :: seconds
  blocked_reason :: "string option"
  decision_cooldown_until :: "datetime option"
  lease_acquired :: bool
  request_started_at :: "datetime option"

definition denied :: "string \<Rightarrow> datetime option \<Rightarrow> rate_limit_decision" where
  "denied reason cooldown = \<lparr>can_fetch = False, wait_seconds = 0, blocked_reason = Some reason,
     decision_cooldown_until = cooldown, lease_acquired = False, request_started_at = None\<rparr>"

definition granted :: "seconds \<Rightarrow> datetime \<Rightarrow> rate_limit_decision" where
  "granted wait started = \<lparr>can_fetch = True, wait_seconds = wait, blocked_reason = None,
     decision_cooldown_until = None, lease_acquired = True, request_started_at = Some started\<rparr>"

definition in_cooldown :: "rate_state \<Rightarrow> datetime \<Rightarrow> bool" where
  "in_cooldown s now = (case rs_cooldown_until s of None \<Rightarrow> False | Some t \<Rightarrow> t > now)"

definition cooldown_active :: "limiter \<Rightarrow> datetime option \<Rightarrow> bool act" where
  "cooldown_active l now =
     bindM (now_or now) (\<lambda>current.
     bindM (readM (get_rate_state (lim_name l))) (\<lambda>s. returnM (in_cooldown s current)))"

text \<open>Everything before_request does once it holds the lease and has sampled the clock.\<close>

definition request_timeout_lease :: "limiter \<Rightarrow> seconds \<Rightarrow> int" where
  "request_timeout_lease l wait =
     max (lease_timeout_seconds (lim_settings l))
         \<lceil>wait + request_timeout_seconds (lim_settings l) + lim_store_timeout l + 5\<rceil>"

definition mark_started :: "rate_state \<Rightarrow> datetime \<Rightarrow> seconds \<Rightarrow> string \<Rightarrow> rate_state" where
  "mark_started s started wait fam =
     s\<lparr>rs_last_request_started_at := Some started, rs_last_rate_wait_seconds := Some wait,
       rs_last_request_latency_ms := None, rs_last_api_family := Some fam\<rparr>"

definition before_request :: "limiter \<Rightarrow> string \<Rightarrow> datetime option \<Rightarrow> rate_limit_decision act" where
  "before_request l owner_token now =
     bindM (tx_at now (acquire_lease (lim_lease l) owner_token (lease_timeout_seconds (lim_settings l)))) (\<lambda>acquired.
     if \<not> acquired then returnM (denied ''lease_held'' None)
     else
       bindM (now_or now) (\<lambda>current.
       bindM (readM (get_rate_state (lim_name l))) (\<lambda>s.
       if in_cooldown s current
       then thenM (tx_do (release_lease (lim_lease l) owner_token))
              (returnM (denied ''cooldown'' (rs_cooldown_until s)))
       else
        (let wait = seconds_until_next_request (lim_settings l) s current
         in bindM (tx_at now (renew_lease_if_owned (lim_lease l) owner_token (request_timeout_lease l wait))) (\<lambda>renewed.
            if \<not> renewed then returnM (denied ''lease_held'' None)
            else
             (let started = current + timedelta_seconds wait; fam = api_family_of_owner owner_token
              in thenM
                   (catchM
                     (thenM (tx_do (set_rate_state (mark_started s started wait fam)))
                       (tx_do (record_event ''upstream_request_started''
                          [(''api_family'', JStr fam), (''request_started_at'', JStr (isoformat started)),
                           (''rate_wait_seconds'', JNum wait)])))
                     (\<lambda>e. thenM (tx_do (release_lease (lim_lease l) owner_token)) (raiseM e)))
                   (returnM (granted wait started))))))))"

definition finished_event ::
  "limiter \<Rightarrow> string \<Rightarrow> (string \<times> json) list \<Rightarrow> unit act" where
  "finished_event l owner_token payload =
     finallyM (tx_do (record_event ''upstream_request_finished'' payload))
       (tx_do (release_lease (lim_lease l) owner_token))"

definition success_state :: "rate_state \<Rightarrow> datetime \<Rightarrow> int \<Rightarrow> diagnostics \<Rightarrow> rate_state" where
  "success_state s current status g =
     s\<lparr>rs_last_request_at := Some current, rs_cooldown_until := None, rs_consecutive_429_total := 0,
       rs_consecutive_rate_limit_total := 0, rs_last_status := Some status,
       rs_last_error_message := None, rs_last_request_latency_ms := Some (dg_latency_ms g),
       rs_last_retry_after_seconds := None, rs_last_effective_cooldown_seconds := None,
       rs_last_rate_limit_kind := None, rs_last_api_family := Some (dg_api_family g)\<rparr>"

definition after_success :: "limiter \<Rightarrow> string \<Rightarrow> int \<Rightarrow> datetime option \<Rightarrow> unit act" where
  "after_success l owner_token status now =
     bindM (now_or now) (\<lambda>current.
     bindM (readM (get_rate_state (lim_name l))) (\<lambda>previous.
       (let g = request_diagnostics previous current owner_token None
        in thenM (tx_do (set_rate_state (success_state previous current status g)))
            (finished_event l owner_token
              (diagnostics_payload g @
               [(''outcome'', JStr ''success''), (''status'', JInt status), (''rate_limit_kind'', JNull),
                (''retry_after_seconds'', JNull), (''effective_cooldown_seconds'', JNull),
                (''consecutive_rate_limit_total'', JInt 0)])))))"

definition rate_limited_state ::
  "rate_state \<Rightarrow> datetime \<Rightarrow> int \<Rightarrow> int option \<Rightarrow> seconds \<Rightarrow> string \<Rightarrow> string \<Rightarrow> string \<Rightarrow> diagnostics \<Rightarrow> rate_state" where
  "rate_limited_state s current status retry_after effective kind fam msg g =
     s\<lparr>rs_last_request_at := Some current,
       rs_cooldown_until := Some (current + timedelta_seconds effective),
       rs_consecutive_429_total := (if status = 429 then rs_consecutive_429_total s + 1 else 0),
       rs_upstream_429_total := rs_upstream_429_total s + (if status = 429 then 1 else 0),
       rs_consecutive_rate_limit_total := rs_consecutive_rate_limit_total s + 1,
       rs_upstream_rate_limited_total := rs_upstream_rate_limited_total s + 1,
       rs_upstream_oai_503_retry_after_total := rs_upstream_oai_503_retry_after_total s +
         (if kind = ''oai_503_retry_after'' then 1 else 0),
       rs_last_status := Some status, rs_last_error_message := Some msg,
       rs_last_request_latency_ms := Some (dg_latency_ms g),
       rs_last_retry_after_seconds := retry_after,
       rs_last_effective_cooldown_seconds := Some effective,
       rs_last_rate_limit_kind := Some kind, rs_last_api_family := Some fam\<rparr>"

text \<open>`error_message or f"arXiv returned HTTP {status_code}"'.\<close>

definition message_or_status :: "string option \<Rightarrow> int \<Rightarrow> string" where
  "message_or_status msg status =
     (case msg of Some (c # m) \<Rightarrow> c # m | _ \<Rightarrow> ''arXiv returned HTTP '' @ int_text status)"

definition after_rate_limit ::
  "limiter \<Rightarrow> string \<Rightarrow> int option \<Rightarrow> int \<Rightarrow> string option \<Rightarrow> string option \<Rightarrow> string option \<Rightarrow> datetime option
   \<Rightarrow> datetime act" where
  "after_rate_limit l owner_token retry_after status kind fam msg now =
     bindM (now_or now) (\<lambda>current.
     bindM (readM (get_rate_state (lim_name l))) (\<lambda>previous.
       (let consecutive = rs_consecutive_rate_limit_total previous + 1;
            effective = effective_cooldown_seconds (lim_settings l) (lim_jitter l) retry_after consecutive;
            cooldown = current + timedelta_seconds effective;
            resolved_kind = (case kind of Some k \<Rightarrow> k | None \<Rightarrow> rate_limit_kind status);
            resolved_fam = (case fam of Some f \<Rightarrow> f | None \<Rightarrow> api_family_of_owner owner_token);
            g = request_diagnostics previous current owner_token (Some resolved_fam)
        in thenM (tx_do (set_rate_state (rate_limited_state previous current status retry_after effective
                    resolved_kind resolved_fam (message_or_status msg status) g)))
           (thenM
            (finished_event l owner_token
              (diagnostics_payload g @
               [(''outcome'', JStr ''rate_limited''), (''status'', JInt status),
                (''rate_limit_kind'', JStr resolved_kind), (''retry_after_seconds'', jint retry_after),
                (''effective_cooldown_seconds'', JNum effective),
                (''consecutive_rate_limit_total'', JInt consecutive),
                (''cooldown_until'', JStr (isoformat cooldown))]))
            (returnM cooldown)))))"

definition after_429 ::
  "limiter \<Rightarrow> string \<Rightarrow> int option \<Rightarrow> int \<Rightarrow> string option \<Rightarrow> datetime option \<Rightarrow> datetime act" where
  "after_429 l owner_token retry_after status msg now =
     after_rate_limit l owner_token retry_after status None None msg now"

definition failure_state :: "rate_state \<Rightarrow> datetime \<Rightarrow> int option \<Rightarrow> string option \<Rightarrow> diagnostics \<Rightarrow> rate_state" where
  "failure_state s current status msg g =
     s\<lparr>rs_last_request_at := Some current, rs_last_status := status, rs_last_error_message := msg,
       rs_last_request_latency_ms := Some (dg_latency_ms g), rs_last_retry_after_seconds := None,
       rs_last_effective_cooldown_seconds := None, rs_last_rate_limit_kind := None,
       rs_last_api_family := Some (dg_api_family g)\<rparr>"

definition after_failure ::
  "limiter \<Rightarrow> string \<Rightarrow> int option \<Rightarrow> string option \<Rightarrow> datetime option \<Rightarrow> unit act" where
  "after_failure l owner_token status msg now =
     bindM (now_or now) (\<lambda>current.
     bindM (readM (get_rate_state (lim_name l))) (\<lambda>previous.
       (let g = request_diagnostics previous current owner_token None
        in thenM (tx_do (set_rate_state (failure_state previous current status msg g)))
            (finished_event l owner_token
              (diagnostics_payload g @
               [(''outcome'', JStr ''failure''), (''status'', jint status), (''rate_limit_kind'', JNull),
                (''retry_after_seconds'', JNull), (''effective_cooldown_seconds'', JNull),
                (''consecutive_rate_limit_total'', JInt (rs_consecutive_rate_limit_total previous))])))))"

lemma fetching_limiter [simp, intro]:
  "fetching 0 P (before_request l w now)" "fetching 0 P (after_success l w st now)"
  "fetching 0 P (after_rate_limit l w r st k f m now)" "fetching 0 P (after_429 l w r st m now)"
  "fetching 0 P (after_failure l w s m now)"
  by (auto simp: before_request_def after_success_def after_rate_limit_def after_429_def after_failure_def
      finished_event_def Let_def intro!: fetching_bind0 fetching_then0 fetching_catch fetching_finally)

subsection \<open>Cooldown arithmetic\<close>

text \<open>A setting of type float is below the overflow limit.\<close>

definition float_settings :: "huldra_settings \<Rightarrow> bool" where
  "float_settings cfg \<longleftrightarrow> rate_limit_max_cooldown_seconds cfg < FLOAT_LIMIT"

definition retry_floor :: "int option \<Rightarrow> seconds" where
  "retry_floor retry_after = of_int (max 0 (case retry_after of None \<Rightarrow> 0 | Some s \<Rightarrow> s))"

definition upward_jitter :: "huldra_settings \<Rightarrow> (seconds \<Rightarrow> seconds) \<Rightarrow> seconds" where
  "upward_jitter cfg jitter = min (rate_limit_jitter_seconds cfg)
     (max 0 (if rate_limit_jitter_seconds cfg > 0 then jitter (rate_limit_jitter_seconds cfg) else 0))"

lemma upward_jitter_bounds:
  "valid_settings cfg \<Longrightarrow> 0 \<le> upward_jitter cfg j \<and> upward_jitter cfg j \<le> rate_limit_jitter_seconds cfg"
  using valid_settingsD(5) [of cfg] by (auto simp: upward_jitter_def)

lemma safety_floor_pos: "valid_settings cfg \<Longrightarrow> 1 \<le> safety_floor cfg"
  using valid_settingsD(1) [of cfg] by (auto simp: safety_floor_def)

lemma safety_floor_le_cap: "valid_settings cfg \<Longrightarrow> safety_floor cfg \<le> rate_limit_max_cooldown_seconds cfg"
  using valid_settingsD(10,11) [of cfg] by (auto simp: safety_floor_def)

text \<open>The overflow branch is the value the exact power would give after the cap.\<close>

lemma effective_cooldown_closed:
  assumes "valid_settings cfg" "float_settings cfg"
  shows "effective_cooldown_seconds cfg j r c =
    max (min (safety_floor cfg * rate_limit_backoff_multiplier cfg ^ nat (c - 1)) (rate_limit_max_cooldown_seconds cfg))
        (retry_floor r) + upward_jitter cfg j"
proof -
  let ?p = "rate_limit_backoff_multiplier cfg ^ nat (c - 1)"
  have n: "nat (max 0 (c - 1)) = nat (c - 1)" by simp
  have "min (if ?p \<ge> FLOAT_LIMIT then rate_limit_max_cooldown_seconds cfg else safety_floor cfg * ?p)
      (rate_limit_max_cooldown_seconds cfg) = min (safety_floor cfg * ?p) (rate_limit_max_cooldown_seconds cfg)"
  proof (cases "?p \<ge> FLOAT_LIMIT")
    case True
    have "0 \<le> ?p" using valid_settingsD(3) [OF assms(1)] by simp
    then have "?p \<le> safety_floor cfg * ?p"
      using mult_right_mono [OF safety_floor_pos [OF assms(1)], of ?p] by simp
    then have "rate_limit_max_cooldown_seconds cfg \<le> safety_floor cfg * ?p"
      using True assms(2) by (simp add: float_settings_def)
    with True show ?thesis by simp
  qed simp
  then show ?thesis
    unfolding effective_cooldown_seconds_def Let_def n retry_floor_def upward_jitter_def by simp
qed

lemma adaptive_mono:
  assumes "valid_settings cfg" "c \<le> c'"
  shows "safety_floor cfg * rate_limit_backoff_multiplier cfg ^ nat (c - 1) \<le>
    safety_floor cfg * rate_limit_backoff_multiplier cfg ^ nat (c' - 1)"
  using assms(2) valid_settingsD(3) [OF assms(1)] safety_floor_pos [OF assms(1)]
  by (intro mult_left_mono power_increasing) auto

lemma adaptive_ge_floor:
  assumes "valid_settings cfg"
  shows "safety_floor cfg \<le> safety_floor cfg * rate_limit_backoff_multiplier cfg ^ n"
  using mult_left_mono [of 1 "rate_limit_backoff_multiplier cfg ^ n" "safety_floor cfg"]
    valid_settingsD(3) [OF assms] safety_floor_pos [OF assms] by (simp add: one_le_power)

subsection \<open>Running the limiter alone\<close>

lemma seconds_until_exact:
  "timedelta_seconds (seconds_until_next_request cfg s now) =
     (case rs_last_request_at s of None \<Rightarrow> 0
      | Some t \<Rightarrow> max 0 (t + timedelta_seconds (request_interval_seconds cfg) - now))"
proof -
  have "timedelta_seconds (max 0 (total_seconds x)) = max 0 x" for x
  proof (cases "0 \<le> x")
    case True
    then have "0 \<le> total_seconds x" using total_seconds_mono [of 0 x] by (simp add: total_seconds_def)
    with True show ?thesis by (simp add: total_seconds_roundtrip max_absorb2)
  next
    case False
    then have "total_seconds x \<le> 0" using total_seconds_mono [of x 0] by (simp add: total_seconds_def)
    with False show ?thesis by (simp add: max_absorb1)
  qed
  then show ?thesis by (simp add: seconds_until_next_request_def split: option.split)
qed

lemma seconds_until_nonneg: "0 \<le> seconds_until_next_request cfg s now"
  by (simp add: seconds_until_next_request_def split: option.split)

subsection \<open>The limiter among other processes\<close>

text \<open>
  What the store holds when a transaction gets the lock, and the k-th reading of the clock from now
  on (the explicit instant, when the caller gives one).
\<close>

definition locked :: "world \<Rightarrow> db" where
  "locked w = others w (txs w) (store w)"

definition shown :: "datetime option \<Rightarrow> world \<Rightarrow> nat \<Rightarrow> datetime" where
  "shown now w k = (case now of Some t \<Rightarrow> t | None \<Rightarrow> clock w (reads w + k))"

text \<open>
  P holds of the rate state, or a worker v, who is to establish it, holds the lease, unexpired at t.
  A step respects this when it keeps P once it holds, and v's lease ends only with P established.
\<close>

definition holds_at :: "limiter \<Rightarrow> string \<Rightarrow> datetime \<Rightarrow> db \<Rightarrow> bool" where
  "holds_at l v t d \<longleftrightarrow> (case lease_holder d (lim_lease l) of None \<Rightarrow> False | Some (v', e) \<Rightarrow> v' = v \<and> t < e)"

definition rate_satisfies :: "limiter \<Rightarrow> (rate_state \<Rightarrow> bool) \<Rightarrow> db \<Rightarrow> bool" where
  "rate_satisfies l P d \<longleftrightarrow> P (get_rate_state (lim_name l) d)"

definition hands_over :: "limiter \<Rightarrow> string \<Rightarrow> datetime \<Rightarrow> (rate_state \<Rightarrow> bool) \<Rightarrow> (db \<Rightarrow> db) \<Rightarrow> bool" where
  "hands_over l v t P step \<longleftrightarrow>
     (\<forall>d. (rate_satisfies l P d \<longrightarrow> rate_satisfies l P (step d)) \<and>
          (holds_at l v t d \<longrightarrow> holds_at l v t (step d) \<or> rate_satisfies l P (step d)))"

lemma tx_locked: "tx f w = (Inr (fst (f (locked w))), w\<lparr>store := snd (f (locked w)), txs := Suc (txs w)\<rparr>)"
  by (simp add: tx_def locked_def acquire_lock_def Let_def split: prod.split)

lemma tx_do_locked: "tx_do f w = (Inr (), w\<lparr>store := f (locked w), txs := Suc (txs w)\<rparr>)"
  by (simp add: tx_do_def tx_locked)

lemma readM_locked: "readM f w = (Inr (f (locked w)), w\<lparr>store := locked w, txs := Suc (txs w)\<rparr>)"
  by (simp add: readM_def tx_locked)

definition tick :: "datetime option \<Rightarrow> world \<Rightarrow> world" where
  "tick now w = (case now of None \<Rightarrow> w\<lparr>reads := Suc (reads w)\<rparr> | Some _ \<Rightarrow> w)"

lemma tick_simps [simp]:
  "store (tick now w) = store w" "txs (tick now w) = txs w" "others (tick now w) = others w"
  "shown now (tick now w) k = shown now w (Suc k)"
  "shown now (w\<lparr>store := d\<rparr>) k = shown now w k" "shown now (w\<lparr>txs := n\<rparr>) k = shown now w k"
  by (cases now; simp add: tick_def shown_def)+

lemma tx_at_locked:
  "tx_at now f w = (Inr (fst (f (shown now w 0) (locked w))),
     (tick now w)\<lparr>store := snd (f (shown now w 0) (locked w)), txs := Suc (txs w)\<rparr>)"
  by (cases now) (simp_all add: tx_at_def tx_locked tx_now_def shown_def tick_def locked_def acquire_lock_def Let_def split: prod.split)

lemma now_or_shown: "now_or now w = (Inr (shown now w 0), tick now w)"
  by (cases now) (simp_all add: now_or_def utc_now_def returnM_def shown_def tick_def)

text \<open>The four outcomes of before_request, with the stores it went through.\<close>

lemma before_request_cases:
  assumes "before_request l own now w = (res, w')"
  obtains (held) "res = Inr (denied ''lease_held'' None)"
      "\<not> fst (acquire_lease (lim_lease l) own (lease_timeout_seconds (lim_settings l)) (shown now w 0) (others w (txs w) (store w)))"
  | (cooling) d1 d2 where
      "acquire_lease (lim_lease l) own (lease_timeout_seconds (lim_settings l)) (shown now w 0) (others w (txs w) (store w)) = (True, d1)"
      "d2 = others w (Suc (txs w)) d1" "in_cooldown (get_rate_state (lim_name l) d2) (shown now w 1)"
      "res = Inr (denied ''cooldown'' (rs_cooldown_until (get_rate_state (lim_name l) d2)))"
  | (lost) d1 d2 where
      "acquire_lease (lim_lease l) own (lease_timeout_seconds (lim_settings l)) (shown now w 0) (others w (txs w) (store w)) = (True, d1)"
      "d2 = others w (Suc (txs w)) d1" "\<not> in_cooldown (get_rate_state (lim_name l) d2) (shown now w 1)"
      "res = Inr (denied ''lease_held'' None)"
  | (go) d1 d2 d4 s wait started where
      "acquire_lease (lim_lease l) own (lease_timeout_seconds (lim_settings l)) (shown now w 0) (others w (txs w) (store w)) = (True, d1)"
      "d2 = others w (Suc (txs w)) d1" "s = get_rate_state (lim_name l) d2" "\<not> in_cooldown s (shown now w 1)"
      "wait = seconds_until_next_request (lim_settings l) s (shown now w 1)"
      "started = shown now w 1 + timedelta_seconds wait"
      "renew_lease_if_owned (lim_lease l) own (request_timeout_lease l wait) (shown now w 2)
         (others w (Suc (Suc (txs w))) d2) = (True, d4)"
      "res = Inr (granted wait started)"
      "store w' = record_event ''upstream_request_started''
         [(''api_family'', JStr (api_family_of_owner own)), (''request_started_at'', JStr (isoformat started)),
          (''rate_wait_seconds'', JNum wait)]
         (others w (Suc (Suc (Suc (Suc (txs w))))) (set_rate_state (mark_started s started wait (api_family_of_owner own))
           (others w (Suc (Suc (Suc (txs w)))) d4)))"
proof -
  let ?acq = "acquire_lease (lim_lease l) own (lease_timeout_seconds (lim_settings l)) (shown now w 0) (locked w)"
  note run = thenM_def catchM_def bindM_def returnM_def raiseM_def tx_do_locked readM_locked tx_at_locked now_or_shown
  show thesis
  proof (cases "fst ?acq")
    case False
    then show thesis
      using assms by (intro held) (auto simp: before_request_def run Let_def locked_def split: prod.splits)
  next
    case True
    define d1 where "d1 = snd ?acq"
    define d2 where "d2 = others w (Suc (txs w)) d1"
    define s where "s = get_rate_state (lim_name l) d2"
    define wait where "wait = seconds_until_next_request (lim_settings l) s (shown now w 1)"
    have acq: "?acq = (True, d1)" using True by (simp add: d1_def prod_eq_iff)
    show thesis
    proof (cases "in_cooldown s (shown now w 1)")
      case True
      then show thesis
        using assms acq by (intro cooling [of d1 d2]) (auto simp: before_request_def run Let_def locked_def d2_def s_def)
    next
      case False
      let ?ren = "renew_lease_if_owned (lim_lease l) own (request_timeout_lease l wait) (shown now w 2)
         (others w (Suc (Suc (txs w))) d2)"
      show thesis
      proof (cases "fst ?ren")
        case False
        then show thesis
          using assms acq \<open>\<not> in_cooldown s (shown now w 1)\<close>
          by (intro lost [of d1 d2]) (auto simp: before_request_def run Let_def locked_def d2_def s_def wait_def numeral_2_eq_2)
      next
        case True
        then obtain d4 where ren: "?ren = (True, d4)" by (cases ?ren) auto
        show thesis
          by (rule go [OF acq [unfolded locked_def] d2_def s_def \<open>\<not> in_cooldown s (shown now w 1)\<close> wait_def refl ren])
            (use assms acq ren \<open>\<not> in_cooldown s (shown now w 1)\<close> in
              \<open>auto simp: before_request_def run Let_def locked_def d2_def s_def wait_def numeral_2_eq_2\<close>)
      qed
    qed
  qed
qed

text \<open>The rate state a worker decides on satisfies P, whoever establishes it and however late.\<close>

lemma decision_state:
  assumes "v \<noteq> own" "\<And>n. hands_over l v (shown now w 0) P (others w n)"
    and "holds_at l v (shown now w 0) (store w) \<or> rate_satisfies l P (store w)"
    and "acquire_lease (lim_lease l) own ttl (shown now w 0) (others w (txs w) (store w)) = (True, d1)"
  shows "P (get_rate_state (lim_name l) (others w (Suc (txs w)) d1))"
proof -
  let ?t = "shown now w 0" and ?d = "others w (txs w) (store w)"
  have "holds_at l v ?t ?d \<or> rate_satisfies l P ?d"
    using assms(2) [of "txs w"] assms(3) by (auto simp: hands_over_def)
  moreover have "\<not> holds_at l v ?t ?d"
    using assms(1,4) acquire_lease_iff [of "lim_lease l" own ttl ?t ?d] by (auto simp: holds_at_def lease_holder_def split: option.splits)
  moreover have "rate_states d1 = rate_states ?d"
    using assms(4) by (auto simp: acquire_lease_def Let_def split: if_splits)
  ultimately have "rate_satisfies l P d1" by (simp add: rate_satisfies_def get_rate_state_def)
  then show ?thesis using assms(2) [of "Suc (txs w)"] by (simp add: hands_over_def rate_satisfies_def)
qed

text \<open>The stores after_rate_limit goes through; none of its transactions can raise.\<close>

lemma after_rate_limit_run:
  assumes "after_rate_limit l own retry st kind fam msg now w = (Inr u, w1)"
  obtains r p where "rs_name r = lim_name l" "rs_cooldown_until r = Some u"
    "store w1 = release_lease (lim_lease l) own (others w (txs w + 3) (record_event ''upstream_request_finished'' p
       (others w (txs w + 2) (set_rate_state r (others w (txs w + 1) (others w (txs w) (store w)))))))"
proof -
  note run = thenM_def finallyM_def bindM_def returnM_def tx_do_locked readM_locked now_or_shown
  show thesis
    using assms
    by (intro that) (auto simp: after_rate_limit_def finished_event_def run Let_def locked_def rate_limited_state_def
        numeral_2_eq_2 numeral_3_eq_3)
qed

lemma after_rate_limit_total:
  "\<exists>w1. after_rate_limit l own retry st kind fam msg now w =
     (Inr (shown now w 0 + timedelta_seconds (effective_cooldown_seconds (lim_settings l) (lim_jitter l) retry
        (rs_consecutive_rate_limit_total (get_rate_state (lim_name l) (locked w)) + 1))), w1) \<and> others w1 = others w"
proof -
  note run = thenM_def finallyM_def bindM_def returnM_def tx_do_locked readM_locked now_or_shown
  show ?thesis by (simp add: after_rate_limit_def finished_event_def run Let_def locked_def)
qed

subsection \<open>Properties\<close>

text \<open>
  C9. The cooldown after a rate limit is never shorter than the safety floor (the
  configured cooldown and the request interval) nor than the Retry-After of the response, and
  never longer than the larger of the configured maximum and Retry-After plus the jitter
  maximum. More consecutive rate limits never shorten it. The OverflowError branch does not
  change the result: it is the exact power, capped.
\<close>

theorem cooldown_bounds:
  assumes "valid_settings cfg" "float_settings cfg"
  shows "safety_floor cfg \<le> effective_cooldown_seconds cfg j r c \<and>
    (\<forall>s. r = Some s \<longrightarrow> of_int s \<le> effective_cooldown_seconds cfg j r c) \<and>
    effective_cooldown_seconds cfg j r c \<le>
      max (rate_limit_max_cooldown_seconds cfg) (retry_floor r) + rate_limit_jitter_seconds cfg \<and>
    (\<forall>c'\<ge>c. effective_cooldown_seconds cfg j r c \<le> effective_cooldown_seconds cfg j r c') \<and>
    effective_cooldown_seconds cfg j r c =
      max (min (safety_floor cfg * rate_limit_backoff_multiplier cfg ^ nat (c - 1)) (rate_limit_max_cooldown_seconds cfg))
          (retry_floor r) + upward_jitter cfg j"
proof (intro conjI allI impI)
  note eq = effective_cooldown_closed [OF assms]
  note jit = upward_jitter_bounds [OF assms(1), of j]
  show "safety_floor cfg \<le> effective_cooldown_seconds cfg j r c"
    using adaptive_ge_floor [OF assms(1)] safety_floor_le_cap [OF assms(1)] jit
    unfolding eq by (intro add_increasing2) (auto simp: le_max_iff_disj)
  show "of_int s \<le> effective_cooldown_seconds cfg j r c" if "r = Some s" for s
  proof -
    have "(of_int s :: rat) \<le> retry_floor r" using that by (simp add: retry_floor_def)
    with jit show ?thesis unfolding eq by (intro add_increasing2) (auto simp: le_max_iff_disj)
  qed
  show "effective_cooldown_seconds cfg j r c \<le>
      max (rate_limit_max_cooldown_seconds cfg) (retry_floor r) + rate_limit_jitter_seconds cfg"
    unfolding eq using jit by (intro add_mono max.mono) auto
  show "effective_cooldown_seconds cfg j r c \<le> effective_cooldown_seconds cfg j r c'" if "c \<le> c'" for c'
    unfolding eq using adaptive_mono [OF assms(1) that] by (intro add_right_mono max.mono min.mono) auto
  show "effective_cooldown_seconds cfg j r c =
      max (min (safety_floor cfg * rate_limit_backoff_multiplier cfg ^ nat (c - 1)) (rate_limit_max_cooldown_seconds cfg))
          (retry_floor r) + upward_jitter cfg j"
    by (rule eq)
qed

lemma default_settings_float: "float_settings default_settings"
  by (simp add: float_settings_def default_settings_def FLOAT_LIMIT_def)

theorem cooldown_bounds_witness:
  "effective_cooldown_seconds default_settings (\<lambda>_. 0) (Some 7200) 1 \<ge> 7200 \<and>
   effective_cooldown_seconds default_settings (\<lambda>_. 0) None 3 = 14400 \<and>
   effective_cooldown_seconds default_settings (\<lambda>_. 0) None 3 \<le> effective_cooldown_seconds default_settings (\<lambda>_. 0) None 9"
proof -
  note b = cooldown_bounds [OF default_settings_valid default_settings_float, of "\<lambda>_. 0"]
  have "(of_int 7200 :: rat) \<le> effective_cooldown_seconds default_settings (\<lambda>_. 0) (Some 7200) 1"
    using b [of "Some 7200" 1] by blast
  moreover have "effective_cooldown_seconds default_settings (\<lambda>_. 0) None 3 = 14400"
    using b [of None 3] by (simp add: default_settings_def safety_floor_def retry_floor_def upward_jitter_def)
  moreover have "effective_cooldown_seconds default_settings (\<lambda>_. 0) None 3
      \<le> effective_cooldown_seconds default_settings (\<lambda>_. 0) None 9"
    using b [of None 3] by (auto)
  ultimately show ?thesis by simp
qed

text \<open>
  The last request recorded is no earlier than t; the cooldown recorded does not end before u.
\<close>

definition requested_since :: "datetime \<Rightarrow> rate_state \<Rightarrow> bool" where
  "requested_since t s \<longleftrightarrow> (case rs_last_request_at s of None \<Rightarrow> False | Some v \<Rightarrow> t \<le> v)"

definition cools_until :: "datetime \<Rightarrow> rate_state \<Rightarrow> bool" where
  "cools_until u s \<longleftrightarrow> (case rs_cooldown_until s of None \<Rightarrow> False | Some v \<Rightarrow> u \<le> v)"

text \<open>
  C12. A request that before_request grants starts no earlier than one request interval after prev,
  whenever prev is the end of a request that is recorded or that another worker v is still to record:
  the store shows the lease held by v, unexpired, or a last request at or after prev; and between our
  transactions the other processes keep such a record, and v gives the lease up only with its own
  request recorded. The request never starts before the instant of
  the decision; and if the others leave the lease row alone while this worker owns it, the worker
  holds the lease until after the wait, the request timeout, the store timeout and five seconds
  more, counted from the renewal. Times are those of the clock, or the explicit instant.
\<close>

theorem granted_request_is_spaced:
  assumes "v \<noteq> own" "\<And>n. hands_over l v (shown now w 0) (requested_since prev) (others w n)"
    and "holds_at l v (shown now w 0) (store w) \<or> rate_satisfies l (requested_since prev) (store w)"
    and "before_request l own now w = (Inr dcn, w')" "can_fetch dcn"
  shows "\<exists>started. request_started_at dcn = Some started \<and>
    started = shown now w 1 + timedelta_seconds (wait_seconds dcn) \<and> shown now w 1 \<le> started \<and>
    prev + timedelta_seconds (request_interval_seconds (lim_settings l)) \<le> started \<and>
    ((\<forall>n d. lease_owned (lim_lease l) own d \<longrightarrow> get_lease (lim_lease l) (others w n d) = get_lease (lim_lease l) d) \<longrightarrow>
      (\<exists>e. lease_holder (store w') (lim_lease l) = Some (own, e) \<and>
         of_int (shown now w 2 + us_per_second * 5) + of_int us_per_second * (wait_seconds dcn +
           request_timeout_seconds (lim_settings l) + lim_store_timeout l) \<le> (of_int e :: rat)))"
  using assms(4)
proof (cases rule: before_request_cases)
  case (go d1 d2 d4 s wait started)
  have dcn: "dcn = granted wait started" using go(8) by simp
  obtain u where u: "rs_last_request_at s = Some u" "prev \<le> u"
    using decision_state [OF assms(1-3) go(1)] by (auto simp: requested_since_def go(2,3) split: option.splits)
  have sp: "u + timedelta_seconds (request_interval_seconds (lim_settings l)) \<le> started"
    using u(1) by (simp add: go(5,6) seconds_until_exact)
  have le: "shown now w 1 \<le> started"
    using timedelta_nonneg [OF seconds_until_nonneg] by (simp add: go(5,6))
  have holds: "\<exists>e. lease_holder (store w') (lim_lease l) = Some (own, e) \<and>
         of_int (shown now w 2 + us_per_second * 5) + of_int us_per_second * (wait +
           request_timeout_seconds (lim_settings l) + lim_store_timeout l) \<le> (of_int e :: rat)"
    if keep: "\<forall>n d. lease_owned (lim_lease l) own d \<longrightarrow> get_lease (lim_lease l) (others w n d) = get_lease (lim_lease l) d"
  proof (intro exI conjI)
    let ?ttl = "request_timeout_lease l wait" and ?d3 = "others w (Suc (Suc (txs w))) d2"
    have own: "lease_owned (lim_lease l) own ?d3"
      using go(7) by (auto simp: renew_lease_if_owned_def renew_leases_if_owned_def split: if_splits)
    then have "d4 = extend_lease (shown now w 2) (lim_lease l, own, ?ttl) ?d3"
      using go(7) by (simp add: renew_lease_if_owned_def renew_leases_if_owned_def)
    then have d4: "lease_holder d4 (lim_lease l) = Some (own, expiry (shown now w 2) ?ttl)" "lease_owned (lim_lease l) own d4"
      using own by (auto simp: lease_holder_def get_lease_extend lease_owned_def split: option.splits)
    have keep': "get_lease (lim_lease l) (others w n d) = get_lease (lim_lease l) d \<and> lease_owned (lim_lease l) own (others w n d)"
      if "lease_owned (lim_lease l) own d" for n d
      using keep that by (simp add: lease_owned_def)
    have same: "get_lease (lim_lease l) (set_rate_state r d) = get_lease (lim_lease l) d"
      "get_lease (lim_lease l) (record_event ev p d) = get_lease (lim_lease l) d" for r d ev p
      by (simp_all add: get_lease_def)
    let ?d5 = "set_rate_state (mark_started s started wait (api_family_of_owner own)) (others w (Suc (Suc (Suc (txs w)))) d4)"
    have "lease_owned (lim_lease l) own ?d5" using keep' [OF d4(2)] unfolding lease_owned_def same by blast
    from keep' [OF this] keep' [OF d4(2)]
    show "lease_holder (store w') (lim_lease l) = Some (own, expiry (shown now w 2) ?ttl)"
      using d4(1) by (simp add: go(9) lease_holder_def same)
    let ?x = "wait + request_timeout_seconds (lim_settings l) + lim_store_timeout l + 5"
    have "?x \<le> of_int \<lceil>?x\<rceil>" by (rule le_of_int_ceiling)
    moreover have "\<lceil>?x\<rceil> \<le> ?ttl" unfolding request_timeout_lease_def by (rule max.cobounded2)
    ultimately have "?x \<le> of_int ?ttl" by (metis of_int_le_iff order_trans)
    then have "of_int us_per_second * ?x \<le> of_int us_per_second * of_int ?ttl"
      by (intro mult_left_mono) (simp_all add: us_per_second_def)
    then show "of_int (shown now w 2 + us_per_second * 5) + of_int us_per_second * (wait +
          request_timeout_seconds (lim_settings l) + lim_store_timeout l) \<le> (of_int (expiry (shown now w 2) ?ttl) :: rat)"
      by (simp add: expiry_def algebra_simps)
  qed
  show ?thesis
    using sp u(2) le holds go(6) by (simp add: dcn granted_def)
qed (use assms(5) in \<open>auto simp: denied_def\<close>)

text \<open>
  C13. When after_rate_limit answers a cooldown until u, the store it leaves shows a cooldown that
  ends at u or later and no lease of the caller, whatever the other processes do in between that
  keeps such a cooldown and the schema. And no before_request of the same rate state that decides
  before u is granted, whoever makes it and when: it may even start before the cooldown is recorded,
  as long as the worker v who is to record it holds an unexpired lease until then. Refused for the
  cooldown, it answers an instant that is not before u. The hypothesis on the others is necessary:
  before_request_erases_late_cooldown below has a process that records a cooldown without the lease.
\<close>

theorem no_grant_during_cooldown:
  assumes "after_rate_limit l own retry st kind fam msg now w = (Inr u, w1)"
    and "\<And>n d. rate_satisfies l (cools_until u) d \<Longrightarrow> rate_satisfies l (cools_until u) (others w n d)"
    and "schema_ok (store w)" "\<And>n d. schema_ok d \<Longrightarrow> schema_ok (others w n d)"
  shows "rate_satisfies l (cools_until u) (store w1) \<and> (\<forall>e. lease_holder (store w1) (lim_lease l) \<noteq> Some (own, e)) \<and>
    (\<forall>l' v own' now' w2 dcn w3. lim_name l' = lim_name l \<and> v \<noteq> own' \<and>
       (\<forall>n. hands_over l' v (shown now' w2 0) (cools_until u) (others w2 n)) \<and>
       (holds_at l' v (shown now' w2 0) (store w2) \<or> rate_satisfies l' (cools_until u) (store w2)) \<and>
       before_request l' own' now' w2 = (Inr dcn, w3) \<and> shown now' w2 1 < u \<longrightarrow>
       \<not> can_fetch dcn \<and> (blocked_reason dcn = Some ''cooldown'' \<longrightarrow>
         (\<exists>v. decision_cooldown_until dcn = Some v \<and> u \<le> v)))"
proof (intro conjI allI impI)
  obtain r p where r: "rs_name r = lim_name l" "rs_cooldown_until r = Some u" and w1: "store w1 =
      release_lease (lim_lease l) own (others w (txs w + 3) (record_event ''upstream_request_finished'' p
        (others w (txs w + 2) (set_rate_state r (others w (txs w + 1) (others w (txs w) (store w)))))))"
    using assms(1) by (rule after_rate_limit_run)
  have "rate_satisfies l (cools_until u) (set_rate_state r d)" for d
    using r by (simp add: rate_satisfies_def cools_until_def)
  then show "rate_satisfies l (cools_until u) (store w1)"
    using assms(2) unfolding w1 by (simp add: rate_satisfies_def)
  have "schema_ok (others w (txs w + 3) (record_event ''upstream_request_finished'' p
        (others w (txs w + 2) (set_rate_state r (others w (txs w + 1) (others w (txs w) (store w)))))))"
    by (intro assms(3,4) schema_ok_set_rate_state schema_ok_record_event)
  from get_lease_release [OF schema_okD(8) [OF this]]
  show "lease_holder (store w1) (lim_lease l) \<noteq> Some (own, e)" for e
    unfolding w1 by (auto simp: lease_holder_def lease_owned_def split: if_splits)
next
  fix l' v own' now' w2 dcn w3
  assume "lim_name l' = lim_name l \<and> v \<noteq> own' \<and>
       (\<forall>n. hands_over l' v (shown now' w2 0) (cools_until u) (others w2 n)) \<and>
       (holds_at l' v (shown now' w2 0) (store w2) \<or> rate_satisfies l' (cools_until u) (store w2)) \<and>
       before_request l' own' now' w2 = (Inr dcn, w3) \<and> shown now' w2 1 < u"
  then have h: "v \<noteq> own'" "\<And>n. hands_over l' v (shown now' w2 0) (cools_until u) (others w2 n)"
      "holds_at l' v (shown now' w2 0) (store w2) \<or> rate_satisfies l' (cools_until u) (store w2)"
      "before_request l' own' now' w2 = (Inr dcn, w3)" "shown now' w2 1 < u" by blast+
  note sees = decision_state [OF h(1-3)]
  from h(4) have "\<not> can_fetch dcn \<and> (blocked_reason dcn = Some ''cooldown'' \<longrightarrow>
      (\<exists>v. decision_cooldown_until dcn = Some v \<and> u \<le> v))"
  proof (cases rule: before_request_cases)
    case (cooling d1 d2)
    then show ?thesis using sees [OF cooling(1)] by (auto simp: cools_until_def denied_def split: option.splits)
  next
    case (go d1 d2 d4 s wait started)
    then show ?thesis using sees [OF go(1)] h(5) by (auto simp: cools_until_def in_cooldown_def split: option.splits)
  qed (simp_all add: denied_def)
  then show "\<not> can_fetch dcn" "blocked_reason dcn = Some ''cooldown'' \<Longrightarrow>
      \<exists>v. decision_cooldown_until dcn = Some v \<and> u \<le> v" by blast+
qed

definition sample_limiter :: limiter where
  "sample_limiter = \<lparr>lim_name = ''arxiv_legacy_api'', lim_lease = ''upstream_fetch'',
     lim_settings = default_settings, lim_store_timeout = 30, lim_jitter = (\<lambda>_. 0)\<rparr>"

definition idle_world :: world where
  "idle_world = alone (empty_db (\<lambda>_. 0)) (\<lambda>_ _. Inl (OtherExn ''offline''))"

lemma quiet_hands_over: "quiet w \<Longrightarrow> hands_over l v t P (others w n)"
  by (simp add: quiet_def hands_over_def)

text \<open>
  A world in which a rival holds the lease when we start, records its request and frees the lease
  just before our first transaction.
\<close>

definition rival_finishes :: "nat \<Rightarrow> db \<Rightarrow> db" where
  "rival_finishes n d = (if holds_at sample_limiter ''v'' 7 d
     then release_lease ''upstream_fetch'' ''v''
       (set_rate_state ((new_rate_state ''arxiv_legacy_api'')\<lparr>rs_last_request_at := Some 5\<rparr>) d) else d)"

definition rival_world :: world where
  "rival_world = idle_world\<lparr>store := snd (acquire_lease ''upstream_fetch'' ''v'' 300 0 (store idle_world)), others := rival_finishes\<rparr>"

lemma rival_hands_over: "hands_over sample_limiter ''v'' 7 (requested_since 5) (rival_finishes n)"
  by (auto simp: hands_over_def rival_finishes_def rate_satisfies_def sample_limiter_def requested_since_def new_rate_state_def)

lemma rival_granted:
  "case before_request sample_limiter ''w'' (Some 7) rival_world of (Inr dcn, _) \<Rightarrow> can_fetch dcn | _ \<Rightarrow> False"
  by code_simp

theorem granted_request_is_spaced_witness:
  "\<exists>dcn w' started e. before_request sample_limiter ''w'' (Some 7) rival_world = (Inr dcn, w') \<and>
     request_started_at dcn = Some started \<and> 5 + timedelta_seconds 5 \<le> started \<and>
     lease_holder (store w') ''upstream_fetch'' = Some (''w'', e)"
proof -
  obtain dcn w' where run: "before_request sample_limiter ''w'' (Some 7) rival_world = (Inr dcn, w')" and ok: "can_fetch dcn"
    using rival_granted by (auto split: prod.splits sum.splits)
  have t: "shown (Some 7) rival_world 0 = 7" by (simp add: shown_def)
  have h: "hands_over sample_limiter ''v'' (shown (Some 7) rival_world 0) (requested_since 5) (others rival_world n)" for n
    unfolding t using rival_hands_over by (simp add: rival_world_def)
  have held: "holds_at sample_limiter ''v'' (shown (Some 7) rival_world 0) (store rival_world) \<or>
      rate_satisfies sample_limiter (requested_since 5) (store rival_world)" unfolding t by code_simp
  have l: "lim_lease sample_limiter = ''upstream_fetch''" "request_interval_seconds (lim_settings sample_limiter) = 5"
    by (simp_all add: sample_limiter_def default_settings_def)
  have "\<forall>n d. lease_owned ''upstream_fetch'' ''w'' d \<longrightarrow>
      get_lease ''upstream_fetch'' (others rival_world n d) = get_lease ''upstream_fetch'' d"
    by (auto simp: rival_world_def rival_finishes_def holds_at_def lease_holder_def lease_owned_def l split: option.splits)
  with granted_request_is_spaced [OF _ h held run ok] run show ?thesis unfolding l by blast
qed

theorem no_grant_during_cooldown_witness:
  "\<exists>u w1 dcn w2. after_rate_limit sample_limiter ''w'' None 429 None None None (Some 0) idle_world = (Inr u, w1) \<and>
     before_request sample_limiter ''v'' (Some 1) w1 = (Inr dcn, w2) \<and> \<not> can_fetch dcn \<and> 1 < u"
proof -
  have q: "others idle_world n d = d" for n d by (simp add: idle_world_def alone_def)
  have ok: "schema_ok (store idle_world)" using empty_db_schema by (simp add: idle_world_def alone_def)
  let ?e = "effective_cooldown_seconds default_settings (\<lambda>_. 0) None 1"
  have fl: "3600 \<le> ?e"
    using cooldown_bounds [OF default_settings_valid default_settings_float, of "\<lambda>_. 0" None 1]
    by (simp add: safety_floor_def default_settings_def)
  have zero: "rs_consecutive_rate_limit_total (get_rate_state ''arxiv_legacy_api'' (locked idle_world)) = 0"
    by (simp add: locked_def idle_world_def alone_def empty_db_def get_rate_state_def new_rate_state_def)
  define u where "u = timedelta_seconds ?e"
  obtain w1 where run: "after_rate_limit sample_limiter ''w'' None 429 None None None (Some 0) idle_world = (Inr u, w1)"
    and w1q: "others w1 = others idle_world"
    using after_rate_limit_total [of sample_limiter "''w''" None 429 None None None "Some 0" idle_world] zero
    by (auto simp: sample_limiter_def shown_def u_def)
  have u: "1 < u" using timedelta_mono [OF fl] by (simp add: u_def us_per_second_def)
  obtain r w2 where b0: "before_request sample_limiter ''v'' (Some 1) w1 = (r, w2)" by fastforce
  have "\<exists>dcn. r = Inr dcn" using b0 by (cases rule: before_request_cases) auto
  with b0 obtain dcn where b: "before_request sample_limiter ''v'' (Some 1) w1 = (Inr dcn, w2)" by blast
  have w1: "hands_over sample_limiter ''w'' (shown (Some 1) w1 0) (cools_until u) (others w1 n)" for n
    using q by (intro quiet_hands_over) (simp add: quiet_def w1q)
  have keep: "rate_satisfies sample_limiter (cools_until u) d \<Longrightarrow> rate_satisfies sample_limiter (cools_until u) (others idle_world n d)"
    "schema_ok d \<Longrightarrow> schema_ok (others idle_world n d)" for n d by (simp_all add: q)
  note C = no_grant_during_cooldown [OF run keep(1) ok keep(2)]
  have "\<not> can_fetch dcn"
    using C [THEN conjunct2, THEN conjunct2, rule_format, of sample_limiter "''w''" "''v''" "Some 1" w1 dcn w2] C w1 b u
    by (simp add: shown_def)
  with run u b show ?thesis by blast
qed

text \<open>
  before_request writes back the whole row it read before renewing the lease. A cooldown that
  another process records in between (a worker whose lease expired while its response was on the
  way) is erased, and the request is granted.
\<close>

definition late_cooldown :: "nat \<Rightarrow> db \<Rightarrow> db" where
  "late_cooldown n d = (if n = 3
     then set_rate_state ((get_rate_state ''arxiv_legacy_api'' d)\<lparr>rs_cooldown_until := Some 1000\<rparr>) d else d)"

lemma before_request_erases_late_cooldown:
  "case before_request sample_limiter ''w'' (Some 7) (idle_world\<lparr>others := late_cooldown\<rparr>) of
     (Inr dcn, w') \<Rightarrow> can_fetch dcn \<and> rs_cooldown_until (get_rate_state ''arxiv_legacy_api'' (store w')) = None
   | _ \<Rightarrow> False"
  by code_simp

text \<open>
  Every state the limiter writes keeps its counters consistent: none
  is negative, the consecutive ones never exceed their totals, and the HTTP 429 and OAI 503
  totals never exceed the total of rate limits.
\<close>

definition rate_counters_ok :: "rate_state \<Rightarrow> bool" where
  "rate_counters_ok s \<longleftrightarrow> 0 \<le> rs_consecutive_429_total s \<and>
     rs_consecutive_429_total s \<le> rs_upstream_429_total s \<and>
     rs_consecutive_429_total s \<le> rs_consecutive_rate_limit_total s \<and>
     rs_consecutive_rate_limit_total s \<le> rs_upstream_rate_limited_total s \<and>
     rs_upstream_429_total s \<le> rs_upstream_rate_limited_total s \<and>
     0 \<le> rs_upstream_oai_503_retry_after_total s \<and>
     rs_upstream_oai_503_retry_after_total s \<le> rs_upstream_rate_limited_total s"

theorem rate_counters_consistent:
  assumes "rate_counters_ok s"
  shows "rate_counters_ok (mark_started s t x f) \<and> rate_counters_ok (success_state s t st g) \<and>
    rate_counters_ok (failure_state s t sto m g) \<and>
    rate_counters_ok (rate_limited_state s t st r e k f m' g) \<and>
    rs_upstream_rate_limited_total s \<le> rs_upstream_rate_limited_total (rate_limited_state s t st r e k f m' g) \<and>
    rate_counters_ok (new_rate_state n)"
  using assms
  by (auto simp: rate_counters_ok_def mark_started_def success_state_def failure_state_def
      rate_limited_state_def new_rate_state_def)

theorem rate_counters_consistent_witness:
  "rate_counters_ok (rate_limited_state (new_rate_state ''n'') 0 429 None 5 ''k'' ''f'' ''m''
     (request_diagnostics (new_rate_state ''n'') 0 ''w'' None))"
  using rate_counters_consistent [of "new_rate_state ''n''"]
  by (simp add: rate_counters_ok_def new_rate_state_def)

end
