(* ===== verification/Huldra_Cache.thy ===== *)
theory Huldra_Cache
  imports Huldra_Limiter
begin

text \<open>
  Papers and the result cache (huldra/db.py: upsert_papers, get_paper, get_papers_by_ids,
  record_completed_cache_entry, get_readable_completed_cache, get_cached_papers,
  record_cache_failure and their helpers). A completed cache entry lists its papers by position;
  a row of a paper is shared by every entry that matches it.
\<close>

subsection \<open>Version families\<close>

text \<open>LIKE with the escaped base and v%: a prefix test that ignores ASCII case.\<close>

definition like_versions_of :: "string \<Rightarrow> string \<Rightarrow> bool" where
  "like_versions_of base i \<longleftrightarrow> startswith (lower i) (lower (base @ ''v''))"

definition paper_ids :: "db \<Rightarrow> string list" where
  "paper_ids d = map pr_id (papers d)"

definition paper_arxiv_ids_in_version_family :: "string \<Rightarrow> db \<Rightarrow> string list" where
  "paper_arxiv_ids_in_version_family arxiv_id d =
     (let base = arxiv_id_family_base arxiv_id
      in filter (\<lambda>i. i = base \<or> arxiv_id_family_base i = base)
           (filter (\<lambda>i. i = base \<or> like_versions_of base i) (paper_ids d)))"

text \<open>(arxiv_version(arxiv_id) or -1, arxiv_id).\<close>

definition version_family_merge_preference :: "string \<Rightarrow> int \<times> string" where
  "version_family_merge_preference i =
     (case arxiv_version i of None \<Rightarrow> - 1 | Some v \<Rightarrow> if v = 0 then - 1 else v, i)"

text \<open>max(xs, key=f): the first of the maximal elements.\<close>

fun max_by :: "('a \<Rightarrow> 'k::linorder) \<Rightarrow> 'a list \<Rightarrow> 'a option" where
  "max_by f [] = None"
| "max_by f (x # xs) = (case max_by f xs of None \<Rightarrow> Some x | Some y \<Rightarrow> if f y > f x then Some y else Some x)"

definition abs_url :: "string \<Rightarrow> string" where
  "abs_url i = ''https://arxiv.org/abs/'' @ i"

definition oai_paper_for_existing_version_family :: "db \<Rightarrow> arxiv_paper \<Rightarrow> arxiv_paper" where
  "oai_paper_for_existing_version_family d p =
     (let ids = paper_arxiv_ids_in_version_family (p_arxiv_id p) d
      in if ids = [] \<or> p_arxiv_id p \<in> set ids then p
         else case max_by version_family_merge_preference ids of
           None \<Rightarrow> p
         | Some target \<Rightarrow>
            (let q = p\<lparr>p_arxiv_id := target, p_canonical_url := abs_url target\<rparr>
             in case arxiv_version target of None \<Rightarrow> q | Some v \<Rightarrow> q\<lparr>p_version := Some v\<rparr>))"

definition legacy_paper_for_existing_oai_base_row :: "db \<Rightarrow> arxiv_paper \<Rightarrow> arxiv_paper" where
  "legacy_paper_for_existing_oai_base_row d p =
     (if p_oai_identifier p \<noteq> None \<or> arxiv_version (p_arxiv_id p) = None then p
      else
       (let base = arxiv_id_family_base (p_arxiv_id p);
            ids = paper_arxiv_ids_in_version_family (p_arxiv_id p) d
        in if base \<notin> set ids then p
           else if \<exists>i\<in>set ids. arxiv_version i \<noteq> None then p
           else case get_paper_row base d of
             None \<Rightarrow> p
           | Some row \<Rightarrow>
               if p_oai_identifier (pr_paper row) = None then p
               else p\<lparr>p_arxiv_id := base, p_version := arxiv_version base,
                      p_canonical_url := abs_url base\<rparr>))"

subsection \<open>Upserting papers\<close>

text \<open>The DO UPDATE SET list: without an OAI identifier the OAI columns and `deleted' stay.\<close>

definition merge_paper :: "arxiv_paper \<Rightarrow> arxiv_paper \<Rightarrow> arxiv_paper" where
  "merge_paper old new =
     (if p_oai_identifier new = None
      then new\<lparr>p_oai_identifier := p_oai_identifier old, p_oai_datestamp := p_oai_datestamp old,
               p_oai_set_specs := p_oai_set_specs old, p_deleted := p_deleted old\<rparr>
      else new)\<lparr>p_arxiv_id := p_arxiv_id old\<rparr>"

definition upsert_paper :: "datetime \<Rightarrow> arxiv_paper \<Rightarrow> db \<Rightarrow> string \<times> db" where
  "upsert_paper timestamp p d =
     (let q = legacy_paper_for_existing_oai_base_row d p
      in (p_arxiv_id q,
          d\<lparr>papers := tbl_upsert pr_id
              \<lparr>pr_paper = q, pr_first_seen_at = timestamp, pr_last_seen_at = timestamp\<rparr>
              (\<lambda>r. r\<lparr>pr_paper := merge_paper (pr_paper r) q, pr_last_seen_at := timestamp\<rparr>) (papers d)\<rparr>))"

fun upsert_all :: "datetime \<Rightarrow> arxiv_paper list \<Rightarrow> db \<Rightarrow> string list \<times> db" where
  "upsert_all timestamp [] d = ([], d)"
| "upsert_all timestamp (p # ps) d =
     (case upsert_paper timestamp p d of (i, d1) \<Rightarrow>
        (case upsert_all timestamp ps d1 of (ids, d2) \<Rightarrow> (i # ids, d2)))"

definition upsert_papers :: "arxiv_paper list \<Rightarrow> datetime \<Rightarrow> db \<Rightarrow> db" where
  "upsert_papers ps now d = (if ps = [] then d else snd (upsert_all now ps d))"

definition mark_paper_deleted ::
  "string \<Rightarrow> string option \<Rightarrow> datetime option \<Rightarrow> string list option \<Rightarrow> datetime \<Rightarrow> db \<Rightarrow> db" where
  "mark_paper_deleted arxiv_id oai_id datestamp set_specs now d =
     d\<lparr>papers := tbl_update (\<lambda>r. pr_id r = arxiv_id)
        (\<lambda>r. r\<lparr>pr_paper := (pr_paper r)\<lparr>p_deleted := True,
                p_oai_identifier := coalesce oai_id (p_oai_identifier (pr_paper r)),
                p_oai_datestamp := coalesce datestamp (p_oai_datestamp (pr_paper r)),
                p_oai_set_specs := (case set_specs of None \<Rightarrow> [] | Some s \<Rightarrow> s)\<rparr>,
              pr_last_seen_at := now\<rparr>) (papers d)\<rparr>"

subsection \<open>Reading papers\<close>

definition oai_base_paper_row_for_versioned_read :: "string \<Rightarrow> db \<Rightarrow> paper_row option" where
  "oai_base_paper_row_for_versioned_read arxiv_id d =
     (if arxiv_version arxiv_id = None then None
      else
       (let base = arxiv_id_family_base arxiv_id
        in if base = arxiv_id then None
           else case get_paper_row base d of
             None \<Rightarrow> None
           | Some r \<Rightarrow> if p_oai_identifier (pr_paper r) \<noteq> None then Some r else None))"

definition latest_versioned_paper_row_for_base_read :: "string \<Rightarrow> db \<Rightarrow> paper_row option" where
  "latest_versioned_paper_row_for_base_read arxiv_id d =
     (if arxiv_version arxiv_id \<noteq> None then None
      else
       (let base = arxiv_id_family_base arxiv_id
        in max_by (\<lambda>r. version_family_merge_preference (pr_id r))
             (filter (\<lambda>r. arxiv_version (pr_id r) \<noteq> None \<and> arxiv_id_family_base (pr_id r) = base)
               (filter (\<lambda>r. like_versions_of base (pr_id r)) (papers d)))))"

definition lookup_paper_row :: "string \<Rightarrow> db \<Rightarrow> paper_row option" where
  "lookup_paper_row arxiv_id d =
     coalesce (get_paper_row arxiv_id d)
       (coalesce (oai_base_paper_row_for_versioned_read arxiv_id d)
         (latest_versioned_paper_row_for_base_read arxiv_id d))"

definition get_paper :: "string \<Rightarrow> db \<Rightarrow> arxiv_paper option" where
  "get_paper arxiv_id d = map_option pr_paper (lookup_paper_row arxiv_id d)"

text \<open>The dict in insertion order.\<close>

definition get_papers_by_ids :: "string list \<Rightarrow> db \<Rightarrow> (string \<times> arxiv_paper) list" where
  "get_papers_by_ids arxiv_ids d =
     (if arxiv_ids = [] then []
      else List.map_filter (\<lambda>i. map_option (\<lambda>r. (i, pr_paper r)) (lookup_paper_row i d)) (dedup arxiv_ids))"

subsection \<open>Completed entries\<close>

definition match_rows :: "string \<Rightarrow> string list \<Rightarrow> datetime \<Rightarrow> match_row list" where
  "match_rows cache_key ids completed =
     map (\<lambda>(n, i). \<lparr>m_cache_key = cache_key, m_arxiv_id = i, m_sort_position = int n, m_matched_at = completed\<rparr>)
       (enumerate 0 ids)"

definition completed_entry ::
  "string \<Rightarrow> arxiv_request \<Rightarrow> datetime \<Rightarrow> datetime \<Rightarrow> int \<Rightarrow> int \<Rightarrow> int \<Rightarrow> int option \<Rightarrow> coverage_status \<Rightarrow> cache_entry" where
  "completed_entry cache_key request requested completed status upstream_total count results coverage =
     \<lparr>c_cache_key = cache_key, c_request = request, c_api_family = req_api_family request,
      c_status = ''completed'', c_requested_at = Some requested, c_completed_at = Some completed,
      c_refresh_after = Some (expiry completed (refresh_interval_seconds request)),
      c_cooldown_until = None, c_upstream_status = Some status, c_upstream_requests_total = upstream_total,
      c_result_count = count, c_total_results = results, c_coverage_status = coverage,
      c_error_category = None, c_error_message = None\<rparr>"

definition record_completed_cache_entry ::
  "string \<Rightarrow> arxiv_request \<Rightarrow> arxiv_paper list \<Rightarrow> int option \<Rightarrow> coverage_status \<Rightarrow> int \<Rightarrow> int
   \<Rightarrow> datetime \<Rightarrow> datetime \<Rightarrow> db \<Rightarrow> db" where
  "record_completed_cache_entry cache_key request ps total_results coverage upstream_status upstream_count requested completed d =
     (case upsert_all completed ps d of (all_ids, d1) \<Rightarrow>
       (let ids = dedup all_ids;
            upstream_total = (case get_cache_entry cache_key d1 of
                None \<Rightarrow> upstream_count | Some c \<Rightarrow> c_upstream_requests_total c + upstream_count);
            entry = completed_entry cache_key request requested completed upstream_status upstream_total
                      (int (length ids)) total_results coverage;
            d2 = d1\<lparr>cache_entries := tbl_upsert c_cache_key entry (\<lambda>c. entry\<lparr>c_cache_key := c_cache_key c\<rparr>) (cache_entries d1),
                    cache_matches := tbl_delete (\<lambda>m. m_cache_key m = cache_key) (cache_matches d1)
                      @ match_rows cache_key ids completed\<rparr>
        in record_event ''fetch_success''
             [(''cache_key'', JStr cache_key), (''papers_total'', JInt (int (length ids))),
              (''upstream_status'', JInt upstream_status), (''coverage_status'', JStr (coverage_value coverage))] d2))"

definition matches_of :: "string \<Rightarrow> db \<Rightarrow> match_row list" where
  "matches_of cache_key d = filter (\<lambda>m. m_cache_key m = cache_key) (cache_matches d)"

definition completed_cache_integrity_failure :: "string \<Rightarrow> cache_entry \<Rightarrow> db \<Rightarrow> string option" where
  "completed_cache_integrity_failure cache_key entry d =
     (let ms = matches_of cache_key d;
          joined = filter (\<lambda>m. get_paper_row (m_arxiv_id m) d \<noteq> None) ms;
          positions = sort (map m_sort_position ms)
      in if int (length ms) \<noteq> c_result_count entry then Some ''match_count_mismatch''
         else if int (length joined) \<noteq> c_result_count entry then Some ''paper_join_mismatch''
         else if positions \<noteq> map int [0..<nat (c_result_count entry)] then Some ''sort_position_gap''
         else None)"

text \<open>The three reads and the event of an unreadable entry.\<close>

definition get_readable_completed_cache :: "string \<Rightarrow> db \<Rightarrow> cache_entry option \<times> db" where
  "get_readable_completed_cache cache_key d =
     (case get_cache_entry cache_key d of
        None \<Rightarrow> (None, d)
      | Some entry \<Rightarrow>
          if c_status entry \<noteq> ''completed'' then (None, d)
          else case completed_cache_integrity_failure cache_key entry d of
            None \<Rightarrow> (Some entry, d)
          | Some reason \<Rightarrow>
              (None, record_event ''cache_integrity_failure''
                 [(''cache_key'', JStr cache_key), (''reason'', JStr reason),
                  (''result_count'', JInt (c_result_count entry))] d))"

definition get_cached_papers :: "string \<Rightarrow> db \<Rightarrow> arxiv_paper list" where
  "get_cached_papers cache_key d =
     map pr_paper (List.map_filter (\<lambda>m. get_paper_row (m_arxiv_id m) d)
       (sort_key m_sort_position (matches_of cache_key d)))"

subsection \<open>Failures\<close>

definition record_cache_failure ::
  "string \<Rightarrow> arxiv_request \<Rightarrow> string \<Rightarrow> string \<Rightarrow> string \<Rightarrow> datetime option \<Rightarrow> int option \<Rightarrow> int
   \<Rightarrow> datetime \<Rightarrow> db \<Rightarrow> (store_error + unit) \<times> db" where
  "record_cache_failure cache_key request category msg status cooldown upstream_status upstream_count now d =
     (if upstream_count < 0 then (Inl (ValueError ''upstream_request_count cannot be negative''), d)
      else
       (let previous = get_cache_entry cache_key d;
            final = (case previous of
                Some c \<Rightarrow> if c_status c = ''completed'' then ''completed'' else status | None \<Rightarrow> status);
            upstream_total = (case previous of
                Some c \<Rightarrow> c_upstream_requests_total c + upstream_count | None \<Rightarrow> upstream_count);
            new = \<lparr>c_cache_key = cache_key, c_request = request, c_api_family = req_api_family request,
               c_status = final, c_requested_at = Some now, c_completed_at = None, c_refresh_after = None,
               c_cooldown_until = cooldown, c_upstream_status = upstream_status,
               c_upstream_requests_total = upstream_total, c_result_count = 0, c_total_results = None,
               c_coverage_status = UNKNOWN, c_error_category = Some category,
               c_error_message = Some (take 1000 msg)\<rparr>
        in (Inr (),
            record_event (if upstream_status = Some 429 then ''fetch_429'' else ''fetch_failure'')
              [(''cache_key'', JStr cache_key), (''error_category'', JStr category),
               (''upstream_status'', jint upstream_status), (''cooldown_until'', jtime cooldown)]
              (d\<lparr>cache_entries := tbl_upsert c_cache_key new
                 (\<lambda>c. c\<lparr>c_request := request, c_api_family := req_api_family request, c_status := final,
                       c_requested_at := Some now, c_cooldown_until := cooldown,
                       c_upstream_status := upstream_status, c_upstream_requests_total := upstream_total,
                       c_error_category := Some category, c_error_message := Some (take 1000 msg)\<rparr>)
                 (cache_entries d)\<rparr>))))"

definition record_rate_limited ::
  "string \<Rightarrow> arxiv_request \<Rightarrow> datetime \<Rightarrow> int \<Rightarrow> string \<Rightarrow> datetime \<Rightarrow> db \<Rightarrow> (store_error + unit) \<times> db" where
  "record_rate_limited cache_key request cooldown upstream_status msg now d =
     record_cache_failure cache_key request ''rate_limited'' msg ''rate_limited'' (Some cooldown)
       (Some upstream_status) 1 now d"

subsection \<open>What an upsert does\<close>

lemma merge_paper_id [simp]: "p_arxiv_id (merge_paper old new) = p_arxiv_id old"
  by (simp add: merge_paper_def)

definition merged_row :: "datetime \<Rightarrow> arxiv_paper \<Rightarrow> paper_row option \<Rightarrow> paper_row" where
  "merged_row timestamp q r = (case r of
      None \<Rightarrow> \<lparr>pr_paper = q, pr_first_seen_at = timestamp, pr_last_seen_at = timestamp\<rparr>
    | Some r \<Rightarrow> r\<lparr>pr_paper := merge_paper (pr_paper r) q, pr_last_seen_at := timestamp\<rparr>)"

lemma upsert_paper_row:
  assumes "upsert_paper t p d = (i, d')"
  shows "get_paper_row j d' =
    (if j = i then Some (merged_row t (legacy_paper_for_existing_oai_base_row d p) (get_paper_row i d))
     else get_paper_row j d)"
  using assms
  by (auto simp: upsert_paper_def get_paper_row_def merged_row_def tbl_get_upsert Let_def split: option.split)

lemma upsert_paper_other [simp]:
  "cache_entries (snd (upsert_paper t p d)) = cache_entries d"
  "cache_matches (snd (upsert_paper t p d)) = cache_matches d"
  "queue_items (snd (upsert_paper t p d)) = queue_items d"
  "budgets (snd (upsert_paper t p d)) = budgets d"
  "memberships (snd (upsert_paper t p d)) = memberships d"
  "rate_states (snd (upsert_paper t p d)) = rate_states d"
  "leases (snd (upsert_paper t p d)) = leases d"
  "reservations (snd (upsert_paper t p d)) = reservations d"
  "worker_states (snd (upsert_paper t p d)) = worker_states d"
  "sync_jobs (snd (upsert_paper t p d)) = sync_jobs d"
  "sync_pages (snd (upsert_paper t p d)) = sync_pages d"
  "events (snd (upsert_paper t p d)) = events d"
  "event_seq (snd (upsert_paper t p d)) = event_seq d"
  by (simp_all add: upsert_paper_def Let_def)

lemma upsert_all_cons:
  "upsert_all t (p # ps) d =
    (fst (upsert_paper t p d) # fst (upsert_all t ps (snd (upsert_paper t p d))),
     snd (upsert_all t ps (snd (upsert_paper t p d))))"
  by (simp split: prod.split)

declare upsert_all.simps(2) [simp del]

lemma upsert_all_other [simp]:
  "cache_entries (snd (upsert_all t ps d)) = cache_entries d"
  "cache_matches (snd (upsert_all t ps d)) = cache_matches d"
  "queue_items (snd (upsert_all t ps d)) = queue_items d"
  "budgets (snd (upsert_all t ps d)) = budgets d"
  "memberships (snd (upsert_all t ps d)) = memberships d"
  "rate_states (snd (upsert_all t ps d)) = rate_states d"
  "leases (snd (upsert_all t ps d)) = leases d"
  "reservations (snd (upsert_all t ps d)) = reservations d"
  "worker_states (snd (upsert_all t ps d)) = worker_states d"
  "sync_jobs (snd (upsert_all t ps d)) = sync_jobs d"
  "sync_pages (snd (upsert_all t ps d)) = sync_pages d"
  by (induction ps arbitrary: d) (simp_all add: upsert_all_cons)

lemma upsert_paper_keeps: "get_paper_row j d \<noteq> None \<Longrightarrow> get_paper_row j (snd (upsert_paper t p d)) \<noteq> None"
  by (cases "upsert_paper t p d") (simp add: upsert_paper_row)

lemma upsert_all_keeps: "get_paper_row j d \<noteq> None \<Longrightarrow> get_paper_row j (snd (upsert_all t ps d)) \<noteq> None"
proof (induction ps arbitrary: d)
  case (Cons p ps)
  from Cons.IH [OF upsert_paper_keeps [OF Cons.prems]] show ?case by (simp add: upsert_all_cons)
qed simp

lemma upsert_all_present:
  "i \<in> set (fst (upsert_all t ps d)) \<Longrightarrow> get_paper_row i (snd (upsert_all t ps d)) \<noteq> None"
proof (induction ps arbitrary: d)
  case (Cons p ps)
  show ?case
  proof (cases "i = fst (upsert_paper t p d)")
    case True
    then have "get_paper_row i (snd (upsert_paper t p d)) \<noteq> None"
      by (cases "upsert_paper t p d") (simp add: upsert_paper_row)
    from upsert_all_keeps [OF this] show ?thesis by (simp add: upsert_all_cons)
  next
    case False
    with Cons.prems have "i \<in> set (fst (upsert_all t ps (snd (upsert_paper t p d))))"
      by (simp add: upsert_all_cons)
    from Cons.IH [OF this] show ?thesis by (simp add: upsert_all_cons)
  qed
qed simp

lemma keyed_upsert_all: "keyed pr_id (papers d) \<Longrightarrow> keyed pr_id (papers (snd (upsert_all t ps d)))"
proof (induction ps arbitrary: d)
  case (Cons p ps)
  have "keyed pr_id (papers (snd (upsert_paper t p d)))"
    using Cons.prems by (simp add: upsert_paper_def Let_def keyed_upsert)
  from Cons.IH [OF this] show ?case by (simp add: upsert_all_cons)
qed simp

lemma schema_ok_papers:
  assumes "schema_ok d" and "keyed pr_id (papers d')"
    and "cache_entries d' = cache_entries d" "cache_matches d' = cache_matches d"
    and "queue_items d' = queue_items d" "budgets d' = budgets d" "memberships d' = memberships d"
    and "rate_states d' = rate_states d" "leases d' = leases d" "reservations d' = reservations d"
    and "worker_states d' = worker_states d"
  shows "schema_ok d'"
  using assms by (simp add: schema_ok_def get_queue_row_def get_budget_def)

lemma schema_ok_upsert_all: "schema_ok d \<Longrightarrow> schema_ok (snd (upsert_all t ps d))"
  by (rule schema_ok_papers) (simp_all add: schema_okD keyed_upsert_all)

lemma schema_ok_upsert_papers [table_intros]: "schema_ok d \<Longrightarrow> schema_ok (upsert_papers ps now d)"
  by (simp add: upsert_papers_def schema_ok_upsert_all)

lemma schema_ok_mark_deleted [table_intros]:
  "schema_ok d \<Longrightarrow> schema_ok (mark_paper_deleted i o_id stamp specs now d)"
  by (rule schema_ok_papers) (simp_all add: schema_okD mark_paper_deleted_def keyed_update)

text \<open>An OAI row keeps its OAI columns, its deletion mark and its first sighting.\<close>

definition oai_identity :: "paper_row \<Rightarrow> string option \<times> datetime option \<times> string list \<times> bool \<times> datetime" where
  "oai_identity r = (p_oai_identifier (pr_paper r), p_oai_datestamp (pr_paper r), p_oai_set_specs (pr_paper r),
     p_deleted (pr_paper r), pr_first_seen_at r)"

lemma legacy_oai_identifier [simp]:
  "p_oai_identifier (legacy_paper_for_existing_oai_base_row d p) = p_oai_identifier p"
  by (simp add: legacy_paper_for_existing_oai_base_row_def Let_def split: option.split)

lemma merged_row_identity:
  "p_oai_identifier q = None \<Longrightarrow> oai_identity (merged_row t q (Some r)) = oai_identity r"
  by (simp add: oai_identity_def merged_row_def merge_paper_def)

lemma upsert_paper_identity:
  assumes "p_oai_identifier p = None" and "get_paper_row j d = Some r"
  shows "\<exists>r'. get_paper_row j (snd (upsert_paper t p d)) = Some r' \<and> oai_identity r' = oai_identity r"
  using assms by (cases "upsert_paper t p d") (auto simp: upsert_paper_row merged_row_identity)

lemma upsert_all_identity:
  assumes "\<forall>p\<in>set ps. p_oai_identifier p = None" and "get_paper_row j d = Some r"
  shows "\<exists>r'. get_paper_row j (snd (upsert_all t ps d)) = Some r' \<and> oai_identity r' = oai_identity r"
  using assms
proof (induction ps arbitrary: d r)
  case (Cons p ps)
  from Cons.prems upsert_paper_identity [of p j d r t] obtain r1
    where r1: "get_paper_row j (snd (upsert_paper t p d)) = Some r1" "oai_identity r1 = oai_identity r"
    by auto
  from Cons.prems Cons.IH [OF _ r1(1)] r1(2) show ?case by (simp add: upsert_all_cons)
qed simp

subsection \<open>A completed entry reads back\<close>

lemma match_rows_filter [simp]:
  "filter (\<lambda>m. m_cache_key m = k) (match_rows k ids t) = match_rows k ids t"
  "k' \<noteq> k \<Longrightarrow> filter (\<lambda>m. m_cache_key m = k') (match_rows k ids t) = []"
  by (auto simp: match_rows_def filter_map comp_def split_beta intro!: filter_True filter_False)

lemma match_rows_maps [simp]:
  "map m_arxiv_id (match_rows k ids t) = ids"
  "map m_sort_position (match_rows k ids t) = map int [0..<length ids]"
  "length (match_rows k ids t) = length ids"
  by (auto simp: match_rows_def enumerate_eq_zip intro!: nth_equalityI)

lemma sorted_int_upt: "sorted (map int [0..<n])"
  by (rule sorted_map_mono) (simp_all add: mono_on_def)

lemma sort_match_rows [simp]: "sort_key m_sort_position (match_rows k ids t) = match_rows k ids t"
  by (rule sort_key_id_if_sorted) (simp add: sorted_int_upt)

lemma map_filter_ids:
  "List.map_filter (\<lambda>m. f (m_arxiv_id m)) (match_rows k ids t) = List.map_filter f ids"
proof -
  have "List.map_filter (\<lambda>m. f (m_arxiv_id m)) ms = List.map_filter f (map m_arxiv_id ms)" for ms
    by (induction ms) (auto simp: List.map_filter_def)
  from this [of "match_rows k ids t"] show ?thesis by simp
qed

definition recorded_ids :: "arxiv_paper list \<Rightarrow> datetime \<Rightarrow> db \<Rightarrow> string list" where
  "recorded_ids ps completed d = dedup (fst (upsert_all completed ps d))"

lemma record_completed_papers [simp]:
  "papers (record_completed_cache_entry k rq ps tr cov st n rt ct d) = papers (snd (upsert_all ct ps d))"
  "queue_items (record_completed_cache_entry k rq ps tr cov st n rt ct d) = queue_items d"
  "budgets (record_completed_cache_entry k rq ps tr cov st n rt ct d) = budgets d"
  "memberships (record_completed_cache_entry k rq ps tr cov st n rt ct d) = memberships d"
  "rate_states (record_completed_cache_entry k rq ps tr cov st n rt ct d) = rate_states d"
  "leases (record_completed_cache_entry k rq ps tr cov st n rt ct d) = leases d"
  "reservations (record_completed_cache_entry k rq ps tr cov st n rt ct d) = reservations d"
  "worker_states (record_completed_cache_entry k rq ps tr cov st n rt ct d) = worker_states d"
  by (simp_all add: record_completed_cache_entry_def Let_def split_beta)

lemma record_completed_matches:
  "matches_of j (record_completed_cache_entry k rq ps tr cov st n rt ct d) =
    (if j = k then match_rows k (recorded_ids ps ct d) ct else matches_of j d)"
  by (auto simp: record_completed_cache_entry_def Let_def split_beta matches_of_def tbl_delete_def
      recorded_ids_def intro!: filter_cong)

lemma record_completed_get_paper:
  "get_paper_row j (record_completed_cache_entry k rq ps tr cov st n rt ct d) =
    get_paper_row j (snd (upsert_all ct ps d))"
  by (simp add: get_paper_row_def)

definition previous_upstream_total :: "string \<Rightarrow> db \<Rightarrow> int" where
  "previous_upstream_total k d = (case get_cache_entry k d of None \<Rightarrow> 0 | Some c \<Rightarrow> c_upstream_requests_total c)"

lemma record_completed_entry:
  "get_cache_entry j (record_completed_cache_entry k rq ps tr cov st n rt ct d) =
    (if j = k then Some (completed_entry k rq rt ct st (previous_upstream_total k d + n)
        (int (length (recorded_ids ps ct d))) tr cov)
     else get_cache_entry j d)"
proof -
  have entry_key: "c_cache_key c = k" if "tbl_get c_cache_key k (cache_entries d) = Some c" for c
    using tbl_get_SomeD [OF that] by simp
  have key: "c_cache_key (completed_entry k rq rt ct st n' m tr cov) = k" for n' m
    by (simp add: completed_entry_def)
  have same: "completed_entry k rq rt ct st n' m tr cov\<lparr>c_cache_key := k\<rparr> = completed_entry k rq rt ct st n' m tr cov" for n' m
    by (simp add: completed_entry_def)
  show ?thesis
    by (auto simp: record_completed_cache_entry_def Let_def split_beta get_cache_entry_def tbl_get_upsert
        key same entry_key previous_upstream_total_def recorded_ids_def split: option.split)
qed

lemma recorded_present:
  "i \<in> set (recorded_ids ps ct d) \<Longrightarrow> get_paper_row i (snd (upsert_all ct ps d)) \<noteq> None"
  by (simp add: recorded_ids_def upsert_all_present del: not_None_eq)

lemma record_completed_intact:
  "completed_cache_integrity_failure k
     (completed_entry k rq rt ct st n' (int (length (recorded_ids ps ct d))) tr cov)
     (record_completed_cache_entry k rq ps tr cov st n rt ct d) = None"
proof -
  let ?d = "record_completed_cache_entry k rq ps tr cov st n rt ct d"
  let ?ms = "match_rows k (recorded_ids ps ct d) ct"
  have "\<forall>m\<in>set ?ms. get_paper_row (m_arxiv_id m) ?d \<noteq> None"
    using recorded_present [of _ ps ct d] match_rows_maps(1) [of k "recorded_ids ps ct d" ct]
    by (metis record_completed_get_paper image_eqI list.set_map)
  then have "filter (\<lambda>m. get_paper_row (m_arxiv_id m) ?d \<noteq> None) ?ms = ?ms"
    by (rule filter_True)
  then show ?thesis
    by (simp add: completed_cache_integrity_failure_def record_completed_matches completed_entry_def Let_def
        sorted_sort_id sorted_int_upt del: not_None_eq)
qed

text \<open>
  Where a fetched paper lands: under its own id, unless it is a version of a paper the OAI harvest
  has stored under the bare id and of which no version is stored.
\<close>

definition harvested_base :: "string \<Rightarrow> db \<Rightarrow> bool" where
  "harvested_base i d \<longleftrightarrow> arxiv_version i \<noteq> None \<and>
     (case get_paper_row (arxiv_id_family_base i) d of None \<Rightarrow> False | Some r \<Rightarrow> p_oai_identifier (pr_paper r) \<noteq> None) \<and>
     (\<forall>j\<in>set (paper_arxiv_ids_in_version_family i d). arxiv_version j = None)"

definition landing_id :: "db \<Rightarrow> arxiv_paper \<Rightarrow> string" where
  "landing_id d p = (if harvested_base (p_arxiv_id p) d then arxiv_id_family_base (p_arxiv_id p) else p_arxiv_id p)"

definition landed :: "db \<Rightarrow> arxiv_paper \<Rightarrow> arxiv_paper" where
  "landed d p = (if harvested_base (p_arxiv_id p) d
     then (let base = arxiv_id_family_base (p_arxiv_id p)
           in p\<lparr>p_arxiv_id := base, p_version := arxiv_version base, p_canonical_url := abs_url base\<rparr>)
     else p)"

text \<open>A paper without the columns that the harvest owns.\<close>

definition fetched_columns :: "arxiv_paper \<Rightarrow> arxiv_paper" where
  "fetched_columns p = p\<lparr>p_oai_identifier := None, p_oai_datestamp := None, p_oai_set_specs := [], p_deleted := False\<rparr>"

lemma landed_id [simp]: "p_arxiv_id (landed d p) = landing_id d p"
  by (simp add: landed_def landing_id_def Let_def)

lemma paper_row_ids: "get_paper_row i d \<noteq> None \<longleftrightarrow> i \<in> set (paper_ids d)"
  by (auto simp: get_paper_row_def paper_ids_def tbl_get_None)

lemma base_in_family:
  "arxiv_id_family_base i \<in> set (paper_arxiv_ids_in_version_family i d) \<longleftrightarrow> get_paper_row (arxiv_id_family_base i) d \<noteq> None"
  unfolding paper_row_ids by (auto simp: paper_arxiv_ids_in_version_family_def Let_def)

lemma legacy_is_landed:
  assumes "p_oai_identifier p = None"
  shows "legacy_paper_for_existing_oai_base_row d p = landed d p"
proof (cases "get_paper_row (arxiv_id_family_base (p_arxiv_id p)) d")
  case None
  then have "arxiv_id_family_base (p_arxiv_id p) \<notin> set (paper_arxiv_ids_in_version_family (p_arxiv_id p) d)"
    using base_in_family [of "p_arxiv_id p" d] by simp
  with None show ?thesis
    by (simp add: legacy_paper_for_existing_oai_base_row_def landed_def harvested_base_def Let_def)
next
  case (Some r)
  then have "arxiv_id_family_base (p_arxiv_id p) \<in> set (paper_arxiv_ids_in_version_family (p_arxiv_id p) d)"
    using base_in_family [of "p_arxiv_id p" d] by simp
  with Some show ?thesis
    by (auto simp: legacy_paper_for_existing_oai_base_row_def landed_def harvested_base_def Let_def assms)
qed

lemma upsert_lands:
  assumes "p_oai_identifier p = None"
  shows "fst (upsert_paper t p d) = landing_id d p"
    and "get_paper_row j (snd (upsert_paper t p d)) = (if j = landing_id d p
      then Some (merged_row t (landed d p) (get_paper_row j d)) else get_paper_row j d)"
proof -
  obtain i d' where u: "upsert_paper t p d = (i, d')" by fastforce
  then have i: "i = landing_id d p"
    by (auto simp: upsert_paper_def Let_def legacy_is_landed [OF assms])
  then show "fst (upsert_paper t p d) = landing_id d p" using u by simp
  show "get_paper_row j (snd (upsert_paper t p d)) = (if j = landing_id d p
      then Some (merged_row t (landed d p) (get_paper_row j d)) else get_paper_row j d)"
    using upsert_paper_row [OF u, of j] u i by (simp add: legacy_is_landed [OF assms])
qed

lemma family_iff:
  "j \<in> set (paper_arxiv_ids_in_version_family i d) \<longleftrightarrow> get_paper_row j d \<noteq> None \<and>
     (let base = arxiv_id_family_base i in (j = base \<or> like_versions_of base j) \<and> (j = base \<or> arxiv_id_family_base j = base))"
  unfolding paper_row_ids by (auto simp: paper_arxiv_ids_in_version_family_def Let_def)

text \<open>The papers of a fetch land where they would have landed one by one.\<close>

lemma landing_stable:
  assumes "p_oai_identifier p = None"
  shows "harvested_base i (snd (upsert_paper t p d)) = harvested_base i d"
proof -
  let ?d = "snd (upsert_paper t p d)" and ?b = "arxiv_id_family_base i"
  note row = upsert_lands(2) [OF assms, of _ t d]
  have same: "(case get_paper_row ?b ?d of None \<Rightarrow> False | Some r \<Rightarrow> p_oai_identifier (pr_paper r) \<noteq> None) =
      (case get_paper_row ?b d of None \<Rightarrow> False | Some r \<Rightarrow> p_oai_identifier (pr_paper r) \<noteq> None)"
    using assms by (auto simp: row merged_row_def merge_paper_def landed_def Let_def split: option.split)
  have old: "j \<in> set (paper_arxiv_ids_in_version_family i d) \<Longrightarrow> j \<in> set (paper_arxiv_ids_in_version_family i ?d)" for j
    by (auto simp: family_iff row)
  have new: "harvested_base (p_arxiv_id p) d \<or> arxiv_version j = None"
    if j: "j \<in> set (paper_arxiv_ids_in_version_family i ?d)" "j \<notin> set (paper_arxiv_ids_in_version_family i d)"
      and h: "harvested_base i d" for j
  proof (rule ccontr)
    assume c: "\<not> (harvested_base (p_arxiv_id p) d \<or> arxiv_version j = None)"
    then have jp: "j = p_arxiv_id p" "get_paper_row j d = None"
      using j by (auto simp: family_iff row landing_id_def Let_def split: if_splits)
    have "j \<noteq> ?b" using h jp(2) by (auto simp: harvested_base_def)
    then have "arxiv_id_family_base j = ?b" using j(1) by (auto simp: family_iff Let_def)
    then have "harvested_base j d" using h c
      by (auto simp: harvested_base_def paper_arxiv_ids_in_version_family_def)
    with c jp(1) show False by simp
  qed
  have redirected: "j \<in> set (paper_arxiv_ids_in_version_family i d)"
    if "harvested_base (p_arxiv_id p) d" "j \<in> set (paper_arxiv_ids_in_version_family i ?d)" for j
    using that by (auto simp: family_iff row landing_id_def harvested_base_def split: if_splits option.splits)
  have "harvested_base i ?d \<Longrightarrow> harvested_base i d"
    using old unfolding harvested_base_def same by blast
  moreover have "harvested_base i d \<Longrightarrow> harvested_base i ?d"
    using new redirected unfolding harvested_base_def same by blast
  ultimately show ?thesis by blast
qed

lemma landed_stable:
  assumes "p_oai_identifier p = None"
  shows "landing_id (snd (upsert_paper t p d)) q = landing_id d q" "landed (snd (upsert_paper t p d)) q = landed d q"
  by (simp_all add: landing_id_def landed_def landing_stable [OF assms])

lemma merged_columns:
  assumes "p_oai_identifier q = None" "\<And>x. r = Some x \<Longrightarrow> p_arxiv_id (pr_paper x) = p_arxiv_id q"
  shows "fetched_columns (pr_paper (merged_row t q r)) = fetched_columns q"
proof -
  have "q\<lparr>p_arxiv_id := p_arxiv_id q\<rparr> = q" by simp
  with assms show ?thesis by (cases r) (simp_all add: merged_row_def merge_paper_def fetched_columns_def)
qed

lemma upsert_all_lands:
  assumes "\<forall>p\<in>set ps. p_oai_identifier p = None"
  shows "fst (upsert_all t ps d) = map (landing_id d) ps \<and>
    (\<forall>i. (\<exists>p\<in>set ps. landing_id d p = i) \<longrightarrow>
      (\<exists>r. get_paper_row i (snd (upsert_all t ps d)) = Some r \<and>
         fetched_columns (pr_paper r) = fetched_columns (landed d (last (filter (\<lambda>p. landing_id d p = i) ps))))) \<and>
    (\<forall>i. \<not> (\<exists>p\<in>set ps. landing_id d p = i) \<longrightarrow> get_paper_row i (snd (upsert_all t ps d)) = get_paper_row i d)"
  using assms
proof (induction ps arbitrary: d)
  case (Cons p ps)
  have p: "p_oai_identifier p = None" using Cons.prems by simp
  let ?d = "snd (upsert_paper t p d)"
  note st = landed_stable [OF p, of t d]
  note IH = Cons.IH [of ?d] 
  have ih: "fst (upsert_all t ps ?d) = map (landing_id d) ps"
    "\<And>i. (\<exists>p\<in>set ps. landing_id d p = i) \<Longrightarrow>
      (\<exists>r. get_paper_row i (snd (upsert_all t ps ?d)) = Some r \<and>
         fetched_columns (pr_paper r) = fetched_columns (landed d (last (filter (\<lambda>p. landing_id d p = i) ps))))"
    "\<And>i. \<not> (\<exists>p\<in>set ps. landing_id d p = i) \<Longrightarrow> get_paper_row i (snd (upsert_all t ps ?d)) = get_paper_row i ?d"
    using IH Cons.prems unfolding st by auto
  have here: "\<exists>r. get_paper_row (landing_id d p) ?d = Some r \<and> fetched_columns (pr_paper r) = fetched_columns (landed d p)"
  proof -
    have "p_oai_identifier (landed d p) = None" using p by (simp add: landed_def Let_def)
    moreover have "p_arxiv_id (pr_paper r) = p_arxiv_id (landed d p)" if "get_paper_row (landing_id d p) d = Some r" for r
      using that by (auto simp: get_paper_row_def dest: tbl_get_SomeD)
    ultimately show ?thesis by (simp add: upsert_lands(2) [OF p] merged_columns)
  qed
  show ?case
  proof (intro conjI allI impI)
    show "fst (upsert_all t (p # ps) d) = map (landing_id d) (p # ps)"
      by (simp add: upsert_all_cons ih(1) upsert_lands(1) [OF p])
  next
    fix i assume i: "\<exists>q\<in>set (p # ps). landing_id d q = i"
    show "\<exists>r. get_paper_row i (snd (upsert_all t (p # ps) d)) = Some r \<and>
        fetched_columns (pr_paper r) = fetched_columns (landed d (last (filter (\<lambda>q. landing_id d q = i) (p # ps))))"
    proof (cases "\<exists>q\<in>set ps. landing_id d q = i")
      case True
      then have "filter (\<lambda>q. landing_id d q = i) ps \<noteq> []" by (auto simp: filter_empty_conv)
      with ih(2) [OF True] show ?thesis by (simp add: upsert_all_cons)
    next
      case False
      then have e: "filter (\<lambda>q. landing_id d q = i) ps = []" "i = landing_id d p" using i by (auto simp: filter_empty_conv)
      with ih(3) [OF False] here show ?thesis by (simp add: upsert_all_cons)
    qed
  next
    fix i assume "\<not> (\<exists>q\<in>set (p # ps). landing_id d q = i)"
    then show "get_paper_row i (snd (upsert_all t (p # ps) d)) = get_paper_row i d"
      using ih(3) [of i] by (auto simp: upsert_all_cons upsert_lands(2) [OF p])
  qed
qed simp

text \<open>C18. A recorded fetch reads back, papers and all. Right after record_completed_cache_entry
  with papers of the legacy API (which carry no OAI identifier), the entry is readable: no integrity
  failure, no event, the count of distinct stored ids, and the new upstream requests on top of the
  running total. get_cached_papers then lists exactly the papers of the fetch in the order of the
  fetch, each under its own id, or under the bare id when the harvest has stored the paper there and
  no version of it, and with the content of the fetch in every column that the harvest does not own
  (those are its identifier, datestamp, sets and deletion mark). Of two papers that land under one
  id, the first gives the place and the last gives the content.\<close>

theorem completed_cache_roundtrip:
  assumes "\<forall>p\<in>set ps. p_oai_identifier p = None"
  shows "let d' = record_completed_cache_entry k rq ps tr cov st n rt ct d; ids = dedup (map (landing_id d) ps) in
    get_readable_completed_cache k d' =
      (Some (completed_entry k rq rt ct st (previous_upstream_total k d + n) (int (length ids)) tr cov), d')
    \<and> map p_arxiv_id (get_cached_papers k d') = ids
    \<and> map fetched_columns (get_cached_papers k d') =
        map (\<lambda>i. fetched_columns (landed d (last (filter (\<lambda>p. landing_id d p = i) ps)))) ids"
proof -
  let ?d' = "record_completed_cache_entry k rq ps tr cov st n rt ct d"
  note up = upsert_all_lands [OF assms, of ct d]
  have ids: "recorded_ids ps ct d = dedup (map (landing_id d) ps)" using up by (simp add: recorded_ids_def)
  have read: "get_readable_completed_cache k ?d' =
      (Some (completed_entry k rq rt ct st (previous_upstream_total k d + n)
         (int (length (recorded_ids ps ct d))) tr cov), ?d')"
    by (simp add: get_readable_completed_cache_def record_completed_entry record_completed_intact)
       (simp add: completed_entry_def)
  have papers: "get_cached_papers k ?d' =
      map pr_paper (List.map_filter (\<lambda>i. get_paper_row i (snd (upsert_all ct ps d))) (recorded_ids ps ct d))"
    by (simp add: get_cached_papers_def record_completed_matches record_completed_get_paper
        map_filter_ids [of "\<lambda>i. get_paper_row i (snd (upsert_all ct ps d))"])
  have rows: "map f (map pr_paper (List.map_filter (\<lambda>i. get_paper_row i e) is)) = map g is"
    if "\<forall>i\<in>set is. \<exists>r. get_paper_row i e = Some r \<and> f (pr_paper r) = g i" for f :: "arxiv_paper \<Rightarrow> 'x" and g e "is"
    using that by (induction "is") (auto simp: List.map_filter_def)
  have "map p_arxiv_id (get_cached_papers k ?d') = map id (recorded_ids ps ct d)"
    unfolding papers using recorded_present [of _ ps ct d]
    by (intro rows) (auto simp: get_paper_row_def dest: tbl_get_SomeD)
  moreover have "map fetched_columns (get_cached_papers k ?d') =
      map (\<lambda>i. fetched_columns (landed d (last (filter (\<lambda>p. landing_id d p = i) ps)))) (recorded_ids ps ct d)"
    unfolding papers using up by (intro rows) (auto simp: recorded_ids_def)
  ultimately show ?thesis using read by (simp add: Let_def ids)
qed

subsection \<open>A store filled from the legacy API only\<close>

definition legacy_paper :: "arxiv_paper \<Rightarrow> bool" where
  "legacy_paper p \<longleftrightarrow> p_oai_identifier p = None \<and> p_oai_datestamp p = None \<and> p_oai_set_specs p = []
     \<and> \<not> p_deleted p"

definition legacy_store :: "db \<Rightarrow> bool" where
  "legacy_store d \<longleftrightarrow> (\<forall>i r. get_paper_row i d = Some r \<longrightarrow> legacy_paper (pr_paper r))"

lemma legacy_no_redirect:
  assumes "legacy_store d"
  shows "legacy_paper_for_existing_oai_base_row d p = p"
  using assms
  by (auto simp: legacy_paper_for_existing_oai_base_row_def Let_def legacy_store_def legacy_paper_def
      split: option.split)

lemma legacy_merge:
  assumes "legacy_paper old" "legacy_paper p" "p_arxiv_id old = p_arxiv_id p"
  shows "merge_paper old p = p"
  using assms by (simp add: merge_paper_def legacy_paper_def)

lemma legacy_upsert:
  assumes "legacy_store d" "legacy_paper p"
  shows "fst (upsert_paper t p d) = p_arxiv_id p"
    and "\<exists>r. get_paper_row (p_arxiv_id p) (snd (upsert_paper t p d)) = Some r \<and> pr_paper r = p"
    and "j \<noteq> p_arxiv_id p \<Longrightarrow> get_paper_row j (snd (upsert_paper t p d)) = get_paper_row j d"
    and "legacy_store (snd (upsert_paper t p d))"
proof -
  obtain i d' where u: "upsert_paper t p d = (i, d')" by (cases "upsert_paper t p d")
  with legacy_no_redirect [OF assms(1)] have i: "i = p_arxiv_id p"
    by (auto simp: upsert_paper_def Let_def)
  have row: "pr_paper (merged_row t p (get_paper_row i d)) = p"
  proof (cases "get_paper_row i d")
    case (Some r)
    then have "p_arxiv_id (pr_paper r) = p_arxiv_id p"
      using i by (auto simp: get_paper_row_def dest: tbl_get_SomeD)
    with Some assms show ?thesis by (auto simp: merged_row_def legacy_store_def legacy_merge)
  qed (simp add: merged_row_def)
  show "fst (upsert_paper t p d) = p_arxiv_id p" by (simp add: u i)
  show "\<exists>r. get_paper_row (p_arxiv_id p) (snd (upsert_paper t p d)) = Some r \<and> pr_paper r = p"
    using row i by (simp add: u upsert_paper_row [OF u] legacy_no_redirect [OF assms(1)])
  show "j \<noteq> p_arxiv_id p \<Longrightarrow> get_paper_row j (snd (upsert_paper t p d)) = get_paper_row j d"
    using i by (simp add: u upsert_paper_row [OF u])
  show "legacy_store (snd (upsert_paper t p d))"
    using row assms
    by (auto simp: u legacy_store_def upsert_paper_row [OF u] legacy_no_redirect [OF assms(1)] split: if_splits)
qed

lemma legacy_upsert_all:
  assumes "legacy_store d" "\<forall>p\<in>set ps. legacy_paper p" "distinct (map p_arxiv_id ps)"
  shows "fst (upsert_all t ps d) = map p_arxiv_id ps \<and>
    (\<forall>p\<in>set ps. \<exists>r. get_paper_row (p_arxiv_id p) (snd (upsert_all t ps d)) = Some r \<and> pr_paper r = p) \<and>
    (\<forall>j. j \<notin> p_arxiv_id ` set ps \<longrightarrow> get_paper_row j (snd (upsert_all t ps d)) = get_paper_row j d)"
  using assms
proof (induction ps arbitrary: d)
  case (Cons p ps)
  from Cons.prems have p: "legacy_paper p" by simp
  note up = legacy_upsert [OF Cons.prems(1) p, where t = t]
  from Cons.prems(2,3) have r: "\<forall>p\<in>set ps. legacy_paper p" "distinct (map p_arxiv_id ps)"
    "p_arxiv_id p \<notin> p_arxiv_id ` set ps" by simp_all
  from Cons.IH [OF up(4) r(1,2)] up(1-3) r(3) show ?case by (simp add: upsert_all_cons)
qed simp

text \<open>In a store that holds legacy rows only, a fetch of
  legacy papers with distinct ids is read back from the cache as exactly the list of papers the
  fetch returned, in order, whatever rows of these papers were stored before.\<close>

theorem legacy_fetch_reads_back_exactly:
  assumes "legacy_store d" "\<forall>p\<in>set ps. legacy_paper p" "distinct (map p_arxiv_id ps)"
  shows "get_cached_papers k (record_completed_cache_entry k rq ps tr cov st n rt ct d) = ps"
proof -
  note up = conjunct1 [OF legacy_upsert_all [OF assms, of ct]]
    conjunct1 [OF conjunct2 [OF legacy_upsert_all [OF assms, of ct]]]
  have "List.map_filter (\<lambda>i. get_paper_row i e) (map p_arxiv_id qs) =
      map (\<lambda>p. the (get_paper_row (p_arxiv_id p) e)) qs \<and>
      map (\<lambda>p. pr_paper (the (get_paper_row (p_arxiv_id p) e))) qs = qs"
    if "\<forall>p\<in>set qs. \<exists>r. get_paper_row (p_arxiv_id p) e = Some r \<and> pr_paper r = p" for qs e
    using that by (induction qs) (auto simp: List.map_filter_def)
  from this [OF up(2)] show ?thesis
    by (simp add: get_cached_papers_def record_completed_matches record_completed_get_paper recorded_ids_def up(1)
        dedup_distinct assms(3) map_filter_ids [of "\<lambda>i. get_paper_row i (snd (upsert_all ct ps d))"] comp_def)
qed

subsection \<open>Other entries, failures and OAI rows\<close>

lemma length_filter_all: "length (filter P xs) = length xs \<Longrightarrow> x \<in> set xs \<Longrightarrow> P x"
  using length_filter_less [of x xs P] by auto

lemma integrity_mono:
  assumes "completed_cache_integrity_failure j entry d = None"
    and "matches_of j d' = matches_of j d"
    and "\<And>i. get_paper_row i d \<noteq> None \<Longrightarrow> get_paper_row i d' \<noteq> None"
  shows "completed_cache_integrity_failure j entry d' = None"
proof -
  let ?ms = "matches_of j d"
  let ?in = "\<lambda>e m. get_paper_row (m_arxiv_id m) e \<noteq> None"
  have c: "int (length ?ms) = c_result_count entry" "length (filter (?in d) ?ms) = length ?ms"
    "sort (map m_sort_position ?ms) = map int [0..<nat (c_result_count entry)]"
    using assms(1) by (auto simp: completed_cache_integrity_failure_def Let_def split: if_splits)
  have "\<forall>m\<in>set ?ms. ?in d' m"
    using length_filter_all [OF c(2)] assms(3) by blast
  then have "filter (?in d') ?ms = ?ms"
    by (rule filter_True)
  with c show ?thesis
    by (simp add: completed_cache_integrity_failure_def Let_def assms(2) del: not_None_eq)
qed

lemma readable_iff:
  "fst (get_readable_completed_cache j d) = Some e \<longleftrightarrow>
    get_cache_entry j d = Some e \<and> c_status e = ''completed'' \<and> completed_cache_integrity_failure j e d = None"
  by (auto simp: get_readable_completed_cache_def split: option.splits)

text \<open>Recording a fetch for one key leaves every other
  readable entry readable, with the same entry and the same list of papers by id: papers are
  shared between entries and no upsert removes one.\<close>

theorem recording_keeps_other_entries_readable:
  assumes "fst (get_readable_completed_cache j d) = Some e" and "j \<noteq> k"
  shows "fst (get_readable_completed_cache j (record_completed_cache_entry k rq ps tr cov st n rt ct d)) = Some e
    \<and> map p_arxiv_id (get_cached_papers j (record_completed_cache_entry k rq ps tr cov st n rt ct d)) =
      map p_arxiv_id (get_cached_papers j d)"
proof
  let ?d' = "record_completed_cache_entry k rq ps tr cov st n rt ct d"
  have ok: "get_cache_entry j d = Some e" "c_status e = ''completed''"
    "completed_cache_integrity_failure j e d = None"
    using assms(1) by (simp_all add: readable_iff)
  have keeps: "get_paper_row i ?d' \<noteq> None" if "get_paper_row i d \<noteq> None" for i
    using upsert_all_keeps [OF that, of ct ps] by (simp add: record_completed_get_paper)
  from integrity_mono [OF ok(3) _ keeps] ok assms(2)
  show "fst (get_readable_completed_cache j ?d') = Some e"
    by (simp add: readable_iff record_completed_entry record_completed_matches)
  have ids: "map pr_id (List.map_filter (\<lambda>m. get_paper_row (m_arxiv_id m) a) ms) =
      map m_arxiv_id (filter (\<lambda>m. get_paper_row (m_arxiv_id m) a \<noteq> None) ms)" for a ms
    by (induction ms) (auto simp: List.map_filter_def get_paper_row_def dest: tbl_get_SomeD)
  let ?ms = "matches_of j d"
  have "length (filter (\<lambda>m. get_paper_row (m_arxiv_id m) d \<noteq> None) ?ms) = length ?ms"
    using ok(3) by (auto simp: completed_cache_integrity_failure_def Let_def split: if_splits)
  then have all: "\<forall>m\<in>set (sort_key m_sort_position ?ms). get_paper_row (m_arxiv_id m) d \<noteq> None"
    using length_filter_all by fastforce
  then have all': "\<forall>m\<in>set (sort_key m_sort_position ?ms). get_paper_row (m_arxiv_id m) ?d' \<noteq> None"
    using keeps by blast
  show "map p_arxiv_id (get_cached_papers j ?d') = map p_arxiv_id (get_cached_papers j d)"
    using ids [of ?d' "sort_key m_sort_position ?ms"] ids [of d "sort_key m_sort_position ?ms"]
      filter_True [OF all] filter_True [OF all'] assms(2)
    by (simp add: get_cached_papers_def record_completed_matches comp_def del: not_None_eq)
qed

text \<open>Recording a legacy fetch never erases what an OAI harvest
  knows of a paper: every stored row keeps its OAI identifier, datestamp and sets, its deletion
  mark and its first_seen_at.\<close>

theorem legacy_fetch_keeps_oai_identity:
  assumes "\<forall>p\<in>set ps. p_oai_identifier p = None" and "get_paper_row j d = Some r"
  shows "map_option oai_identity
      (get_paper_row j (record_completed_cache_entry k rq ps tr cov st n rt ct d)) = Some (oai_identity r)"
  using upsert_all_identity [OF assms, of ct] by (auto simp: record_completed_get_paper)

lemma failure_get_entry:
  assumes "0 \<le> n"
  shows "get_cache_entry j (snd (record_cache_failure k rq cat msg st cd us n now d)) =
    (if j = k then Some (case get_cache_entry k d of
        None \<Rightarrow> \<lparr>c_cache_key = k, c_request = rq, c_api_family = req_api_family rq, c_status = st,
          c_requested_at = Some now, c_completed_at = None, c_refresh_after = None, c_cooldown_until = cd,
          c_upstream_status = us, c_upstream_requests_total = n, c_result_count = 0, c_total_results = None,
          c_coverage_status = UNKNOWN, c_error_category = Some cat, c_error_message = Some (take 1000 msg)\<rparr>
      | Some c \<Rightarrow> c\<lparr>c_request := rq, c_api_family := req_api_family rq,
          c_status := (if c_status c = ''completed'' then ''completed'' else st), c_requested_at := Some now,
          c_cooldown_until := cd, c_upstream_status := us,
          c_upstream_requests_total := c_upstream_requests_total c + n, c_error_category := Some cat,
          c_error_message := Some (take 1000 msg)\<rparr>)
     else get_cache_entry j d)"
  using assms
  by (auto simp: record_cache_failure_def Let_def get_cache_entry_def tbl_get_upsert split: option.split)

lemma record_failure_other [simp]:
  "papers (snd (record_cache_failure k rq cat msg st cd us n now d)) = papers d"
  "cache_matches (snd (record_cache_failure k rq cat msg st cd us n now d)) = cache_matches d"
  "queue_items (snd (record_cache_failure k rq cat msg st cd us n now d)) = queue_items d"
  "budgets (snd (record_cache_failure k rq cat msg st cd us n now d)) = budgets d"
  "memberships (snd (record_cache_failure k rq cat msg st cd us n now d)) = memberships d"
  "rate_states (snd (record_cache_failure k rq cat msg st cd us n now d)) = rate_states d"
  "leases (snd (record_cache_failure k rq cat msg st cd us n now d)) = leases d"
  "reservations (snd (record_cache_failure k rq cat msg st cd us n now d)) = reservations d"
  "worker_states (snd (record_cache_failure k rq cat msg st cd us n now d)) = worker_states d"
  by (simp_all add: record_cache_failure_def Let_def)

text \<open>C19. A failed fetch never takes a completed result away: after
  record_cache_failure the entry is still readable with its completion and refresh times, result
  counts and papers, only its last request, its running total of upstream requests and its error
  are updated.\<close>

theorem failure_keeps_completed_cache:
  assumes "fst (get_readable_completed_cache k d) = Some e" and "0 \<le> n"
  shows "let d' = snd (record_cache_failure k rq cat msg st cd us n now d) in
     fst (get_readable_completed_cache k d') = Some (e\<lparr>c_request := rq, c_api_family := req_api_family rq,
          c_requested_at := Some now, c_cooldown_until := cd, c_upstream_status := us,
          c_upstream_requests_total := c_upstream_requests_total e + n, c_error_category := Some cat,
          c_error_message := Some (take 1000 msg)\<rparr>)
     \<and> get_cached_papers k d' = get_cached_papers k d"
proof -
  let ?d' = "snd (record_cache_failure k rq cat msg st cd us n now d)"
  have ok: "get_cache_entry k d = Some e" "c_status e = ''completed''"
    "completed_cache_integrity_failure k e d = None"
    using assms(1) by (simp_all add: readable_iff)
  have same: "matches_of k ?d' = matches_of k d" "get_paper_row i ?d' = get_paper_row i d" for i
    by (simp_all add: matches_of_def get_paper_row_def)
  have intact: "completed_cache_integrity_failure k e' ?d' = completed_cache_integrity_failure k e d"
    if "c_result_count e' = c_result_count e" for e'
    using that by (simp add: completed_cache_integrity_failure_def same Let_def)
  show ?thesis
    using ok(1,2) intact ok(3) assms(2)
    by (simp add: Let_def readable_iff failure_get_entry get_cached_papers_def same)
qed

text \<open>Before the first success there is nothing to serve: a
  failure on a key without a completed entry stores the given status, and the key stays
  unreadable unless that status is itself completed.\<close>

theorem failed_entry_is_never_readable:
  assumes "0 \<le> n" and "\<forall>e. get_cache_entry k d = Some e \<longrightarrow> c_status e \<noteq> ''completed''"
    and "st \<noteq> ''completed''"
  shows "map_option c_status (get_cache_entry k (snd (record_cache_failure k rq cat msg st cd us n now d))) = Some st
    \<and> fst (get_readable_completed_cache k (snd (record_cache_failure k rq cat msg st cd us n now d))) = None"
proof -
  have st: "map_option c_status (get_cache_entry k (snd (record_cache_failure k rq cat msg st cd us n now d))) = Some st"
    using assms by (auto simp: failure_get_entry split: option.split)
  then have "fst (get_readable_completed_cache k (snd (record_cache_failure k rq cat msg st cd us n now d))) \<noteq> Some e" for e
    using assms(3) by (auto simp: readable_iff)
  then show ?thesis using st by (metis option.exhaust)
qed

lemma schema_ok_record_completed [table_intros]:
  assumes "schema_ok d"
  shows "schema_ok (record_completed_cache_entry k rq ps tr cov st n rt ct d)"
proof -
  let ?d1 = "snd (upsert_all ct ps d)"
  have ok: "schema_ok ?d1" by (rule schema_ok_upsert_all [OF assms])
  let ?ids = "recorded_ids ps ct d"
  have rows: "distinct (map (\<lambda>m. (m_cache_key m, m_arxiv_id m)) (match_rows k ?ids ct))"
  proof -
    have "distinct (map m_arxiv_id (match_rows k ?ids ct))" by (simp add: recorded_ids_def)
    then have "distinct (match_rows k ?ids ct) \<and> inj_on m_arxiv_id (set (match_rows k ?ids ct))"
      by (simp only: distinct_map)
    then show ?thesis by (simp add: distinct_map inj_on_def)
  qed
  have keyk: "\<forall>m\<in>set (match_rows k ?ids ct). m_cache_key m = k"
    by (auto simp: match_rows_def)
  have "keyed (\<lambda>m. (m_cache_key m, m_arxiv_id m))
      (tbl_delete (\<lambda>m. m_cache_key m = k) (cache_matches d) @ match_rows k ?ids ct)"
    using keyed_delete [OF schema_okD(3) [OF assms], where P = "\<lambda>m. m_cache_key m = k"] rows keyk
    by (auto simp: keyed_def set_tbl_delete)
  moreover have "keyed c_cache_key (cache_entries (record_completed_cache_entry k rq ps tr cov st n rt ct d))"
    using schema_okD(2) [OF assms]
    by (simp add: record_completed_cache_entry_def split_beta Let_def keyed_upsert)
  moreover have "cache_matches (record_completed_cache_entry k rq ps tr cov st n rt ct d) =
      tbl_delete (\<lambda>m. m_cache_key m = k) (cache_matches d) @ match_rows k ?ids ct"
    by (simp add: record_completed_cache_entry_def split_beta Let_def recorded_ids_def)
  ultimately show ?thesis
    using ok by (simp add: schema_ok_def get_queue_row_def get_budget_def)
qed

lemma schema_ok_record_failure [table_intros]:
  assumes "schema_ok d"
  shows "schema_ok (snd (record_cache_failure k rq cat msg st cd us n now d))"
proof -
  have "keyed c_cache_key (cache_entries (snd (record_cache_failure k rq cat msg st cd us n now d)))"
    using schema_okD(2) [OF assms] by (simp add: record_cache_failure_def Let_def keyed_upsert)
  then show ?thesis using assms by (simp add: schema_ok_def get_queue_row_def get_budget_def)
qed

subsection \<open>Finding a paper again\<close>

lemma like_versions_base: "version_match (fst (chomp s)) = Some (base, ds) \<Longrightarrow> like_versions_of base s"
proof -
  assume m: "version_match (fst (chomp s)) = Some (base, ds)"
  have "s = fst (chomp s) @ snd (chomp s)"
  proof (cases "s \<noteq> [] \<and> last s = char_of (10::nat)")
    case True
    with append_butlast_last_id [of s] show ?thesis by (simp add: chomp_def)
  next
    case False
    then have "chomp s = (s, [])" unfolding chomp_def by (rule if_not_P)
    then show ?thesis by simp
  qed
  then obtain nl where "s = fst (chomp s) @ nl" by blast
  with version_match_Some [OF m] have "s = (base @ ''v'') @ ds @ nl" by (metis append.assoc append_Cons append_Nil)
  then show ?thesis by (simp add: like_versions_of_def startswith_def lower_def)
qed

lemma stripped_no_newline:
  assumes "strip s = s" shows "chomp s = (s, [])"
proof (cases "s = []")
  case False
  with assms strip_last [of s] have "\<not> is_space (last s)" by simp
  moreover have "is_space (char_of (10::nat))" by code_simp
  ultimately show ?thesis by (auto simp: chomp_def)
qed (simp add: chomp_def)

text \<open>The paper that upsert_papers just stored is found under the id it
  was stored with, even when a versioned legacy paper was merged into the OAI row of its family:
  get_paper answers the row the upsert wrote, with the new title.\<close>

theorem stored_paper_is_found:
  assumes "normalize_arxiv_id (p_arxiv_id p) = p_arxiv_id p"
    and "upsert_paper t p d = (i, d')"
  shows "\<exists>q. get_paper (p_arxiv_id p) d' = Some q \<and> p_arxiv_id q = i \<and> p_title q = p_title p \<and>
    (i = p_arxiv_id p \<or> i = arxiv_id_family_base (p_arxiv_id p))"
proof -
  let ?q = "legacy_paper_for_existing_oai_base_row d p" and ?id = "p_arxiv_id p"
  let ?r = "merged_row t ?q (get_paper_row i d)"
  note rows = upsert_paper_row [OF assms(2)]
  have i: "i = p_arxiv_id ?q" using assms(2) by (auto simp: upsert_paper_def Let_def)
  have title: "p_title ?q = p_title p"
    by (simp add: legacy_paper_for_existing_oai_base_row_def Let_def split: option.split)
  have r: "pr_id ?r = i" "p_title (pr_paper ?r) = p_title p"
    using i title by (auto simp: merged_row_def merge_paper_def get_paper_row_def split: option.split dest: tbl_get_SomeD)
  show ?thesis
  proof (cases "i = ?id")
    case True
    then have "get_paper ?id d' = Some (pr_paper ?r)" by (simp add: get_paper_def lookup_paper_row_def rows)
    with r True show ?thesis by simp
  next
    case False
    let ?base = "arxiv_id_family_base ?id"
    from False i have red: "arxiv_version ?id \<noteq> None"
      "\<not> (\<exists>j\<in>set (paper_arxiv_ids_in_version_family ?id d). arxiv_version j \<noteq> None)"
      "i = ?base" "\<exists>row. get_paper_row ?base d = Some row \<and> p_oai_identifier (pr_paper row) \<noteq> None"
      by (auto simp: legacy_paper_for_existing_oai_base_row_def Let_def split: if_splits option.splits)
    have "strip ?id = ?id" using assms(1) by (metis normalize_arxiv_id_def strip_idem)
    then have nl: "chomp ?id = (?id, [])" by (rule stripped_no_newline)
    with red(1) obtain base ds where m: "version_match ?id = Some (base, ds)"
      by (auto simp: arxiv_version_def)
    with nl assms(1) have b: "?base = base" by (simp add: arxiv_id_family_base_def strip_version_def)
    have "get_paper_row ?id d = None"
    proof (rule ccontr)
      assume "get_paper_row ?id d \<noteq> None"
      then obtain y where "get_paper_row ?id d = Some y" by blast
      then have "y \<in> set (papers d)" "pr_id y = ?id"
        using tbl_get_SomeD [of pr_id ?id "papers d" y] by (simp_all add: get_paper_row_def)
      then have "?id \<in> set (paper_ids d)" by (simp add: paper_ids_def rev_image_eqI)
      moreover have "like_versions_of ?base ?id" using like_versions_base [of ?id base ds] m nl b by simp
      ultimately have "?id \<in> set (paper_arxiv_ids_in_version_family ?id d)"
        by (auto simp: paper_arxiv_ids_in_version_family_def Let_def)
      with red(1,2) show False by blast
    qed
    with False have none: "get_paper_row ?id d' = None" by (simp add: rows)
    have "p_oai_identifier (pr_paper ?r) \<noteq> None"
      using red(3,4) by (auto simp: merged_row_def merge_paper_def)
    then have "oai_base_paper_row_for_versioned_read ?id d' = Some ?r"
      using red(1,3) False by (simp add: oai_base_paper_row_for_versioned_read_def rows)
    with none have "get_paper ?id d' = Some (pr_paper ?r)" by (simp add: get_paper_def lookup_paper_row_def)
    with r red(3) show ?thesis by simp
  qed
qed

subsection \<open>Concrete papers\<close>

definition sample_paper :: "string \<Rightarrow> arxiv_paper" where
  "sample_paper i = \<lparr>p_arxiv_id = i, p_version = None, p_canonical_url = abs_url i, p_title = ''T'',
     p_abstract = None, p_authors = [], p_primary_category = None, p_categories = [], p_published_at = None,
     p_updated_at = None, p_comment = None, p_journal_ref = None, p_doi = None, p_raw_atom = JObj [],
     p_authors_detail = [], p_license = None, p_oai_identifier = None, p_oai_datestamp = None,
     p_oai_set_specs = [], p_links = [], p_versions = [], p_withdrawn = False, p_deleted = False,
     p_raw_metadata = JObj []\<rparr>"

text \<open>Two versions of a harvested paper land on its row; the second gives the content.\<close>

definition harvested_store :: db where
  "harvested_store = (empty_db (\<lambda>_. 0))\<lparr>papers := [\<lparr>pr_paper = (sample_paper ''2401.00001'')\<lparr>p_oai_identifier := Some ''oai:x'', p_title := ''old''\<rparr>,
     pr_first_seen_at = 1, pr_last_seen_at = 1\<rparr>]\<rparr>"

definition fetched_pair :: "arxiv_paper list" where
  "fetched_pair = [sample_paper ''2401.00001v1'', sample_paper ''2401.00002'', (sample_paper ''2401.00001v2'')\<lparr>p_title := ''new''\<rparr>]"

lemma harvested_pair:
  "harvested_base ''2401.00001v1'' harvested_store" "\<not> harvested_base ''2401.00002'' harvested_store"
  "harvested_base ''2401.00001v2'' harvested_store"
  by code_simp+

lemma pair_bases:
  "arxiv_id_family_base ''2401.00001v1'' = ''2401.00001''" "arxiv_id_family_base ''2401.00001v2'' = ''2401.00001''"
  by code_simp+

lemma fetched_pair_ids: "dedup (map (landing_id harvested_store) fetched_pair) = [''2401.00001'', ''2401.00002'']"
  "map (\<lambda>i. p_title (landed harvested_store (last (filter (\<lambda>p. landing_id harvested_store p = i) fetched_pair))))
     [''2401.00001'', ''2401.00002''] = [''new'', ''T'']"
  by (simp_all add: fetched_pair_def sample_paper_def landing_id_def landed_def Let_def harvested_pair pair_bases)

theorem completed_cache_roundtrip_witness:
  "let d' = record_completed_cache_entry ''k'' sample_request fetched_pair None SLICE 200 1 0 5 harvested_store
   in fst (get_readable_completed_cache ''k'' d') \<noteq> None \<and>
     map p_arxiv_id (get_cached_papers ''k'' d') = [''2401.00001'', ''2401.00002''] \<and>
     map p_title (get_cached_papers ''k'' d') = [''new'', ''T'']"
proof -
  have "\<forall>p\<in>set fetched_pair. p_oai_identifier p = None" by (simp add: fetched_pair_def sample_paper_def)
  note C = completed_cache_roundtrip [OF this, of "''k''" sample_request None SLICE 200 1 0 5 harvested_store,
    unfolded Let_def fetched_pair_ids]
  let ?ps = "get_cached_papers ''k'' (record_completed_cache_entry ''k'' sample_request fetched_pair None SLICE 200 1 0 5 harvested_store)"
  have title: "p_title (fetched_columns p) = p_title p" for p by (simp add: fetched_columns_def)
  have "map p_title ?ps = map p_title (map fetched_columns ?ps)" by (simp add: title comp_def)
  also have "\<dots> = [''new'', ''T'']" using C fetched_pair_ids(2) by (simp add: title comp_def)
  finally show ?thesis using C by (simp add: Let_def)
qed

definition cached_store :: db where
  "cached_store = record_completed_cache_entry ''k'' sample_request [sample_paper ''b'', sample_paper ''a'']
     (Some 2) SLICE 200 1 0 5 (empty_db (\<lambda>_. 0))"

definition oai_row :: paper_row where
  "oai_row = \<lparr>pr_paper = (sample_paper ''2401.00001'')\<lparr>p_oai_identifier := Some ''oai:1'', p_deleted := True\<rparr>,
     pr_first_seen_at = 1, pr_last_seen_at = 1\<rparr>"

definition oai_store :: db where
  "oai_store = (empty_db (\<lambda>_. 0))\<lparr>papers := [oai_row]\<rparr>"

definition sample_entry_k :: cache_entry where
  "sample_entry_k = completed_entry ''k'' sample_request 0 5 200 1 2 (Some 2) SLICE"

lemma cached_store_readable: "fst (get_readable_completed_cache ''k'' cached_store) = Some sample_entry_k"
  by code_simp

text \<open>Witnesses: a two-paper entry, and a store whose only row came from OAI.\<close>

theorem legacy_fetch_reads_back_exactly_witness:
  "get_cached_papers ''k'' cached_store = [sample_paper ''b'', sample_paper ''a'']"
proof -
  have "legacy_store (empty_db (\<lambda>_. 0))" by (simp add: legacy_store_def get_paper_row_def empty_db_def)
  moreover have "\<forall>p\<in>set [sample_paper ''b'', sample_paper ''a'']. legacy_paper p"
    "distinct (map p_arxiv_id [sample_paper ''b'', sample_paper ''a''])"
    by (simp_all add: legacy_paper_def sample_paper_def)
  ultimately show ?thesis
    unfolding cached_store_def by (rule legacy_fetch_reads_back_exactly)
qed

theorem recording_keeps_other_entries_readable_witness:
  "fst (get_readable_completed_cache ''k'' (record_completed_cache_entry ''other'' sample_request
      [sample_paper ''a'', sample_paper ''c''] None SLICE 200 1 6 7 cached_store)) = Some sample_entry_k"
  using recording_keeps_other_entries_readable [OF cached_store_readable, of "''other''" sample_request
      "[sample_paper ''a'', sample_paper ''c'']" None SLICE 200 1 6 7]
  by simp

theorem legacy_fetch_keeps_oai_identity_witness:
  "map_option oai_identity (get_paper_row ''2401.00001'' (record_completed_cache_entry ''k'' sample_request
      [sample_paper ''2401.00001v2''] None SLICE 200 1 6 7 oai_store)) = Some (Some ''oai:1'', None, [], True, 1)"
proof -
  have "get_paper_row ''2401.00001'' oai_store = Some oai_row"
    "oai_identity oai_row = (Some ''oai:1'', None, [], True, 1)"
    by (simp_all add: oai_store_def oai_row_def sample_paper_def get_paper_row_def oai_identity_def tbl_get_Cons)
  with legacy_fetch_keeps_oai_identity [OF _ this(1), of "[sample_paper ''2401.00001v2'']" "''k''" sample_request
      None SLICE 200 1 6 7]
  show ?thesis by (simp add: sample_paper_def)
qed

theorem failure_keeps_completed_cache_witness:
  "get_cached_papers ''k'' (snd (record_cache_failure ''k'' sample_request ''http_error'' ''boom'' ''failed''
      None (Some 500) 1 9 cached_store)) = get_cached_papers ''k'' cached_store \<and>
   map_option c_result_count (fst (get_readable_completed_cache ''k'' (snd (record_cache_failure ''k''
      sample_request ''http_error'' ''boom'' ''failed'' None (Some 500) 1 9 cached_store)))) = Some 2"
proof -
  have "c_result_count sample_entry_k = 2" by (simp add: sample_entry_k_def completed_entry_def)
  with failure_keeps_completed_cache [OF cached_store_readable, of 1 sample_request "''http_error''" "''boom''"
      "''failed''" None "Some 500" 9]
  show ?thesis by (simp add: Let_def)
qed

theorem failed_entry_is_never_readable_witness:
  "fst (get_readable_completed_cache ''k'' (snd (record_cache_failure ''k'' sample_request ''http_error'' ''boom''
      ''failed'' None None 1 9 (empty_db (\<lambda>_. 0))))) = None"
  using failed_entry_is_never_readable [of 1 "''k''" "empty_db (\<lambda>_. 0)" "''failed''"]
  by (simp add: get_cache_entry_def empty_db_def)

theorem stored_paper_is_found_witness:
  "map_option p_arxiv_id (get_paper ''2401.00001v2'' (snd (upsert_paper 9 (sample_paper ''2401.00001v2'') oai_store)))
     = Some ''2401.00001''"
proof -
  let ?p = "sample_paper ''2401.00001v2''"
  have f: "fst (upsert_paper 9 ?p oai_store) = ''2401.00001''" by code_simp
  have u: "upsert_paper 9 ?p oai_store = (''2401.00001'', snd (upsert_paper 9 ?p oai_store))"
    by (rule prod_eqI) (simp_all only: f fst_conv snd_conv)
  have n: "normalize_arxiv_id (p_arxiv_id ?p) = p_arxiv_id ?p" by code_simp
  have "p_arxiv_id ?p = ''2401.00001v2''" by (simp add: sample_paper_def)
  with stored_paper_is_found [OF n u] show ?thesis by auto
qed

end
