(* ===== verification/Huldra_Retention.thy ===== *)
theory Huldra_Retention
  imports Huldra_Cache
begin

text \<open>
  Retention (huldra/db.py: gc, _RETENTION_SYNC_JOB_FILTER, _retention_eligible_counts,
  _retention_result). One transaction counts and deletes old events, finished queue items,
  finished sync jobs with their pages, and budgets nothing refers to; the dry run only counts.
  SQL comparisons with NULL are unknown: each CASE .. END below is an optional time.
\<close>

subsection \<open>What is old enough\<close>

definition terminal_sync_job_statuses :: "string list" where
  "terminal_sync_job_statuses = [''completed'', ''failed'', ''rate_limited'', ''cache_unreadable'',
     ''skipped'', ''partial'', ''overflow'']"

definition handoff_sync_job_statuses :: "string list" where
  "handoff_sync_job_statuses = [''queued'', ''delayed'', ''claimed'']"

definition before_cutoff :: "datetime \<Rightarrow> datetime option \<Rightarrow> bool" where
  "before_cutoff cutoff t = (case t of None \<Rightarrow> False | Some x \<Rightarrow> x < cutoff)"

definition cache_terminal :: "cache_entry \<Rightarrow> bool" where
  "cache_terminal c \<longleftrightarrow> c_status c \<in> {''completed'', ''failed''}"

definition cache_finish_time :: "cache_entry \<Rightarrow> datetime option" where
  "cache_finish_time c =
     (if c_status c = ''completed'' then c_completed_at c
      else if c_status c = ''failed'' then c_requested_at c else None)"

definition queue_terminal :: "queue_row \<Rightarrow> bool" where
  "queue_terminal r \<longleftrightarrow> q_status r \<in> {COMPLETED, FAILED}"

definition queue_finish_time :: "queue_row \<Rightarrow> datetime option" where
  "queue_finish_time r = (case q_status r of
      COMPLETED \<Rightarrow> q_completed_at r | FAILED \<Rightarrow> Some (q_updated_at r) | _ \<Rightarrow> None)"

text \<open>COALESCE(CASE .. END \<ge> cutoff, 1): an unknown time counts as not expired.\<close>

definition non_expired :: "datetime \<Rightarrow> datetime option \<Rightarrow> bool" where
  "non_expired cutoff t = (case t of None \<Rightarrow> True | Some x \<Rightarrow> cutoff \<le> x)"

text \<open>The body of the inner NOT EXISTS: this page still has work, or has no finished work.\<close>

definition page_blocks :: "datetime \<Rightarrow> db \<Rightarrow> sync_page_row \<Rightarrow> bool" where
  "page_blocks cutoff d p \<longleftrightarrow>
     (\<exists>c\<in>set (cache_entries d). c_cache_key c = sp_cache_key p \<and>
        (\<not> cache_terminal c \<or> non_expired cutoff (cache_finish_time c))) \<or>
     (\<exists>r\<in>set (queue_items d). q_cache_key r = sp_cache_key p \<and>
        (\<not> queue_terminal r \<or> non_expired cutoff (queue_finish_time r))) \<or>
     (\<not> (\<exists>c\<in>set (cache_entries d). c_cache_key c = sp_cache_key p \<and> cache_terminal c \<and>
            before_cutoff cutoff (cache_finish_time c)) \<and>
      \<not> (\<exists>r\<in>set (queue_items d). q_cache_key r = sp_cache_key p \<and> queue_terminal r \<and>
            before_cutoff cutoff (queue_finish_time r)))"

definition pages_of_job :: "string \<Rightarrow> db \<Rightarrow> sync_page_row list" where
  "pages_of_job job_id d = filter (\<lambda>p. sp_sync_job_id p = job_id) (sync_pages d)"

definition retention_sync_job :: "datetime \<Rightarrow> db \<Rightarrow> sync_job_row \<Rightarrow> bool" where
  "retention_sync_job cutoff d j \<longleftrightarrow>
     before_cutoff cutoff (sj_completed_at j) \<and>
     (sj_status j \<in> set terminal_sync_job_statuses \<or>
      sj_status j \<in> set handoff_sync_job_statuses \<and>
        pages_of_job (sj_sync_job_id j) d \<noteq> [] \<and>
        \<not> (\<exists>p\<in>set (pages_of_job (sj_sync_job_id j) d). page_blocks cutoff d p))"

definition retention_queue_item :: "datetime \<Rightarrow> queue_row \<Rightarrow> bool" where
  "retention_queue_item cutoff r \<longleftrightarrow>
     q_status r = COMPLETED \<and> before_cutoff cutoff (q_completed_at r) \<or>
     q_status r = FAILED \<and> q_updated_at r < cutoff"

definition retention_event :: "datetime \<Rightarrow> event_row \<Rightarrow> bool" where
  "retention_event cutoff e \<longleftrightarrow> e_created_at e < cutoff"

definition eligible_sync_job_ids :: "datetime \<Rightarrow> db \<Rightarrow> string list" where
  "eligible_sync_job_ids cutoff d =
     map sj_sync_job_id (filter (retention_sync_job cutoff d) (sync_jobs d))"

subsection \<open>gc\<close>

record retention_counts =
  rc_events :: nat
  rc_queue_items :: nat
  rc_sync_jobs :: nat
  rc_sync_pages :: nat

definition retention_eligible_counts :: "datetime \<Rightarrow> db \<Rightarrow> retention_counts" where
  "retention_eligible_counts cutoff d =
     \<lparr>rc_events = tbl_count (retention_event cutoff) (events d),
      rc_queue_items = tbl_count (retention_queue_item cutoff) (queue_items d),
      rc_sync_jobs = length (eligible_sync_job_ids cutoff d),
      rc_sync_pages = sum_list (map (\<lambda>i. tbl_count (\<lambda>p. sp_sync_job_id p = i) (sync_pages d))
        (eligible_sync_job_ids cutoff d))\<rparr>"

record retention_result =
  rr_cutoff :: datetime
  rr_dry_run :: bool
  rr_eligible :: retention_counts
  rr_eligible_total :: nat
  rr_deleted :: retention_counts
  rr_deleted_total :: nat

definition counts_total :: "retention_counts \<Rightarrow> nat" where
  "counts_total c = rc_events c + rc_queue_items c + rc_sync_jobs c + rc_sync_pages c"

definition no_counts :: retention_counts where
  "no_counts = \<lparr>rc_events = 0, rc_queue_items = 0, rc_sync_jobs = 0, rc_sync_pages = 0\<rparr>"

text \<open>DELETE FROM sync_jobs WHERE sync_job_id IN ..; sync_job_pages follow (ON DELETE CASCADE).\<close>

definition delete_sync_jobs :: "string list \<Rightarrow> db \<Rightarrow> db" where
  "delete_sync_jobs ids d =
     d\<lparr>sync_jobs := tbl_delete (\<lambda>j. sj_sync_job_id j \<in> set ids) (sync_jobs d),
       sync_pages := tbl_delete (\<lambda>p. sp_sync_job_id p \<in> set ids) (sync_pages d)\<rparr>"

text \<open>DELETE FROM queue_items; their budget memberships follow (ON DELETE CASCADE).\<close>

definition delete_queue_items :: "(queue_row \<Rightarrow> bool) \<Rightarrow> db \<Rightarrow> db" where
  "delete_queue_items P d =
     (let gone = map q_request_id (filter P (queue_items d))
      in d\<lparr>queue_items := tbl_delete P (queue_items d),
           memberships := tbl_delete (\<lambda>m. bm_request_id m \<in> set gone) (memberships d)\<rparr>)"

definition unused_budget :: "db \<Rightarrow> budget_row \<Rightarrow> bool" where
  "unused_budget d b \<longleftrightarrow>
     \<not> (\<exists>r\<in>set (queue_items d). q_upstream_budget_id r = Some (b_budget_id b)) \<and>
     \<not> (\<exists>m\<in>set (memberships d). bm_budget_id m = b_budget_id b) \<and>
     \<not> (\<exists>j\<in>set (sync_jobs d). sj_upstream_budget_id j = Some (b_budget_id b))"

definition gc_delete :: "datetime \<Rightarrow> db \<Rightarrow> retention_counts \<times> db" where
  "gc_delete cutoff d =
     (let counts = retention_eligible_counts cutoff d;
          n_events = tbl_count (retention_event cutoff) (events d);
          d1 = d\<lparr>events := tbl_delete (retention_event cutoff) (events d)\<rparr>;
          ids = eligible_sync_job_ids cutoff d1;
          n_jobs = tbl_count (\<lambda>j. sj_sync_job_id j \<in> set ids) (sync_jobs d1);
          d2 = delete_sync_jobs ids d1;
          n_items = tbl_count (retention_queue_item cutoff) (queue_items d2);
          d3 = delete_queue_items (retention_queue_item cutoff) d2;
          d4 = d3\<lparr>budgets := tbl_delete (unused_budget d3) (budgets d3)\<rparr>
      in (\<lparr>rc_events = n_events, rc_queue_items = n_items, rc_sync_jobs = n_jobs,
           rc_sync_pages = rc_sync_pages counts\<rparr>, d4))"

definition retention_result :: "datetime \<Rightarrow> bool \<Rightarrow> retention_counts \<Rightarrow> retention_counts \<Rightarrow> retention_result" where
  "retention_result cutoff dry_run eligible deleted =
     \<lparr>rr_cutoff = cutoff, rr_dry_run = dry_run, rr_eligible = eligible,
      rr_eligible_total = counts_total eligible, rr_deleted = deleted,
      rr_deleted_total = counts_total deleted\<rparr>"

definition gc :: "datetime \<Rightarrow> bool \<Rightarrow> db \<Rightarrow> retention_result \<times> db" where
  "gc cutoff dry_run d =
     (let counts = retention_eligible_counts cutoff d
      in if dry_run then (retention_result cutoff True counts no_counts, d)
         else case gc_delete cutoff d of (deleted, d') \<Rightarrow>
           (retention_result cutoff False counts deleted, d'))"

subsection \<open>What a run leaves\<close>

definition gc_result :: "datetime \<Rightarrow> db \<Rightarrow> db" where
  "gc_result cutoff d = snd (gc_delete cutoff d)"

lemma eligible_ids_events [simp]:
  "eligible_sync_job_ids cutoff (d\<lparr>events := es\<rparr>) = eligible_sync_job_ids cutoff d"
proof -
  have "retention_sync_job cutoff (d\<lparr>events := es\<rparr>) = retention_sync_job cutoff d"
    by (rule ext) (simp add: retention_sync_job_def page_blocks_def pages_of_job_def)
  then show ?thesis by (simp add: eligible_sync_job_ids_def)
qed

lemma gc_tables:
  "events (gc_result c d) = tbl_delete (retention_event c) (events d)"
  "sync_jobs (gc_result c d) = tbl_delete (\<lambda>j. sj_sync_job_id j \<in> set (eligible_sync_job_ids c d)) (sync_jobs d)"
  "sync_pages (gc_result c d) = tbl_delete (\<lambda>p. sp_sync_job_id p \<in> set (eligible_sync_job_ids c d)) (sync_pages d)"
  "queue_items (gc_result c d) = tbl_delete (retention_queue_item c) (queue_items d)"
  "memberships (gc_result c d) = tbl_delete (\<lambda>m. bm_request_id m \<in>
     set (map q_request_id (filter (retention_queue_item c) (queue_items d)))) (memberships d)"
  "papers (gc_result c d) = papers d" "cache_entries (gc_result c d) = cache_entries d"
  "cache_matches (gc_result c d) = cache_matches d" "rate_states (gc_result c d) = rate_states d"
  "leases (gc_result c d) = leases d" "reservations (gc_result c d) = reservations d"
  "worker_states (gc_result c d) = worker_states d"
  by (simp_all add: gc_result_def gc_delete_def Let_def delete_sync_jobs_def delete_queue_items_def)

lemma gc_budgets:
  "b \<in> set (budgets (gc_result c d)) \<longleftrightarrow> b \<in> set (budgets d) \<and>
    ((\<exists>r\<in>set (queue_items (gc_result c d)). q_upstream_budget_id r = Some (b_budget_id b)) \<or>
     (\<exists>m\<in>set (memberships (gc_result c d)). bm_budget_id m = b_budget_id b) \<or>
     (\<exists>j\<in>set (sync_jobs (gc_result c d)). sj_upstream_budget_id j = Some (b_budget_id b)))"
  unfolding gc_tables
  by (auto simp: gc_result_def gc_delete_def Let_def delete_sync_jobs_def delete_queue_items_def set_tbl_delete
      unused_budget_def)

lemma gc_budgets_keyed: "keyed b_budget_id (budgets d) \<Longrightarrow> keyed b_budget_id (budgets (gc_result c d))"
  by (simp add: gc_result_def gc_delete_def Let_def delete_sync_jobs_def delete_queue_items_def keyed_delete)

lemma gc_get_budget:
  assumes "keyed b_budget_id (budgets d)"
    and "(\<exists>r\<in>set (queue_items (gc_result c d)). q_upstream_budget_id r = Some k) \<or>
     (\<exists>m\<in>set (memberships (gc_result c d)). bm_budget_id m = k) \<or>
     (\<exists>j\<in>set (sync_jobs (gc_result c d)). sj_upstream_budget_id j = Some k)"
  shows "get_budget k (gc_result c d) = get_budget k d"
proof -
  note k = gc_budgets_keyed [OF assms(1), of c]
  have "get_budget k (gc_result c d) = Some b \<longleftrightarrow> get_budget k d = Some b" for b
    using assms(2) by (auto simp: get_budget_def tbl_get_iff [OF k] tbl_get_iff [OF assms(1)] gc_budgets)
  then show ?thesis by (metis option.exhaust)
qed

lemma schema_ok_gc_result:
  assumes "schema_ok d"
  shows "schema_ok (gc_result c d)"
proof -
  note ok = schema_okD [OF assms]
  let ?d = "gc_result c d"
  have q: "keyed q_request_id (queue_items ?d)" by (simp add: gc_tables keyed_delete ok)
  have mem: "get_queue_row (bm_request_id m) ?d \<noteq> None \<and> get_budget (bm_budget_id m) ?d \<noteq> None"
    if m: "m \<in> set (memberships ?d)" for m
  proof -
    from m have m0: "m \<in> set (memberships d)"
      and kept: "bm_request_id m \<notin> set (map q_request_id (filter (retention_queue_item c) (queue_items d)))"
      by (auto simp: gc_tables set_tbl_delete)
    from ok(12) [OF m0] obtain r where r: "r \<in> set (queue_items d)" "q_request_id r = bm_request_id m"
      by (auto simp: get_queue_row_def dest: tbl_get_SomeD)
    have "\<not> retention_queue_item c r"
    proof
      assume "retention_queue_item c r"
      with r(1) have "q_request_id r \<in> set (map q_request_id (filter (retention_queue_item c) (queue_items d)))"
        by simp
      with kept r(2) show False by simp
    qed
    with r(1) have "r \<in> set (queue_items ?d)" by (simp add: gc_tables set_tbl_delete)
    with r(2) q have "get_queue_row (bm_request_id m) ?d = Some r" by (simp add: get_queue_row_def tbl_get_iff)
    moreover have "get_budget (bm_budget_id m) ?d = get_budget (bm_budget_id m) d"
      using gc_get_budget [OF ok(5)] m by blast
    ultimately show ?thesis using ok(13) [OF m0] by simp
  qed
  have "one_pending_per_key (queue_items ?d)"
  proof -
    have "filter (\<lambda>r. pending (q_status r)) (queue_items ?d) = filter (\<lambda>r. pending (q_status r)) (queue_items d)"
      by (auto simp: gc_tables tbl_delete_def retention_queue_item_def intro!: filter_cong)
    then show ?thesis using ok(11) by (simp add: one_pending_per_key_def)
  qed
  then show ?thesis
    using mem q gc_budgets_keyed [OF ok(5), of c] ok
    by (simp add: schema_ok_def gc_tables(6-12) keyed_delete) (simp add: gc_tables keyed_delete)
qed

lemma gc_snd: "snd (gc c dry d) = (if dry then d else gc_result c d)"
  by (simp add: gc_def Let_def gc_result_def split: prod.split)

lemma schema_ok_gc [table_intros]: "schema_ok d \<Longrightarrow> schema_ok (snd (gc c dry d))"
  by (simp add: gc_snd schema_ok_gc_result)

text \<open>To the queue claims, gc is the deletion of items that are no longer pending.\<close>

lemma gc_takes_no_claim:
  assumes "schema_ok d"
  shows "claim_takes Map.empty now d (snd (gc c dry d))"
proof (cases dry)
  case True
  with assms show ?thesis by (auto simp: gc_snd intro: claim_takes.other)
next
  case False
  have "claim_takes Map.empty now d (gc_result c d)"
    by (rule claim_takes.collect [OF gc_tables(4)]) (auto simp: retention_queue_item_def intro: schema_ok_gc_result assms)
  with False show ?thesis by (simp add: gc_snd)
qed

lemma budgets_ok_gc: "budgets_ok d \<Longrightarrow> budgets_ok (snd (gc c dry d))"
  by (auto simp: gc_snd budgets_ok_def gc_budgets)

subsection \<open>Properties\<close>

lemma count_ids:
  assumes "keyed key rs"
  shows "tbl_count (\<lambda>r. key r \<in> set (map key (filter P rs))) rs = length (filter P rs)"
proof -
  have "key r \<in> set (map key (filter P rs)) \<longleftrightarrow> P r" if "r \<in> set rs" for r
    using keyed_eqI [OF assms that] that by auto
  then have "filter (\<lambda>r. key r \<in> set (map key (filter P rs))) rs = filter P rs"
    by (rule filter_cong [OF refl])
  then show ?thesis by (simp add: tbl_count_def)
qed

lemma count_pages:
  assumes "distinct ids"
  shows "sum_list (map (\<lambda>i. tbl_count (\<lambda>p. key p = i) ps) ids) = tbl_count (\<lambda>p. key p \<in> set ids) ps"
  using assms
proof (induction ids)
  case (Cons i ids)
  then have "i \<notin> set ids" by simp
  then have "tbl_count (\<lambda>p. key p \<in> set (i # ids)) ps =
      tbl_count (\<lambda>p. key p = i) ps + tbl_count (\<lambda>p. key p \<in> set ids) ps"
    by (induction ps) (auto simp: tbl_count_def)
  with Cons show ?case by simp
qed (simp add: tbl_count_def)

text \<open>C21. The dry run changes nothing and predicts the run: both report the
  same eligible counts, the run deletes exactly the counts it reports as eligible, and each table
  shrinks by exactly the count reported for it.\<close>

theorem gc_preview_is_exact:
  assumes "keyed sj_sync_job_id (sync_jobs d)"
  shows "let preview = gc cutoff True d; run = gc cutoff False d; d' = snd run; n = rr_deleted (fst run) in
     snd preview = d \<and> rr_eligible (fst preview) = rr_eligible (fst run) \<and>
     rr_deleted (fst preview) = no_counts \<and> n = rr_eligible (fst run) \<and>
     length (events d') + rc_events n = length (events d) \<and>
     length (queue_items d') + rc_queue_items n = length (queue_items d) \<and>
     length (sync_jobs d') + rc_sync_jobs n = length (sync_jobs d) \<and>
     length (sync_pages d') + rc_sync_pages n = length (sync_pages d)"
proof -
  let ?ids = "eligible_sync_job_ids cutoff d"
  have jobs: "tbl_count (\<lambda>j. sj_sync_job_id j \<in> set ?ids) (sync_jobs d) = length ?ids"
    using count_ids [OF assms, of "retention_sync_job cutoff d"] by (simp add: eligible_sync_job_ids_def)
  have "distinct ?ids"
    using assms by (simp add: eligible_sync_job_ids_def keyed_def distinct_map_filter)
  note pages = count_pages [OF this, of sp_sync_job_id "sync_pages d"]
  have counts: "fst (gc_delete cutoff d) = retention_eligible_counts cutoff d"
    using jobs by (simp add: gc_delete_def retention_eligible_counts_def Let_def delete_sync_jobs_def)
  have run: "gc cutoff False d = (retention_result cutoff False (retention_eligible_counts cutoff d)
      (retention_eligible_counts cutoff d), gc_result cutoff d)"
    by (simp add: gc_def gc_result_def split_beta counts)
  have preview: "gc cutoff True d = (retention_result cutoff True (retention_eligible_counts cutoff d) no_counts, d)"
    by (simp add: gc_def)
  show ?thesis
    unfolding Let_def run preview
    using jobs pages tbl_count_delete [of "retention_event cutoff" "events d"]
      tbl_count_delete [of "retention_queue_item cutoff" "queue_items d"]
      tbl_count_delete [of "\<lambda>j. sj_sync_job_id j \<in> set ?ids" "sync_jobs d"]
      tbl_count_delete [of "\<lambda>p. sp_sync_job_id p \<in> set ?ids" "sync_pages d"]
    by (simp add: retention_result_def gc_tables retention_eligible_counts_def)
qed

text \<open>C20. Retention never takes work away: every pending queue item stays
  with all its budget memberships and every budget it uses; an item that goes was completed or
  failed before the cutoff; papers, cache entries and their matches, leases, reservations and
  rate limits stay as they were.\<close>

theorem gc_keeps_pending_work:
  assumes "schema_ok d"
  shows "let d' = snd (gc cutoff dry_run d) in
     (\<forall>r\<in>set (queue_items d). pending (q_status r) \<longrightarrow> r \<in> set (queue_items d') \<and>
        (\<forall>m\<in>set (memberships d). bm_request_id m = q_request_id r \<longrightarrow>
           m \<in> set (memberships d') \<and> get_budget (bm_budget_id m) d' = get_budget (bm_budget_id m) d) \<and>
        (\<forall>b. q_upstream_budget_id r = Some b \<longrightarrow> get_budget b d' = get_budget b d)) \<and>
     (\<forall>r\<in>set (queue_items d). r \<notin> set (queue_items d') \<longrightarrow>
        queue_terminal r \<and> before_cutoff cutoff (queue_finish_time r)) \<and>
     papers d' = papers d \<and> cache_entries d' = cache_entries d \<and> cache_matches d' = cache_matches d \<and>
     leases d' = leases d \<and> reservations d' = reservations d \<and> rate_states d' = rate_states d"
proof (cases dry_run)
  case False
  let ?d = "gc_result cutoff d"
  note ok = schema_okD [OF assms]
  have kept: "r \<in> set (queue_items ?d)" if "r \<in> set (queue_items d)" "pending (q_status r)" for r
    using that by (auto simp: gc_tables set_tbl_delete retention_queue_item_def)
  have member: "m \<in> set (memberships ?d)"
    if r: "r \<in> set (queue_items d)" "pending (q_status r)" and m: "m \<in> set (memberships d)"
      "bm_request_id m = q_request_id r" for r m
  proof -
    have "\<not> retention_queue_item cutoff x" if "x \<in> set (queue_items d)" "q_request_id x = bm_request_id m" for x
      using keyed_eqI [OF ok(4) that(1) r(1)] that(2) m(2) r(2) by (auto simp: retention_queue_item_def)
    then have "bm_request_id m \<notin> set (map q_request_id (filter (retention_queue_item cutoff) (queue_items d)))"
      by auto
    with m(1) show ?thesis by (simp only: gc_tables set_tbl_delete mem_Collect_eq not_not simp_thms)
  qed
  have finished: "queue_terminal r \<and> before_cutoff cutoff (queue_finish_time r)"
    if "r \<in> set (queue_items d)" "r \<notin> set (queue_items ?d)" for r
    using that by (auto simp: gc_tables set_tbl_delete retention_queue_item_def queue_terminal_def
        queue_finish_time_def before_cutoff_def)
  have budget: "get_budget b ?d = get_budget b d"
    if "r \<in> set (queue_items d)" "pending (q_status r)" "q_upstream_budget_id r = Some b" for r b
    using gc_get_budget [OF ok(5)] kept [OF that(1,2)] that(3) by blast
  have mbudget: "get_budget (bm_budget_id m) ?d = get_budget (bm_budget_id m) d"
    if "m \<in> set (memberships ?d)" for m
    using gc_get_budget [OF ok(5)] that by blast
  from False show ?thesis
    unfolding Let_def gc_snd if_not_P [OF False]
    using kept member finished budget mbudget by (auto simp: gc_tables(6-12))
qed (simp add: gc_snd Let_def)

text \<open>A sync job goes only after it completed before the cutoff,
  and one that was handed to the worker only when no page of it has a pending queue item, an
  unfinished cache entry or a result newer than the cutoff. A job that stays keeps all its pages.\<close>

theorem gc_keeps_unfinished_sync_jobs:
  assumes "keyed sj_sync_job_id (sync_jobs d)"
  shows "let d' = snd (gc cutoff dry_run d) in
     (\<forall>j\<in>set (sync_jobs d). j \<notin> set (sync_jobs d') \<longrightarrow>
        before_cutoff cutoff (sj_completed_at j) \<and>
        (sj_status j \<in> set handoff_sync_job_statuses \<longrightarrow>
          (\<forall>p\<in>set (pages_of_job (sj_sync_job_id j) d).
             (\<forall>r\<in>set (queue_items d). q_cache_key r = sp_cache_key p \<longrightarrow> \<not> pending (q_status r)) \<and>
             (\<forall>c\<in>set (cache_entries d). c_cache_key c = sp_cache_key p \<longrightarrow>
                before_cutoff cutoff (cache_finish_time c))))) \<and>
     (\<forall>j\<in>set (sync_jobs d'). pages_of_job (sj_sync_job_id j) d' = pages_of_job (sj_sync_job_id j) d)"
proof (cases dry_run)
  case False
  let ?d = "gc_result cutoff d"
  have gone: "retention_sync_job cutoff d j"
    if "j \<in> set (sync_jobs d)" "j \<notin> set (sync_jobs ?d)" for j
    using that keyed_eqI [OF assms that(1)]
    by (auto simp: gc_tables set_tbl_delete eligible_sync_job_ids_def)
  have work: "\<not> pending (q_status r)"
    if "\<not> page_blocks cutoff d p" "r \<in> set (queue_items d)" "q_cache_key r = sp_cache_key p" for p r
    using that by (cases "q_status r") (auto simp: page_blocks_def queue_terminal_def)
  have entry: "before_cutoff cutoff (cache_finish_time c)"
    if "\<not> page_blocks cutoff d p" "c \<in> set (cache_entries d)" "c_cache_key c = sp_cache_key p" for p c
    using that by (cases "cache_finish_time c") (auto simp: page_blocks_def non_expired_def before_cutoff_def)
  have disjoint: "s \<notin> set terminal_sync_job_statuses" if "s \<in> set handoff_sync_job_statuses" for s
    using that by (auto simp: terminal_sync_job_statuses_def handoff_sync_job_statuses_def)
  have pages: "pages_of_job (sj_sync_job_id j) ?d = pages_of_job (sj_sync_job_id j) d"
    if "j \<in> set (sync_jobs ?d)" for j
    using that by (auto simp: gc_tables set_tbl_delete pages_of_job_def tbl_delete_def intro!: filter_cong)
  show ?thesis
    unfolding Let_def gc_snd if_not_P [OF False]
  proof (intro conjI ballI impI)
    fix j assume j: "j \<in> set (sync_jobs d)" "j \<notin> set (sync_jobs ?d)"
    note g = gone [OF j]
    then show "before_cutoff cutoff (sj_completed_at j)" by (simp add: retention_sync_job_def)
    fix p assume "sj_status j \<in> set handoff_sync_job_statuses" "p \<in> set (pages_of_job (sj_sync_job_id j) d)"
    with g disjoint have nb: "\<not> page_blocks cutoff d p" by (auto simp: retention_sync_job_def)
    fix r assume "r \<in> set (queue_items d)" "q_cache_key r = sp_cache_key p"
    with work [OF nb] show "\<not> pending (q_status r)" by blast
  next
    fix j p c assume j: "j \<in> set (sync_jobs d)" "j \<notin> set (sync_jobs ?d)"
      and "sj_status j \<in> set handoff_sync_job_statuses" "p \<in> set (pages_of_job (sj_sync_job_id j) d)"
    with gone [OF j] disjoint have nb: "\<not> page_blocks cutoff d p" by (auto simp: retention_sync_job_def)
    assume "c \<in> set (cache_entries d)" "c_cache_key c = sp_cache_key p"
    with entry [OF nb] show "before_cutoff cutoff (cache_finish_time c)" by blast
  qed (rule pages)
qed (simp add: gc_snd Let_def)

subsection \<open>A concrete job\<close>

definition sample_job :: sync_job_row where
  "sample_job = \<lparr>sj_sync_job_id = ''j'', sj_mode = MODE_SLICE, sj_request = sample_request, sj_status = ''queued'',
     sj_upstream_budget_id = None, sj_coverage_status = UNKNOWN, sj_result_count = 0, sj_total_results = None,
     sj_pages_total = 2, sj_pages_completed_total = 0, sj_error_category = None, sj_error_message = None,
     sj_created_at = 0, sj_updated_at = 1, sj_completed_at = Some 1\<rparr>"

definition sample_page :: "string \<Rightarrow> sync_page_row" where
  "sample_page k = \<lparr>sp_sync_job_id = ''j'', sp_cache_key = k, sp_request = sample_request, sp_start = 0,
     sp_max_results = 1, sp_status = ''queued'', sp_result_count = 0, sp_total_results = None,
     sp_attempt_diagnostics = [], sp_created_at = 0, sp_updated_at = 0\<rparr>"

definition failed_row :: "string \<Rightarrow> string \<Rightarrow> datetime \<Rightarrow> queue_row" where
  "failed_row rid k t = sample_row\<lparr>q_request_id := rid, q_cache_key := k, q_status := FAILED, q_updated_at := t,
     q_claimed_by := None, q_claimed_until := None, q_upstream_budget_id := None, q_unbudgeted_demand := True\<rparr>"

text \<open>A handed-off job with two pages whose queue items failed at 10 and at 20.\<close>

definition job_store :: db where
  "job_store = (empty_db (\<lambda>_. 0))\<lparr>sync_jobs := [sample_job], sync_pages := [sample_page ''k1'', sample_page ''k2''],
     queue_items := [failed_row ''r1'' ''k1'' 10, failed_row ''r2'' ''k2'' 20]\<rparr>"

lemma job_store_ok: "schema_ok job_store" "keyed sj_sync_job_id (sync_jobs job_store)"
  by (simp_all add: job_store_def empty_db_def schema_ok_def one_pending_per_key_def keyed_Cons tbl_get_Cons
      failed_row_def sample_row_def)

text \<open>Witnesses.\<close>

theorem gc_preview_is_exact_witness:
  "rr_deleted (fst (gc 30 False job_store)) = \<lparr>rc_events = 0, rc_queue_items = 2, rc_sync_jobs = 1, rc_sync_pages = 2\<rparr> \<and>
   rr_eligible (fst (gc 30 True job_store)) = rr_deleted (fst (gc 30 False job_store))"
proof -
  have "rr_deleted (fst (gc 30 False job_store)) =
      \<lparr>rc_events = 0, rc_queue_items = 2, rc_sync_jobs = 1, rc_sync_pages = 2\<rparr>" by code_simp
  with gc_preview_is_exact [OF job_store_ok(2), of 30] show ?thesis by (simp add: Let_def)
qed

theorem gc_keeps_pending_work_witness:
  "queue_items (snd (gc 1000 False sample_store)) = [sample_row] \<and>
   get_budget ''b'' (snd (gc 1000 False sample_store)) = get_budget ''b'' sample_store"
proof -
  have "sample_row \<in> set (queue_items sample_store)" "pending (q_status sample_row)"
    "q_upstream_budget_id sample_row = Some ''b''"
    by (simp_all add: sample_store_def sample_row_def)
  with gc_keeps_pending_work [OF sample_store_ok(1), of 1000 False]
  have "sample_row \<in> set (queue_items (snd (gc 1000 False sample_store)))"
    "get_budget ''b'' (snd (gc 1000 False sample_store)) = get_budget ''b'' sample_store"
    unfolding Let_def by blast+
  moreover have "length (queue_items (snd (gc 1000 False sample_store))) = 1" by code_simp
  ultimately show ?thesis by (auto simp: length_Suc_conv)
qed

theorem gc_keeps_unfinished_sync_jobs_witness:
  "pages_of_job ''j'' (snd (gc 15 False job_store)) = pages_of_job ''j'' job_store \<and>
   sync_jobs (snd (gc 30 False job_store)) = []"
proof -
  have "map sj_sync_job_id (sync_jobs (snd (gc 15 False job_store))) = [''j'']"
    "sync_jobs (snd (gc 30 False job_store)) = []" by code_simp+
  with gc_keeps_unfinished_sync_jobs [OF job_store_ok(2), of 15 False] show ?thesis
    unfolding Let_def by auto
qed

text \<open>
  Retention can strand a job: a run between the two failures deletes the first page's queue item,
  the only record that its work finished, and the job is never eligible again.
\<close>

lemma gc_strands_handed_off_job:
  "let d1 = snd (gc 15 False job_store) in
     rr_deleted (fst (gc 30 False job_store)) = \<lparr>rc_events = 0, rc_queue_items = 2, rc_sync_jobs = 1, rc_sync_pages = 2\<rparr> \<and>
     rr_deleted (fst (gc 30 False d1)) = \<lparr>rc_events = 0, rc_queue_items = 1, rc_sync_jobs = 0, rc_sync_pages = 0\<rparr> \<and>
     sync_jobs (snd (gc 1000000 False (snd (gc 30 False d1)))) = [sample_job]"
  by code_simp

text \<open>
  The budget of a run that has not enqueued yet has no references, so retention deletes it, however
  young it is; the enqueue that follows fails on the foreign key.
\<close>

lemma gc_deletes_fresh_budget:
  "let d1 = snd (create_upstream_request_budget 5 None ''b'' 100 (empty_db (\<lambda>_. 0)));
       d2 = snd (gc 10 False d1)
   in get_budget ''b'' d1 \<noteq> None \<and> get_budget ''b'' d2 = None \<and>
      fst (enqueue_request_for_work sample_request ''k'' None (Some ''b'') 30 101 ''u'' d2) =
        Inl (IntegrityError ''FOREIGN KEY'')"
  by code_simp

end
