(* ===== verification/Huldra_Planner.thy ===== *)
theory Huldra_Planner
  imports Huldra_Retention
begin

text \<open>
  The backfill planner (huldra/planner.py): one request per day of a date range and search query.
  A date is its number of days since 0001-01-01; date.max is day 3652058 and one more day
  overflows.
\<close>

datatype plan_error = PlanValueError string | PlanValidation "string list" | PlanOverflow

definition last_day :: int where "last_day = 3652058"

text \<open>ArxivRequest(client_id=.., search_query=.., submitted_start=.., submitted_end=.., max_results=..).\<close>

definition window_request :: "string \<Rightarrow> string \<Rightarrow> int \<Rightarrow> datetime \<Rightarrow> datetime \<Rightarrow> raw_request" where
  "window_request client query max_res from_t to_t =
     \<lparr>client_id = client, search_query = Some query, id_list = [],
      req_sort_by = SubmittedDate, req_sort_order = Descending, start = 0, max_results = max_res,
      submitted_start = None, submitted_end = None, req_cache_policy = CACHE_OR_ENQUEUE,
      readiness = RAW_COMPLETED, req_maturity_lag_days = None, priority = 0, timeout_seconds = None,
      refresh_interval_seconds = 3600, req_api_family = Legacy_search,
      raw_start = Some (Aware from_t 0), raw_end = Some (Aware to_t 0)\<rparr>"

text \<open>The inner loop over the queries: the first rejected request ends the plan.\<close>

fun day_requests :: "string \<Rightarrow> int \<Rightarrow> datetime \<Rightarrow> datetime \<Rightarrow> string list \<Rightarrow> plan_error + arxiv_request list" where
  "day_requests client max_res from_t to_t [] = Inr []"
| "day_requests client max_res from_t to_t (q # qs) =
     (case make_request (window_request client q max_res from_t to_t) of
        Inl e \<Rightarrow> Inl (PlanValidation e)
      | Inr r \<Rightarrow> (case day_requests client max_res from_t to_t qs of
            Inl e \<Rightarrow> Inl e | Inr rs \<Rightarrow> Inr (r # rs)))"

text \<open>while current \<le> end_date; the sums with timedelta(days=1) overflow on the last day.\<close>

function date_windows :: "string \<Rightarrow> int \<Rightarrow> string list \<Rightarrow> int \<Rightarrow> int \<Rightarrow> plan_error + arxiv_request list" where
  "date_windows client max_res queries end_date current =
     (if current \<le> end_date
      then if current \<ge> last_day then Inl PlanOverflow
      else case day_requests client max_res (current * us_per_day) ((current + 1) * us_per_day) queries of
        Inl e \<Rightarrow> Inl e
      | Inr rs \<Rightarrow> (case date_windows client max_res queries end_date (current + 1) of
            Inl e \<Rightarrow> Inl e | Inr more_rs \<Rightarrow> Inr (rs @ more_rs))
      else Inr [])"
  by pat_completeness auto

termination
  by (relation "measure (\<lambda>(_, _, _, end_date, current). nat (end_date + 1 - current))") auto

declare date_windows.simps [simp del]

definition build_submitted_date_windows ::
  "string list \<Rightarrow> int \<Rightarrow> int \<Rightarrow> int \<Rightarrow> string \<Rightarrow> plan_error + arxiv_request list" where
  "build_submitted_date_windows search_queries start_date end_date max_res client =
     (if start_date > end_date
      then Inl (PlanValueError ''start_date must be on or before end_date'')
      else
       (let queries = map strip (filter (\<lambda>q. strip q \<noteq> []) search_queries)
        in if queries = [] then Inl (PlanValueError ''search_queries cannot be empty'')
           else date_windows client max_res queries end_date start_date))"

subsection \<open>The windows tile the range\<close>

definition day_window :: "int \<Rightarrow> string \<Rightarrow> datetime option \<times> datetime option \<times> string option" where
  "day_window day q = (Some (day * us_per_day), Some ((day + 1) * us_per_day), Some q)"

definition request_window :: "arxiv_request \<Rightarrow> datetime option \<times> datetime option \<times> string option" where
  "request_window r = (submitted_start r, submitted_end r, search_query r)"

definition plain_query :: "string \<Rightarrow> bool" where
  "plain_query q \<longleftrightarrow> q \<noteq> [] \<and> strip q = q \<and> \<not> contains (lower q) ''submitteddate:''"

lemma midnight_aligned: "minute_aligned (day * us_per_day)"
  by (simp add: minute_aligned_def time_fields_def us_per_day_def us_per_second_def Let_def split_beta)

lemma window_request_accepted:
  assumes "plain_query q" "strip client \<noteq> []" "1 \<le> max_res" "max_res \<le> 2000"
  shows "\<exists>r. make_request (window_request client q max_res (day * us_per_day) ((day + 1) * us_per_day)) = Inr r
    \<and> request_window r = day_window day q"
proof -
  have us: "0 < us_per_day" by (simp add: us_per_day_def)
  have fe: "field_errors (window_request client q max_res (day * us_per_day) ((day + 1) * us_per_day)) = []"
    using assms(2-4) midnight_aligned [of day] midnight_aligned [of "day + 1"]
    by (simp add: field_errors_none window_request_def bound_ok_def)
  show ?thesis
    unfolding make_request_def fe
    using assms(1) us
    by (simp add: validate_shape_def window_request_def arxiv_request.truncate_def stripped_query_def truthy_def
        stripped_ids_def plain_query_def request_window_def day_window_def algebra_simps)
qed

lemma day_requests_windows:
  assumes "\<forall>q\<in>set qs. plain_query q" "strip client \<noteq> []" "1 \<le> max_res" "max_res \<le> 2000"
  shows "\<exists>rs. day_requests client max_res (day * us_per_day) ((day + 1) * us_per_day) qs = Inr rs
    \<and> map request_window rs = map (day_window day) qs"
  using assms(1)
proof (induction qs)
  case (Cons q qs)
  with window_request_accepted [of q client max_res day] assms(2-4) show ?case by auto
qed simp

lemma date_windows_tile:
  assumes "\<forall>q\<in>set qs. plain_query q" "strip client \<noteq> []" "1 \<le> max_res" "max_res \<le> 2000" "end_date < last_day"
  shows "\<exists>rs. date_windows client max_res qs end_date current = Inr rs \<and>
    map request_window rs = concat (map (\<lambda>day. map (day_window day) qs) [current..end_date])"
proof (induction "nat (end_date + 1 - current)" arbitrary: current)
  case 0
  then show ?case by (subst date_windows.simps) simp
next
  case (Suc n)
  then have le: "current \<le> end_date" by simp
  from Suc have "n = nat (end_date + 1 - (current + 1))" by simp
  from Suc.hyps(1) [OF this] obtain rs2 where 2: "date_windows client max_res qs end_date (current + 1) = Inr rs2"
    "map request_window rs2 = concat (map (\<lambda>day. map (day_window day) qs) [current + 1..end_date])" by blast
  obtain rs where 1: "day_requests client max_res (current * us_per_day) ((current + 1) * us_per_day) qs = Inr rs"
    "map request_window rs = map (day_window current) qs"
    using day_requests_windows [OF assms(1-4), of current] by blast
  have "date_windows client max_res qs end_date current = Inr (rs @ rs2)"
    using le assms(5) by (subst date_windows.simps) (simp add: 1 2)
  moreover have "[current..end_date] = current # [current + 1..end_date]" using le by (rule upto_rec1)
  ultimately show ?case using 1 2 by simp
qed

text \<open>C40. build_submitted_date_windows always returns, and for acceptable
  arguments it plans exactly one request per day and nonblank query, in order of day and query:
  the request of a day covers the day from midnight to midnight UTC, so the windows of a query tile
  the date range without gap or overlap.\<close>

theorem windows_tile_the_range:
  assumes "start_date \<le> end_date" "end_date < last_day" "strip client \<noteq> []" "1 \<le> max_res" "max_res \<le> 2000"
    and "\<exists>q\<in>set search_queries. strip q \<noteq> []"
    and "\<forall>q\<in>set search_queries. \<not> contains (lower (strip q)) ''submitteddate:''"
  shows "\<exists>rs. build_submitted_date_windows search_queries start_date end_date max_res client = Inr rs \<and>
    map request_window rs = concat (map (\<lambda>day. map (day_window day)
       (map strip (filter (\<lambda>q. strip q \<noteq> []) search_queries))) [start_date..end_date])"
proof -
  let ?qs = "map strip (filter (\<lambda>q. strip q \<noteq> []) search_queries)"
  have "\<forall>q\<in>set ?qs. plain_query q" using assms(7) by (auto simp: plain_query_def)
  from date_windows_tile [OF this assms(3,4,5,2), of start_date] obtain rs where
    "date_windows client max_res ?qs end_date start_date = Inr rs"
    "map request_window rs = concat (map (\<lambda>day. map (day_window day) ?qs) [start_date..end_date])" by blast
  moreover have "?qs \<noteq> []" using assms(6) by (auto simp: filter_empty_conv)
  ultimately show ?thesis using assms(1)
    by (simp add: build_submitted_date_windows_def Let_def)
qed

theorem windows_tile_the_range_witness:
  "\<exists>rs. build_submitted_date_windows ['' cat:cs.LG '', '' ''] 738000 738001 100 ''me'' = Inr rs \<and>
    map request_window rs = [(Some (738000 * us_per_day), Some (738001 * us_per_day), Some ''cat:cs.LG''),
      (Some (738001 * us_per_day), Some (738002 * us_per_day), Some ''cat:cs.LG'')]"
proof -
  have w: "map strip (filter (\<lambda>q. strip q \<noteq> []) ['' cat:cs.LG '', '' '']) = [''cat:cs.LG'']"
    "\<not> contains (lower (strip '' cat:cs.LG '')) ''submitteddate:''" "\<not> contains (lower (strip '' '')) ''submitteddate:''"
    "strip ''me'' \<noteq> []" "strip '' cat:cs.LG '' \<noteq> []" by code_simp+
  have "[738000..738001::int] = [738000, 738001]" by (simp add: upto.simps)
  with windows_tile_the_range [of 738000 738001 "''me''" 100 "['' cat:cs.LG '', '' '']"] w
  show ?thesis by (simp add: last_day_def day_window_def)
qed

end
