(* ===== verification/Huldra_Worker.thy ===== *)
theory Huldra_Worker
  imports Huldra_Retention
begin

text \<open>
  One pass of the worker (huldra/worker.py, HuldraWorker.run_once and its helpers) as an action of
  the World monad: a sequence of store transactions, clock readings, one sleep and at most one
  upstream call, in the order of the code. Log output is not modelled.
\<close>

subsection \<open>State and results\<close>

record worker =
  wk_name :: string
  wk_token :: string
  wk_settings :: huldra_settings
  wk_limiter :: limiter
  wk_store_timeout :: seconds

record pass_result =
  wr_status :: string
  wr_request_id :: "string option"
  wr_cache_key :: "string option"
  wr_papers_total :: int
  wr_cooldown_until :: "datetime option"
  wr_retry_after_seconds :: "int option"
  wr_error_category :: "string option"
  wr_error_message :: "string option"

text \<open>WorkerPassResult(status=.., request_id=.., cache_key=..) with the other fields at their defaults.\<close>

definition item_result :: "queue_item \<Rightarrow> string \<Rightarrow> pass_result" where
  "item_result item status = \<lparr>wr_status = status, wr_request_id = Some (i_request_id item),
     wr_cache_key = Some (i_cache_key item), wr_papers_total = 0, wr_cooldown_until = None,
     wr_retry_after_seconds = None, wr_error_category = None, wr_error_message = None\<rparr>"

definition idle_result :: pass_result where
  "idle_result = \<lparr>wr_status = ''idle'', wr_request_id = None, wr_cache_key = None, wr_papers_total = 0,
     wr_cooldown_until = None, wr_retry_after_seconds = None, wr_error_category = None, wr_error_message = None\<rparr>"

record id_plan =
  requested_ids :: "string list"
  fetch_request :: "arxiv_request option"
  reserved_ids :: "string list"
  papers_by_id :: "(string \<times> arxiv_paper) list"
  plan_blocked_until :: "datetime option"

subsection \<open>Dictionaries of papers\<close>

text \<open>A dict keeps the insertion order of its keys; an update keeps the place of the key.\<close>

definition dict_set :: "'k \<Rightarrow> 'v \<Rightarrow> ('k \<times> 'v) list \<Rightarrow> ('k \<times> 'v) list" where
  "dict_set k v m = (if map_of m k = None then m @ [(k, v)]
     else map (\<lambda>(j, u). if j = k then (j, v) else (j, u)) m)"

definition dict_setdefault :: "'k \<Rightarrow> 'v \<Rightarrow> ('k \<times> 'v) list \<Rightarrow> ('k \<times> 'v) list" where
  "dict_setdefault k v m = (if map_of m k = None then m @ [(k, v)] else m)"

text \<open>len(f"v{version}") characters are cut off; the digits of the int, not of the id.\<close>

definition versionless_arxiv_id :: "string \<Rightarrow> string" where
  "versionless_arxiv_id i = (case arxiv_version i of
      None \<Rightarrow> i | Some v \<Rightarrow> take (length i - length (''v'' @ int_text v)) i)"

definition add_id_list_paper_lookup ::
  "arxiv_paper \<Rightarrow> (string \<times> arxiv_paper) list \<Rightarrow> (string \<times> arxiv_paper) list" where
  "add_id_list_paper_lookup p lookup =
     (let i = normalize_arxiv_id (p_arxiv_id p); v = versionless_arxiv_id i; m = dict_set i p lookup
      in if v \<noteq> i then dict_setdefault v p m else m)"

definition id_list_paper_lookup ::
  "(string \<times> arxiv_paper) list \<Rightarrow> arxiv_paper list \<Rightarrow> (string \<times> arxiv_paper) list" where
  "id_list_paper_lookup cached fetched =
     fold add_id_list_paper_lookup fetched (fold add_id_list_paper_lookup (map snd cached) cached)"

text \<open>papers_by_id[arxiv_id] for every id; None is the KeyError.\<close>

fun lookup_all :: "string list \<Rightarrow> (string \<times> arxiv_paper) list \<Rightarrow> arxiv_paper list option" where
  "lookup_all [] m = Some []"
| "lookup_all (i # ids) m = (case map_of m i of None \<Rightarrow> None
     | Some p \<Rightarrow> map_option (\<lambda>ps. p # ps) (lookup_all ids m))"

fun dedup_papers :: "string list \<Rightarrow> arxiv_paper list \<Rightarrow> arxiv_paper list" where
  "dedup_papers seen [] = []"
| "dedup_papers seen (p # ps) =
     (if p_arxiv_id p \<in> set seen then dedup_papers seen ps
      else p # dedup_papers (p_arxiv_id p # seen) ps)"

definition ordered_id_list_papers ::
  "string list \<Rightarrow> (string \<times> arxiv_paper) list \<Rightarrow> arxiv_paper list option" where
  "ordered_id_list_papers ids m = map_option (dedup_papers []) (lookup_all ids m)"

definition missing_ids :: "string list \<Rightarrow> (string \<times> arxiv_paper) list \<Rightarrow> string list" where
  "missing_ids ids m = filter (\<lambda>i. map_of m i = None) ids"

definition key_error :: "'a option \<Rightarrow> 'a act" where
  "key_error v = (case v of None \<Rightarrow> raiseM (OtherExn ''KeyError'') | Some x \<Rightarrow> returnM x)"

definition backoff_seconds :: "int \<Rightarrow> int" where
  "backoff_seconds attempts_total = min 3600 (max 5 (2 ^ nat (max 1 attempts_total)))"

subsection \<open>Store operations as the worker calls them\<close>

text \<open>Each first samples the clock where the code does, outside the transaction or in it.\<close>

definition worker_started :: "worker \<Rightarrow> unit act" where
  "worker_started wk = bindM utc_now (\<lambda>t. tx_do (record_worker_started (wk_name wk) t))"

definition worker_done :: "worker \<Rightarrow> datetime option \<Rightarrow> string option \<Rightarrow> string option \<Rightarrow> unit act" where
  "worker_done wk next_wake category msg =
     bindM utc_now (\<lambda>t. tx_do (record_worker_completed (wk_name wk) next_wake category msg t))"

definition complete_item :: "queue_item \<Rightarrow> unit act" where
  "complete_item item = bindM utc_now (\<lambda>t. tx_do (complete_queue_item (i_request_id item) t))"

definition delay_item ::
  "queue_item \<Rightarrow> datetime option \<Rightarrow> string option \<Rightarrow> string option \<Rightarrow> request_status \<Rightarrow> unit act" where
  "delay_item item next_attempt category msg status =
     bindM utc_now (\<lambda>t. tx_try (release_or_delay_queue_item (i_request_id item) next_attempt category msg status t))"

definition drop_lease :: "worker \<Rightarrow> unit act" where
  "drop_lease wk = tx_do (release_lease (lim_lease (wk_limiter wk)) (wk_token wk))"

definition release_ids :: "worker \<Rightarrow> string list \<Rightarrow> unit act" where
  "release_ids wk ids =
     (if ids = [] then returnM ()
      else bindM utc_now (\<lambda>t. tx_do (release_id_fetch_reservations ids (wk_token wk) t)))"

definition release_id_plan :: "worker \<Rightarrow> id_plan option \<Rightarrow> unit act" where
  "release_id_plan wk plan = (case plan of None \<Rightarrow> returnM () | Some p \<Rightarrow> release_ids wk (reserved_ids p))"

definition read_completed_cache :: "string \<Rightarrow> cache_entry option act" where
  "read_completed_cache cache_key =
     bindM (readM (get_cache_entry cache_key)) (\<lambda>found.
     case found of
       None \<Rightarrow> returnM None
     | Some entry \<Rightarrow>
         if c_status entry \<noteq> ''completed'' then returnM None
         else bindM (readM (completed_cache_integrity_failure cache_key entry)) (\<lambda>failure.
           case failure of
             None \<Rightarrow> returnM (Some entry)
           | Some reason \<Rightarrow>
               thenM (tx_do (record_event ''cache_integrity_failure''
                   [(''cache_key'', JStr cache_key), (''reason'', JStr reason),
                    (''result_count'', JInt (c_result_count entry))]))
                 (returnM None)))"

definition record_completed ::
  "queue_item \<Rightarrow> arxiv_paper list \<Rightarrow> int option \<Rightarrow> int \<Rightarrow> int \<Rightarrow> unit act" where
  "record_completed item ps total_results upstream_status upstream_count =
     bindM utc_now (\<lambda>requested. bindM utc_now (\<lambda>completed.
       tx_do (record_completed_cache_entry (i_cache_key item) (i_request item) ps total_results SLICE
         upstream_status upstream_count requested completed)))"

definition record_failure :: "queue_item \<Rightarrow> string \<Rightarrow> string \<Rightarrow> int option \<Rightarrow> int \<Rightarrow> unit act" where
  "record_failure item category msg upstream_status upstream_count =
     bindM utc_now (\<lambda>t. tx_try (record_cache_failure (i_cache_key item) (i_request item) category msg
       ''failed'' None upstream_status upstream_count t))"

definition fence :: "worker \<Rightarrow> queue_item \<Rightarrow> id_plan option \<Rightarrow> int \<Rightarrow> string option act" where
  "fence wk item plan ttl =
     tx_now (renew_worker_fetch_ownership (i_request_id item) (wk_token wk) (lim_lease (wk_limiter wk)) ttl
       (case plan of None \<Rightarrow> [] | Some p \<Rightarrow> reserved_ids p))"

definition poll_wake :: "worker \<Rightarrow> datetime \<Rightarrow> datetime" where
  "poll_wake wk t = t + timedelta_seconds (worker_poll_interval_seconds (wk_settings wk))"

definition fetch_ownership_ttl :: "worker \<Rightarrow> queue_item \<Rightarrow> int" where
  "fetch_ownership_ttl wk item =
     max (max (queue_claim_timeout_seconds (wk_settings wk)) (lease_timeout_seconds (wk_settings wk)))
       \<lceil>timeout_or (timeout_seconds (i_request item)) (request_timeout_seconds (wk_settings wk))
         + wk_store_timeout wk + 5\<rceil>"

subsection \<open>Planning an id-list fetch\<close>

definition missing_request :: "queue_item \<Rightarrow> string list \<Rightarrow> arxiv_request" where
  "missing_request item ids = (i_request item)\<lparr>id_list := ids, req_cache_policy := CACHE_OR_ENQUEUE\<rparr>"

definition plan_id_list_fetch :: "worker \<Rightarrow> queue_item \<Rightarrow> id_plan option act" where
  "plan_id_list_fetch wk item =
     (if i_work_kind item \<noteq> FETCH_MISSING \<or> \<not> is_pure_id_list_request (i_request item) then returnM None
      else
       (let requested = dedup (map normalize_arxiv_id (id_list (i_request item))) in
        bindM (readM (get_papers_by_ids requested)) (\<lambda>found.
         (let missing = missing_ids requested found in
          if missing = []
          then returnM (Some \<lparr>requested_ids = requested, fetch_request = None, reserved_ids = [],
                              papers_by_id = found, plan_blocked_until = None\<rparr>)
          else
            bindM (tx_now (acquire_id_fetch_reservations missing (wk_token wk) (i_request_id item)
                (queue_claim_timeout_seconds (wk_settings wk)))) (\<lambda>got.
            if blocked_until got \<noteq> None
            then returnM (Some \<lparr>requested_ids = requested, fetch_request = None, reserved_ids = [],
                                papers_by_id = found, plan_blocked_until = blocked_until got\<rparr>)
            else returnM (Some \<lparr>requested_ids = requested,
                                fetch_request = Some (missing_request item (acquired_ids got)),
                                reserved_ids = acquired_ids got, papers_by_id = found,
                                plan_blocked_until = None\<rparr>))))))"

definition revalidate_id_list_fetch_plan :: "worker \<Rightarrow> queue_item \<Rightarrow> id_plan \<Rightarrow> int \<Rightarrow> id_plan act" where
  "revalidate_id_list_fetch_plan wk item plan ttl =
     (if reserved_ids plan = [] then returnM plan
      else
        bindM (readM (get_papers_by_ids (requested_ids plan))) (\<lambda>found.
         (let missing = missing_ids (requested_ids plan) found;
              no_longer = filter (\<lambda>i. i \<notin> set missing) (reserved_ids plan);
              still = filter (\<lambda>i. i \<in> set missing) (reserved_ids plan)
          in thenM (release_ids wk no_longer)
            (if missing = []
             then returnM \<lparr>requested_ids = requested_ids plan, fetch_request = None, reserved_ids = [],
                           papers_by_id = found, plan_blocked_until = None\<rparr>
             else
               bindM (if set still \<noteq> set missing then returnM False
                      else tx_now (renew_id_fetch_reservations still (wk_token wk) ttl)) (\<lambda>renewed.
               if \<not> renewed
               then bindM utc_now (\<lambda>t.
                 returnM \<lparr>requested_ids = requested_ids plan, fetch_request = None, reserved_ids = still,
                          papers_by_id = found, plan_blocked_until = Some (poll_wake wk t)\<rparr>)
               else returnM \<lparr>requested_ids = requested_ids plan,
                             fetch_request = Some (missing_request item still), reserved_ids = still,
                             papers_by_id = found, plan_blocked_until = None\<rparr>)))))"

subsection \<open>Ways a pass ends before the upstream call\<close>

definition served_from_cache :: "worker \<Rightarrow> queue_item \<Rightarrow> int \<Rightarrow> pass_result act" where
  "served_from_cache wk item count =
     thenM (worker_done wk None None None)
       (returnM (item_result item ''cache_hit''\<lparr>wr_papers_total := count\<rparr>))"

definition blocked_result :: "queue_item \<Rightarrow> string \<Rightarrow> datetime option \<Rightarrow> string option \<Rightarrow> string option \<Rightarrow> pass_result" where
  "blocked_result item status until category msg =
     item_result item status\<lparr>wr_cooldown_until := until, wr_error_category := category, wr_error_message := msg\<rparr>"

definition stored_papers :: "id_plan \<Rightarrow> arxiv_paper list act" where
  "stored_papers plan = key_error (lookup_all (requested_ids plan) (papers_by_id plan))"

definition budget_deferred_message :: string where
  "budget_deferred_message = ''upstream budget applies to the next queue attempt''"

definition defer_budgeted_item :: "worker \<Rightarrow> queue_item \<Rightarrow> id_plan option \<Rightarrow> pass_result act" where
  "defer_budgeted_item wk item plan =
     thenM (drop_lease wk)
      (bindM utc_now (\<lambda>next_attempt.
       thenM (delay_item item (Some next_attempt) (Some ''budget_deferred'') (Some budget_deferred_message) DELAYED)
      (thenM (release_id_plan wk plan)
      (thenM (worker_done wk (Some next_attempt) (Some ''budget_deferred'') (Some budget_deferred_message))
        (returnM (blocked_result item ''blocked'' (Some next_attempt) (Some ''budget_deferred'')
           (Some budget_deferred_message)))))))"

text \<open>error_category.replace("_", " ").\<close>

definition spaced :: "string \<Rightarrow> string" where
  "spaced s = map (\<lambda>c. if c = CHR ''_'' then CHR '' '' else c) s"

definition fail_budgeted_item :: "worker \<Rightarrow> queue_item \<Rightarrow> id_plan option \<Rightarrow> string \<Rightarrow> pass_result act" where
  "fail_budgeted_item wk item plan category =
     thenM (drop_lease wk)
      (thenM (record_failure item category (spaced category) None 0)
      (thenM (delay_item item None (Some category) (Some (spaced category)) FAILED)
      (thenM (release_id_plan wk plan)
      (thenM (worker_done wk None (Some category) (Some (spaced category)))
        (returnM (blocked_result item ''budget_exceeded'' None (Some category) (Some (spaced category))))))))"

definition ids_changed_message :: string where
  "ids_changed_message = ''id fetch reservation changed before network I/O''"

definition fetch_ownership_failure :: "worker \<Rightarrow> queue_item \<Rightarrow> id_plan option \<Rightarrow> string \<Rightarrow> pass_result act" where
  "fetch_ownership_failure wk item plan reason =
     thenM (drop_lease wk)
      (if reason = ''id_fetch_reserved''
       then bindM utc_now (\<lambda>t.
          (let next_attempt = poll_wake wk t in
           thenM (delay_item item (Some next_attempt) (Some reason) (Some ids_changed_message) DELAYED)
          (thenM (release_id_plan wk plan)
          (thenM (worker_done wk (Some next_attempt) (Some reason) (Some ids_changed_message))
            (returnM (blocked_result item ''blocked'' (Some next_attempt) (Some reason) None))))))
       else
         (let msg = (if reason = ''lost_lease'' then ''upstream lease changed before network I/O''
                     else ''queue claim changed before network I/O'') in
          thenM (release_id_plan wk plan)
         (thenM (worker_done wk None (Some reason) (Some msg))
           (returnM (blocked_result item reason None (Some reason) (Some msg))))))"

text \<open>
  _gate_fetch_ownership: the plan to go on with and None, or a result that ends the pass.
\<close>

definition final_fence :: "worker \<Rightarrow> queue_item \<Rightarrow> id_plan option \<Rightarrow> int \<Rightarrow> (id_plan option \<times> pass_result option) act" where
  "final_fence wk item plan ttl =
     bindM (fence wk item plan ttl) (\<lambda>reason.
     case reason of
       None \<Rightarrow> returnM (plan, None)
     | Some why \<Rightarrow> bindM (fetch_ownership_failure wk item plan why) (\<lambda>r. returnM (plan, Some r)))"

definition gate_id_plan :: "worker \<Rightarrow> queue_item \<Rightarrow> id_plan \<Rightarrow> int \<Rightarrow> (id_plan option \<times> pass_result option) act" where
  "gate_id_plan wk item plan ttl =
     bindM (revalidate_id_list_fetch_plan wk item plan ttl) (\<lambda>p.
     if plan_blocked_until p \<noteq> None then
        thenM (drop_lease wk)
       (thenM (delay_item item (plan_blocked_until p) (Some ''id_fetch_reserved'') (Some ids_changed_message) DELAYED)
       (thenM (release_id_plan wk (Some p))
       (thenM (worker_done wk (plan_blocked_until p) (Some ''id_fetch_reserved'') (Some ids_changed_message))
         (returnM (Some p, Some (blocked_result item ''blocked'' (plan_blocked_until p)
            (Some ''id_fetch_reserved'') None))))))
     else if fetch_request p = None then
        bindM (stored_papers p) (\<lambda>ps.
        thenM (drop_lease wk)
       (thenM (record_completed item ps (Some (int (length ps))) 200 0)
       (thenM (complete_item item)
       (thenM (release_id_plan wk (Some p))
       (bindM (served_from_cache wk item (int (length ps))) (\<lambda>r. returnM (Some p, Some r)))))))
     else final_fence wk item (Some p) ttl)"

definition gate_fetch_ownership ::
  "worker \<Rightarrow> queue_item \<Rightarrow> id_plan option \<Rightarrow> int \<Rightarrow> (id_plan option \<times> pass_result option) act" where
  "gate_fetch_ownership wk item plan ttl =
     bindM (fence wk item plan ttl) (\<lambda>reason.
     case reason of
       Some why \<Rightarrow> bindM (fetch_ownership_failure wk item plan why) (\<lambda>r. returnM (plan, Some r))
     | None \<Rightarrow>
        bindM (read_completed_cache (i_cache_key item)) (\<lambda>cached.
        if cached \<noteq> None \<and> i_work_kind item = FETCH_MISSING then
           thenM (drop_lease wk)
          (thenM (complete_item item)
          (thenM (release_id_plan wk plan)
          (bindM (served_from_cache wk item (c_result_count (the cached))) (\<lambda>r. returnM (plan, Some r)))))
        else case plan of
          Some p \<Rightarrow> gate_id_plan wk item p ttl
        | None \<Rightarrow> final_fence wk item None ttl))"

subsection \<open>What the upstream answer leads to\<close>

definition status_or_429 :: "int option \<Rightarrow> int" where
  "status_or_429 s = (case s of None \<Rightarrow> 429 | Some c \<Rightarrow> if c = 0 then 429 else c)"

definition on_rate_limited ::
  "worker \<Rightarrow> queue_item \<Rightarrow> id_plan option \<Rightarrow> int option \<Rightarrow> int option \<Rightarrow> string \<Rightarrow> pass_result act" where
  "on_rate_limited wk item plan retry_after status msg =
     bindM (after_429 (wk_limiter wk) (wk_token wk) retry_after (status_or_429 status) (Some msg) None) (\<lambda>cooldown.
       thenM (bindM utc_now (\<lambda>t. tx_try (record_rate_limited (i_cache_key item) (i_request item) cooldown
                (status_or_429 status) msg t)))
      (thenM (delay_item item (Some cooldown) (Some ''rate_limited'') (Some msg) DELAYED)
      (thenM (release_id_plan wk plan)
      (thenM (worker_done wk (Some cooldown) (Some ''rate_limited'') (Some msg))
        (returnM (blocked_result item ''rate_limited'' (Some cooldown) (Some ''rate_limited'') (Some msg)
           \<lparr>wr_retry_after_seconds := retry_after\<rparr>))))))"

definition on_transient_failure ::
  "worker \<Rightarrow> queue_item \<Rightarrow> id_plan option \<Rightarrow> int option \<Rightarrow> string \<Rightarrow> pass_result act" where
  "on_transient_failure wk item plan status msg =
     thenM (after_failure (wk_limiter wk) (wk_token wk) status (Some msg) None)
      (bindM utc_now (\<lambda>t.
       (let next_attempt = t + backoff_seconds (i_attempts_total item) * us_per_second in
        thenM (record_failure item ''transient'' msg status 1)
       (thenM (delay_item item (Some next_attempt) (Some ''transient'') (Some msg) DELAYED)
       (thenM (release_id_plan wk plan)
       (thenM (worker_done wk (Some next_attempt) (Some ''transient'') (Some msg))
         (returnM (blocked_result item ''transient_failure'' (Some next_attempt) (Some ''transient'') (Some msg)))))))))"

definition on_non_retryable ::
  "worker \<Rightarrow> queue_item \<Rightarrow> id_plan option \<Rightarrow> int option \<Rightarrow> string \<Rightarrow> pass_result act" where
  "on_non_retryable wk item plan status msg =
     thenM (after_failure (wk_limiter wk) (wk_token wk) status (Some msg) None)
      (thenM (record_failure item ''non_retryable'' msg status 1)
      (thenM (delay_item item None (Some ''non_retryable'') (Some msg) FAILED)
      (thenM (release_id_plan wk plan)
      (thenM (worker_done wk None (Some ''non_retryable'') (Some msg))
        (returnM (blocked_result item ''failed'' None (Some ''non_retryable'') (Some msg)))))))"

definition on_fetch_error ::
  "worker \<Rightarrow> id_plan option \<Rightarrow> int option \<Rightarrow> string \<Rightarrow> exn \<Rightarrow> pass_result act" where
  "on_fetch_error wk plan status msg e =
     thenM (after_failure (wk_limiter wk) (wk_token wk) status (Some msg) None)
      (thenM (release_id_plan wk plan)
      (thenM (worker_done wk None (Some ''fetch_error'') (Some msg))
        (raiseM e)))"

definition on_papers ::
  "worker \<Rightarrow> queue_item \<Rightarrow> id_plan option \<Rightarrow> arxiv_paper list \<Rightarrow> int option \<Rightarrow> int \<Rightarrow> pass_result act" where
  "on_papers wk item plan ps total_results status =
     thenM (record_completed item ps total_results status 1)
      (thenM (after_success (wk_limiter wk) (wk_token wk) status None)
      (thenM (complete_item item)
      (thenM (release_id_plan wk plan)
      (thenM (worker_done wk None None None)
        (returnM (item_result item ''completed''\<lparr>wr_papers_total := int (length ps)\<rparr>))))))"

definition omitted_message :: string where
  "omitted_message = ''upstream response omitted requested IDs''"

definition on_result :: "worker \<Rightarrow> queue_item \<Rightarrow> id_plan option \<Rightarrow> fetch_result \<Rightarrow> pass_result act" where
  "on_result wk item plan result =
     (case plan of
        None \<Rightarrow> on_papers wk item plan (f_papers result) (f_total_results result) (f_upstream_status result)
      | Some p \<Rightarrow>
         (let lookup = id_list_paper_lookup (papers_by_id p) (f_papers result) in
          if missing_ids (requested_ids p) lookup \<noteq> []
          then on_non_retryable wk item plan (Some (f_upstream_status result)) omitted_message
          else bindM (key_error (ordered_id_list_papers (requested_ids p) lookup)) (\<lambda>ps.
            on_papers wk item plan ps (Some (int (length ps))) (f_upstream_status result))))"

subsection \<open>The upstream call\<close>

text \<open>After reserve/check: go on, defer the item or fail it.\<close>

definition budget_verdict ::
  "worker \<Rightarrow> queue_item \<Rightarrow> id_plan option \<Rightarrow> string option \<Rightarrow> pass_result act \<Rightarrow> pass_result act" where
  "budget_verdict wk item plan err go_on =
     (case err of
        None \<Rightarrow> go_on
      | Some e \<Rightarrow> if e = ''budget_deferred'' then defer_budgeted_item wk item plan
                  else fail_budgeted_item wk item plan e)"

definition check_deadlines :: "queue_item \<Rightarrow> string option act" where
  "check_deadlines item = tx_now (check_queue_item_upstream_request_deadlines (i_request_id item))"

definition reserve_budgets :: "queue_item \<Rightarrow> string option act" where
  "reserve_budgets item =
     bindM (tx_now (reserve_queue_item_upstream_request (i_request_id item))) (\<lambda>err.
       if err = None then check_deadlines item else returnM err)"

definition read_deadline :: "queue_item \<Rightarrow> datetime option act" where
  "read_deadline item = readM (queue_item_upstream_deadline (i_request_id item))"

definition clip_timeout :: "worker \<Rightarrow> seconds \<Rightarrow> arxiv_request \<Rightarrow> arxiv_request" where
  "clip_timeout wk remaining r =
     r\<lparr>timeout_seconds := Some (min (timeout_or (timeout_seconds r) (request_timeout_seconds (wk_settings wk))) remaining)\<rparr>"

definition planned_request :: "queue_item \<Rightarrow> id_plan option \<Rightarrow> arxiv_request" where
  "planned_request item plan = (case Option.bind plan fetch_request of None \<Rightarrow> i_request item | Some r \<Rightarrow> r)"

text \<open>The try statement: the except clauses in their order, then the code after it.\<close>

definition fetch_and_record :: "worker \<Rightarrow> queue_item \<Rightarrow> id_plan option \<Rightarrow> arxiv_request \<Rightarrow> pass_result act" where
  "fetch_and_record wk item plan request =
     bindM (catchM (bindM (fetchM request) (\<lambda>result. returnM (Inr result))) (\<lambda>e. returnM (Inl e))) (\<lambda>answer.
     case answer of
       Inr result \<Rightarrow> on_result wk item plan result
     | Inl e \<Rightarrow>
        (case e of
           RateLimitedError retry_after status msg \<Rightarrow> on_rate_limited wk item plan retry_after status msg
         | TransientFetchError status msg \<Rightarrow> on_transient_failure wk item plan status msg
         | NonRetryableFetchError status msg \<Rightarrow> on_non_retryable wk item plan status msg
         | HuldraFetchError status msg \<Rightarrow> on_fetch_error wk plan status msg e
         | _ \<Rightarrow> raiseM e))"

definition fetch_before_deadline :: "worker \<Rightarrow> queue_item \<Rightarrow> id_plan option \<Rightarrow> pass_result act" where
  "fetch_before_deadline wk item plan =
     (let request = planned_request item plan in
      bindM (read_deadline item) (\<lambda>deadline.
      case deadline of
        None \<Rightarrow> fetch_and_record wk item plan request
      | Some limit \<Rightarrow>
          bindM utc_now (\<lambda>t.
          if total_seconds (limit - t) > 0
          then fetch_and_record wk item plan (clip_timeout wk (total_seconds (limit - t)) request)
          else
            bindM (check_deadlines item) (\<lambda>err.
            budget_verdict wk item plan err
              (bindM (read_deadline item) (\<lambda>again.
               case again of
                 None \<Rightarrow> fetch_and_record wk item plan
                           (clip_timeout wk (request_timeout_seconds (wk_settings wk)) request)
               | Some limit2 \<Rightarrow> bindM utc_now (\<lambda>t2.
                   fetch_and_record wk item plan (clip_timeout wk (total_seconds (limit2 - t2)) request))))))))"

definition fetch_when_owned :: "worker \<Rightarrow> queue_item \<Rightarrow> id_plan option \<Rightarrow> pass_result act" where
  "fetch_when_owned wk item plan =
     (let ttl = fetch_ownership_ttl wk item in
      bindM (gate_fetch_ownership wk item plan ttl) (\<lambda>(plan1, ended1).
      case ended1 of
        Some r \<Rightarrow> returnM r
      | None \<Rightarrow>
          bindM (reserve_budgets item) (\<lambda>err1.
          budget_verdict wk item plan1 err1
            (bindM (gate_fetch_ownership wk item plan1 ttl) (\<lambda>(plan2, ended2).
             case ended2 of
               Some r \<Rightarrow> returnM r
             | None \<Rightarrow>
                 bindM (check_deadlines item) (\<lambda>err2.
                 budget_verdict wk item plan2 err2 (fetch_before_deadline wk item plan2)))))))"

subsection \<open>One pass\<close>

definition denied_item :: "worker \<Rightarrow> queue_item \<Rightarrow> id_plan option \<Rightarrow> rate_limit_decision \<Rightarrow> pass_result act" where
  "denied_item wk item plan decision =
     bindM (case decision_cooldown_until decision of
              Some t \<Rightarrow> returnM t | None \<Rightarrow> bindM utc_now (\<lambda>t. returnM (poll_wake wk t))) (\<lambda>next_attempt.
       thenM (delay_item item (Some next_attempt) (blocked_reason decision) (blocked_reason decision) DELAYED)
      (thenM (release_id_plan wk plan)
      (thenM (worker_done wk (Some next_attempt) (blocked_reason decision) (blocked_reason decision))
        (returnM (blocked_result item
           (if blocked_reason decision = Some ''cooldown'' then ''cooling_down'' else ''blocked'')
           (decision_cooldown_until decision) (blocked_reason decision) None)))))"

definition fetch_when_allowed :: "worker \<Rightarrow> queue_item \<Rightarrow> id_plan option \<Rightarrow> pass_result act" where
  "fetch_when_allowed wk item plan =
     bindM (before_request (wk_limiter wk) (wk_token wk) None) (\<lambda>decision.
     if \<not> can_fetch decision then denied_item wk item plan decision
     else
       thenM (if wait_seconds decision > 0 then sleepM (wait_seconds decision) else returnM ())
         (fetch_when_owned wk item plan))"

definition process_item :: "worker \<Rightarrow> queue_item \<Rightarrow> pass_result act" where
  "process_item wk item =
     bindM (read_completed_cache (i_cache_key item)) (\<lambda>cached.
     if cached \<noteq> None \<and> i_work_kind item = FETCH_MISSING
     then thenM (complete_item item) (served_from_cache wk item (c_result_count (the cached)))
     else
       bindM (plan_id_list_fetch wk item) (\<lambda>plan.
       case plan of
         None \<Rightarrow> fetch_when_allowed wk item None
       | Some p \<Rightarrow>
           if fetch_request p = None \<and> plan_blocked_until p = None then
              bindM (stored_papers p) (\<lambda>ps.
              thenM (record_completed item ps (Some (int (length ps))) 200 0)
             (thenM (complete_item item) (served_from_cache wk item (int (length ps)))))
           else if plan_blocked_until p \<noteq> None then
              thenM (delay_item item (plan_blocked_until p) (Some ''id_fetch_reserved'')
                       (Some ''id fetch reserved by another worker'') DELAYED)
             (thenM (worker_done wk (plan_blocked_until p) (Some ''id_fetch_reserved'')
                       (Some ''id fetch reserved by another worker''))
               (returnM (blocked_result item ''blocked'' (plan_blocked_until p) (Some ''id_fetch_reserved'') None)))
           else fetch_when_allowed wk item (Some p)))"

definition run_once :: "worker \<Rightarrow> string list option \<Rightarrow> pass_result act" where
  "run_once wk target_cache_keys =
     thenM (worker_started wk)
      (bindM (tx_now (claim_next_queue_item (wk_token wk) (queue_claim_timeout_seconds (wk_settings wk))
         target_cache_keys None)) (\<lambda>claimed.
       case claimed of
         None \<Rightarrow> bindM utc_now (\<lambda>t. thenM (worker_done wk (Some (poll_wake wk t)) None None) (returnM idle_result))
       | Some item \<Rightarrow> process_item wk item))"

end
