(* ===== verification/Huldra_Programs.thy ===== *)
theory Huldra_Programs
  imports Huldra_World
begin

text \<open>
  A rely logic for the actions of Huldra_World. triple R G P m Q E says: in a world that runs under
  R (between any two transactions the other processes change the database only along the steps of
  R, and the clock gives only times of R), if P holds of the database at the start, then m makes
  only upstream calls (with the database of that moment) that satisfy G, ends with Q when it
  returns and with E when it raises. Assertions that the steps of R preserve are stable; the rules
  ask for stability once per transaction.
\<close>

record rely =
  steps :: "db \<Rightarrow> db \<Rightarrow> bool"
  times :: "datetime \<Rightarrow> bool"

definition stable :: "rely \<Rightarrow> (db \<Rightarrow> bool) \<Rightarrow> bool" where
  "stable R P \<longleftrightarrow> (\<forall>d d'. steps R d d' \<longrightarrow> P d \<longrightarrow> P d')"

definition runs_under :: "rely \<Rightarrow> world \<Rightarrow> bool" where
  "runs_under R w \<longleftrightarrow> (\<forall>n d. steps R d (others w n d)) \<and> (\<forall>n. times R (clock w n))"

lemma runs_underD: "runs_under R w \<Longrightarrow> steps R d (others w n d)" "runs_under R w \<Longrightarrow> times R (clock w n)"
  by (simp_all add: runs_under_def)

lemma runs_under_env: "env w' = env w \<Longrightarrow> runs_under R w' = runs_under R w"
  by (simp add: env_def runs_under_def)

definition triple ::
  "rely \<Rightarrow> (arxiv_request \<times> db \<Rightarrow> bool) \<Rightarrow> (db \<Rightarrow> bool) \<Rightarrow> 'a act \<Rightarrow> ('a \<Rightarrow> db \<Rightarrow> bool)
   \<Rightarrow> (exn \<Rightarrow> db \<Rightarrow> bool) \<Rightarrow> bool" where
  "triple R G P m Q E \<longleftrightarrow> (\<forall>w. runs_under R w \<longrightarrow> P (store w) \<longrightarrow>
     env (snd (m w)) = env w \<and>
     (\<exists>rs. fetches (snd (m w)) = fetches w @ rs \<and> list_all G rs) \<and>
     (case fst (m w) of Inl e \<Rightarrow> E e (store (snd (m w))) | Inr x \<Rightarrow> Q x (store (snd (m w)))))"

lemma triple_at:
  assumes "triple R G P m Q E" "runs_under R w" "P (store w)" "m w = (r, w')"
  shows "env w' = env w" "\<exists>rs. fetches w' = fetches w @ rs \<and> list_all G rs"
    "case r of Inl e \<Rightarrow> E e (store w') | Inr x \<Rightarrow> Q x (store w')"
proof -
  have "env (snd (m w)) = env w \<and> (\<exists>rs. fetches (snd (m w)) = fetches w @ rs \<and> list_all G rs) \<and>
      (case fst (m w) of Inl e \<Rightarrow> E e (store (snd (m w))) | Inr x \<Rightarrow> Q x (store (snd (m w))))"
    using assms(1-3) unfolding triple_def by blast
  then show "env w' = env w" "\<exists>rs. fetches w' = fetches w @ rs \<and> list_all G rs"
    "case r of Inl e \<Rightarrow> E e (store w') | Inr x \<Rightarrow> Q x (store w')"
    unfolding assms(4) fst_conv snd_conv by blast+
qed

lemma tripleI:
  assumes "\<And>w r w'. \<lbrakk>runs_under R w; P (store w); m w = (r, w')\<rbrakk> \<Longrightarrow>
    env w' = env w \<and> (\<exists>rs. fetches w' = fetches w @ rs \<and> list_all G rs) \<and>
    (case r of Inl e \<Rightarrow> E e (store w') | Inr x \<Rightarrow> Q x (store w'))"
  shows "triple R G P m Q E"
  unfolding triple_def using assms by (metis prod.collapse)

lemma stableD: "stable R P \<Longrightarrow> steps R d d' \<Longrightarrow> P d \<Longrightarrow> P d'"
  by (auto simp: stable_def)

lemma stable_conj: "stable R P \<Longrightarrow> stable R Q \<Longrightarrow> stable R (\<lambda>d. P d \<and> Q d)"
  by (auto simp: stable_def)

lemma triple_pre: "triple R G P m Q E \<Longrightarrow> (\<And>d. P' d \<Longrightarrow> P d) \<Longrightarrow> triple R G P' m Q E"
  unfolding triple_def by blast

lemma triple_post:
  assumes "triple R G P m Q E" "\<And>x d. Q x d \<Longrightarrow> Q' x d" "\<And>e d. E e d \<Longrightarrow> E' e d"
  shows "triple R G P m Q' E'"
  using assms unfolding triple_def by (fastforce split: sum.split)

lemma triple_return: "(\<And>d. P d \<Longrightarrow> Q x d) \<Longrightarrow> triple R G P (returnM x) Q E"
  by (simp add: triple_def env_def returnM_def)

lemma triple_raise: "(\<And>d. P d \<Longrightarrow> E e d) \<Longrightarrow> triple R G P (raiseM e) Q E"
  by (simp add: triple_def env_def raiseM_def)

lemma triple_now: "(\<And>t d. P d \<Longrightarrow> Q t d) \<Longrightarrow> triple R G P utc_now Q E"
  by (simp add: triple_def env_def utc_now_def)

lemma triple_uuid: "(\<And>u d. P d \<Longrightarrow> Q u d) \<Longrightarrow> triple R G P uuid4 Q E"
  by (simp add: triple_def env_def uuid4_def)

lemma triple_monotonic: "(\<And>t d. P d \<Longrightarrow> Q t d) \<Longrightarrow> triple R G P monotonic Q E"
  by (simp add: triple_def env_def monotonic_def)

lemma triple_sleep: "(\<And>d. P d \<Longrightarrow> Q () d) \<Longrightarrow> triple R G P (sleepM s) Q E"
  by (simp add: triple_def env_def sleepM_def)

lemma triple_fetch: "(\<And>d. P d \<Longrightarrow> G (r, d)) \<Longrightarrow> (\<And>x d. P d \<Longrightarrow> Q x d) \<Longrightarrow> (\<And>e d. P d \<Longrightarrow> E e d)
    \<Longrightarrow> triple R G P (fetchM r) Q E"
  by (auto simp: triple_def env_def fetchM_def split: sum.split)

lemma triple_tx:
  assumes "stable R P" and "\<And>d. P d \<Longrightarrow> Q (fst (f d)) (snd (f d))"
  shows "triple R G P (tx f) Q E"
proof (rule tripleI)
  fix w r w' assume w: "runs_under R w" "P (store w)" "tx f w = (r, w')"
  let ?d = "others w (txs w) (store w)"
  have "P ?d" using runs_underD(1) [OF w(1)] w(2) stableD [OF assms(1)] by blast
  from assms(2) [OF this] w(3) show "env w' = env w \<and> (\<exists>rs. fetches w' = fetches w @ rs \<and> list_all G rs) \<and>
      (case r of Inl e \<Rightarrow> E e (store w') | Inr x \<Rightarrow> Q x (store w'))"
    by (auto simp: env_def tx_def acquire_lock_def Let_def split: prod.splits)
qed

lemma triple_tx_do:
  assumes "stable R P" and "\<And>d. P d \<Longrightarrow> Q () (f d)"
  shows "triple R G P (tx_do f) Q E"
  unfolding tx_do_def by (rule triple_tx [OF assms(1)]) (simp add: assms(2))

lemma triple_read:
  assumes "stable R P" and "\<And>d. P d \<Longrightarrow> Q (f d) d"
  shows "triple R G P (readM f) Q E"
  unfolding readM_def by (rule triple_tx [OF assms(1)]) (simp add: assms(2))

text \<open>Here the clock reading of the transaction is one the world can give.\<close>

lemma triple_tx_now_times:
  assumes "stable R P" and "\<And>t d. times R t \<Longrightarrow> P d \<Longrightarrow> Q (fst (f t d)) (snd (f t d))"
  shows "triple R G P (tx_now f) Q E"
proof (rule tripleI)
  fix w r w' assume w: "runs_under R w" "P (store w)" "tx_now f w = (r, w')"
  let ?d = "others w (txs w) (store w)"
  have "P ?d" using runs_underD(1) [OF w(1)] w(2) stableD [OF assms(1)] by blast
  from assms(2) [OF runs_underD(2) [OF w(1)] this, of "reads w"] w(3)
  show "env w' = env w \<and> (\<exists>rs. fetches w' = fetches w @ rs \<and> list_all G rs) \<and>
      (case r of Inl e \<Rightarrow> E e (store w') | Inr x \<Rightarrow> Q x (store w'))"
    by (auto simp: env_def tx_now_def acquire_lock_def Let_def split: prod.splits)
qed

lemma triple_tx_now:
  "stable R P \<Longrightarrow> (\<And>t d. P d \<Longrightarrow> Q (fst (f t d)) (snd (f t d))) \<Longrightarrow> triple R G P (tx_now f) Q E"
  by (rule triple_tx_now_times)

lemma triple_tx_try:
  assumes "stable R P" and "\<And>d. P d \<Longrightarrow> (case fst (f d) of Inr x \<Rightarrow> Q x (snd (f d)) | Inl e \<Rightarrow> E (StoreExn e) (snd (f d)))"
  shows "triple R G P (tx_try f) Q E"
proof (rule tripleI)
  fix w r w' assume w: "runs_under R w" "P (store w)" "tx_try f w = (r, w')"
  let ?d = "others w (txs w) (store w)"
  have "P ?d" using runs_underD(1) [OF w(1)] w(2) stableD [OF assms(1)] by blast
  from assms(2) [OF this] w(3) show "env w' = env w \<and> (\<exists>rs. fetches w' = fetches w @ rs \<and> list_all G rs) \<and>
      (case r of Inl e \<Rightarrow> E e (store w') | Inr x \<Rightarrow> Q x (store w'))"
    by (auto simp: env_def tx_try_def acquire_lock_def Let_def split: prod.splits sum.splits)
qed

lemma triple_tx_at:
  assumes "stable R P" and "\<And>t d. P d \<Longrightarrow> Q (fst (f t d)) (snd (f t d))"
  shows "triple R G P (tx_at now f) Q E"
  by (cases now) (simp_all add: tx_at_def triple_tx_now triple_tx assms)

lemma triple_now_or: "(\<And>t d. P d \<Longrightarrow> Q t d) \<Longrightarrow> triple R G P (now_or now) Q E"
  by (cases now) (auto simp: now_or_def intro: triple_now triple_return)

lemma triple_bind:
  assumes "triple R G P m Q' E" and "\<And>x. triple R G (Q' x) (k x) Q E"
  shows "triple R G P (bindM m k) Q E"
proof (rule tripleI)
  fix w r w' assume w: "runs_under R w" "P (store w)" "bindM m k w = (r, w')"
  obtain s w1 where m: "m w = (s, w1)" by fastforce
  note 1 = triple_at [OF assms(1) w(1,2) m]
  show "env w' = env w \<and> (\<exists>rs. fetches w' = fetches w @ rs \<and> list_all G rs) \<and>
      (case r of Inl e \<Rightarrow> E e (store w') | Inr x \<Rightarrow> Q x (store w'))"
  proof (cases s)
    case (Inl e)
    with m 1 w(3) show ?thesis by (auto simp: bindM_def)
  next
    case (Inr x)
    with m w(3) have k: "k x w1 = (r, w')" by (simp add: bindM_def)
    have "runs_under R w1" "Q' x (store w1)" using 1 w(1) Inr runs_under_env [of w1 w] by simp_all
    from triple_at [OF assms(2) this k] 1 show ?thesis by auto
  qed
qed

lemma triple_then:
  "triple R G P m (\<lambda>_. Q') E \<Longrightarrow> triple R G Q' k Q E \<Longrightarrow> triple R G P (thenM m k) Q E"
  unfolding thenM_def by (rule triple_bind)

lemma triple_catch:
  assumes "triple R G P m Q E'" and "\<And>e. triple R G (E' e) (h e) Q E"
  shows "triple R G P (catchM m h) Q E"
proof (rule tripleI)
  fix w r w' assume w: "runs_under R w" "P (store w)" "catchM m h w = (r, w')"
  obtain s w1 where m: "m w = (s, w1)" by fastforce
  note 1 = triple_at [OF assms(1) w(1,2) m]
  show "env w' = env w \<and> (\<exists>rs. fetches w' = fetches w @ rs \<and> list_all G rs) \<and>
      (case r of Inl e \<Rightarrow> E e (store w') | Inr x \<Rightarrow> Q x (store w'))"
  proof (cases s)
    case (Inr x)
    with m 1 w(3) show ?thesis by (auto simp: catchM_def)
  next
    case (Inl e)
    with m w(3) have k: "h e w1 = (r, w')" by (simp add: catchM_def)
    have "runs_under R w1" "E' e (store w1)" using 1 w(1) Inl runs_under_env [of w1 w] by simp_all
    from triple_at [OF assms(2) this k] 1 show ?thesis by auto
  qed
qed

text \<open>try m finally f, where f has the last word whatever m did.\<close>

lemma triple_finally:
  assumes "triple R G P m (\<lambda>_. Q') (\<lambda>_. Q')" and "triple R G Q' f (\<lambda>_. S) (\<lambda>_. S)"
  shows "triple R G P (finallyM m f) (\<lambda>_. S) (\<lambda>_. S)"
proof (rule tripleI)
  fix w r w' assume w: "runs_under R w" "P (store w)" "finallyM m f w = (r, w')"
  obtain s w1 where m: "m w = (s, w1)" by fastforce
  obtain u w2 where f: "f w1 = (u, w2)" by fastforce
  note 1 = triple_at [OF assms(1) w(1,2) m]
  have Q: "runs_under R w1" "Q' (store w1)" using 1 w(1) runs_under_env [of w1 w] by (simp_all split: sum.splits)
  note 2 = triple_at [OF assms(2) Q f]
  have w2: "w' = w2" using w(3) m f by (auto simp: finallyM_def split: sum.splits)
  have "S (store w2)" using 2(3) by (simp split: sum.splits)
  with 1 2 w2 show "env w' = env w \<and> (\<exists>rs. fetches w' = fetches w @ rs \<and> list_all G rs) \<and>
      (case r of Inl e \<Rightarrow> S (store w') | Inr x \<Rightarrow> S (store w'))"
    by (auto split: sum.split)
qed

text \<open>The same when neither m nor f can raise.\<close>

lemma triple_finally_total:
  assumes "triple R G P m (\<lambda>_. Q') (\<lambda>_ _. False)" and "triple R G Q' f (\<lambda>_. S) (\<lambda>_ _. False)"
  shows "triple R G P (finallyM m f) (\<lambda>_. S) E"
proof (rule tripleI)
  fix w r w' assume w: "runs_under R w" "P (store w)" "finallyM m f w = (r, w')"
  obtain s w1 where m: "m w = (s, w1)" by fastforce
  obtain u w2 where f: "f w1 = (u, w2)" by fastforce
  note 1 = triple_at [OF assms(1) w(1,2) m]
  have Q: "runs_under R w1" "Q' (store w1)" and s: "\<exists>x. s = Inr x"
    using 1 w(1) runs_under_env [of w1 w] by (simp_all split: sum.splits)
  note 2 = triple_at [OF assms(2) Q f]
  obtain x y where "s = Inr x" "u = Inr y" using s 2(3) by (cases u) auto
  then have "w' = w2" "r = Inr x" using w(3) m f by (auto simp: finallyM_def)
  with 1 2 \<open>u = Inr y\<close> show "env w' = env w \<and> (\<exists>rs. fetches w' = fetches w @ rs \<and> list_all G rs) \<and>
      (case r of Inl e \<Rightarrow> E e (store w') | Inr x \<Rightarrow> S (store w'))"
    by auto
qed

text \<open>An action that calls nothing upstream, when nothing is claimed of the database after it.\<close>

lemma triple_silent:
  assumes "fetching 0 (\<lambda>_. True) m"
  shows "triple R G P m (\<lambda>_ _. True) (\<lambda>_ _. True)"
proof (rule tripleI)
  fix w r w' assume "m w = (r, w')"
  from assms this obtain rs where "still w' = still w" "fetches w' = fetches w @ rs" "length rs \<le> 0"
    by (rule fetchingE)
  then show "env w' = env w \<and> (\<exists>rs. fetches w' = fetches w @ rs \<and> list_all G rs) \<and>
      (case r of Inl e \<Rightarrow> True | Inr x \<Rightarrow> True)"
    by (simp add: still_def split: sum.split)
qed

text \<open>Derived rules.\<close>

lemma bind_now: "(\<And>t. triple R G P (k t) Q E) \<Longrightarrow> triple R G P (bindM utc_now k) Q E"
  by (rule triple_bind [where Q' = "\<lambda>_. P"]) (auto intro: triple_now)

lemma then_sleep: "triple R G P k Q E \<Longrightarrow> triple R G P (thenM (if b then sleepM s else returnM ()) k) Q E"
  by (rule triple_then [where Q' = P]) (auto intro: triple_sleep triple_return)

lemma bind_read: "(\<And>x. triple R G P (k x) Q E) \<Longrightarrow> stable R P \<Longrightarrow> triple R G P (bindM (readM f) k) Q E"
  by (rule triple_bind [where Q' = "\<lambda>_. P"]) (auto intro: triple_read)

lemma bind_now_or: "(\<And>t. triple R G P (k t) Q E) \<Longrightarrow> triple R G P (bindM (now_or now) k) Q E"
  by (rule triple_bind [where Q' = "\<lambda>_. P"]) (auto intro: triple_now_or)

lemma triple_never: "triple R G (\<lambda>_. False) m Q E"
  by (simp add: triple_def)

lemma triple_if: "(b \<Longrightarrow> triple R G P m Q E) \<Longrightarrow> (\<not> b \<Longrightarrow> triple R G P m' Q E) \<Longrightarrow> triple R G P (if b then m else m') Q E"
  by simp

lemma triple_ex: "(\<And>x. triple R G (P x) m Q E) \<Longrightarrow> triple R G (\<lambda>d. \<exists>x. P x d) m Q E"
  unfolding triple_def by blast

lemma triple_pure: "(b \<Longrightarrow> triple R G P m Q E) \<Longrightarrow> triple R G (\<lambda>d. b \<and> P d) m Q E"
  unfolding triple_def by blast

lemma triple_try_else:
  assumes "triple R G P m Q' E'" "\<And>e. triple R G (E' e) (h e) Q E" "\<And>x. triple R G (Q' x) (k x) Q E"
  shows "triple R G P (try_elseM m h k) Q E"
proof (rule tripleI)
  fix w r w' assume w: "runs_under R w" "P (store w)" "try_elseM m h k w = (r, w')"
  obtain s w1 where m: "m w = (s, w1)" by fastforce
  note 1 = triple_at [OF assms(1) w(1,2) m]
  have w1: "runs_under R w1" using 1 w(1) runs_under_env [of w1 w] by simp
  show "env w' = env w \<and> (\<exists>rs. fetches w' = fetches w @ rs \<and> list_all G rs) \<and>
      (case r of Inl e \<Rightarrow> E e (store w') | Inr x \<Rightarrow> Q x (store w'))"
  proof (cases s)
    case (Inl e)
    with m w(3) have k: "h e w1 = (r, w')" by (simp add: try_elseM_def)
    from triple_at [OF assms(2) w1 _ k] 1 Inl show ?thesis by auto
  next
    case (Inr x)
    with m w(3) have k: "k x w1 = (r, w')" by (simp add: try_elseM_def)
    from triple_at [OF assms(3) w1 _ k] 1 Inr show ?thesis by auto
  qed
qed

lemma triple_oai: "(\<And>x d. P d \<Longrightarrow> Q x d) \<Longrightarrow> (\<And>e d. P d \<Longrightarrow> E e d) \<Longrightarrow> triple R G P (oaiM c) Q E"
  by (auto simp: triple_def env_def oaiM_def split: sum.split)

lemma triple_now_times: "(\<And>t d. times R t \<Longrightarrow> P d \<Longrightarrow> Q t d) \<Longrightarrow> triple R G P utc_now Q E"
  by (auto simp: triple_def env_def utc_now_def runs_under_def)

lemma bind_uuid: "(\<And>u. triple R G P (k u) Q E) \<Longrightarrow> triple R G P (bindM uuid4 k) Q E"
  by (rule triple_bind [where Q' = "\<lambda>_. P"]) (auto intro: triple_uuid)

end
