(* ===== verification/Huldra_Passes.thy ===== *)
theory Huldra_Passes
  imports Huldra_Worker Huldra_Programs
begin

text \<open>
  What a pass of the worker keeps and promises, whatever the other processes do in between: it
  makes at most one upstream call, it gives back what it took, it calls upstream only while it
  owns its work, and it reports the truth about the cache.
\<close>

subsection \<open>At most one upstream call\<close>

lemma fetching_then: "fetching a P m \<Longrightarrow> fetching 0 P k \<Longrightarrow> fetching a P (thenM m k)"
  unfolding thenM_def using fetching_bind [of a P m 0 "\<lambda>_. k"] by simp

lemmas no_fetch = fetching_bind0 fetching_then0 fetching_prims fetching_limiter

lemma fetching_store_actions [simp, intro]:
  "fetching 0 P (worker_started wk)" "fetching 0 P (worker_done wk n c m)" "fetching 0 P (complete_item item)"
  "fetching 0 P (delay_item item n c m st)" "fetching 0 P (drop_lease wk)" "fetching 0 P (release_ids wk ids)"
  "fetching 0 P (release_id_plan wk plan)" "fetching 0 P (record_completed item ps tr us n')"
  "fetching 0 P (record_failure item cat m' us' n')" "fetching 0 P (fence wk item plan ttl)"
  "fetching 0 P (check_deadlines item)" "fetching 0 P (read_deadline item)" "fetching 0 P (key_error v)"
  by (auto simp: worker_started_def worker_done_def complete_item_def delay_item_def drop_lease_def release_ids_def
      release_id_plan_def record_completed_def record_failure_def fence_def check_deadlines_def read_deadline_def
      key_error_def intro!: no_fetch split: option.split)

lemma fetching_read_cache [simp, intro]: "fetching 0 P (read_completed_cache k)"
  unfolding read_completed_cache_def by (intro no_fetch) (auto intro!: no_fetch split: option.split)

lemma fetching_plans [simp, intro]:
  "fetching 0 P (plan_id_list_fetch wk item)" "fetching 0 P (revalidate_id_list_fetch_plan wk item p ttl)"
  "fetching 0 P (reserve_budgets item)" "fetching 0 P (stored_papers p)" "fetching 0 P (served_from_cache wk item n)"
  by (auto simp: plan_id_list_fetch_def revalidate_id_list_fetch_plan_def reserve_budgets_def Let_def
      stored_papers_def served_from_cache_def intro!: no_fetch)

lemma fetching_endings [simp, intro]:
  "fetching 0 P (defer_budgeted_item wk item plan)" "fetching 0 P (fail_budgeted_item wk item plan c)"
  "fetching 0 P (fetch_ownership_failure wk item plan why)" "fetching 0 P (denied_item wk item plan dcs)"
  "fetching 0 P (on_rate_limited wk item plan ra st m)" "fetching 0 P (on_transient_failure wk item plan st m)"
  "fetching 0 P (on_non_retryable wk item plan st m)" "fetching 0 P (on_fetch_error wk plan st m e)"
  "fetching 0 P (on_papers wk item plan ps tr us)"
  by (auto simp: defer_budgeted_item_def fail_budgeted_item_def fetch_ownership_failure_def denied_item_def
      on_rate_limited_def on_transient_failure_def on_non_retryable_def on_fetch_error_def on_papers_def Let_def
      intro!: no_fetch split: option.split)

lemma fetching_on_result [simp, intro]: "fetching 0 P (on_result wk item plan r)"
  by (auto simp: on_result_def Let_def intro!: no_fetch split: option.split)

lemma fetching_gate [simp, intro]: "fetching 0 P (gate_fetch_ownership wk item plan ttl)"
  by (auto simp: gate_fetch_ownership_def gate_id_plan_def final_fence_def intro!: no_fetch split: option.split)

lemma fetching_fetch_and_record: "fetching (Suc 0) (\<lambda>_. True) (fetch_and_record wk item plan q)"
proof -
  have "fetching (Suc 0) (\<lambda>_. True) (catchM (bindM (fetchM q) (\<lambda>result. returnM (Inr result))) (\<lambda>e. returnM (Inl e)))"
    using fetching_bind [OF fetching_fetch [of "\<lambda>_. True" q], of 0 "\<lambda>result. returnM (Inr result)"]
    by (intro fetching_catch) auto
  note bind = fetching_bind [OF this, where b = 0, simplified]
  show ?thesis
    unfolding fetch_and_record_def by (rule bind) (auto split: sum.split exn.split)
qed

lemma fetching_none: "fetching 0 P m \<Longrightarrow> fetching (Suc 0) P m"
  by (erule fetching_weaken) simp

lemmas fetching_once [simp, intro] = fetching_prims(1) [THEN fetching_none] fetching_endings [THEN fetching_none]
  fetching_plans(5) [THEN fetching_none]

lemma fetching_verdict:
  "fetching (Suc 0) (\<lambda>_. True) k \<Longrightarrow> fetching (Suc 0) (\<lambda>_. True) (budget_verdict wk item plan err k)"
  by (auto simp: budget_verdict_def intro: fetching_none split: option.split)

lemma fetching_before_deadline: "fetching (Suc 0) (\<lambda>_. True) (fetch_before_deadline wk item plan)"
  unfolding fetch_before_deadline_def Let_def
  by (intro fetching_bind0 fetching_store_actions)
    (auto intro!: fetching_bind0 fetching_verdict fetching_fetch_and_record split: option.split)

lemma fetching_when_owned: "fetching (Suc 0) (\<lambda>_. True) (fetch_when_owned wk item plan)"
  unfolding fetch_when_owned_def Let_def
  by (auto intro!: fetching_bind0 fetching_verdict fetching_before_deadline intro: fetching_none
      split: option.split)

lemma fetching_process: "fetching (Suc 0) (\<lambda>_. True) (process_item wk item)"
proof -
  have allowed: "fetching (Suc 0) (\<lambda>_. True) (fetch_when_allowed wk item plan)" for plan
    unfolding fetch_when_allowed_def
    by (auto intro!: fetching_bind0 fetching_then0 fetching_when_owned intro: fetching_none)
  show ?thesis
    unfolding process_item_def
    by (auto intro!: fetching_bind0 fetching_then0 allowed split: option.split)
qed

lemma fetching_run_once: "fetching (Suc 0) (\<lambda>_. True) (run_once wk keys)"
proof -
  have idle: "fetching (Suc 0) (\<lambda>_. True)
      (bindM utc_now (\<lambda>t. thenM (worker_done wk (Some (poll_wake wk t)) None None) (returnM idle_result)))"
    by (intro fetching_bind0 fetching_then0) auto
  show ?thesis
    unfolding run_once_def
    by (intro fetching_then0 fetching_bind0) (auto simp: idle fetching_process split: option.split)
qed

text \<open>C22. A pass of the worker makes at most one upstream call, whatever
  the other processes do to the database, whatever the clock and the upstream API answer, and
  whether the pass returns or raises.\<close>

theorem one_upstream_call_per_pass:
  "\<exists>rs. fetches (snd (run_once wk keys w)) = fetches w @ rs \<and> length rs \<le> 1"
  by (rule fetchingE [OF fetching_run_once prod.collapse [symmetric], of wk keys w]) auto

subsection \<open>What a token holds\<close>

definition owned :: "(db \<Rightarrow> 'r \<Rightarrow> (string \<times> datetime) option) \<Rightarrow> string \<Rightarrow> db \<Rightarrow> 'r set" where
  "owned holder w d = {k. \<exists>e. holder d k = Some (w, e)}"

definition holds_at_most :: "string \<Rightarrow> string set \<Rightarrow> string set \<Rightarrow> string set \<Rightarrow> db \<Rightarrow> bool" where
  "holds_at_most w L V C d \<longleftrightarrow> schema_ok d \<and> owned lease_holder w d \<subseteq> L \<and>
     owned reservation_holder w d \<subseteq> V \<and> owned claim_holder w d \<subseteq> C"

text \<open>The other processes use other tokens: they may take things from w, but give it nothing.\<close>

definition gives_nothing :: "string \<Rightarrow> db \<Rightarrow> db \<Rightarrow> bool" where
  "gives_nothing w d d' \<longleftrightarrow> (schema_ok d \<longrightarrow> schema_ok d') \<and>
     owned lease_holder w d' \<subseteq> owned lease_holder w d \<and>
     owned reservation_holder w d' \<subseteq> owned reservation_holder w d \<and>
     owned claim_holder w d' \<subseteq> owned claim_holder w d"

definition strangers :: "string \<Rightarrow> rely" where
  "strangers w = \<lparr>steps = gives_nothing w, times = (\<lambda>_. True)\<rparr>"

lemma stable_holds: "stable (strangers w) (holds_at_most w L V C)"
  by (auto simp: stable_def strangers_def gives_nothing_def holds_at_most_def)

lemma holds_mono: "holds_at_most w L V C d \<Longrightarrow> L \<subseteq> L' \<Longrightarrow> V \<subseteq> V' \<Longrightarrow> C \<subseteq> C' \<Longrightarrow> holds_at_most w L' V' C' d"
  by (auto simp: holds_at_most_def)

lemma owned_leases_same: "leases d' = leases d \<Longrightarrow> owned lease_holder w d' = owned lease_holder w d"
  by (simp add: owned_def lease_holder_def get_lease_def)

lemma owned_reservations_same:
  "reservations d' = reservations d \<Longrightarrow> owned reservation_holder w d' = owned reservation_holder w d"
  by (simp add: owned_def reservation_holder_def get_reservation_def)

lemma owned_claims_same:
  assumes "\<And>k. claim_holder d' k = claim_holder d k"
  shows "owned claim_holder w d' = owned claim_holder w d"
proof -
  have "claim_holder d' = claim_holder d" using assms by (rule ext)
  then show ?thesis by (simp add: owned_def)
qed

lemma owned_claims_same_queue:
  "queue_items d' = queue_items d \<Longrightarrow> owned claim_holder w d' = owned claim_holder w d"
  by (rule owned_claims_same) (rule claim_holder_same)

lemmas owned_same = owned_leases_same owned_reservations_same owned_claims_same_queue

text \<open>An operation that leaves leases, reservations and claims alone.\<close>

lemma holds_frame:
  assumes "holds_at_most w L V C d" "schema_ok d'" "leases d' = leases d" "reservations d' = reservations d"
    and "\<And>k. claim_holder d' k = claim_holder d k"
  shows "holds_at_most w L V C d'"
  using assms(1,2) owned_leases_same [OF assms(3)] owned_reservations_same [OF assms(4)] owned_claims_same [OF assms(5)]
  by (simp add: holds_at_most_def)

lemma holds_frame_queue:
  assumes "holds_at_most w L V C d" "schema_ok d'" "leases d' = leases d" "reservations d' = reservations d"
    and "queue_items d' = queue_items d"
  shows "holds_at_most w L V C d'"
  by (rule holds_frame [OF assms(1-4)]) (simp add: claim_holder_def get_queue_row_def assms(5))

lemma holdsD: "holds_at_most w L V C d \<Longrightarrow> schema_ok d"
  by (simp add: holds_at_most_def)

lemma holds_release_lease:
  assumes "holds_at_most w L V C d"
  shows "holds_at_most w (L - {n}) V C (release_lease n w d)"
proof -
  have ok: "schema_ok d" using holdsD [OF assms] .
  have "owned lease_holder w (release_lease n w d) \<subseteq> owned lease_holder w d - {n}"
    by (auto simp: owned_def lease_holder_def get_lease_release [OF schema_okD(8) [OF ok]] lease_owned_def split: if_splits)
  moreover have "owned claim_holder w (release_lease n w d) = owned claim_holder w d"
    "owned reservation_holder w (release_lease n w d) = owned reservation_holder w d"
    by (intro owned_same; simp)+
  ultimately show ?thesis using assms by (auto simp: holds_at_most_def schema_ok_release_lease)
qed

lemma holds_acquire_lease:
  assumes "holds_at_most w L V C d" "acquire_lease n w ttl now d = (ok, d')"
  shows "holds_at_most w (if ok then insert n L else L) V C d'"
proof (cases ok)
  case True
  have run: "acquire_lease n w ttl now d = (True, d')" using assms(2) True by simp
  have d': "d' = snd (acquire_lease n w ttl now d)" by (simp add: assms(2))
  have "owned lease_holder w d' \<subseteq> insert n (owned lease_holder w d)"
    by (auto simp: owned_def lease_holder_def get_lease_acquire [OF run] split: if_splits)
  moreover have "queue_items d' = queue_items d" "reservations d' = reservations d"
    unfolding d' by (simp_all add: acquire_lease_def Let_def)
  then have "owned claim_holder w d' = owned claim_holder w d" "owned reservation_holder w d' = owned reservation_holder w d"
    by (intro owned_same; simp)+
  moreover have "schema_ok d'" unfolding d' using schema_ok_acquire_lease [OF holdsD [OF assms(1)]] .
  ultimately show ?thesis using assms(1) True by (auto simp: holds_at_most_def)
next
  case False
  then have "acquire_lease n w ttl now d = (False, d')" using assms(2) by simp
  from acquire_lease_False [OF this] assms(1) False show ?thesis by simp
qed

lemma holds_complete:
  assumes "holds_at_most w L V C d"
  shows "holds_at_most w L V (C - {rid}) (complete_queue_item rid now d)"
proof -
  have "claim_holder (complete_queue_item rid now d) k = (if k = rid then None else claim_holder d k)" for k
  proof (cases "k = rid")
    case True
    then show ?thesis
      by (auto simp: claim_holder_def complete_queue_item_def get_queue_row_def table_simps split: option.split dest: tbl_get_SomeD)
  next
    case False
    have "claim_holder (complete_queue_item rid now d) k = claim_holder d k"
      by (rule claim_holder_map [where f = "\<lambda>x. if q_request_id x = rid then x\<lparr>q_status := COMPLETED, q_completed_at := Some now,
              q_updated_at := now, q_claimed_by := None, q_claimed_until := None, q_error_category := None,
              q_error_message := None\<rparr> else x"])
        (use False get_queue_row_id [of k d] in \<open>auto simp: complete_queue_item_def tbl_update_def\<close>)
    with False show ?thesis by simp
  qed
  then have "owned claim_holder w (complete_queue_item rid now d) \<subseteq> owned claim_holder w d - {rid}"
    by (auto simp: owned_def split: if_splits)
  moreover have "owned lease_holder w (complete_queue_item rid now d) = owned lease_holder w d"
    "owned reservation_holder w (complete_queue_item rid now d) = owned reservation_holder w d"
    by (intro owned_same; simp add: complete_queue_item_def)+
  ultimately show ?thesis
    using assms by (auto simp: holds_at_most_def schema_ok_complete)
qed

lemma holds_release_item:
  assumes "holds_at_most w L V C d" "release_or_delay_queue_item rid t c m st now d = (res, d')" "st \<noteq> CLAIMED"
  shows "holds_at_most w L V (case res of Inr _ \<Rightarrow> C - {rid} | Inl _ \<Rightarrow> C) d'"
proof (cases res)
  case (Inl e)
  with assms show ?thesis by (auto simp: release_or_delay_queue_item_def Let_def split: if_splits)
next
  case (Inr u)
  let ?f = "\<lambda>x. if q_request_id x = rid then x\<lparr>q_status := st, q_next_attempt_at := t, q_updated_at := now,
      q_claimed_by := None, q_claimed_until := None, q_gate_closed := False, q_error_category := c,
      q_error_message := clip_message m\<rparr> else x"
  have d': "d' = d\<lparr>queue_items := map ?f (queue_items d)\<rparr>"
    using assms(2) Inr by (auto simp: release_or_delay_queue_item_def Let_def tbl_update_def split: if_splits)
  have "claim_holder d' k = (if k = rid then None else claim_holder d k)" for k
  proof (cases "k = rid")
    case True
    have "get_queue_row k d' = map_option ?f (get_queue_row k d)" by (simp add: d' get_queue_row_def tbl_get_map)
    with True assms(3) get_queue_row_id [of k d] show ?thesis
      by (cases "get_queue_row k d") (auto simp: claim_holder_def)
  next
    case False
    have "claim_holder d' k = claim_holder d k"
      by (rule claim_holder_map [where f = ?f]) (use False get_queue_row_id [of k d] in \<open>auto simp: d'\<close>)
    with False show ?thesis by simp
  qed
  then have "owned claim_holder w d' \<subseteq> owned claim_holder w d - {rid}" by (auto simp: owned_def split: if_splits)
  moreover have "owned lease_holder w d' = owned lease_holder w d"
    "owned reservation_holder w d' = owned reservation_holder w d"
    by (intro owned_same; simp add: d')+
  moreover have "schema_ok d'"
    using schema_ok_release [OF holdsD [OF assms(1)], of rid t c m st now] assms(2) by simp
  ultimately show ?thesis using assms(1) Inr by (auto simp: holds_at_most_def)
qed

lemma holds_release_ids:
  assumes "holds_at_most w L V C d"
  shows "holds_at_most w L (V - set ids) C (release_id_fetch_reservations ids w now d)"
proof -
  have ok: "schema_ok d" using holdsD [OF assms] .
  let ?d = "release_id_fetch_reservations ids w now d"
  have "get_reservation i ?d = (case get_reservation i d of None \<Rightarrow> None
      | Some v \<Rightarrow> if v_owner_token v = w \<and> v_arxiv_id v \<in> set ids then None else Some v)" for i
    by (simp add: get_reservation_def release_ids_reservations tbl_get_delete schema_okD(9) [OF ok])
  then have "owned reservation_holder w ?d \<subseteq> owned reservation_holder w d - set ids"
    using get_reservation_id by (fastforce simp: owned_def reservation_holder_def split: option.splits if_splits)
  moreover have "owned lease_holder w ?d = owned lease_holder w d"
    by (rule owned_leases_same) (simp add: release_id_fetch_reservations_def Let_def)
  moreover have "owned claim_holder w ?d = owned claim_holder w d"
    by (rule owned_claims_same) (rule claim_holder_wake [OF ok])
  ultimately show ?thesis using assms schema_ok_release_ids [OF ok] by (auto simp: holds_at_most_def)
qed

lemma holds_acquire_ids:
  assumes "holds_at_most w L V C d" "acquire_id_fetch_reservations ids w rid ttl now d = (res, d')"
  shows "holds_at_most w L (V \<union> set (acquired_ids res)) C d'"
proof -
  have ok: "schema_ok d" using holdsD [OF assms(1)] .
  have d': "d' = snd (acquire_id_fetch_reservations ids w rid ttl now d)" by (simp add: assms(2))
  have same: "leases d' = leases d" "queue_items d' = queue_items d"
    unfolding d' by (auto simp: acquire_id_fetch_reservations_def Let_def)
  have purge: "get_reservation i (purge_reservations now d) = Some v \<Longrightarrow> get_reservation i d = Some v" for i v
    by (auto simp: get_reservation_purge [OF ok] split: option.splits if_splits)
  from ok assms(2) have "owned reservation_holder w d' \<subseteq> owned reservation_holder w d \<union> set (acquired_ids res)"
  proof (cases rule: acquire_ids_cases)
    case (blocked v)
    then show ?thesis using purge by (auto simp: owned_def reservation_holder_def)
  next
    case acquired
    show ?thesis unfolding acquired(2,5)
      using purge by (auto simp: owned_def reservation_holder_def get_reservation_reserve_all split: if_splits)
  qed (simp_all)
  moreover have "schema_ok d'" unfolding d' using schema_ok_acquire_ids [OF ok] .
  ultimately show ?thesis using assms(1) same
    by (auto simp: holds_at_most_def owned_leases_same [OF same(1)] owned_claims_same_queue [OF same(2)])
qed

lemma holds_renew_ids:
  assumes "holds_at_most w L V C d"
  shows "holds_at_most w L V C (snd (renew_id_fetch_reservations ids w ttl now d))"
proof -
  have ok: "schema_ok d" using holdsD [OF assms] .
  let ?d = "snd (renew_id_fetch_reservations ids w ttl now d)"
  have same: "leases ?d = leases d" "queue_items ?d = queue_items d"
    by (auto simp: renew_id_fetch_reservations_def Let_def extend_reservations_def)
  have "owned reservation_holder w ?d \<subseteq> owned reservation_holder w d"
    by (auto simp: owned_def reservation_holder_def renew_id_fetch_reservations_def Let_def get_reservation_extend
        split: if_splits)
  then show ?thesis using assms schema_ok_renew_ids [OF ok]
    by (auto simp: holds_at_most_def owned_leases_same [OF same(1)] owned_claims_same_queue [OF same(2)])
qed

lemma holds_fence:
  assumes "holds_at_most w L V C d" "renew_worker_fetch_ownership rid w n ttl ids now d = (res, d')" "rid \<in> C"
  shows "holds_at_most w L V C d'"
proof (cases res)
  case (Some e)
  with assms show ?thesis by (auto elim: fence_cases)
next
  case None
  have ok: "schema_ok d" using holdsD [OF assms(1)] .
  note run = assms(2) [unfolded None]
  have "owned lease_holder w d' \<subseteq> owned lease_holder w d"
    by (auto simp: owned_def lease_holder_def fence_reads(1) [OF ok run] split: if_splits)
  moreover have "owned reservation_holder w d' \<subseteq> owned reservation_holder w d"
    by (auto simp: owned_def reservation_holder_def fence_reads(2) [OF ok run] split: if_splits)
  moreover have "owned claim_holder w d' \<subseteq> insert rid (owned claim_holder w d)"
    by (auto simp: owned_def claim_holder_def fence_reads(3) [OF ok run] split: if_splits)
  moreover have "schema_ok d'" using schema_ok_fence [OF ok, of rid w n ttl ids now] run by simp
  ultimately show ?thesis using assms(1,3) by (auto simp: holds_at_most_def)
qed

lemma holds_renew_lease:
  assumes "holds_at_most w L V C d" "renew_lease_if_owned n w ttl now d = (ok, d')"
  shows "holds_at_most w (if ok then L else L - {n}) V C d'"
proof -
  have sch: "schema_ok d" using holdsD [OF assms(1)] .
  show ?thesis
  proof (cases "lease_owned n w d")
    case True
    then have run: "ok" "d' = extend_lease now (n, w, ttl) d"
      using assms(2) by (auto simp: renew_lease_if_owned_def renew_leases_if_owned_def)
    have "owned lease_holder w d' \<subseteq> owned lease_holder w d"
      unfolding run(2) by (auto simp: owned_def lease_holder_def get_lease_extend split: if_splits)
    moreover have "owned claim_holder w d' = owned claim_holder w d"
      "owned reservation_holder w d' = owned reservation_holder w d"
      unfolding run(2) by (intro owned_same; simp)+
    moreover have "schema_ok d'" unfolding run(2) by (rule schema_ok_extend_lease [OF sch])
    ultimately show ?thesis using assms(1) run(1) by (auto simp: holds_at_most_def)
  next
    case False
    then have run: "\<not> ok" "d' = d"
      using assms(2) by (auto simp: renew_lease_if_owned_def renew_leases_if_owned_def)
    have "n \<notin> owned lease_holder w d"
      using False by (auto simp: owned_def lease_holder_def lease_owned_def)
    with assms(1) run show ?thesis by (auto simp: holds_at_most_def)
  qed
qed

lemma holds_claim_next:
  assumes "holds_at_most w L V C d" "claim_next_queue_item w ttl ks rs now d = (res, d')"
  shows "holds_at_most w L V (case res of None \<Rightarrow> C | Some item \<Rightarrow> insert (i_request_id item) C) d'"
proof -
  have ok: "schema_ok d" using holdsD [OF assms(1)] .
  from ok assms(2) show ?thesis
  proof (cases rule: claim_next_cases)
    case nothing
    with assms(1) show ?thesis by simp
  next
    case (claimed r)
    have "claim_holder d' k = claim_holder d k" if "k \<noteq> q_request_id r" for k
      by (rule claim_holder_map [where f = "\<lambda>x. if q_request_id x = q_request_id r
          then claim_row w (expiry now ttl) now x else x"])
        (use that get_queue_row_id [of k d] in \<open>auto simp: claimed(5)\<close>)
    then have "owned claim_holder w d' \<subseteq> insert (q_request_id r) (owned claim_holder w d)"
      by (auto simp: owned_def)
    moreover have "owned lease_holder w d' = owned lease_holder w d"
      "owned reservation_holder w d' = owned reservation_holder w d"
      by (intro owned_same; simp add: claimed(5))+
    moreover have "schema_ok d'" using schema_ok_claim [OF ok assms(2)] .
    ultimately show ?thesis using assms(1)
      by (auto simp: holds_at_most_def claimed(4) queue_item_from_row_def)
  qed
qed

lemma holds_reserve:
  assumes "holds_at_most w L V C d"
  shows "holds_at_most w L V C (snd (reserve_queue_item_upstream_request rid now d))"
proof -
  obtain res d' where run: "reserve_queue_item_upstream_request rid now d = (res, d')" by fastforce
  have "leases d' = leases d" "reservations d' = reservations d"
    using run by (cases rule: reserve_queue_item_cases; simp add: detach_invalid_queue_budgets_def)+
  moreover have "schema_ok d'" using schema_ok_reserve_item [OF holdsD [OF assms], of rid now] run by simp
  ultimately show ?thesis using holds_frame [OF assms, of d'] claim_holder_reserve [OF run] run by simp
qed

lemma holds_check:
  assumes "holds_at_most w L V C d"
  shows "holds_at_most w L V C (snd (check_queue_item_upstream_request_deadlines rid now d))"
proof -
  let ?d = "snd (check_queue_item_upstream_request_deadlines rid now d)"
  have "?d = d \<or> (\<exists>invalid. ?d = detach_invalid_queue_budgets rid invalid d)"
    by (auto simp: check_queue_item_upstream_request_deadlines_def Let_def)
  then show ?thesis
  proof
    assume "\<exists>invalid. ?d = detach_invalid_queue_budgets rid invalid d"
    then obtain invalid where d': "?d = detach_invalid_queue_budgets rid invalid d" by blast
    have "leases ?d = leases d" "reservations ?d = reservations d"
      unfolding d' by (simp_all add: detach_invalid_queue_budgets_def)
    then show ?thesis unfolding d'
      using holds_frame [OF assms schema_ok_detach_invalid [OF holdsD [OF assms]]] claim_holder_detach_invalid
      by blast
  qed (use assms in simp)
qed

end
