(* ===== verification/Huldra_Handback.thy ===== *)
theory Huldra_Handback
  imports Huldra_Passes
begin

text \<open>
  A pass of the worker gives back the lease, the reservations and the claim it took, on every path
  on which it returns and when the fetcher raises a HuldraFetchError. The rules below give the
  holdings of the worker's token after each helper of worker.py, and the pass composes them.
\<close>

subsection \<open>A pass gives back what it took\<close>

text \<open>What holds when a pass raises a HuldraFetchError; other exceptions promise nothing.\<close>

definition raised :: "string \<Rightarrow> string set \<Rightarrow> exn \<Rightarrow> db \<Rightarrow> bool" where
  "raised w C e d = (case e of HuldraFetchError _ _ \<Rightarrow> holds_at_most w {} {} C d | _ \<Rightarrow> True)"

abbreviation cleanup ::
  "worker \<Rightarrow> string set \<Rightarrow> (db \<Rightarrow> bool) \<Rightarrow> 'a act \<Rightarrow> ('a \<Rightarrow> db \<Rightarrow> bool) \<Rightarrow> bool" where
  "cleanup wk C P m Q \<equiv> triple (strangers (wk_token wk)) (\<lambda>_. True) P m Q (raised (wk_token wk) C)"

abbreviation has :: "worker \<Rightarrow> string set \<Rightarrow> string set \<Rightarrow> string set \<Rightarrow> db \<Rightarrow> bool" where
  "has wk \<equiv> holds_at_most (wk_token wk)"

lemma raised_simps [simp]: "raised w C (StoreExn e) d" "raised w C (OtherExn m) d"
  "raised w C (HuldraFetchError st m) d \<longleftrightarrow> holds_at_most w {} {} C d"
  by (simp_all add: raised_def)

text \<open>A statement outside leases, reservations and claims.\<close>

lemma cleanup_frame:
  assumes "\<And>d. schema_ok d \<Longrightarrow> schema_ok (f d)"
    and "\<And>d. leases (f d) = leases d" "\<And>d. reservations (f d) = reservations d" "\<And>d. queue_items (f d) = queue_items d"
  shows "cleanup wk C0 (has wk L V C) (tx_do f) (\<lambda>_. has wk L V C)"
  by (rule triple_tx_do [OF stable_holds]) (rule holds_frame_queue; simp add: assms holdsD)

lemma worker_state_frames [simp]:
  "queue_items (record_worker_heartbeat n wake c m t d) = queue_items d"
  "leases (record_worker_heartbeat n wake c m t d) = leases d"
  "reservations (record_worker_heartbeat n wake c m t d) = reservations d"
  by (simp_all add: record_worker_heartbeat_def)

lemma cleanup_done: "cleanup wk C0 (has wk L V C) (worker_done wk nx c m) (\<lambda>_. has wk L V C)"
  "cleanup wk C0 (has wk L V C) (worker_started wk) (\<lambda>_. has wk L V C)"
  unfolding worker_done_def worker_started_def
  by (rule bind_now, rule cleanup_frame; simp add: schema_ok_worker_ops)+

lemma cleanup_event: "cleanup wk C0 (has wk L V C) (tx_do (record_event ty p)) (\<lambda>_. has wk L V C)"
  by (rule cleanup_frame) (simp_all add: schema_ok_record_event)

lemma cleanup_complete: "cleanup wk C0 (has wk L V C) (complete_item item) (\<lambda>_. has wk L V (C - {i_request_id item}))"
  unfolding complete_item_def
  by (rule bind_now, rule triple_tx_do [OF stable_holds]) (rule holds_complete)

lemma cleanup_delay:
  "st \<noteq> CLAIMED \<Longrightarrow> cleanup wk C0 (has wk L V C) (delay_item item nx c m st) (\<lambda>_. has wk L V (C - {i_request_id item}))"
  unfolding delay_item_def
proof (rule bind_now, rule triple_tx_try [OF stable_holds])
  fix t d assume st: "st \<noteq> CLAIMED" and h: "has wk L V C d"
  obtain res d' where run: "release_or_delay_queue_item (i_request_id item) nx c m st t d = (res, d')" by fastforce
  from holds_release_item [OF h run st] run
  show "case fst (release_or_delay_queue_item (i_request_id item) nx c m st t d) of
      Inr x \<Rightarrow> has wk L V (C - {i_request_id item}) (snd (release_or_delay_queue_item (i_request_id item) nx c m st t d))
    | Inl e \<Rightarrow> raised (wk_token wk) C0 (StoreExn e) (snd (release_or_delay_queue_item (i_request_id item) nx c m st t d))"
    by (cases res) simp_all
qed

lemma cleanup_drop_lease: "cleanup wk C0 (has wk L V C) (drop_lease wk) (\<lambda>_. has wk (L - {lim_lease (wk_limiter wk)}) V C)"
  unfolding drop_lease_def by (rule triple_tx_do [OF stable_holds]) (rule holds_release_lease)

lemma cleanup_release_ids: "cleanup wk C0 (has wk L V C) (release_ids wk ids) (\<lambda>_. has wk L (V - set ids) C)"
  by (auto simp: release_ids_def intro!: bind_now triple_return triple_tx_do [OF stable_holds] holds_release_ids)

definition plan_ids :: "id_plan option \<Rightarrow> string set" where
  "plan_ids plan = (case plan of None \<Rightarrow> {} | Some p \<Rightarrow> set (reserved_ids p))"

lemma plan_ids_simps [simp]: "plan_ids None = {}" "plan_ids (Some p) = set (reserved_ids p)"
  by (simp_all add: plan_ids_def)

lemma cleanup_release_plan: "cleanup wk C0 (has wk L V C) (release_id_plan wk plan) (\<lambda>_. has wk L (V - plan_ids plan) C)"
  by (cases plan) (auto simp: release_id_plan_def intro!: cleanup_release_ids triple_return)

lemma cleanup_record:
  "cleanup wk C0 (has wk L V C) (record_completed item ps tr us n) (\<lambda>_. has wk L V C)"
  "cleanup wk C0 (has wk L V C) (record_failure item cat m us' n) (\<lambda>_. has wk L V C)"
proof -
  show "cleanup wk C0 (has wk L V C) (record_completed item ps tr us n) (\<lambda>_. has wk L V C)"
    unfolding record_completed_def
    by (rule bind_now, rule bind_now, rule cleanup_frame) (simp_all add: schema_ok_record_completed)
  have failure: "cleanup wk C0 (has wk L V C) (tx_try (record_cache_failure k rq cat m st cd us' n t)) (\<lambda>_. has wk L V C)"
    for k rq cat m st cd us' n t
  proof (rule triple_tx_try [OF stable_holds])
    fix d assume h: "has wk L V C d"
    have "has wk L V C (snd (record_cache_failure k rq cat m st cd us' n t d))"
      by (rule holds_frame_queue [OF h]) (simp_all add: schema_ok_record_failure holdsD [OF h])
    then show "case fst (record_cache_failure k rq cat m st cd us' n t d) of
        Inr x \<Rightarrow> has wk L V C (snd (record_cache_failure k rq cat m st cd us' n t d))
      | Inl e \<Rightarrow> raised (wk_token wk) C0 (StoreExn e) (snd (record_cache_failure k rq cat m st cd us' n t d))"
      by (simp split: sum.split)
  qed
  show "cleanup wk C0 (has wk L V C) (record_failure item cat m us' n) (\<lambda>_. has wk L V C)"
    unfolding record_failure_def by (rule bind_now, rule failure)
qed

lemma cleanup_rate_limited:
  "cleanup wk C0 (has wk L V C) (tx_try (record_rate_limited k rq cd st m t)) (\<lambda>_. has wk L V C)"
proof (rule triple_tx_try [OF stable_holds])
  fix d assume h: "has wk L V C d"
  have "has wk L V C (snd (record_rate_limited k rq cd st m t d))"
    unfolding record_rate_limited_def
    by (rule holds_frame_queue [OF h]) (simp_all add: schema_ok_record_failure holdsD [OF h])
  then show "case fst (record_rate_limited k rq cd st m t d) of
      Inr x \<Rightarrow> has wk L V C (snd (record_rate_limited k rq cd st m t d))
    | Inl e \<Rightarrow> raised (wk_token wk) C0 (StoreExn e) (snd (record_rate_limited k rq cd st m t d))"
    by (simp split: sum.split)
qed

lemma cleanup_read: "cleanup wk C0 (has wk L V C) (readM f) (\<lambda>_. has wk L V C)"
  by (rule triple_read [OF stable_holds])

lemma cleanup_rate_state: "cleanup wk C0 (has wk L V C) (tx_do (set_rate_state s)) (\<lambda>_. has wk L V C)"
  by (rule cleanup_frame) (simp_all add: schema_ok_set_rate_state)

lemma cleanup_finished:
  assumes "lim_lease l = n"
  shows "cleanup wk C0 (has wk L V C) (finished_event l (wk_token wk) p) (\<lambda>_. has wk (L - {n}) V C)"
  unfolding finished_event_def assms
proof (rule triple_finally_total)
  show "triple (strangers (wk_token wk)) (\<lambda>_. True) (has wk L V C)
      (tx_do (record_event ''upstream_request_finished'' p)) (\<lambda>_. has wk L V C) (\<lambda>_ _. False)"
    by (rule triple_tx_do [OF stable_holds]) (rule holds_frame_queue; simp add: schema_ok_record_event holdsD)
  show "triple (strangers (wk_token wk)) (\<lambda>_. True) (has wk L V C)
      (tx_do (release_lease n (wk_token wk))) (\<lambda>_. has wk (L - {n}) V C) (\<lambda>_ _. False)"
    by (rule triple_tx_do [OF stable_holds]) (rule holds_release_lease)
qed

text \<open>The three ends of a rate-limited call release the limiter's lease.\<close>

lemma cleanup_limiter_ends:
  assumes "lim_lease l = n"
  shows "cleanup wk C0 (has wk L V C) (after_success l (wk_token wk) status now) (\<lambda>_. has wk (L - {n}) V C)"
    and "cleanup wk C0 (has wk L V C) (after_failure l (wk_token wk) st msg now) (\<lambda>_. has wk (L - {n}) V C)"
    and "cleanup wk C0 (has wk L V C) (after_429 l (wk_token wk) ra status msg now) (\<lambda>_. has wk (L - {n}) V C)"
  unfolding after_success_def after_failure_def after_429_def after_rate_limit_def Let_def
  by (intro bind_now_or bind_read stable_holds cleanup_rate_state [THEN triple_then]
      cleanup_finished [OF assms, THEN triple_then] cleanup_finished [OF assms] triple_return | assumption)+

text \<open>before_request hands out the lease only with a permission to fetch.\<close>

lemma cleanup_started:
  "cleanup wk C0 (has wk L V C)
     (catchM (thenM (tx_do (set_rate_state s)) (tx_do (record_event ty p))) h) (\<lambda>_. has wk L V C)"
proof (rule triple_catch [where E' = "\<lambda>_ _. False"])
  show "triple (strangers (wk_token wk)) (\<lambda>_. True) (has wk L V C)
      (thenM (tx_do (set_rate_state s)) (tx_do (record_event ty p))) (\<lambda>_. has wk L V C) (\<lambda>_ _. False)"
  proof (rule triple_then; rule triple_tx_do [OF stable_holds])
    show "has wk L V C d \<Longrightarrow> has wk L V C (set_rate_state s d)" for d
      by (rule holds_frame_queue) (simp_all add: schema_ok_set_rate_state holdsD)
    show "has wk L V C d \<Longrightarrow> has wk L V C (record_event ty p d)" for d
      by (rule holds_frame_queue) (simp_all add: schema_ok_record_event holdsD)
  qed
qed (rule triple_never)

lemma can_fetch_denied [simp]: "\<not> can_fetch (denied r t)"
  by (simp add: denied_def)

lemma cleanup_before_request:
  assumes n: "lim_lease l = n"
  shows "cleanup wk C0 (has wk L V C) (before_request l (wk_token wk) now)
    (\<lambda>dcs. has wk (if can_fetch dcs then insert n L else L) V C)" (is "cleanup _ _ _ _ ?Q")
proof -
  let ?L = "insert n L"
  have renewed: "cleanup wk C0 (has wk ?L V C) (tx_at now (renew_lease_if_owned n (wk_token wk) ttl))
      (\<lambda>ok. has wk (if ok then ?L else ?L - {n}) V C)" for ttl
    by (rule triple_tx_at [OF stable_holds]) (rule holds_renew_lease [OF _ prod.collapse [symmetric]])
  have refused: "cleanup wk C0 (has wk (?L - {n}) V C) (returnM (denied r t)) ?Q" for r t
    by (rule triple_return, erule holds_mono) auto
  have granted: "cleanup wk C0 (has wk ?L V C)
      (thenM (catchM (thenM (tx_do (set_rate_state s)) (tx_do (record_event ty p))) h) (returnM (granted wt t))) ?Q"
    for s ty p h wt t
    by (rule triple_then [OF cleanup_started], rule triple_return) (simp add: granted_def)
  have drop: "cleanup wk C0 (has wk ?L V C) (thenM (tx_do (release_lease n (wk_token wk))) (returnM (denied r t))) ?Q" for r t
    by (rule triple_then [OF _ refused], rule triple_tx_do [OF stable_holds]) (rule holds_release_lease)
  have acquired: "cleanup wk C0 (has wk L V C) (tx_at now (acquire_lease n (wk_token wk) ttl))
      (\<lambda>ok. has wk (if ok then ?L else L) V C)" for ttl
    by (rule triple_tx_at [OF stable_holds]) (rule holds_acquire_lease [OF _ prod.collapse [symmetric]])
  show ?thesis
    unfolding before_request_def n Let_def
    apply (rule triple_bind [OF acquired])
    subgoal for ok
      by (cases ok) (auto intro!: bind_now_or bind_read stable_holds drop granted refused [simplified]
          triple_bind [OF renewed] triple_return [where P = "has wk L V C"])
    done
qed

subsection \<open>The helpers of the pass\<close>

lemma cleanup_read_cache: "cleanup wk C0 (has wk L V C) (read_completed_cache k) (\<lambda>_. has wk L V C)"
  unfolding read_completed_cache_def
  by (auto intro!: bind_read stable_holds triple_return cleanup_event [THEN triple_then] split: option.split)

lemma cleanup_tx_now:
  "(\<And>t d. has wk L V C d \<Longrightarrow> has wk L V C (snd (f t d))) \<Longrightarrow> cleanup wk C0 (has wk L V C) (tx_now f) (\<lambda>_. has wk L V C)"
  by (rule triple_tx_now [OF stable_holds])

lemma cleanup_check: "cleanup wk C0 (has wk L V C) (check_deadlines item) (\<lambda>_. has wk L V C)"
  unfolding check_deadlines_def by (rule cleanup_tx_now) (rule holds_check)

lemma cleanup_reserve: "cleanup wk C0 (has wk L V C) (reserve_budgets item) (\<lambda>_. has wk L V C)"
  unfolding reserve_budgets_def
  by (rule triple_bind [OF cleanup_tx_now [OF holds_reserve]]) (auto intro: cleanup_check triple_return)

lemma cleanup_fence:
  assumes "i_request_id item \<in> C"
  shows "cleanup wk C0 (has wk L V C) (fence wk item plan ttl) (\<lambda>_. has wk L V C)"
  unfolding fence_def by (rule cleanup_tx_now) (rule holds_fence [OF _ prod.collapse [symmetric] assms])

lemma blocked_acquires_nothing:
  "acquire_id_fetch_reservations ids w rid ttl now d = (res, d') \<Longrightarrow> blocked_until res \<noteq> None \<Longrightarrow> acquired_ids res = []"
  by (auto simp: acquire_id_fetch_reservations_def Let_def split: if_splits)

text \<open>Only a plan that goes on to fetch reserves anything.\<close>

definition plan_kept :: "id_plan option \<Rightarrow> string set" where
  "plan_kept plan = (case plan of None \<Rightarrow> {} | Some p \<Rightarrow> if fetch_request p = None \<or> plan_blocked_until p \<noteq> None then {} else set (reserved_ids p))"

lemma cleanup_plan: "cleanup wk C0 (has wk L {} C) (plan_id_list_fetch wk item) (\<lambda>plan. has wk L (plan_kept plan) C)"
proof -
  have acquired: "cleanup wk C0 (has wk L {} C) (tx_now (acquire_id_fetch_reservations ids (wk_token wk) rid ttl))
      (\<lambda>got. has wk L (if blocked_until got = None then set (acquired_ids got) else {}) C)" for ids rid ttl
  proof (rule triple_tx_now [OF stable_holds])
    fix t d assume h: "has wk L {} C d"
    obtain res d' where run: "acquire_id_fetch_reservations ids (wk_token wk) rid ttl t d = (res, d')" by fastforce
    from holds_acquire_ids [OF h run] blocked_acquires_nothing [OF run] run
    show "has wk L (if blocked_until (fst (acquire_id_fetch_reservations ids (wk_token wk) rid ttl t d)) = None
          then set (acquired_ids (fst (acquire_id_fetch_reservations ids (wk_token wk) rid ttl t d))) else {}) C
        (snd (acquire_id_fetch_reservations ids (wk_token wk) rid ttl t d))"
      by auto
  qed
  show ?thesis
    unfolding plan_id_list_fetch_def Let_def
    by (auto intro!: bind_read stable_holds triple_return triple_bind [OF acquired] simp: plan_kept_def)
qed

text \<open>Revalidation releases the reservations of the ids that another worker has stored meanwhile.\<close>

lemma cleanup_revalidate:
  "cleanup wk C0 (has wk L (set (reserved_ids p)) C) (revalidate_id_list_fetch_plan wk item p ttl)
     (\<lambda>q. has wk L (set (reserved_ids q)) C)"
proof -
  have renewed: "cleanup wk C0 (has wk L V C) (if b then returnM False
      else tx_now (renew_id_fetch_reservations ids (wk_token wk) ttl)) (\<lambda>_. has wk L V C)" for V ids b
    by (auto intro!: triple_return cleanup_tx_now holds_renew_ids)
  have rel: "cleanup wk C0 (has wk L (set (reserved_ids p)) C) (thenM (release_ids wk (filter (\<lambda>i. i \<notin> M) (reserved_ids p))) k) Q"
    if "cleanup wk C0 (has wk L (set (filter (\<lambda>i. i \<in> M) (reserved_ids p))) C) k Q" for M k Q
  proof (rule triple_then [OF cleanup_release_ids triple_pre [OF that]])
    show "has wk L (set (reserved_ids p) - set (filter (\<lambda>i. i \<notin> M) (reserved_ids p))) C d
        \<Longrightarrow> has wk L (set (filter (\<lambda>i. i \<in> M) (reserved_ids p))) C d" for d
      by (erule holds_mono) auto
  qed
  show ?thesis
    unfolding revalidate_id_list_fetch_plan_def Let_def
    by (intro triple_if bind_read stable_holds rel triple_bind [OF renewed] bind_now triple_return) simp_all
qed

subsection \<open>The ways a pass ends\<close>

text \<open>
  After a pass nothing is left but the claim of a pass that lost the lease or the claim itself:
  there the claim runs out by itself.
\<close>

definition gave_back :: "worker \<Rightarrow> string \<Rightarrow> pass_result \<Rightarrow> db \<Rightarrow> bool" where
  "gave_back wk rid r = has wk {} {}
     (if wr_status r = ''lost_lease'' \<or> wr_status r = ''lost_claim'' then {rid} else {})"

abbreviation at_work :: "worker \<Rightarrow> id_plan option \<Rightarrow> queue_item \<Rightarrow> db \<Rightarrow> bool" where
  "at_work wk plan item \<equiv> has wk {lim_lease (wk_limiter wk)} (plan_ids plan) {i_request_id item}"

lemma gave_backI: "has wk {} {} {} d \<Longrightarrow> gave_back wk rid r d"
  by (auto simp: gave_back_def elim: holds_mono)

lemmas end_steps = cleanup_drop_lease [THEN triple_then] cleanup_record [THEN triple_then]
  cleanup_delay [THEN triple_then] cleanup_complete [THEN triple_then] cleanup_release_plan [THEN triple_then]
  cleanup_done [THEN triple_then] cleanup_limiter_ends [OF refl, THEN triple_then] bind_now

lemma status_simps [simp]: "wr_status (item_result item st) = st" "wr_status (blocked_result item st u c m) = st"
  by (simp_all add: item_result_def blocked_result_def)

lemma gave_back_result: "has wk {} {} {} d \<Longrightarrow> gave_back wk rid (blocked_result item st u c m) d"
  by (rule gave_backI)

lemma cleanup_endings:
  "cleanup wk {i_request_id item} (at_work wk plan item) (defer_budgeted_item wk item plan) (gave_back wk (i_request_id item))"
  "cleanup wk {i_request_id item} (at_work wk plan item) (fail_budgeted_item wk item plan c) (gave_back wk (i_request_id item))"
  "cleanup wk {i_request_id item} (at_work wk plan item) (on_transient_failure wk item plan st m) (gave_back wk (i_request_id item))"
  "cleanup wk {i_request_id item} (at_work wk plan item) (on_non_retryable wk item plan st m) (gave_back wk (i_request_id item))"
  "cleanup wk {i_request_id item} (at_work wk plan item) (on_papers wk item plan ps tr us) (gave_back wk (i_request_id item))"
  unfolding defer_budgeted_item_def fail_budgeted_item_def on_transient_failure_def on_non_retryable_def
    on_papers_def Let_def
  by (intro end_steps triple_return gave_backI; simp)+

lemma cleanup_fetch_error:
  "cleanup wk {i_request_id item} (at_work wk plan item) (on_fetch_error wk plan st m (HuldraFetchError c t))
     (gave_back wk (i_request_id item))"
  unfolding on_fetch_error_def by (intro end_steps triple_raise) simp

lemma cleanup_on_rate_limited:
  "cleanup wk {i_request_id item} (at_work wk plan item) (on_rate_limited wk item plan ra st m) (gave_back wk (i_request_id item))"
proof -
  have rate: "cleanup wk C0 (has wk L V C) (bindM utc_now (\<lambda>t. tx_try (record_rate_limited k rq cd s msg t)))
      (\<lambda>_. has wk L V C)" for C0 L V C k rq cd s msg
    by (rule bind_now) (rule cleanup_rate_limited)
  show ?thesis
    unfolding on_rate_limited_def
    by (intro triple_bind [OF cleanup_limiter_ends(3) [OF refl]] rate [THEN triple_then] end_steps triple_return gave_backI; simp)
qed

lemma cleanup_ownership_failure:
  assumes "why = ''id_fetch_reserved'' \<or> why = ''lost_lease'' \<or> why = ''lost_claim''"
  shows "cleanup wk {i_request_id item} (at_work wk plan item) (fetch_ownership_failure wk item plan why)
     (gave_back wk (i_request_id item))"
proof (cases "why = ''id_fetch_reserved''")
  case True
  show ?thesis
    unfolding fetch_ownership_failure_def Let_def if_P [OF True]
    by (intro end_steps triple_return gave_backI; simp)
next
  case False
  then have "why = ''lost_lease'' \<or> why = ''lost_claim''" using assms by blast
  then have "has wk {} {} {i_request_id item} d \<Longrightarrow> gave_back wk (i_request_id item) (blocked_result item why u c m) d"
    for d u c m by (simp only: gave_back_def status_simps if_True)
  then show ?thesis
    unfolding fetch_ownership_failure_def Let_def if_not_P [OF False]
    by (intro end_steps triple_return; simp)
qed

subsection \<open>The pass\<close>

lemma fence_reasons:
  "renew_worker_fetch_ownership rid w n ttl ids now d = (Some why, d') \<Longrightarrow>
     why = ''id_fetch_reserved'' \<or> why = ''lost_lease'' \<or> why = ''lost_claim''"
  by (auto simp: renew_worker_fetch_ownership_def Let_def split: if_splits)

definition gated :: "worker \<Rightarrow> queue_item \<Rightarrow> id_plan option \<times> pass_result option \<Rightarrow> db \<Rightarrow> bool" where
  "gated wk item pr = (case snd pr of Some r \<Rightarrow> gave_back wk (i_request_id item) r | None \<Rightarrow> at_work wk (fst pr) item)"

lemma gated_simps [simp]: "gated wk item (plan, Some r) = gave_back wk (i_request_id item) r"
  "gated wk item (plan, None) = at_work wk plan item"
  by (simp_all add: gated_def)

text \<open>A fence that fails ends the pass, one that holds lets it go on.\<close>

lemma cleanup_fenced:
  assumes "cleanup wk {i_request_id item} (at_work wk plan item) k (gated wk item)"
  shows "cleanup wk {i_request_id item} (at_work wk plan item)
    (bindM (fence wk item plan ttl) (\<lambda>reason. case reason of
       Some why \<Rightarrow> bindM (fetch_ownership_failure wk item plan why) (\<lambda>r. returnM (plan, Some r)) | None \<Rightarrow> k))
    (gated wk item)"
proof (rule triple_bind)
  let ?ok = "\<lambda>r. r = None \<or> r = Some ''id_fetch_reserved'' \<or> r = Some ''lost_lease'' \<or> r = Some ''lost_claim''"
  show "cleanup wk {i_request_id item} (at_work wk plan item) (fence wk item plan ttl)
      (\<lambda>r d. at_work wk plan item d \<and> ?ok r)"
    unfolding fence_def
  proof (rule triple_tx_now [OF stable_holds])
    fix t d assume h: "at_work wk plan item d"
    obtain r d' where run: "renew_worker_fetch_ownership (i_request_id item) (wk_token wk) (lim_lease (wk_limiter wk)) ttl
        (case plan of None \<Rightarrow> [] | Some p \<Rightarrow> reserved_ids p) t d = (r, d')" by fastforce
    have "?ok r" using fence_reasons run by (cases r) auto
    with holds_fence [OF h run] run show "at_work wk plan item (snd (renew_worker_fetch_ownership (i_request_id item)
        (wk_token wk) (lim_lease (wk_limiter wk)) ttl (case plan of None \<Rightarrow> [] | Some p \<Rightarrow> reserved_ids p) t d)) \<and>
        ?ok (fst (renew_worker_fetch_ownership (i_request_id item) (wk_token wk) (lim_lease (wk_limiter wk)) ttl
          (case plan of None \<Rightarrow> [] | Some p \<Rightarrow> reserved_ids p) t d))" by simp
  qed
  fix reason
  show "cleanup wk {i_request_id item} (\<lambda>d. at_work wk plan item d \<and> ?ok reason)
      (case reason of Some why \<Rightarrow> bindM (fetch_ownership_failure wk item plan why) (\<lambda>r. returnM (plan, Some r)) | None \<Rightarrow> k)
      (gated wk item)"
  proof (cases reason)
    case None
    with assms show ?thesis by (auto intro: triple_pre)
  next
    case (Some why)
    have "cleanup wk {i_request_id item} (at_work wk plan item)
        (bindM (fetch_ownership_failure wk item plan why) (\<lambda>r. returnM (plan, Some r))) (gated wk item)" if "?ok reason"
      using that Some
      by (intro triple_bind [OF cleanup_ownership_failure] triple_return) auto
    with Some show ?thesis by (auto simp: triple_def)
  qed
qed

lemma cleanup_final_fence:
  "cleanup wk {i_request_id item} (at_work wk plan item) (final_fence wk item plan ttl) (gated wk item)"
proof -
  have "final_fence wk item plan ttl = bindM (fence wk item plan ttl) (\<lambda>reason. case reason of
      Some why \<Rightarrow> bindM (fetch_ownership_failure wk item plan why) (\<lambda>r. returnM (plan, Some r)) | None \<Rightarrow> returnM (plan, None))"
    unfolding final_fence_def by (rule arg_cong [where f = "bindM _"]) (auto split: option.split)
  then show ?thesis by (simp add: cleanup_fenced triple_return)
qed

lemma cleanup_key_error: "(\<And>x. cleanup wk C0 P (k x) Q) \<Longrightarrow> cleanup wk C0 P (bindM (key_error v) k) Q"
  by (cases v) (auto simp: key_error_def intro: triple_raise)

lemma cleanup_served:
  "(\<And>d. has wk L V C d \<Longrightarrow> Q (item_result item ''cache_hit''\<lparr>wr_papers_total := n\<rparr>) d)
    \<Longrightarrow> cleanup wk C0 (has wk L V C) (served_from_cache wk item n) Q"
  unfolding served_from_cache_def by (intro end_steps triple_return)

lemma cleanup_gate_id_plan:
  "cleanup wk {i_request_id item} (at_work wk (Some p) item) (gate_id_plan wk item p ttl) (gated wk item)"
proof -
  have served: "cleanup wk {i_request_id item} (has wk {} {} {})
      (bindM (served_from_cache wk item n) (\<lambda>r. returnM (plan, Some r))) (gated wk item)" for n plan
    by (rule triple_bind [OF cleanup_served triple_return]) (auto intro: gave_backI)
  show ?thesis
    unfolding gate_id_plan_def stored_papers_def
    apply (rule triple_bind [OF cleanup_revalidate [where p = p, THEN triple_pre]], simp)
    apply (intro triple_if cleanup_key_error)
    subgoal by (intro end_steps triple_return; simp add: gave_backI)
    subgoal by (intro end_steps served [THEN triple_pre]) simp
    subgoal by (rule cleanup_final_fence [where plan = "Some q" for q, simplified])
    done
qed

lemma cleanup_gate:
  "cleanup wk {i_request_id item} (at_work wk plan item) (gate_fetch_ownership wk item plan ttl) (gated wk item)"
proof -
  have served: "cleanup wk {i_request_id item} (has wk {} {} {})
      (bindM (served_from_cache wk item n) (\<lambda>r. returnM (plan, Some r))) (gated wk item)" for n plan
    by (rule triple_bind [OF cleanup_served triple_return]) (auto intro: gave_backI)
  show ?thesis
    unfolding gate_fetch_ownership_def
    apply (rule cleanup_fenced)
    apply (rule triple_bind [OF cleanup_read_cache])
    apply (rule triple_if)
    subgoal by (intro end_steps served [THEN triple_pre]) simp
    subgoal by (cases plan) (simp_all add: cleanup_gate_id_plan [simplified] cleanup_final_fence [where plan = None, simplified])
    done
qed

abbreviation gives_back :: "worker \<Rightarrow> queue_item \<Rightarrow> (db \<Rightarrow> bool) \<Rightarrow> pass_result act \<Rightarrow> bool" where
  "gives_back wk item P m \<equiv> cleanup wk {i_request_id item} P m (gave_back wk (i_request_id item))"

lemma cleanup_on_result: "gives_back wk item (at_work wk plan item) (on_result wk item plan r)"
  using cleanup_endings cleanup_key_error
  by (cases plan) (auto simp: on_result_def Let_def intro!: triple_if cleanup_endings cleanup_key_error
      cleanup_endings(4,5) [where plan = "Some p" for p, simplified]
      cleanup_endings(5) [where plan = None, simplified])

lemma cleanup_fetch_and_record: "gives_back wk item (at_work wk plan item) (fetch_and_record wk item plan q)"
  unfolding fetch_and_record_def
proof (rule triple_bind)
  show "cleanup wk {i_request_id item} (at_work wk plan item)
      (catchM (bindM (fetchM q) (\<lambda>r. returnM (Inr r))) (\<lambda>e. returnM (Inl e))) (\<lambda>_. at_work wk plan item)"
    by (rule triple_catch [where E' = "\<lambda>_. at_work wk plan item"], rule triple_bind [where Q' = "\<lambda>_. at_work wk plan item"])
      (auto intro: triple_fetch triple_return)
  fix answer
  show "gives_back wk item (at_work wk plan item) (case answer of Inr r \<Rightarrow> on_result wk item plan r
      | Inl e \<Rightarrow> (case e of
           RateLimitedError retry_after status msg \<Rightarrow> on_rate_limited wk item plan retry_after status msg
         | TransientFetchError status msg \<Rightarrow> on_transient_failure wk item plan status msg
         | NonRetryableFetchError status msg \<Rightarrow> on_non_retryable wk item plan status msg
         | HuldraFetchError status msg \<Rightarrow> on_fetch_error wk plan status msg e
         | _ \<Rightarrow> raiseM e))"
    by (cases answer) (auto split: exn.split
        intro: cleanup_on_result cleanup_on_rate_limited cleanup_endings cleanup_fetch_error triple_raise)
qed

lemma cleanup_verdict:
  "gives_back wk item (at_work wk plan item) k \<Longrightarrow> gives_back wk item (at_work wk plan item) (budget_verdict wk item plan err k)"
  by (auto simp: budget_verdict_def intro: cleanup_endings split: option.split)

lemma cleanup_deadline: "cleanup wk C0 (has wk L V C) (read_deadline item) (\<lambda>_. has wk L V C)"
  unfolding read_deadline_def by (rule cleanup_read)

lemma cleanup_before_deadline: "gives_back wk item (at_work wk plan item) (fetch_before_deadline wk item plan)"
  unfolding fetch_before_deadline_def Let_def
  by (rule triple_bind [OF cleanup_deadline])
    (auto intro!: bind_now triple_bind [OF cleanup_check] triple_bind [OF cleanup_deadline] cleanup_verdict
      cleanup_fetch_and_record split: option.split)

lemma triple_gated:
  assumes "\<And>plan. gives_back wk item (at_work wk plan item) (k plan)"
  shows "gives_back wk item (at_work wk plan item)
    (bindM (gate_fetch_ownership wk item plan ttl) (\<lambda>(plan', ended). case ended of Some r \<Rightarrow> returnM r | None \<Rightarrow> k plan'))"
proof (rule triple_bind [OF cleanup_gate])
  fix pr :: "id_plan option \<times> pass_result option"
  show "gives_back wk item (gated wk item pr) (case pr of (plan', ended) \<Rightarrow> (case ended of Some r \<Rightarrow> returnM r | None \<Rightarrow> k plan'))"
    using assms by (cases pr) (auto intro: triple_return split: option.split)
qed

lemma cleanup_when_owned: "gives_back wk item (at_work wk plan item) (fetch_when_owned wk item plan)"
proof -
  have checked: "gives_back wk item (at_work wk plan2 item) (bindM (check_deadlines item) (\<lambda>err2.
      budget_verdict wk item plan2 err2 (fetch_before_deadline wk item plan2)))" for plan2
    by (rule triple_bind [OF cleanup_check]) (intro cleanup_verdict cleanup_before_deadline)
  have second: "gives_back wk item (at_work wk plan1 item) (bindM (reserve_budgets item) (\<lambda>err1. budget_verdict wk item plan1 err1
      (bindM (gate_fetch_ownership wk item plan1 ttl) (\<lambda>(plan2, ended2). case ended2 of Some r \<Rightarrow> returnM r
        | None \<Rightarrow> bindM (check_deadlines item) (\<lambda>err2. budget_verdict wk item plan2 err2 (fetch_before_deadline wk item plan2))))))"
    for plan1 ttl
    by (rule triple_bind [OF cleanup_reserve]) (intro cleanup_verdict triple_gated checked)
  show ?thesis unfolding fetch_when_owned_def Let_def by (intro triple_gated second)
qed

lemma cleanup_denied: "gives_back wk item (has wk {} (plan_ids plan) {i_request_id item}) (denied_item wk item plan dcs)"
  unfolding denied_item_def
  by (rule triple_bind [where Q' = "\<lambda>_. has wk {} (plan_ids plan) {i_request_id item}"])
    (auto split: option.split intro!: bind_now triple_return end_steps gave_backI)

lemma cleanup_allowed: "gives_back wk item (has wk {} (plan_ids plan) {i_request_id item}) (fetch_when_allowed wk item plan)"
  unfolding fetch_when_allowed_def
proof (rule triple_bind [OF cleanup_before_request [OF refl]])
  fix dcs
  show "gives_back wk item (has wk (if can_fetch dcs then {lim_lease (wk_limiter wk)} else {}) (plan_ids plan) {i_request_id item})
      (if \<not> can_fetch dcs then denied_item wk item plan dcs
       else thenM (if 0 < wait_seconds dcs then sleepM (wait_seconds dcs) else returnM ()) (fetch_when_owned wk item plan))"
    by (cases "can_fetch dcs") (simp_all add: cleanup_denied then_sleep cleanup_when_owned)
qed

lemma cleanup_process: "gives_back wk item (has wk {} {} {i_request_id item}) (process_item wk item)"
proof -
  have served: "gives_back wk item (has wk L V C) (served_from_cache wk item n)" if "L = {}" "V = {}" "C = {}" for L V C n
    using that by (auto intro: cleanup_served gave_backI)
  have planned: "gives_back wk item (has wk {} (plan_kept plan) {i_request_id item})
     (case plan of
         None \<Rightarrow> fetch_when_allowed wk item None
       | Some p \<Rightarrow>
           if fetch_request p = None \<and> plan_blocked_until p = None then
              bindM (stored_papers p) (\<lambda>ps.
              thenM (record_completed item ps (Some (int (length ps))) 200 0)
             (thenM (complete_item item) (served_from_cache wk item (int (length ps)))))
           else if plan_blocked_until p \<noteq> None then
              thenM (delay_item item (plan_blocked_until p) (Some ''id_fetch_reserved'')
                       (Some ''id fetch reserved by another worker'') DELAYED)
             (thenM (worker_done wk (plan_blocked_until p) (Some ''id_fetch_reserved'')
                       (Some ''id fetch reserved by another worker''))
               (returnM (blocked_result item ''blocked'' (plan_blocked_until p) (Some ''id_fetch_reserved'') None)))
           else fetch_when_allowed wk item (Some p))" for plan
  proof (cases plan)
    case None
    with cleanup_allowed [where plan = None] show ?thesis by (simp add: plan_kept_def)
  next
    case (Some p)
    show ?thesis
      unfolding Some option.case stored_papers_def
      apply (intro triple_if cleanup_key_error)
      subgoal by (intro end_steps served) (auto simp: plan_kept_def)
      subgoal by (intro end_steps triple_return gave_backI) (auto simp: plan_kept_def elim: holds_mono)
      subgoal by (rule cleanup_allowed [where plan = "Some p", THEN triple_pre])
          (auto simp: plan_kept_def elim: holds_mono split: if_splits)
      done
  qed
  show ?thesis
    unfolding process_item_def
    by (intro triple_bind [OF cleanup_read_cache] triple_if end_steps served triple_bind [OF cleanup_plan] planned) simp_all
qed

lemma cleanup_claim:
  "triple (strangers (wk_token wk)) (\<lambda>_. True) (has wk {} {} {})
     (tx_now (claim_next_queue_item (wk_token wk) ttl keys rs))
     (\<lambda>res. has wk {} {} (case res of None \<Rightarrow> {} | Some item \<Rightarrow> {i_request_id item})) E"
proof (rule triple_tx_now [OF stable_holds])
  fix t d assume h: "has wk {} {} {} d"
  obtain res d' where run: "claim_next_queue_item (wk_token wk) ttl keys rs t d = (res, d')" by fastforce
  show "has wk {} {} (case fst (claim_next_queue_item (wk_token wk) ttl keys rs t d) of None \<Rightarrow> {} | Some item \<Rightarrow> {i_request_id item})
      (snd (claim_next_queue_item (wk_token wk) ttl keys rs t d))"
    unfolding run fst_conv snd_conv using holds_claim_next [OF h run] by simp
qed

definition pass_end :: "worker \<Rightarrow> pass_result \<Rightarrow> db \<Rightarrow> bool" where
  "pass_end wk r d \<longleftrightarrow> (\<exists>rid. gave_back wk rid r d)"

definition pass_error :: "worker \<Rightarrow> exn \<Rightarrow> db \<Rightarrow> bool" where
  "pass_error wk e d \<longleftrightarrow> (\<exists>rid. raised (wk_token wk) {rid} e d)"

lemma cleanup_run:
  "triple (strangers (wk_token wk)) (\<lambda>_. True) (has wk {} {} {}) (run_once wk keys) (pass_end wk) (pass_error wk)"
proof -
  have finished: "triple (strangers (wk_token wk)) (\<lambda>_. True) (has wk {} {} {}) (worker_done wk nx c m)
      (\<lambda>_. has wk {} {} {}) (pass_error wk)" for nx c m
    by (rule triple_post [OF cleanup_done(1) [where ?C0.0 = "{r}" for r]]) (auto simp: pass_error_def)
  have started: "triple (strangers (wk_token wk)) (\<lambda>_. True) (has wk {} {} {}) (worker_started wk)
      (\<lambda>_. has wk {} {} {}) (pass_error wk)"
    by (rule triple_post [OF cleanup_done(2) [where ?C0.0 = "{r}" for r]]) (auto simp: pass_error_def)
  have idle: "triple (strangers (wk_token wk)) (\<lambda>_. True) (has wk {} {} {})
      (bindM utc_now (\<lambda>t. thenM (worker_done wk (Some (poll_wake wk t)) None None) (returnM idle_result)))
      (pass_end wk) (pass_error wk)"
    by (intro bind_now triple_then [OF finished] triple_return) (auto simp: pass_end_def intro: gave_backI)
  have process: "triple (strangers (wk_token wk)) (\<lambda>_. True) (has wk {} {} {i_request_id item}) (process_item wk item)
      (pass_end wk) (pass_error wk)" for item
    by (rule triple_post [OF cleanup_process]) (auto simp: pass_end_def pass_error_def)
  have claimed: "triple (strangers (wk_token wk)) (\<lambda>_. True)
      (has wk {} {} (case res of None \<Rightarrow> {} | Some item \<Rightarrow> {i_request_id item}))
      (case res of None \<Rightarrow> bindM utc_now (\<lambda>t. thenM (worker_done wk (Some (poll_wake wk t)) None None) (returnM idle_result))
         | Some item \<Rightarrow> process_item wk item) (pass_end wk) (pass_error wk)" for res
    using idle process by (cases res) simp_all
  show ?thesis
    unfolding run_once_def by (intro triple_then [OF started] triple_bind [OF cleanup_claim] claimed)
qed

text \<open>C23. When the other processes use other tokens and the worker holds
  nothing, then after a pass that returns, on whatever branch, the worker's token holds no lease
  and no id reservation, and it holds no claim unless the pass reports that it lost the lease or
  the claim. After a pass that raises a HuldraFetchError it holds no lease and no reservation.\<close>

theorem pass_gives_back_what_it_took:
  assumes "\<forall>n d. gives_nothing (wk_token wk) d (others w n d)"
    and "schema_ok (store w)" "owned lease_holder (wk_token wk) (store w) = {}"
    and "owned reservation_holder (wk_token wk) (store w) = {}" "owned claim_holder (wk_token wk) (store w) = {}"
    and "run_once wk keys w = (res, w')"
  shows "case res of
      Inr r \<Rightarrow> owned lease_holder (wk_token wk) (store w') = {} \<and> owned reservation_holder (wk_token wk) (store w') = {} \<and>
        (wr_status r \<noteq> ''lost_lease'' \<and> wr_status r \<noteq> ''lost_claim'' \<longrightarrow> owned claim_holder (wk_token wk) (store w') = {})
    | Inl (HuldraFetchError status m) \<Rightarrow> owned lease_holder (wk_token wk) (store w') = {} \<and>
        owned reservation_holder (wk_token wk) (store w') = {}
    | Inl _ \<Rightarrow> True"
proof -
  have "has wk {} {} {} (store w)" using assms(2-5) by (simp add: holds_at_most_def)
  moreover have "runs_under (strangers (wk_token wk)) w" using assms(1) by (simp add: runs_under_def strangers_def)
  ultimately show ?thesis
    using triple_at(3) [OF cleanup_run _ _ assms(6)]
    by (auto simp: pass_end_def pass_error_def gave_back_def raised_def holds_at_most_def split: sum.splits exn.splits if_splits)
qed

subsection \<open>A pass on a concrete store\<close>

definition sample_worker :: worker where
  "sample_worker = \<lparr>wk_name = ''w'', wk_token = ''w:1'', wk_settings = default_settings, wk_limiter = sample_limiter,
     wk_store_timeout = 30\<rparr>"

definition queued_row :: queue_row where
  "queued_row = sample_row\<lparr>q_status := QUEUED, q_claimed_by := None, q_claimed_until := None,
     q_upstream_budget_id := None, q_unbudgeted_demand := True, q_attempts_total := 0\<rparr>"

text \<open>One queued item for the id 2401.00001, which the upstream API knows.\<close>

definition pass_world :: world where
  "pass_world = alone ((empty_db (\<lambda>_. 0))\<lparr>queue_items := [queued_row]\<rparr>)
     (\<lambda>_ r. Inr \<lparr>f_papers = map sample_paper (id_list r), f_total_results = None, f_upstream_status = 200\<rparr>)"

lemma pass_world_ready:
  "\<forall>n d. gives_nothing (wk_token sample_worker) d (others pass_world n d)" "schema_ok (store pass_world)"
  "owned lease_holder w (store pass_world) = {}" "owned reservation_holder w (store pass_world) = {}"
  "owned claim_holder w (store pass_world) = {}"
  by (simp_all add: pass_world_def alone_def gives_nothing_def owned_def lease_holder_def reservation_holder_def
      claim_holder_def get_lease_def get_reservation_def get_queue_row_def empty_db_def tbl_get_Cons queued_row_def
      schema_ok_def one_pending_per_key_def sample_row_def keyed_Cons)

theorem pass_gives_back_what_it_took_witness:
  "case run_once sample_worker None pass_world of
     (Inr r, w') \<Rightarrow> owned lease_holder ''w:1'' (store w') = {} \<and> owned reservation_holder ''w:1'' (store w') = {} \<and>
       (wr_status r = ''lost_lease'' \<or> wr_status r = ''lost_claim'' \<or> owned claim_holder ''w:1'' (store w') = {})
   | (Inl (HuldraFetchError st m), w') \<Rightarrow> owned lease_holder ''w:1'' (store w') = {}
   | (Inl _, w') \<Rightarrow> True"
proof -
  obtain res w' where run: "run_once sample_worker None pass_world = (res, w')" by fastforce
  have token: "wk_token sample_worker = ''w:1''" by (simp add: sample_worker_def)
  from pass_gives_back_what_it_took [OF pass_world_ready run] show ?thesis
    unfolding run token prod.case by (auto split: sum.splits exn.splits)
qed

end
