(* ===== verification/Huldra_Guard.thy ===== *)
theory Huldra_Guard
  imports Huldra_Passes
begin

text \<open>
  When a pass calls upstream: only while it owns the upstream lease, the claim of its item and the
  arXiv ids it asks for, and only for an attempt that the budgets of the item have been charged
  for. The other processes may take away whatever has expired by a horizon; the final fence of the
  pass, the transaction right before the call, is what makes the guarantee hold.
\<close>

subsection \<open>Charged attempts\<close>

text \<open>A claimed row of w, and the demand of its current attempt: the gate is closed and no budget is left to charge.\<close>

definition claimed_row :: "string \<Rightarrow> string \<Rightarrow> db \<Rightarrow> queue_row option" where
  "claimed_row rid w d = (case get_queue_row rid d of None \<Rightarrow> None
     | Some r \<Rightarrow> if q_status r = CLAIMED \<and> q_claimed_by r = Some w then Some r else None)"

definition charged :: "string \<Rightarrow> db \<Rightarrow> bool" where
  "charged rid d \<longleftrightarrow> uncharged_budget_ids (queue_item_upstream_budget_attempt_state rid d) = []"

definition sealed :: "string \<Rightarrow> string \<Rightarrow> db \<Rightarrow> bool" where
  "sealed rid w d \<longleftrightarrow> (\<forall>r. claimed_row rid w d = Some r \<longrightarrow> q_gate_closed r \<and> charged rid d)"

lemma charged_iff: "charged rid d \<longleftrightarrow> (\<forall>r m. get_queue_row rid d = Some r \<longrightarrow> m \<in> set (memberships d) \<longrightarrow>
    bm_request_id m = rid \<longrightarrow> bm_first_attempt_number m \<le> q_attempts_total r \<longrightarrow>
    q_attempts_total r \<le> bm_last_charged_attempt m)"
proof -
  have "charged rid d \<longleftrightarrow> (\<forall>b. b \<notin> set (uncharged_budget_ids (queue_item_upstream_budget_attempt_state rid d)))"
    unfolding charged_def by (metis last_in_set list.set(1) empty_iff)
  then show ?thesis unfolding mem_uncharged by (auto simp: not_less)
qed

lemma claimed_rowD: "claimed_row rid w d = Some r \<Longrightarrow> get_queue_row rid d = Some r \<and> q_status r = CLAIMED \<and> q_claimed_by r = Some w"
  by (auto simp: claimed_row_def split: option.splits if_splits)

lemma claimed_row_iff: "claimed_row rid w d \<noteq> None \<longleftrightarrow> claim_held rid w d"
  by (auto simp: claimed_row_def claim_held_def split: option.splits)

text \<open>A statement that adds no membership and keeps the attempt and the gate of the rows it leaves claimed.\<close>

lemma sealed_map:
  assumes "queue_items d' = map f (queue_items d)" "\<And>r. q_request_id (f r) = q_request_id r"
    and "\<And>r. q_status (f r) = CLAIMED \<Longrightarrow> q_status r = CLAIMED \<and> q_claimed_by (f r) = q_claimed_by r \<and>
      q_attempts_total (f r) = q_attempts_total r \<and> (q_gate_closed r \<longrightarrow> q_gate_closed (f r))"
    and "set (memberships d') \<subseteq> set (memberships d)"
    and "sealed rid w d"
  shows "sealed rid w d'"
  unfolding sealed_def
proof (intro allI impI)
  fix r' assume r': "claimed_row rid w d' = Some r'"
  have "get_queue_row rid d' = map_option f (get_queue_row rid d)"
    using assms(1,2) by (simp add: get_queue_row_def tbl_get_map)
  then obtain r where r: "get_queue_row rid d = Some r" "r' = f r"
    using claimed_rowD [OF r'] by (cases "get_queue_row rid d") auto
  have f: "q_status r = CLAIMED" "q_claimed_by r = Some w" "q_attempts_total r' = q_attempts_total r"
    "q_gate_closed r \<longrightarrow> q_gate_closed r'"
    using claimed_rowD [OF r'] r assms(3) [of r] by auto
  then have "q_gate_closed r \<and> charged rid d"
    using assms(5) r(1) by (auto simp: sealed_def claimed_row_def)
  then show "q_gate_closed r' \<and> charged rid d'"
    using f claimed_rowD [OF r'] r(1) assms(4) unfolding charged_iff by fastforce
qed

lemma sealed_same:
  "queue_items d' = queue_items d \<Longrightarrow> set (memberships d') \<subseteq> set (memberships d) \<Longrightarrow> sealed rid w d \<Longrightarrow> sealed rid w d'"
  by (rule sealed_map [where f = "\<lambda>r. r"]) simp_all

lemma sealed_detach: "sealed rid w d \<Longrightarrow> sealed rid w (detach_invalid_queue_budgets i es d)"
proof -
  assume s: "sealed rid w d"
  let ?d = "fold (exhausted_event i) es d"
  have e: "queue_items ?d = queue_items d" "memberships ?d = memberships d" by simp_all
  obtain rep where "queue_items (detach_queue_budget_memberships i (map fst es) ?d) =
     map (\<lambda>r. if q_request_id r = i then r\<lparr>q_upstream_budget_id := rep\<rparr> else r) (queue_items ?d)"
    using detach_queue_items by blast
  then show ?thesis unfolding detach_invalid_queue_budgets_def
    by (rule sealed_map) (auto simp: detach_memberships tbl_delete_def intro: sealed_same [OF e(1) _ s] split: if_splits)
qed

lemma sealed_check: "sealed rid w d \<Longrightarrow> sealed rid w (snd (check_queue_item_upstream_request_deadlines i t d))"
  by (auto simp: check_queue_item_upstream_request_deadlines_def Let_def intro: sealed_detach)

lemma sealed_release_ids: "sealed rid w d \<Longrightarrow> sealed rid w (release_id_fetch_reservations ids own t d)"
proof -
  assume s: "sealed rid w d"
  have wake: "sealed rid w (wake_id_fetch_reserved_queue_items js t x)" if "sealed rid w x" for js and x :: db
    unfolding wake_map
    by (rule sealed_map [where d = x and f = "\<lambda>r. if q_request_id r \<in> q_request_id ` {y \<in> set (queue_items x). blocked_on_ids js y}
       then r\<lparr>q_status := QUEUED, q_next_attempt_at := None, q_updated_at := t,
                  q_claimed_by := None, q_claimed_until := None, q_gate_closed := False,
                  q_error_category := None, q_error_message := None\<rparr> else r"]) (simp_all add: that split: if_splits)
  show ?thesis
    by (auto simp: release_id_fetch_reservations_def Let_def intro!: wake sealed_same [OF _ _ s] s)
qed

lemma sealed_renew_ids: "sealed rid w d \<Longrightarrow> sealed rid w (snd (renew_id_fetch_reservations ids own ttl t d))"
  by (rule sealed_same) (auto simp: renew_id_fetch_reservations_def Let_def extend_reservations_def)

lemma sealed_fence: "sealed rid w d \<Longrightarrow> sealed rid w (snd (renew_worker_fetch_ownership i own n ttl ids t d))"
proof -
  assume s: "sealed rid w d"
  have "sealed rid w (extend_claim i own u t d1)" if "sealed rid w d1" for u d1
    by (rule sealed_map [where d = d1 and f = "\<lambda>r. if claim_owned i own r then r\<lparr>q_claimed_until := Some u, q_updated_at := t\<rparr> else r"])
      (auto simp: extend_claim_def tbl_update_def that split: if_splits)
  moreover have "sealed rid w (extend_lease t q d)" for q
    by (rule sealed_same [OF _ _ s]) (auto simp: extend_lease_def split: prod.split)
  moreover have "sealed rid w (extend_reservations is' own t u d1)" if "sealed rid w d1" for u d1 is'
    by (rule sealed_same [OF _ _ that]) (auto simp: extend_reservations_def)
  ultimately show ?thesis using s
    by (auto simp: renew_worker_fetch_ownership_def Let_def)
qed

lemma sealed_event: "sealed rid w d \<Longrightarrow> sealed rid w (record_event ty p d)"
  by (rule sealed_same) simp_all

text \<open>A granted reservation closes the gate and leaves nothing to charge.\<close>

lemma sealed_reserve:
  assumes "schema_ok d" "reserve_queue_item_upstream_request rid t d = (None, d')"
  shows "sealed rid w d'"
proof -
  have c: "charged rid d'" using uncharged_after_reserve [OF assms] by (simp add: charged_def)
  from assms(2) have "\<forall>r. get_queue_row rid d' = Some r \<longrightarrow> q_status r = CLAIMED \<longrightarrow> q_gate_closed r"
  proof (cases rule: reserve_queue_item_cases)
    case (charged invalid st bs d1 d2)
    have "get_queue_row rid (close_gate rid x) =
        map_option (\<lambda>r. if q_status r = CLAIMED then r\<lparr>q_gate_closed := True\<rparr> else r) (get_queue_row rid x)" for x
      using get_queue_row_id [of rid x] by (cases "get_queue_row rid x") (simp_all add: close_gate_def get_queue_row_def table_simps)
    then show ?thesis unfolding charged(6) by (auto split: if_splits dest: arg_cong [where f = q_gate_closed])
  qed simp
  with c show ?thesis by (auto simp: sealed_def dest: claimed_rowD)
qed

text \<open>Enqueueing behind a closed gate joins the next attempt, so it charges the current one with nothing.\<close>

lemma sealed_enqueue:
  assumes ok: "schema_ok d" and run: "enqueue_request_for_work_conn q k kind b dflt t u d = (res, d')" and s: "sealed rid w d"
  shows "sealed rid w d'"
  using run
proof (cases rule: enqueue_cases)
  case (joined r)
  let ?f = "\<lambda>x. if q_request_id x = q_request_id r then join_row q kind b dflt t x else x"
  have f: "q_request_id (?f x) = q_request_id x" "q_status (?f x) = q_status x" "q_claimed_by (?f x) = q_claimed_by x"
    "q_attempts_total (?f x) = q_attempts_total x" "q_gate_closed (?f x) = q_gate_closed x" for x
    by (simp_all add: join_row_def Let_def split: option.split)
  have get: "get_queue_row rid d' = map_option ?f (get_queue_row rid d)"
    using joined(4) f(1) by (simp add: get_queue_row_def tbl_update_def tbl_get_map)
  show ?thesis
    unfolding sealed_def
  proof (intro allI impI)
    fix r' assume r': "claimed_row rid w d' = Some r'"
    then obtain x where x: "get_queue_row rid d = Some x" "r' = ?f x"
      using claimed_rowD get by (cases "get_queue_row rid d") fastforce+
    have "claimed_row rid w d = Some x"
      using claimed_rowD [OF r'] x f [of x] by (simp add: claimed_row_def)
    then have gate: "q_gate_closed x" "charged rid d" "q_status x = CLAIMED" using s claimed_rowD [of rid w d x] by (auto simp: sealed_def)
    have r: "r \<in> set (queue_items d)" using pending_row_Some [OF joined(1)] by simp
    have "first_attempt_number r = max 1 (q_attempts_total x + 1)" if "q_request_id r = rid"
      using that r x(1) gate tbl_get_memI [OF schema_okD(4) [OF ok] r]
      by (auto simp: first_attempt_number_def joins_current_attempt_def get_queue_row_def)
    then have "m \<in> set (memberships d') \<Longrightarrow> bm_request_id m = rid \<Longrightarrow> bm_first_attempt_number m \<le> q_attempts_total x
        \<Longrightarrow> m \<in> set (memberships d)" for m
      using joined(4) by (auto simp: insert_membership_def split: option.splits if_splits)
    then have "charged rid d'"
      using gate(2) x(1) f(4) unfolding charged_iff get by fastforce
    with gate(1) f(5) x(2) show "q_gate_closed r' \<and> charged rid d'" by simp
  qed
next
  case (created p)
  show ?thesis
  proof (cases "rid = u")
    case True
    have "get_queue_row u d' = Some (new_queue_row q k kind b t u)"
      using created(2) by (simp add: created(5) get_queue_row_def tbl_get_append tbl_get_Cons new_queue_row_def)
    with True show ?thesis by (auto simp: sealed_def claimed_row_def new_queue_row_def)
  next
    case False
    then have get: "get_queue_row rid d' = get_queue_row rid d"
      by (auto simp: created(5) get_queue_row_def tbl_get_append tbl_get_Cons new_queue_row_def split: option.split)
    have "m \<in> set (memberships d') \<Longrightarrow> bm_request_id m = rid \<Longrightarrow> m \<in> set (memberships d)" for m
      using False by (auto simp: created(5) insert_membership_def split: option.splits if_splits)
    with s show ?thesis unfolding sealed_def claimed_row_def charged_iff get by blast
  qed
qed (use s in simp)

subsection \<open>What the worker owns past a horizon\<close>

definition owns_past :: "datetime \<Rightarrow> string \<Rightarrow> string \<Rightarrow> string \<Rightarrow> string list \<Rightarrow> db \<Rightarrow> bool" where
  "owns_past h w n rid ids d \<longleftrightarrow> (\<exists>e>h. lease_holder d n = Some (w, e)) \<and> (\<exists>e>h. claim_holder d rid = Some (w, e)) \<and>
     (\<forall>i\<in>set ids. \<exists>e>h. reservation_holder d i = Some (w, e))"

text \<open>The other processes take from w only what has expired by the horizon, and reopen no attempt of w.\<close>

definition takes_only_expired :: "datetime \<Rightarrow> string \<Rightarrow> db \<Rightarrow> db \<Rightarrow> bool" where
  "takes_only_expired h w d d' \<longleftrightarrow>
     (schema_ok d \<longrightarrow> schema_ok d' \<and> (\<forall>rid. sealed rid w d \<longrightarrow> sealed rid w d')) \<and>
     (\<forall>n rid ids. owns_past h w n rid ids d \<longrightarrow> owns_past h w n rid ids d')"

lemma owns_past_fence:
  assumes ok: "schema_ok d" and run: "renew_worker_fetch_ownership rid w n ttl ids t d = (None, d')" and h: "h < expiry t ttl"
  shows "owns_past h w n rid ids d'"
proof -
  note get = fence_reads [OF ok run]
  from run have own: "lease_owned n w d" "claim_held rid w d" "ids = [] \<or> reservations_owned (dedup ids) w d"
    by (auto elim: fence_cases)
  have "lease_holder d' n = Some (w, expiry t ttl)"
    using own(1) by (auto simp: lease_holder_def lease_owned_def get(1) split: option.splits)
  moreover have "claim_holder d' rid = Some (w, expiry t ttl)"
    using own(2) by (auto simp: claim_holder_def claim_held_def get(3) split: option.splits)
  moreover have "reservation_holder d' i = Some (w, expiry t ttl)" if "i \<in> set ids" for i
  proof -
    from own(3) that have "reservations_owned (dedup ids) w d" by auto
    with that obtain v where "get_reservation i d = Some v" "v_owner_token v = w"
      using reservations_owned_iff [OF schema_okD(9) [OF ok] distinct_dedup] by auto
    with that show ?thesis by (simp add: reservation_holder_def get(2))
  qed
  ultimately show ?thesis using h by (auto simp: owns_past_def)
qed

lemma owns_past_frame:
  assumes "leases d' = leases d" "reservations d' = reservations d" "\<And>k. claim_holder d' k = claim_holder d k"
    and "owns_past h w n rid ids d"
  shows "owns_past h w n rid ids d'"
  using assms(4) unfolding owns_past_def lease_holder_def reservation_holder_def get_lease_def get_reservation_def
    assms(1-3) by blast

lemma detach_invalid_frames: "leases (detach_invalid_queue_budgets i es d) = leases d"
  "reservations (detach_invalid_queue_budgets i es d) = reservations d"
  by (simp_all add: detach_invalid_queue_budgets_def)

lemma owns_past_check:
  assumes "owns_past h w n rid ids d"
  shows "owns_past h w n rid ids (snd (check_queue_item_upstream_request_deadlines i t d))"
proof -
  have "owns_past h w n rid ids (detach_invalid_queue_budgets i es d)" for es
    by (rule owns_past_frame [OF detach_invalid_frames claim_holder_detach_invalid assms])
  then show ?thesis using assms by (simp add: check_queue_item_upstream_request_deadlines_def Let_def)
qed

subsection \<open>Plans and requests\<close>

definition id_planned :: "queue_item \<Rightarrow> bool" where
  "id_planned item \<longleftrightarrow> i_work_kind item = FETCH_MISSING \<and> is_pure_id_list_request (i_request item)"

definition wanted_ids :: "queue_item \<Rightarrow> string list" where
  "wanted_ids item = dedup (map normalize_arxiv_id (id_list (i_request item)))"

text \<open>A plan asks upstream for reserved ids of the item, for at least one.\<close>

definition plan_sound :: "queue_item \<Rightarrow> id_plan option \<Rightarrow> bool" where
  "plan_sound item plan = (case plan of None \<Rightarrow> \<not> id_planned item
     | Some p \<Rightarrow> id_planned item \<and> requested_ids p = wanted_ids item \<and> set (reserved_ids p) \<subseteq> set (wanted_ids item) \<and>
         (\<forall>q. fetch_request p = Some q \<longrightarrow> q = missing_request item (reserved_ids p) \<and> reserved_ids p \<noteq> []))"

text \<open>
  The upstream request of an item: its own request, or for a pure id list the ids that are missing
  and reserved; the timeout may be shortened to what the budget deadline leaves.
\<close>

definition asks_for :: "queue_item \<Rightarrow> arxiv_request \<Rightarrow> bool" where
  "asks_for item q \<longleftrightarrow> (if id_planned item
     then id_list q \<noteq> [] \<and> set (id_list q) \<subseteq> set (wanted_ids item) \<and>
       q = (missing_request item (id_list q))\<lparr>timeout_seconds := timeout_seconds q\<rparr>
     else q = (i_request item)\<lparr>timeout_seconds := timeout_seconds q\<rparr>)"

definition guarded :: "datetime \<Rightarrow> worker \<Rightarrow> queue_item \<Rightarrow> arxiv_request \<times> db \<Rightarrow> bool" where
  "guarded h wk item qd \<longleftrightarrow> (case qd of (q, d) \<Rightarrow> asks_for item q \<and> charged (i_request_id item) d \<and>
     owns_past h (wk_token wk) (lim_lease (wk_limiter wk)) (i_request_id item) (if id_planned item then id_list q else []) d)"

definition guard_rely :: "datetime \<Rightarrow> worker \<Rightarrow> queue_item \<Rightarrow> rely" where
  "guard_rely h wk item = \<lparr>steps = takes_only_expired h (wk_token wk), times = (\<lambda>t. h < expiry t (fetch_ownership_ttl wk item))\<rparr>"

abbreviation guards :: "datetime \<Rightarrow> worker \<Rightarrow> queue_item \<Rightarrow> (db \<Rightarrow> bool) \<Rightarrow> 'a act \<Rightarrow> ('a \<Rightarrow> db \<Rightarrow> bool) \<Rightarrow> bool" where
  "guards h wk item P m Q \<equiv> triple (guard_rely h wk item) (guarded h wk item) P m Q (\<lambda>_ _. True)"

text \<open>s tells whether the current attempt has been charged.\<close>

definition tracked :: "worker \<Rightarrow> queue_item \<Rightarrow> bool \<Rightarrow> db \<Rightarrow> bool" where
  "tracked wk item s d \<longleftrightarrow> schema_ok d \<and> (s \<longrightarrow> sealed (i_request_id item) (wk_token wk) d)"

definition armed :: "datetime \<Rightarrow> worker \<Rightarrow> queue_item \<Rightarrow> id_plan option \<Rightarrow> bool \<Rightarrow> db \<Rightarrow> bool" where
  "armed h wk item plan s d \<longleftrightarrow> tracked wk item s d \<and>
     owns_past h (wk_token wk) (lim_lease (wk_limiter wk)) (i_request_id item)
       (case plan of None \<Rightarrow> [] | Some p \<Rightarrow> reserved_ids p) d"

lemma stable_tracked: "stable (guard_rely h wk item) (tracked wk item s)"
  by (auto simp: stable_def guard_rely_def tracked_def takes_only_expired_def)

lemma stable_armed: "stable (guard_rely h wk item) (armed h wk item plan s)"
  by (auto simp: stable_def guard_rely_def armed_def tracked_def takes_only_expired_def)

lemma guards_silent: "fetching 0 (\<lambda>_. True) m \<Longrightarrow> (\<And>x d. Q x d) \<Longrightarrow> guards h wk item P m Q"
  by (rule triple_post [OF triple_silent]) simp_all

lemma guards_tracked:
  assumes "\<And>t d. tracked wk item s d \<Longrightarrow> tracked wk item s (snd (f t d))"
  shows "guards h wk item (tracked wk item s) (tx_now f) (\<lambda>_. tracked wk item s)"
  by (rule triple_tx_now [OF stable_tracked]) (rule assms)

lemma guards_event: "guards h wk item (tracked wk item s) (tx_do (record_event ty p)) (\<lambda>_. tracked wk item s)"
  by (rule triple_tx_do [OF stable_tracked]) (simp add: tracked_def schema_ok_record_event sealed_event)

lemma guards_read_cache: "guards h wk item (tracked wk item s) (read_completed_cache k) (\<lambda>_. tracked wk item s)"
  unfolding read_completed_cache_def
  by (auto intro!: bind_read stable_tracked triple_return guards_event [THEN triple_then] split: option.split)

subsection \<open>The gate and the call\<close>

lemma guards_plan: "guards h wk item (tracked wk item False) (plan_id_list_fetch wk item)
    (\<lambda>plan d. plan_sound item plan \<and> tracked wk item False d)"
proof -
  have got: "set (acquired_ids res) \<subseteq> set ids \<and> (blocked_until res = None \<longrightarrow> ids \<noteq> [] \<longrightarrow> acquired_ids res \<noteq> [])"
    if "schema_ok d" "acquire_id_fetch_reservations ids w rid ttl t d = (res, d')" for ids w rid ttl t d res d'
    using that by (cases rule: acquire_ids_cases) auto
  have acquired: "guards h wk item (tracked wk item False) (tx_now (acquire_id_fetch_reservations ids (wk_token wk) rid ttl))
      (\<lambda>res d. tracked wk item False d \<and> set (acquired_ids res) \<subseteq> set ids \<and>
        (blocked_until res = None \<longrightarrow> ids \<noteq> [] \<longrightarrow> acquired_ids res \<noteq> []))" for ids rid ttl
  proof (rule triple_tx_now [OF stable_tracked])
    fix t d assume d: "tracked wk item False d"
    obtain res d' where run: "acquire_id_fetch_reservations ids (wk_token wk) rid ttl t d = (res, d')" by fastforce
    have "schema_ok d'" using schema_ok_acquire_ids [of d ids "wk_token wk" rid ttl t] d run by (simp add: tracked_def)
    with got [OF _ run] d show "tracked wk item False (snd (acquire_id_fetch_reservations ids (wk_token wk) rid ttl t d)) \<and>
        set (acquired_ids (fst (acquire_id_fetch_reservations ids (wk_token wk) rid ttl t d))) \<subseteq> set ids \<and>
        (blocked_until (fst (acquire_id_fetch_reservations ids (wk_token wk) rid ttl t d)) = None \<longrightarrow> ids \<noteq> [] \<longrightarrow>
          acquired_ids (fst (acquire_id_fetch_reservations ids (wk_token wk) rid ttl t d)) \<noteq> [])"
      unfolding run fst_conv snd_conv by (auto simp: tracked_def)
  qed
  show ?thesis
    unfolding plan_id_list_fetch_def Let_def wanted_ids_def [symmetric]
    apply (intro triple_if bind_read stable_tracked triple_return triple_bind [OF acquired])
    by (auto simp: plan_sound_def id_planned_def missing_ids_def)
qed

text \<open>Revalidation keeps the plan sound, whatever it finds.\<close>

lemma guards_revalidate:
  assumes "plan_sound item (Some p)"
  shows "guards h wk item (tracked wk item s) (revalidate_id_list_fetch_plan wk item p ttl)
    (\<lambda>q d. plan_sound item (Some q) \<and> tracked wk item s d)"
proof -
  have rel: "guards h wk item (tracked wk item s) (release_ids wk ids) (\<lambda>_. tracked wk item s)" for ids
    unfolding release_ids_def
    by (auto intro!: bind_now triple_return triple_tx_do [OF stable_tracked] simp: tracked_def schema_ok_release_ids sealed_release_ids)
  have renewed: "guards h wk item (tracked wk item s) (if b then returnM False
      else tx_now (renew_id_fetch_reservations ids (wk_token wk) ttl)) (\<lambda>ok d. tracked wk item s d \<and> (ok \<longrightarrow> \<not> b))" for ids b
    by (intro triple_if triple_return triple_tx_now [OF stable_tracked])
      (simp_all add: tracked_def schema_ok_renew_ids sealed_renew_ids)
  have still: "filter (\<lambda>i. i \<in> set ms) (reserved_ids p) \<noteq> []"
    if "{x \<in> set (reserved_ids p). x \<in> set ms} = set ms" "ms \<noteq> []" for ms
    using that by (cases ms) (auto simp: filter_empty_conv)
  show ?thesis
    unfolding revalidate_id_list_fetch_plan_def Let_def
    apply (intro triple_if bind_read stable_tracked rel [THEN triple_then] triple_bind [OF renewed] bind_now triple_return)
    using assms still by (auto simp: plan_sound_def)
qed

lemma guards_fence:
  "guards h wk item (tracked wk item s) (fence wk item plan (fetch_ownership_ttl wk item))
     (\<lambda>r d. tracked wk item s d \<and> (r = None \<longrightarrow> armed h wk item plan s d))"
  unfolding fence_def
proof (rule triple_tx_now_times [OF stable_tracked])
  fix t d
  let ?ids = "case plan of None \<Rightarrow> [] | Some p \<Rightarrow> reserved_ids p"
  assume t: "times (guard_rely h wk item) t" and d: "tracked wk item s d"
  obtain r d' where run: "renew_worker_fetch_ownership (i_request_id item) (wk_token wk) (lim_lease (wk_limiter wk))
      (fetch_ownership_ttl wk item) ?ids t d = (r, d')" by fastforce
  have "tracked wk item s d'"
    using d schema_ok_fence sealed_fence snd_conv run unfolding tracked_def by metis
  moreover have "armed h wk item plan s d'" if "r = None"
    using owns_past_fence [of d _ _ _ _ ?ids t d' h] run that d t calculation
    by (auto simp: armed_def tracked_def guard_rely_def)
  ultimately show "tracked wk item s (snd (renew_worker_fetch_ownership (i_request_id item) (wk_token wk)
        (lim_lease (wk_limiter wk)) (fetch_ownership_ttl wk item) ?ids t d)) \<and>
      (fst (renew_worker_fetch_ownership (i_request_id item) (wk_token wk) (lim_lease (wk_limiter wk))
        (fetch_ownership_ttl wk item) ?ids t d) = None \<longrightarrow>
       armed h wk item plan s (snd (renew_worker_fetch_ownership (i_request_id item) (wk_token wk)
        (lim_lease (wk_limiter wk)) (fetch_ownership_ttl wk item) ?ids t d)))"
    unfolding run fst_conv snd_conv by blast
qed

definition goes_on :: "datetime \<Rightarrow> worker \<Rightarrow> queue_item \<Rightarrow> bool \<Rightarrow> id_plan option \<times> pass_result option \<Rightarrow> db \<Rightarrow> bool" where
  "goes_on h wk item s pr d \<longleftrightarrow> (snd pr = None \<longrightarrow> plan_sound item (fst pr) \<and>
     (\<forall>p. fst pr = Some p \<longrightarrow> fetch_request p \<noteq> None) \<and> armed h wk item (fst pr) s d)"

lemma guards_ended:
  "fetching 0 (\<lambda>_. True) m \<Longrightarrow> guards h wk item P (bindM m (\<lambda>r. returnM (plan, Some r))) (goes_on h wk item s)"
  by (rule triple_bind [OF triple_silent]) (auto intro: triple_return simp: goes_on_def)

lemma guards_final_fence:
  assumes "plan_sound item plan" "\<And>p. plan = Some p \<Longrightarrow> fetch_request p \<noteq> None"
  shows "guards h wk item (tracked wk item s) (final_fence wk item plan (fetch_ownership_ttl wk item)) (goes_on h wk item s)"
  unfolding final_fence_def
proof (rule triple_bind [OF guards_fence])
  fix r
  show "guards h wk item (\<lambda>d. tracked wk item s d \<and> (r = None \<longrightarrow> armed h wk item plan s d))
      (case r of None \<Rightarrow> returnM (plan, None)
       | Some why \<Rightarrow> bindM (fetch_ownership_failure wk item plan why) (\<lambda>r. returnM (plan, Some r))) (goes_on h wk item s)"
    using assms by (cases r) (auto intro!: guards_ended triple_return simp: goes_on_def)
qed

lemma guards_gate_id_plan:
  assumes "plan_sound item (Some p)"
  shows "guards h wk item (tracked wk item s) (gate_id_plan wk item p (fetch_ownership_ttl wk item)) (goes_on h wk item s)"
  unfolding gate_id_plan_def
  apply (rule triple_bind [OF guards_revalidate [OF assms]])
  subgoal for q
  proof (cases "plan_sound item (Some q)")
    case True
    show ?thesis
      apply (intro triple_if)
      subgoal by (intro triple_then [OF triple_silent] triple_return) (auto simp: goes_on_def)
      subgoal by (intro triple_bind [OF triple_silent] triple_then [OF triple_silent] guards_ended) auto
      subgoal using guards_final_fence [OF True] by (auto intro: triple_pre)
      done
  qed (simp add: triple_never)
  done

lemma guards_gate:
  assumes "plan_sound item plan"
  shows "guards h wk item (tracked wk item s) (gate_fetch_ownership wk item plan (fetch_ownership_ttl wk item)) (goes_on h wk item s)"
proof -
  have go: "guards h wk item (tracked wk item s) (case plan of Some p \<Rightarrow> gate_id_plan wk item p (fetch_ownership_ttl wk item)
      | None \<Rightarrow> final_fence wk item None (fetch_ownership_ttl wk item)) (goes_on h wk item s)"
    using assms by (cases plan) (auto intro: guards_gate_id_plan guards_final_fence)
  have served: "guards h wk item P (thenM (drop_lease wk) (thenM (complete_item item) (thenM (release_id_plan wk plan)
      (bindM (served_from_cache wk item n) (\<lambda>r. returnM (plan, Some r)))))) (goes_on h wk item s)" for P n
    by (intro triple_then [OF triple_silent] guards_ended) auto
  show ?thesis
    unfolding gate_fetch_ownership_def
    apply (rule triple_bind [OF guards_fence])
    subgoal for r
    proof (cases r)
      case None
      show ?thesis
        unfolding None option.case
        by (rule triple_pre [OF triple_bind [OF guards_read_cache [where s = s]]]) (intro triple_if served go, simp)
    qed (simp add: guards_ended)
    done
qed

lemma guards_reserve:
  "guards h wk item (tracked wk item False) (reserve_budgets item) (\<lambda>err d. tracked wk item (err = None) d)"
proof -
  have checked: "guards h wk item (tracked wk item True) (check_deadlines item) (\<lambda>err d. tracked wk item (err = None) d)"
    unfolding check_deadlines_def
    by (rule triple_tx_now [OF stable_tracked]) (simp add: tracked_def schema_ok_check_item sealed_check)
  have reserved: "guards h wk item (tracked wk item False) (tx_now (reserve_queue_item_upstream_request (i_request_id item)))
      (\<lambda>err d. tracked wk item (err = None) d)"
  proof (rule triple_tx_now [OF stable_tracked])
    fix t d assume d: "tracked wk item False d"
    obtain err d' where run: "reserve_queue_item_upstream_request (i_request_id item) t d = (err, d')" by fastforce
    have "tracked wk item (err = None) d'"
      using d run sealed_reserve [of d "i_request_id item" t d'] schema_ok_reserve_item [OF _ run] by (auto simp: tracked_def)
    then show "tracked wk item (fst (reserve_queue_item_upstream_request (i_request_id item) t d) = None)
        (snd (reserve_queue_item_upstream_request (i_request_id item) t d))" by (simp add: run)
  qed
  show ?thesis
    unfolding reserve_budgets_def
    apply (rule triple_bind [OF reserved])
    subgoal for err by (cases err) (auto intro: checked triple_return)
    done
qed

lemma guards_verdict:
  "guards h wk item P k Q \<Longrightarrow> (\<And>x d. Q x d) \<Longrightarrow> guards h wk item P (budget_verdict wk item plan err k) Q"
  by (auto simp: budget_verdict_def intro!: guards_silent split: option.split)

lemma guards_call:
  assumes "plan_sound item plan" "\<And>p. plan = Some p \<Longrightarrow> fetch_request p \<noteq> None"
    and q: "q = (planned_request item plan)\<lparr>timeout_seconds := timeout_seconds q\<rparr>"
  shows "guards h wk item (armed h wk item plan True) (fetch_and_record wk item plan q) (\<lambda>_ _. True)"
proof -
  have guarded: "guarded h wk item (q, d)" if "armed h wk item plan True d" for d
  proof -
    have held: "owns_past h (wk_token wk) (lim_lease (wk_limiter wk)) (i_request_id item)
        (case plan of None \<Rightarrow> [] | Some p \<Rightarrow> reserved_ids p) d" and sealed: "sealed (i_request_id item) (wk_token wk) d"
      using that by (auto simp: armed_def tracked_def)
    have "claimed_row (i_request_id item) (wk_token wk) d \<noteq> None"
      using held by (auto simp: owns_past_def claim_holder_def claimed_row_def split: option.splits if_splits)
    then have "charged (i_request_id item) d" using sealed by (auto simp: sealed_def)
    moreover have "asks_for item q \<and> (id_planned item \<longrightarrow> (\<exists>p. plan = Some p \<and> id_list q = reserved_ids p))"
    proof (cases plan)
      case None
      with assms(1) q show ?thesis by (simp add: plan_sound_def asks_for_def planned_request_def)
    next
      case (Some p)
      then obtain r where "fetch_request p = Some r" using assms(2) by auto
      then have r: "planned_request item plan = missing_request item (reserved_ids p)" "reserved_ids p \<noteq> []" "id_planned item"
          "set (reserved_ids p) \<subseteq> set (wanted_ids item)"
        using assms(1) Some by (auto simp: plan_sound_def planned_request_def)
      have "id_list q = id_list (planned_request item plan)" by (subst q) simp
      then have "id_list q = reserved_ids p" using r(1) by (simp add: missing_request_def)
      then show ?thesis using q r Some by (simp add: asks_for_def)
    qed
    ultimately show ?thesis
      using held by (auto simp: guarded_def owns_past_def split: option.splits)
  qed
  have call: "guards h wk item (armed h wk item plan True)
      (catchM (bindM (fetchM q) (\<lambda>r. returnM (Inr r))) (\<lambda>e. returnM (Inl e))) (\<lambda>_ _. True)"
    by (rule triple_catch [where E' = "\<lambda>_ _. True"], rule triple_bind [where Q' = "\<lambda>_ _. True"])
      (auto intro!: triple_fetch triple_return guarded)
  show ?thesis
    unfolding fetch_and_record_def
    apply (rule triple_bind [OF call])
    apply (rule guards_silent)
    by (auto split: sum.split exn.split)
qed

lemma guards_before_deadline:
  assumes "plan_sound item plan" "\<And>p. plan = Some p \<Longrightarrow> fetch_request p \<noteq> None"
  shows "guards h wk item (armed h wk item plan True) (fetch_before_deadline wk item plan) (\<lambda>_ _. True)"
proof -
  note call = guards_call [OF assms]
  have read: "guards h wk item (armed h wk item plan True) (read_deadline item) (\<lambda>_. armed h wk item plan True)"
    unfolding read_deadline_def by (rule triple_read [OF stable_armed])
  have check: "guards h wk item (armed h wk item plan True) (check_deadlines item) (\<lambda>_. armed h wk item plan True)"
    unfolding check_deadlines_def
    by (rule triple_tx_now [OF stable_armed]) (simp add: armed_def tracked_def schema_ok_check_item sealed_check owns_past_check)
  show ?thesis
    unfolding fetch_before_deadline_def Let_def
    apply (rule triple_bind [OF read])
    by (auto intro!: call bind_now triple_bind [OF check] triple_bind [OF read] guards_verdict simp: clip_timeout_def split: option.split)
qed

subsection \<open>The pass\<close>

lemma tracked_False: "tracked wk item False = schema_ok"
  by (rule ext) (simp add: tracked_def)

lemma guards_before_request:
  "guards h wk item (tracked wk item False) (before_request l own now) (\<lambda>_. tracked wk item False)"
proof -
  note stable = stable_tracked [of h wk item False, unfolded tracked_False]
  have tx: "triple (guard_rely h wk item) (guarded h wk item) schema_ok (tx_do f) (\<lambda>_. schema_ok) E"
    if "\<And>d. schema_ok d \<Longrightarrow> schema_ok (f d)" for f E
    by (rule triple_tx_do [OF stable]) (rule that)
  have at: "guards h wk item schema_ok (tx_at now f) (\<lambda>_. schema_ok)" if "\<And>t d. schema_ok d \<Longrightarrow> schema_ok (snd (f t d))"
    for f :: "datetime \<Rightarrow> db \<Rightarrow> bool \<times> db"
    by (rule triple_tx_at [OF stable]) (rule that)
  have renew: "schema_ok (snd (renew_lease_if_owned n own ttl t d))" if "schema_ok d" for n ttl t d
    using schema_ok_renew_leases [OF that, of "[(n, own, ttl)]" t]
    by (auto simp: renew_lease_if_owned_def split: prod.split sum.split)
  have started: "guards h wk item schema_ok (catchM (thenM (tx_do (set_rate_state s)) (tx_do (record_event ty p))) f) (\<lambda>_. schema_ok)"
    for s ty p f
    by (rule triple_catch [where E' = "\<lambda>_ _. False", OF triple_then [OF tx tx] triple_never])
      (simp_all add: schema_ok_set_rate_state schema_ok_record_event)
  show ?thesis
    unfolding before_request_def tracked_False Let_def
    by (intro triple_bind [OF at] triple_if triple_return bind_now_or bind_read stable triple_then [OF tx]
        triple_then [OF started])
      (simp_all add: schema_ok_acquire_lease renew schema_ok_release_lease)
qed

lemma guards_gated:
  assumes "plan_sound item plan"
    and "\<And>plan'. plan_sound item plan' \<Longrightarrow> (\<And>p. plan' = Some p \<Longrightarrow> fetch_request p \<noteq> None) \<Longrightarrow>
      guards h wk item (armed h wk item plan' s) (k plan') (\<lambda>_ _. True)"
  shows "guards h wk item (tracked wk item s) (bindM (gate_fetch_ownership wk item plan (fetch_ownership_ttl wk item))
      (\<lambda>(plan', ended). case ended of Some r \<Rightarrow> returnM r | None \<Rightarrow> k plan')) (\<lambda>_ _. True)"
  apply (rule triple_bind [OF guards_gate [OF assms(1)]])
  subgoal for pr
  proof (cases pr)
    case (Pair plan' ended)
    show ?thesis
    proof (cases ended)
      case None
      show ?thesis
      proof (cases "plan_sound item plan' \<and> (\<forall>p. plan' = Some p \<longrightarrow> fetch_request p \<noteq> None)")
        case True
        with assms(2) [of plan'] show ?thesis unfolding Pair None by (auto simp: goes_on_def intro: triple_pre)
      next
        case False
        then have "goes_on h wk item s pr = (\<lambda>_. False)" by (auto simp: goes_on_def Pair None)
        then show ?thesis by (simp add: triple_never)
      qed
    qed (simp add: Pair triple_return)
  qed
  done

lemma guards_when_owned:
  assumes "plan_sound item plan"
  shows "guards h wk item (tracked wk item False) (fetch_when_owned wk item plan) (\<lambda>_ _. True)"
proof -
  have check: "guards h wk item (armed h wk item pl True) (check_deadlines item) (\<lambda>_. armed h wk item pl True)" for pl
    unfolding check_deadlines_def
    by (rule triple_tx_now [OF stable_armed]) (simp add: armed_def tracked_def schema_ok_check_item sealed_check owns_past_check)
  have last: "guards h wk item (armed h wk item plan2 True) (bindM (check_deadlines item) (\<lambda>err2.
      budget_verdict wk item plan2 err2 (fetch_before_deadline wk item plan2))) (\<lambda>_ _. True)"
    if "plan_sound item plan2" "\<And>p. plan2 = Some p \<Longrightarrow> fetch_request p \<noteq> None" for plan2
    by (rule triple_bind [OF check]) (intro guards_verdict guards_before_deadline that, simp_all)
  have second: "guards h wk item (armed h wk item plan1 False) (bindM (reserve_budgets item) (\<lambda>err1. budget_verdict wk item plan1 err1
      (bindM (gate_fetch_ownership wk item plan1 (fetch_ownership_ttl wk item)) (\<lambda>(plan2, ended2). case ended2 of Some r \<Rightarrow> returnM r
        | None \<Rightarrow> bindM (check_deadlines item) (\<lambda>err2. budget_verdict wk item plan2 err2 (fetch_before_deadline wk item plan2)))))) (\<lambda>_ _. True)"
    if "plan_sound item plan1" for plan1
  proof (rule triple_pre [OF triple_bind [OF guards_reserve]])
    fix err1
    show "guards h wk item (tracked wk item (err1 = None)) (budget_verdict wk item plan1 err1
      (bindM (gate_fetch_ownership wk item plan1 (fetch_ownership_ttl wk item)) (\<lambda>(plan2, ended2). case ended2 of Some r \<Rightarrow> returnM r
        | None \<Rightarrow> bindM (check_deadlines item) (\<lambda>err2. budget_verdict wk item plan2 err2 (fetch_before_deadline wk item plan2))))) (\<lambda>_ _. True)"
    proof (cases err1)
      case None
      with guards_gated [OF that last] show ?thesis by (simp add: budget_verdict_def)
    next
      case (Some e)
      then show ?thesis by (auto simp: budget_verdict_def intro: guards_silent)
    qed
  qed (simp add: armed_def tracked_def)
  show ?thesis
    unfolding fetch_when_owned_def Let_def by (rule guards_gated [OF assms second])
qed

lemma guards_process: "guards h wk item (tracked wk item False) (process_item wk item) (\<lambda>_ _. True)"
proof -
  have allowed: "guards h wk item (tracked wk item False) (fetch_when_allowed wk item plan) (\<lambda>_ _. True)"
    if "plan_sound item plan" for plan
    unfolding fetch_when_allowed_def
    apply (rule triple_bind [OF guards_before_request])
    by (intro triple_if then_sleep guards_when_owned that guards_silent) simp_all
  have planned: "guards h wk item (\<lambda>d. plan_sound item plan \<and> tracked wk item False d)
     (case plan of
         None \<Rightarrow> fetch_when_allowed wk item None
       | Some p \<Rightarrow>
           if fetch_request p = None \<and> plan_blocked_until p = None then
              bindM (stored_papers p) (\<lambda>ps.
              thenM (record_completed item ps (Some (int (length ps))) 200 0)
             (thenM (complete_item item) (served_from_cache wk item (int (length ps)))))
           else if plan_blocked_until p \<noteq> None then
              thenM (delay_item item (plan_blocked_until p) (Some ''id_fetch_reserved'')
                       (Some ''id fetch reserved by another worker'') DELAYED)
             (thenM (worker_done wk (plan_blocked_until p) (Some ''id_fetch_reserved'')
                       (Some ''id fetch reserved by another worker''))
               (returnM (blocked_result item ''blocked'' (plan_blocked_until p) (Some ''id_fetch_reserved'') None)))
           else fetch_when_allowed wk item (Some p)) (\<lambda>_ _. True)" for plan
  proof (cases "plan_sound item plan")
    case True
    have go: "guards h wk item (\<lambda>d. plan_sound item plan \<and> tracked wk item False d) (fetch_when_allowed wk item plan) (\<lambda>_ _. True)"
      by (rule triple_pre [OF allowed [OF True]]) simp
    show ?thesis
    proof (cases plan)
      case None
      with go show ?thesis by simp
    next
      case (Some p)
      show ?thesis
        unfolding Some option.case
        apply (intro triple_if)
        subgoal by (rule guards_silent) (auto intro!: no_fetch)
        subgoal by (rule guards_silent) (auto intro!: no_fetch)
        subgoal using go by (simp add: Some)
        done
    qed
  qed (simp add: triple_never)
  show ?thesis
    unfolding process_item_def
    by (intro triple_bind [OF guards_read_cache] triple_if triple_bind [OF guards_plan] planned guards_silent)
      (auto intro!: no_fetch)
qed

text \<open>C24. Let h be a time such that the other processes take from the worker only
  what has expired by h and reopen no attempt that is charged, and such that the clock, whenever
  the worker reads it, is within fetch_ownership_ttl of h. Then whenever a pass on an item calls
  upstream, whatever the others took before, at that moment the worker's token holds the upstream
  lease, the claim of the item and, for a pure id-list request, every id it asks for, all of them
  past h; every budget joined to the current attempt has been charged for it; and the request is
  the item's own, or asks for at least one and only for requested ids.\<close>

theorem upstream_call_is_guarded:
  assumes "\<forall>n d. takes_only_expired h (wk_token wk) d (others w n d)"
    and "\<forall>n. h < expiry (clock w n) (fetch_ownership_ttl wk item)"
    and "schema_ok (store w)"
  shows "list_all (\<lambda>(q, d). asks_for item q \<and> charged (i_request_id item) d \<and>
      owns_past h (wk_token wk) (lim_lease (wk_limiter wk)) (i_request_id item) (if id_planned item then id_list q else []) d)
    (drop (length (fetches w)) (fetches (snd (process_item wk item w))))"
proof -
  have "runs_under (guard_rely h wk item) w" using assms(1,2) by (simp add: runs_under_def guard_rely_def)
  moreover have "tracked wk item False (store w)" using assms(3) by (simp add: tracked_def)
  ultimately obtain rs where "fetches (snd (process_item wk item w)) = fetches w @ rs" "list_all (guarded h wk item) rs"
    using triple_at(2) [OF guards_process _ _ prod.collapse [symmetric]] by blast
  then show ?thesis by (simp add: guarded_def [abs_def])
qed

text \<open>
  The clock may read t at any time up to h as long as h is within the ownership time; a store that
  others only enqueue into behaves this way.
\<close>

lemma enqueue_takes_nothing:
  assumes "enqueue_request_for_work_conn q k kind b dflt t u d = (res, d')"
  shows "takes_only_expired h w d d'"
proof -
  have "leases d' = leases d" "reservations d' = reservations d"
    using assms by (cases rule: enqueue_cases; simp)+
  then have "owns_past h w n rid ids d \<Longrightarrow> owns_past h w n rid ids d'" for n rid ids
    by (rule owns_past_frame) (rule claim_holder_enqueue [OF assms])
  moreover have "schema_ok d \<Longrightarrow> schema_ok d'"
    using schema_ok_enqueue assms by blast
  moreover have "schema_ok d \<Longrightarrow> sealed rid w d \<Longrightarrow> sealed rid w d'" for rid
    using sealed_enqueue [OF _ assms] .
  ultimately show ?thesis by (simp add: takes_only_expired_def)
qed

definition guard_row :: queue_row where
  "guard_row = sample_row\<lparr>q_claimed_by := Some ''w:1'', q_upstream_budget_id := None, q_unbudgeted_demand := True,
     q_work_kind := REFRESH_COMPLETED\<rparr>"

text \<open>The item is claimed by the worker; the upstream API is down.\<close>

definition guard_world :: world where
  "guard_world = alone ((empty_db (\<lambda>_. 0))\<lparr>queue_items := [guard_row]\<rparr>) (\<lambda>_ _. Inl (OtherExn ''offline''))"

definition guard_worker :: worker where
  "guard_worker = \<lparr>wk_name = ''w'', wk_token = ''w:1'', wk_settings = default_settings, wk_limiter = sample_limiter,
     wk_store_timeout = 30\<rparr>"

lemma guard_world_calls: "length (fetches (snd (process_item guard_worker (queue_item_from_row guard_row) guard_world))) = 1"
  by code_simp

theorem upstream_call_is_guarded_witness:
  "\<exists>q d. fetches (snd (process_item guard_worker (queue_item_from_row guard_row) guard_world)) = [(q, d)] \<and>
     q = sample_request\<lparr>timeout_seconds := timeout_seconds q\<rparr> \<and> charged ''r'' d \<and> owns_past 100 ''w:1'' ''upstream_fetch'' ''r'' [] d"
proof -
  let ?item = "queue_item_from_row guard_row"
  have item: "i_request_id ?item = ''r''" "i_request ?item = sample_request" "\<not> id_planned ?item"
    by (simp_all add: queue_item_from_row_def guard_row_def sample_row_def id_planned_def)
  have worker: "wk_token guard_worker = ''w:1''" "lim_lease (wk_limiter guard_worker) = ''upstream_fetch''"
    by (simp_all add: guard_worker_def sample_limiter_def)
  have others: "\<forall>n d. takes_only_expired 100 (wk_token guard_worker) d (others guard_world n d)"
    by (simp add: guard_world_def alone_def takes_only_expired_def)
  have "300 \<le> fetch_ownership_ttl guard_worker ?item"
    by (simp add: fetch_ownership_ttl_def guard_worker_def default_settings_def)
  then have clock: "\<forall>n. 100 < expiry (clock guard_world n) (fetch_ownership_ttl guard_worker ?item)"
    by (simp add: guard_world_def alone_def expiry_def us_per_second_def)
  have ok: "schema_ok (store guard_world)"
    by (auto simp: guard_world_def alone_def guard_row_def sample_row_def empty_db_def schema_ok_def one_pending_per_key_def
        keyed_Cons)
  obtain q d where log: "fetches (snd (process_item guard_worker ?item guard_world)) = [(q, d)]"
    using guard_world_calls by (auto simp: length_Suc_conv)
  have "fetches guard_world = []" by (simp add: guard_world_def alone_def)
  with upstream_call_is_guarded [OF others clock ok] log item worker show ?thesis
    by (auto simp: asks_for_def)
qed

end
