(* ===== verification/Huldra_Lookup.thy ===== *)
theory Huldra_Lookup
  imports Huldra_Worker
begin

text \<open>
  Matching the upstream answer of an id-list request with the requested ids (_id_list_paper_lookup
  and _ordered_id_list_papers of worker.py).
\<close>

subsection \<open>The lookup against its specification\<close>

definition paper_key :: "arxiv_paper \<Rightarrow> string" where
  "paper_key p = normalize_arxiv_id (p_arxiv_id p)"

text \<open>
  The specification: for an id, the last paper that carries exactly this id; else the paper stored
  under it; else the first paper that is a version of it. Stored papers come before fetched ones.
\<close>

definition spec_lookup :: "(string \<times> arxiv_paper) list \<Rightarrow> arxiv_paper list \<Rightarrow> string \<Rightarrow> arxiv_paper option" where
  "spec_lookup cached ps i =
     (case List.find (\<lambda>p. paper_key p = i) (rev ps) of Some p \<Rightarrow> Some p
      | None \<Rightarrow> (case map_of cached i of Some p \<Rightarrow> Some p
      | None \<Rightarrow> List.find (\<lambda>p. versionless_arxiv_id (paper_key p) = i) ps))"

lemma map_of_map_set: "map_of (map (\<lambda>(j, u). if j = k then (j, v) else (j, u)) m) i =
    (if i = k \<and> map_of m k \<noteq> None then Some v else map_of m i)"
  by (induction m) auto

lemma map_of_dict_set: "map_of (dict_set k v m) i = (if i = k then Some v else map_of m i)"
  by (auto simp: dict_set_def map_of_map_set map_add_def split: option.split)

lemma map_of_dict_setdefault:
  "map_of (dict_setdefault k v m) i = (if i = k \<and> map_of m k = None then Some v else map_of m i)"
  by (auto simp: dict_setdefault_def map_add_def split: option.split)

lemma find_append: "List.find P (xs @ ys) = (case List.find P xs of None \<Rightarrow> List.find P ys | Some x \<Rightarrow> Some x)"
  by (induction xs) auto

lemma add_lookup_spec:
  assumes "\<And>i. map_of m i = spec_lookup cached ps i"
  shows "map_of (add_id_list_paper_lookup p m) i = spec_lookup cached (ps @ [p]) i"
proof -
  have "map_of (add_id_list_paper_lookup p m) i =
      (if i = paper_key p then Some p
       else if i = versionless_arxiv_id (paper_key p) \<and> spec_lookup cached ps i = None then Some p
       else spec_lookup cached ps i)"
    by (auto simp: add_id_list_paper_lookup_def Let_def paper_key_def map_of_dict_set map_of_dict_setdefault assms)
  also have "\<dots> = spec_lookup cached (ps @ [p]) i"
    by (auto simp: spec_lookup_def  find_append split: option.split)
  finally show ?thesis .
qed

lemma fold_lookup_spec:
  assumes "\<And>i. map_of m i = spec_lookup cached ps i"
  shows "map_of (fold add_id_list_paper_lookup qs m) i = spec_lookup cached (ps @ qs) i"
  using assms
proof (induction qs arbitrary: m ps)
  case (Cons q qs)
  have "map_of (fold add_id_list_paper_lookup qs (add_id_list_paper_lookup q m)) i = spec_lookup cached ((ps @ [q]) @ qs) i"
    by (rule Cons.IH) (rule add_lookup_spec [OF Cons.prems])
  then show ?case by simp
qed simp

text \<open>The lookup the worker builds with its two loops of assignments and
  setdefault answers every id as the specification does: the last paper with exactly this id, else
  the paper stored under it, else the first paper that is a version of it.\<close>

theorem id_lookup_meets_its_spec:
  "map_of (id_list_paper_lookup cached fetched) i = spec_lookup cached (map snd cached @ fetched) i"
proof -
  have start: "map_of cached i = spec_lookup cached [] i" for i
    by (simp add: spec_lookup_def  split: option.split)
  have "map_of (fold add_id_list_paper_lookup (map snd cached) cached) j = spec_lookup cached (map snd cached) j" for j
    using fold_lookup_spec [OF start, of "map snd cached"] by simp
  from fold_lookup_spec [OF this] show ?thesis by (simp add: id_list_paper_lookup_def)
qed

subsection \<open>The answer to an id list\<close>

lemma find_SomeD: "List.find P ps = Some p \<Longrightarrow> p \<in> set ps \<and> P p"
  by (auto simp:  find_Some_iff)

lemma spec_lookup_sound:
  assumes "spec_lookup cached (map snd cached @ fetched) i = Some p"
  shows "(p \<in> set fetched \<or> p \<in> snd ` set cached) \<and>
    (paper_key p = i \<or> versionless_arxiv_id (paper_key p) = i \<or> (i, p) \<in> set cached)"
  using assms unfolding spec_lookup_def
  by (auto split: option.splits dest!: find_SomeD map_of_SomeD intro: rev_image_eqI)

lemma lookup_all_Some: "lookup_all ids m = Some ps \<longleftrightarrow> map Some ps = map (map_of m) ids"
  by (induction ids arbitrary: ps) (auto split: option.split)

lemma lookup_all_found: "missing_ids ids m = [] \<Longrightarrow> \<exists>ps. lookup_all ids m = Some ps"
  by (induction ids) (auto simp: missing_ids_def split: if_splits)

lemma dedup_papers_set: "p \<in> set ps \<Longrightarrow> p_arxiv_id p \<in> set seen \<union> p_arxiv_id ` set (dedup_papers seen ps)"
  by (induction seen ps rule: dedup_papers.induct) auto

lemma dedup_papers_sub: "set (dedup_papers seen ps) \<subseteq> {p \<in> set ps. p_arxiv_id p \<notin> set seen}"
  by (induction seen ps rule: dedup_papers.induct) (auto split: if_splits)

lemma dedup_papers_distinct: "distinct (map p_arxiv_id (dedup_papers seen ps))"
  by (induction seen ps rule: dedup_papers.induct) (use dedup_papers_sub in fastforce)+

text \<open>When no requested id is missing after the fetch, the list the worker
  records exists, holds no arXiv id twice, holds for every requested id a paper with the id of the
  paper found for it, and holds nothing but papers that were fetched or stored and that were
  requested: by their id, by the id they are a version of, or stored under a requested id.\<close>

theorem id_answer_is_complete:
  assumes "missing_ids ids (id_list_paper_lookup cached fetched) = []"
  shows "\<exists>ps. ordered_id_list_papers ids (id_list_paper_lookup cached fetched) = Some ps \<and>
    distinct (map p_arxiv_id ps) \<and>
    (\<forall>i\<in>set ids. \<exists>p. map_of (id_list_paper_lookup cached fetched) i = Some p \<and> p_arxiv_id p \<in> p_arxiv_id ` set ps) \<and>
    (\<forall>p\<in>set ps. (p \<in> set fetched \<or> p \<in> snd ` set cached) \<and>
       (\<exists>i\<in>set ids. paper_key p = i \<or> versionless_arxiv_id (paper_key p) = i \<or> (i, p) \<in> set cached))"
proof -
  let ?m = "id_list_paper_lookup cached fetched"
  obtain qs where qs: "lookup_all ids ?m = Some qs" using lookup_all_found [OF assms] by blast
  then have all: "map Some qs = map (map_of ?m) ids" by (simp add: lookup_all_Some)
  have found: "\<exists>q\<in>set qs. map_of ?m i = Some q" if "i \<in> set ids" for i
  proof -
    have "map_of ?m i \<in> set (map Some qs)" unfolding all using that by simp
    then show ?thesis by auto
  qed
  have asked: "\<exists>i\<in>set ids. map_of ?m i = Some q" if "q \<in> set qs" for q
  proof -
    have "Some q \<in> set (map (map_of ?m) ids)" using that by (simp flip: all)
    then show ?thesis by auto
  qed
  let ?ps = "dedup_papers [] qs"
  have "ordered_id_list_papers ids ?m = Some ?ps" by (simp add: ordered_id_list_papers_def qs)
  moreover have "\<exists>p. map_of ?m i = Some p \<and> p_arxiv_id p \<in> p_arxiv_id ` set ?ps" if "i \<in> set ids" for i
    using found [OF that] dedup_papers_set [of _ qs "[]"] by auto
  moreover have "(p \<in> set fetched \<or> p \<in> snd ` set cached) \<and>
       (\<exists>i\<in>set ids. paper_key p = i \<or> versionless_arxiv_id (paper_key p) = i \<or> (i, p) \<in> set cached)" if "p \<in> set ?ps" for p
  proof -
    have "p \<in> set qs" using that dedup_papers_sub [of "[]" qs] by auto
    then obtain i where "i \<in> set ids" "map_of ?m i = Some p" using asked by blast
    with spec_lookup_sound [of cached fetched i p] show ?thesis
      unfolding id_lookup_meets_its_spec by blast
  qed
  ultimately show ?thesis using dedup_papers_distinct [of "[]" qs] by blast
qed

theorem id_answer_is_complete_witness:
  "\<exists>ps. ordered_id_list_papers [''2401.00001'', ''2401.00002v2'']
      (id_list_paper_lookup [(''2401.00001'', sample_paper ''2401.00001v3'')] [sample_paper ''2401.00002v2'']) = Some ps \<and>
    distinct (map p_arxiv_id ps) \<and> length ps = 2"
proof -
  let ?m = "id_list_paper_lookup [(''2401.00001'', sample_paper ''2401.00001v3'')] [sample_paper ''2401.00002v2'']"
  have none: "missing_ids [''2401.00001'', ''2401.00002v2''] ?m = []" by code_simp
  have "map_option length (ordered_id_list_papers [''2401.00001'', ''2401.00002v2''] ?m) = Some 2" by code_simp
  with id_answer_is_complete [OF none] show ?thesis by auto
qed

text \<open>
  _versionless_arxiv_id cuts as many characters as the decimal text of the version number has: a
  version with a leading zero keeps a stray "v", so the paper is not found under its base id.
\<close>

lemma versionless_leading_zero:
  "versionless_arxiv_id ''2401.00001v02'' = ''2401.00001v''" "arxiv_id_family_base ''2401.00001v02'' = ''2401.00001''"
  by code_simp+

end
