(* ===== verification/Huldra_Oai.thy ===== *)
theory Huldra_Oai
  imports Huldra_Cache
begin

text \<open>
  The durable side of OAI-PMH harvests (huldra/db.py): harvest jobs with their cursor, the audit of
  pages, the records and their tombstones, and the watermarks. A day text is the string the column
  holds; date() of SQLite is the parameter sqldate.
\<close>

subsection \<open>Jobs\<close>

definition get_oai_job :: "string \<Rightarrow> db \<Rightarrow> oai_job_row option" where
  "get_oai_job harvest_id d = tbl_get h_harvest_id harvest_id (oai_jobs d)"

definition oai_set_key :: "string option \<Rightarrow> string" where
  "oai_set_key set_spec = (case set_spec of None \<Rightarrow> [] | Some s \<Rightarrow> s)"

definition same_oai_resume_scope :: "oai_request \<Rightarrow> oai_request \<Rightarrow> bool" where
  "same_oai_resume_scope l r \<longleftrightarrow> o_metadata_prefix l = o_metadata_prefix r \<and> o_set_spec l = o_set_spec r \<and>
     o_from l = o_from r \<and> o_until l = o_until r \<and> o_mode l = o_mode r"

definition new_oai_job :: "oai_request \<Rightarrow> string option \<Rightarrow> string \<Rightarrow> datetime \<Rightarrow> oai_job_row" where
  "new_oai_job request token harvest_id started =
     \<lparr>h_harvest_id = harvest_id, h_request = request, h_status = ''running'',
      h_metadata_prefix = o_metadata_prefix request, h_set_spec = o_set_spec request, h_mode = o_mode request,
      h_records_processed = 0, h_papers_upserted = 0, h_deleted_records = 0, h_pages_total = 0, h_requests_total = 0,
      h_current_watermark = None, h_token = token, h_last_response_date = None, h_last_datestamp_seen = None,
      h_deadline_at = Some (started + timedelta_seconds (o_runtime_budget_seconds request)),
      h_finished_paging = False, h_error_category = None, h_error_message = None,
      h_started_at = started, h_updated_at = started, h_completed_at = None\<rparr>"

definition create_oai_harvest_job ::
  "oai_request \<Rightarrow> string option \<Rightarrow> string \<Rightarrow> datetime \<Rightarrow> db \<Rightarrow> (store_error + string) \<times> db" where
  "create_oai_harvest_job request token harvest_id started d =
     (if get_oai_job harvest_id d \<noteq> None then (Inl (IntegrityError ''oai_harvest_jobs.harvest_id''), d)
      else (Inr harvest_id, record_event ''oai_harvest_started''
         [(''harvest_id'', JStr harvest_id), (''metadata_prefix'', JStr (metadata_prefix_value (o_metadata_prefix request))),
          (''set_spec'', jstr (o_set_spec request)), (''mode'', JStr (harvest_mode_value (o_mode request)))]
         (d\<lparr>oai_jobs := oai_jobs d @ [new_oai_job request token harvest_id started]\<rparr>)))"

definition get_running_oai_harvest :: "oai_request \<Rightarrow> db \<Rightarrow> oai_job_row option" where
  "get_running_oai_harvest request d =
     List.find (\<lambda>r. same_oai_resume_scope (h_request r) request \<and> (o_token request = None \<or> h_token r = o_token request))
       (take 50 (sort_key (\<lambda>r. - h_updated_at r)
         (filter (\<lambda>r. h_status r = ''running'' \<and> h_metadata_prefix r = o_metadata_prefix request \<and>
                      oai_set_key (h_set_spec r) = oai_set_key (o_set_spec request)) (oai_jobs d))))"

definition update_running :: "string \<Rightarrow> (oai_job_row \<Rightarrow> oai_job_row) \<Rightarrow> db \<Rightarrow> db" where
  "update_running harvest_id f d =
     d\<lparr>oai_jobs := tbl_update (\<lambda>r. h_harvest_id r = harvest_id \<and> h_status r = ''running'') f (oai_jobs d)\<rparr>"

definition unknown_harvest :: "string \<Rightarrow> store_error" where
  "unknown_harvest harvest_id = ValueError (''unknown OAI harvest: '' @ harvest_id)"

definition record_oai_request_started :: "string \<Rightarrow> datetime \<Rightarrow> db \<Rightarrow> (store_error + int) \<times> db" where
  "record_oai_request_started harvest_id now d =
     (let d' = update_running harvest_id (\<lambda>r. r\<lparr>h_requests_total := h_requests_total r + 1, h_updated_at := now\<rparr>) d
      in case get_oai_job harvest_id d' of None \<Rightarrow> (Inl (unknown_harvest harvest_id), d')
         | Some r \<Rightarrow> (Inr (h_requests_total r), d'))"

definition ensure_oai_harvest_deadline :: "string \<Rightarrow> datetime \<Rightarrow> datetime \<Rightarrow> db \<Rightarrow> (store_error + datetime) \<times> db" where
  "ensure_oai_harvest_deadline harvest_id deadline now d =
     (let d' = update_running harvest_id
            (\<lambda>r. r\<lparr>h_deadline_at := coalesce (h_deadline_at r) (Some deadline), h_updated_at := now\<rparr>) d
      in case get_oai_job harvest_id d' of None \<Rightarrow> (Inl (unknown_harvest harvest_id), d')
         | Some r \<Rightarrow> (case h_deadline_at r of
              None \<Rightarrow> (Inl (ValueError (''OAI harvest is not running: '' @ harvest_id)), d')
            | Some t \<Rightarrow> (Inr t, d')))"

subsection \<open>Pages\<close>

definition page_key :: "oai_page_row \<Rightarrow> string \<times> int" where
  "page_key p = (op_harvest_id p, op_page_index p)"

text \<open>INSERT .. ON CONFLICT(harvest_id, page_index) DO UPDATE: created_at stays.\<close>

definition upsert_oai_page :: "oai_page_row \<Rightarrow> db \<Rightarrow> db" where
  "upsert_oai_page p d =
     d\<lparr>oai_pages := tbl_upsert page_key p
        (\<lambda>x. p\<lparr>op_harvest_id := op_harvest_id x, op_page_index := op_page_index x, op_created_at := op_created_at x\<rparr>)
        (oai_pages d)\<rparr>"

definition record_oai_page :: "oai_page_row \<Rightarrow> db \<Rightarrow> (store_error + unit) \<times> db" where
  "record_oai_page p d =
     (if get_oai_job (op_harvest_id p) d = None then (Inl (IntegrityError ''FOREIGN KEY''), d)
      else (Inr (), upsert_oai_page (p\<lparr>op_error_message := clip_message (op_error_message p)\<rparr>) d))"

definition get_oai_consumed_token_hashes :: "string \<Rightarrow> db \<Rightarrow> string set" where
  "get_oai_consumed_token_hashes harvest_id d =
     set (List.map_filter op_token_hash (filter (\<lambda>p. op_harvest_id p = harvest_id) (oai_pages d)))"

subsection \<open>Records\<close>

definition record_key :: "oai_record_row \<Rightarrow> string \<times> oai_metadata_prefix" where
  "record_key r = (rr_oai_identifier r, rr_metadata_prefix r)"

definition oai_row_of :: "oai_record \<Rightarrow> datetime \<Rightarrow> oai_record_row" where
  "oai_row_of r t = \<lparr>rr_oai_identifier = or_oai_identifier r, rr_metadata_prefix = or_metadata_prefix r,
     rr_arxiv_id = or_arxiv_id r, rr_datestamp = or_datestamp r, rr_deleted = or_deleted r,
     rr_set_specs = or_set_specs r, rr_raw_xml = or_raw_xml r, rr_first_seen_at = t, rr_last_seen_at = t\<rparr>"

definition mark_family_deleted :: "oai_record \<Rightarrow> string list \<Rightarrow> datetime \<Rightarrow> db \<Rightarrow> db" where
  "mark_family_deleted r ids t d =
     d\<lparr>papers := tbl_update (\<lambda>x. pr_id x \<in> set ids)
        (\<lambda>x. x\<lparr>pr_paper := (pr_paper x)\<lparr>p_deleted := True, p_oai_identifier := Some (or_oai_identifier r),
                  p_oai_datestamp := coalesce (or_datestamp r) (p_oai_datestamp (pr_paper x)),
                  p_oai_set_specs := or_set_specs r\<rparr>,
               pr_last_seen_at := t\<rparr>) (papers d)\<rparr>"

text \<open>One iteration of the loop of _upsert_oai_records_conn.\<close>

definition upsert_oai_record :: "datetime \<Rightarrow> oai_record \<Rightarrow> db \<Rightarrow> db" where
  "upsert_oai_record t r d =
     (let d1 = (case or_paper r of None \<Rightarrow> d
            | Some p \<Rightarrow> if or_deleted r then d else snd (upsert_paper t (oai_paper_for_existing_version_family d p) d));
          d2 = d1\<lparr>oai_records := tbl_upsert record_key (oai_row_of r t)
                 (\<lambda>x. (oai_row_of r t)\<lparr>rr_oai_identifier := rr_oai_identifier x, rr_metadata_prefix := rr_metadata_prefix x,
                        rr_first_seen_at := rr_first_seen_at x\<rparr>) (oai_records d1)\<rparr>
      in case or_arxiv_id r of None \<Rightarrow> d2
         | Some i \<Rightarrow> if or_deleted r \<and> i \<noteq> []
             then mark_family_deleted r (paper_arxiv_ids_in_version_family i d2) t d2 else d2)"

text \<open>The counts: all records, papers upserted, deleted records.\<close>

definition upserts_paper :: "oai_record \<Rightarrow> bool" where
  "upserts_paper r \<longleftrightarrow> or_paper r \<noteq> None \<and> \<not> or_deleted r"

definition upsert_oai_records_conn :: "oai_record list \<Rightarrow> datetime \<Rightarrow> db \<Rightarrow> (int \<times> int \<times> int) \<times> db" where
  "upsert_oai_records_conn rs t d =
     ((int (length rs), int (length (filter upserts_paper rs)), int (length (filter or_deleted rs))),
      fold (upsert_oai_record t) rs d)"

definition upsert_oai_records :: "oai_record list \<Rightarrow> datetime \<Rightarrow> db \<Rightarrow> (int \<times> int \<times> int) \<times> db" where
  "upsert_oai_records rs now d = (if rs = [] then ((0, 0, 0), d) else upsert_oai_records_conn rs now d)"

subsection \<open>The checkpoint of a page\<close>

record oai_checkpoint =
  cp_harvest_id :: string
  cp_page_index :: int
  cp_request_params :: "(string \<times> string) list"
  cp_records :: "oai_record list"
  cp_response_date :: "string option"
  cp_consumed_token :: "string option"
  cp_consumed_hash :: "string option"
  cp_next_token :: "string option"
  cp_next_hash :: "string option"
  cp_last_response_date :: "string option"
  cp_last_datestamp_seen :: "string option"
  cp_error_category :: "string option"
  cp_error_message :: "string option"

definition cursor_matches :: "oai_checkpoint \<Rightarrow> db \<Rightarrow> bool" where
  "cursor_matches cp d \<longleftrightarrow>
     (case get_oai_job (cp_harvest_id cp) d of None \<Rightarrow> False
      | Some j \<Rightarrow> h_status j = ''running'' \<and> h_pages_total j = cp_page_index cp \<and> h_token j = cp_consumed_token cp)"

definition completed_page :: "oai_checkpoint \<Rightarrow> datetime \<Rightarrow> oai_page_row" where
  "completed_page cp now = \<lparr>op_harvest_id = cp_harvest_id cp, op_page_index = cp_page_index cp,
     op_request_params = cp_request_params cp, op_token_hash = cp_consumed_hash cp, op_status = ''completed'',
     op_response_date = cp_response_date cp, op_records_count = int (length (cp_records cp)),
     op_next_token_hash = cp_next_hash cp, op_error_category = None, op_error_message = None, op_created_at = now\<rparr>"

definition advance_job :: "oai_checkpoint \<Rightarrow> int \<times> int \<times> int \<Rightarrow> datetime \<Rightarrow> oai_job_row \<Rightarrow> oai_job_row" where
  "advance_job cp counts now j = (case counts of (processed, upserted, deleted) \<Rightarrow>
     j\<lparr>h_records_processed := h_records_processed j + processed, h_papers_upserted := h_papers_upserted j + upserted,
       h_deleted_records := h_deleted_records j + deleted, h_pages_total := max (h_pages_total j) (cp_page_index cp + 1),
       h_token := cp_next_token cp,
       h_last_response_date := coalesce (cp_last_response_date cp) (h_last_response_date j),
       h_last_datestamp_seen := coalesce (cp_last_datestamp_seen cp) (h_last_datestamp_seen j),
       h_finished_paging := (cp_next_token cp = None), h_error_category := cp_error_category cp,
       h_error_message := map_option (take 1000) (cp_error_message cp), h_updated_at := now\<rparr>)"

definition checkpoint_oai_page :: "oai_checkpoint \<Rightarrow> datetime \<Rightarrow> db \<Rightarrow> (store_error + int \<times> int \<times> int) \<times> db" where
  "checkpoint_oai_page cp now d =
     (if \<not> cursor_matches cp d
      then (Inl (RuntimeError ''OAI page checkpoint no longer matches the durable cursor''), d)
      else (case upsert_oai_records_conn (cp_records cp) now d of (counts, d1) \<Rightarrow>
        (let d2 = upsert_oai_page (completed_page cp now) d1;
             running = (\<lambda>r. h_harvest_id r = cp_harvest_id cp \<and> h_status r = ''running'')
         in if tbl_count running (oai_jobs d2) \<noteq> 1
            then (Inl (ValueError (''OAI harvest is not running: '' @ cp_harvest_id cp)), d)
            else (Inr counts, update_running (cp_harvest_id cp) (advance_job cp counts now) d2))))"

subsection \<open>Resuming and completing\<close>

definition resumable_statuses :: "string list" where
  "resumable_statuses = [''rate_limited'', ''cooling_down'', ''blocked'', ''transient_failure'', ''budget_exceeded'']"

text \<open>ORDER BY completed_at DESC, started_at DESC: NULL comes last.\<close>

definition latest_completed_first :: "oai_job_row list \<Rightarrow> oai_job_row list" where
  "latest_completed_first rs =
     sort_key (\<lambda>r. (case h_completed_at r of None \<Rightarrow> (1::int, 0) | Some t \<Rightarrow> (0, - t), - h_started_at r)) rs"

definition get_latest_resumable_oai_harvest_token :: "oai_request \<Rightarrow> db \<Rightarrow> string option" where
  "get_latest_resumable_oai_harvest_token request d =
     (case List.find (\<lambda>r. same_oai_resume_scope (h_request r) request)
         (take 50 (latest_completed_first
           (filter (\<lambda>r. h_metadata_prefix r = o_metadata_prefix request \<and>
                        oai_set_key (h_set_spec r) = oai_set_key (o_set_spec request)) (oai_jobs d)))) of
        None \<Rightarrow> None
      | Some r \<Rightarrow> if h_status r \<notin> set resumable_statuses then None
                  else if h_token r = Some [] then None else h_token r)"

record oai_harvest_result =
  hr_harvest_id :: string
  hr_status :: string
  hr_metadata_prefix :: oai_metadata_prefix
  hr_set_spec :: "string option"
  hr_mode :: oai_harvest_mode
  hr_records_processed :: int
  hr_papers_upserted :: int
  hr_deleted_records :: int
  hr_pages_total :: int
  hr_requests_total :: int
  hr_current_watermark :: "string option"
  hr_token :: "string option"
  hr_error_category :: "string option"
  hr_error_message :: "string option"
  hr_deadline_at :: "datetime option"

definition oai_result_from_row :: "oai_job_row \<Rightarrow> oai_harvest_result" where
  "oai_result_from_row r = \<lparr>hr_harvest_id = h_harvest_id r, hr_status = h_status r,
     hr_metadata_prefix = h_metadata_prefix r, hr_set_spec = h_set_spec r, hr_mode = h_mode r,
     hr_records_processed = h_records_processed r, hr_papers_upserted = h_papers_upserted r,
     hr_deleted_records = h_deleted_records r, hr_pages_total = h_pages_total r, hr_requests_total = h_requests_total r,
     hr_current_watermark = h_current_watermark r, hr_token = h_token r, hr_error_category = h_error_category r,
     hr_error_message = h_error_message r, hr_deadline_at = h_deadline_at r\<rparr>"

definition get_oai_harvest_result :: "string \<Rightarrow> db \<Rightarrow> oai_harvest_result option" where
  "get_oai_harvest_result harvest_id d = map_option oai_result_from_row (get_oai_job harvest_id d)"

text \<open>What finish() passes on; the counters replace those of the row.\<close>

record oai_finish =
  fi_harvest_id :: string
  fi_status :: string
  fi_records_processed :: int
  fi_papers_upserted :: int
  fi_deleted_records :: int
  fi_pages_total :: int
  fi_current_watermark :: "string option"
  fi_token :: "string option"
  fi_error_category :: "string option"
  fi_error_message :: "string option"

definition complete_oai_harvest_job :: "oai_finish \<Rightarrow> datetime \<Rightarrow> db \<Rightarrow> db" where
  "complete_oai_harvest_job fi now d =
     record_event ''oai_harvest_completed''
       [(''harvest_id'', JStr (fi_harvest_id fi)), (''status'', JStr (fi_status fi)),
        (''records_processed'', JInt (fi_records_processed fi)), (''papers_upserted'', JInt (fi_papers_upserted fi)),
        (''deleted_records'', JInt (fi_deleted_records fi)), (''pages_total'', JInt (fi_pages_total fi)),
        (''error_category'', jstr (fi_error_category fi))]
       (d\<lparr>oai_jobs := tbl_update (\<lambda>r. h_harvest_id r = fi_harvest_id fi)
          (\<lambda>r. r\<lparr>h_status := fi_status fi, h_records_processed := fi_records_processed fi,
                 h_papers_upserted := fi_papers_upserted fi, h_deleted_records := fi_deleted_records fi,
                 h_pages_total := fi_pages_total fi, h_current_watermark := fi_current_watermark fi,
                 h_token := fi_token fi, h_error_category := fi_error_category fi,
                 h_error_message := clip_message (fi_error_message fi), h_updated_at := now,
                 h_completed_at := Some now\<rparr>) (oai_jobs d)\<rparr>)"

subsection \<open>Watermarks\<close>

definition wm_key :: "oai_watermark_row \<Rightarrow> oai_metadata_prefix \<times> string" where
  "wm_key w = (wm_metadata_prefix w, wm_set_spec w)"

definition get_oai_watermark :: "oai_metadata_prefix \<Rightarrow> string option \<Rightarrow> db \<Rightarrow> oai_watermark_row option" where
  "get_oai_watermark pfx set_spec d = tbl_get wm_key (pfx, oai_set_key set_spec) (oai_watermarks d)"

text \<open>date(new) >= date(old), where NULL makes the comparison fail.\<close>

definition date_at_least :: "(string \<Rightarrow> string option) \<Rightarrow> string \<Rightarrow> string \<Rightarrow> bool" where
  "date_at_least sqldate new old = (case (sqldate new, sqldate old) of (Some a, Some b) \<Rightarrow> b \<le> a | _ \<Rightarrow> False)"

definition advances :: "(string \<Rightarrow> string option) \<Rightarrow> string option \<Rightarrow> string option \<Rightarrow> bool" where
  "advances sqldate new old = (case new of None \<Rightarrow> False
     | Some n \<Rightarrow> (case old of None \<Rightarrow> True | Some v \<Rightarrow> date_at_least sqldate n v))"

definition set_oai_watermark ::
  "(string \<Rightarrow> string option) \<Rightarrow> oai_metadata_prefix \<Rightarrow> string option \<Rightarrow> string option \<Rightarrow> string option \<Rightarrow> string
   \<Rightarrow> datetime \<Rightarrow> db \<Rightarrow> db" where
  "set_oai_watermark sqldate pfx set_spec response_date datestamp harvest_id now d =
     d\<lparr>oai_watermarks := tbl_upsert wm_key
        \<lparr>wm_metadata_prefix = pfx, wm_set_spec = oai_set_key set_spec, wm_last_response_date = response_date,
         wm_last_datestamp_seen = datestamp, wm_last_harvest_id = Some harvest_id, wm_updated_at = now\<rparr>
        (\<lambda>w. (let r = advances sqldate response_date (wm_last_response_date w);
                  s = advances sqldate datestamp (wm_last_datestamp_seen w)
              in w\<lparr>wm_last_response_date := (if r then response_date else wm_last_response_date w),
                   wm_last_datestamp_seen := (if s then datestamp else wm_last_datestamp_seen w),
                   wm_last_harvest_id := (if r \<or> s then Some harvest_id else wm_last_harvest_id w),
                   wm_updated_at := (if r \<or> s then now else wm_updated_at w)\<rparr>))
        (oai_watermarks d)\<rparr>"

subsection \<open>Jobs and frames\<close>

lemma get_oai_job_id: "get_oai_job k d = Some j \<Longrightarrow> h_harvest_id j = k"
  by (auto simp: get_oai_job_def dest: tbl_get_SomeD)

lemma get_oai_job_update:
  assumes "\<And>r. h_harvest_id (f r) = h_harvest_id r"
  shows "get_oai_job k (d\<lparr>oai_jobs := tbl_update P f (oai_jobs d)\<rparr>) = map_option (\<lambda>r. if P r then f r else r) (get_oai_job k d)"
  by (simp add: get_oai_job_def tbl_get_update assms)

lemma get_oai_job_running:
  assumes "\<And>r. h_harvest_id (f r) = h_harvest_id r"
  shows "get_oai_job k (update_running hid f d) =
    map_option (\<lambda>r. if k = hid \<and> h_status r = ''running'' then f r else r) (get_oai_job k d)"
  using get_oai_job_id [of k d]
  by (cases "get_oai_job k d") (auto simp: update_running_def get_oai_job_update assms)

lemma get_oai_job_same: "oai_jobs d' = oai_jobs d \<Longrightarrow> get_oai_job k d' = get_oai_job k d"
  by (simp add: get_oai_job_def)

lemma advance_id [simp]: "h_harvest_id (advance_job cp c t j) = h_harvest_id j"
  by (simp add: advance_job_def split: prod.split)

lemma upsert_paper_oai [simp]:
  "oai_jobs (snd (upsert_paper t p d)) = oai_jobs d" "oai_pages (snd (upsert_paper t p d)) = oai_pages d"
  "oai_records (snd (upsert_paper t p d)) = oai_records d" "oai_watermarks (snd (upsert_paper t p d)) = oai_watermarks d"
  by (simp_all add: upsert_paper_def Let_def)

lemma upsert_oai_record_frames [simp]:
  "oai_jobs (upsert_oai_record t r d) = oai_jobs d" "oai_pages (upsert_oai_record t r d) = oai_pages d"
  "oai_watermarks (upsert_oai_record t r d) = oai_watermarks d"
  by (auto simp: upsert_oai_record_def mark_family_deleted_def Let_def split: option.split)

lemma upsert_oai_records_frames [simp]:
  "oai_jobs (fold (upsert_oai_record t) rs d) = oai_jobs d" "oai_pages (fold (upsert_oai_record t) rs d) = oai_pages d"
  "oai_watermarks (fold (upsert_oai_record t) rs d) = oai_watermarks d"
  by (induction rs arbitrary: d) simp_all

lemma upsert_oai_page_frames [simp]:
  "oai_jobs (upsert_oai_page p d) = oai_jobs d" "oai_records (upsert_oai_page p d) = oai_records d"
  "oai_watermarks (upsert_oai_page p d) = oai_watermarks d" "papers (upsert_oai_page p d) = papers d"
  by (simp_all add: upsert_oai_page_def)

lemma count_one:
  assumes "keyed h_harvest_id js" "tbl_get h_harvest_id hid js = Some j" "h_status j = ''running''"
  shows "tbl_count (\<lambda>r. h_harvest_id r = hid \<and> h_status r = ''running'') js = 1"
  using filter_keyed [OF assms(1), of hid "\<lambda>r. h_status r = ''running''"] assms(2,3) by (simp add: tbl_count_def)

text \<open>A checkpoint is refused with no effect, or taken with the cursor as the caller saw it.\<close>

lemma checkpoint_cases:
  assumes ok: "keyed h_harvest_id (oai_jobs d)" and run: "checkpoint_oai_page cp now d = (res, d')"
  obtains (refused) e where "res = Inl e" "d' = d" "\<not> cursor_matches cp d"
  | (taken) c where "res = Inr c" "cursor_matches cp d" "c = fst (upsert_oai_records_conn (cp_records cp) now d)"
      "d' = update_running (cp_harvest_id cp) (advance_job cp c now)
         (upsert_oai_page (completed_page cp now) (fold (upsert_oai_record now) (cp_records cp) d))"
proof (cases "cursor_matches cp d")
  case False
  with run refused show thesis by (auto simp: checkpoint_oai_page_def)
next
  case True
  let ?d2 = "upsert_oai_page (completed_page cp now) (fold (upsert_oai_record now) (cp_records cp) d)"
  obtain j where "get_oai_job (cp_harvest_id cp) d = Some j" "h_status j = ''running''"
    using True by (auto simp: cursor_matches_def split: option.splits)
  then have "tbl_count (\<lambda>r. h_harvest_id r = cp_harvest_id cp \<and> h_status r = ''running'') (oai_jobs ?d2) = 1"
    using count_one [OF ok] by (simp add: get_oai_job_def)
  with True run show thesis
    by (intro taken [of "fst (upsert_oai_records_conn (cp_records cp) now d)"])
      (auto simp: checkpoint_oai_page_def Let_def upsert_oai_records_conn_def)
qed

subsection \<open>Tombstones\<close>

lemma family_row:
  "j \<in> set (paper_arxiv_ids_in_version_family i d) \<Longrightarrow> get_paper_row j d \<noteq> None"
  by (auto simp: paper_arxiv_ids_in_version_family_def paper_ids_def get_paper_row_def tbl_get_None Let_def)

text \<open>A deleted record marks every stored version of its paper as deleted, under
  the record's identifier and sets, keeps the other columns and the first-seen time of the rows,
  and touches no other paper.\<close>

theorem tombstone_covers_the_family:
  assumes "or_deleted r" and "or_arxiv_id r = Some i" and "i \<noteq> []"
  shows "get_paper_row j (upsert_oai_record t r d) =
    (if j \<in> set (paper_arxiv_ids_in_version_family i d)
     then map_option (\<lambda>x. x\<lparr>pr_paper := (pr_paper x)\<lparr>p_deleted := True, p_oai_identifier := Some (or_oai_identifier r),
            p_oai_datestamp := coalesce (or_datestamp r) (p_oai_datestamp (pr_paper x)), p_oai_set_specs := or_set_specs r\<rparr>,
            pr_last_seen_at := t\<rparr>) (get_paper_row j d)
     else get_paper_row j d)"
proof -
  let ?d = "d\<lparr>oai_records := tbl_upsert record_key (oai_row_of r t)
                 (\<lambda>x. (oai_row_of r t)\<lparr>rr_oai_identifier := rr_oai_identifier x, rr_metadata_prefix := rr_metadata_prefix x,
                        rr_first_seen_at := rr_first_seen_at x\<rparr>) (oai_records d)\<rparr>"
  have d': "upsert_oai_record t r d = mark_family_deleted r (paper_arxiv_ids_in_version_family i ?d) t ?d"
    using assms by (simp add: upsert_oai_record_def Let_def split: option.split)
  have fam: "paper_arxiv_ids_in_version_family i ?d = paper_arxiv_ids_in_version_family i d"
    by (simp add: paper_arxiv_ids_in_version_family_def paper_ids_def)
  have id: "x \<in> set (papers d) \<Longrightarrow> get_paper_row j d = Some x \<Longrightarrow> pr_id x = j" for x
    by (auto simp: get_paper_row_def dest: tbl_get_SomeD)
  show ?thesis
    unfolding d' fam
    by (cases "get_paper_row j d")
      (auto simp: mark_family_deleted_def get_paper_row_def tbl_get_update dest: tbl_get_SomeD)
qed

subsection \<open>What a page leaves in the store\<close>

definition or_key :: "oai_record \<Rightarrow> string \<times> oai_metadata_prefix" where
  "or_key r = (or_oai_identifier r, or_metadata_prefix r)"

text \<open>The stored row holds the record, as last seen at t.\<close>

definition stores_record :: "datetime \<Rightarrow> oai_record \<Rightarrow> oai_record_row \<Rightarrow> bool" where
  "stores_record t r row \<longleftrightarrow> rr_oai_identifier row = or_oai_identifier r \<and> rr_metadata_prefix row = or_metadata_prefix r \<and>
     rr_arxiv_id row = or_arxiv_id r \<and> rr_datestamp row = or_datestamp r \<and> rr_deleted row = or_deleted r \<and>
     rr_set_specs row = or_set_specs r \<and> rr_raw_xml row = or_raw_xml r \<and> rr_last_seen_at row = t"

text \<open>The columns of a paper that do not depend on the id it is stored under, nor on later tombstones.\<close>

definition paper_content :: "arxiv_paper \<Rightarrow> arxiv_paper" where
  "paper_content p = (fetched_columns p)\<lparr>p_arxiv_id := [], p_version := None, p_canonical_url := []\<rparr>"

definition same_family :: "string \<Rightarrow> string \<Rightarrow> bool" where
  "same_family i j \<longleftrightarrow> j = i \<or> j = arxiv_id_family_base i \<or> arxiv_id_family_base j = arxiv_id_family_base i"

lemma record_of_upsert:
  "tbl_get record_key k (oai_records (upsert_oai_record t r d)) = (if k = or_key r
     then Some ((oai_row_of r t)\<lparr>rr_first_seen_at := (case tbl_get record_key k (oai_records d) of None \<Rightarrow> t | Some x \<Rightarrow> rr_first_seen_at x)\<rparr>)
     else tbl_get record_key k (oai_records d))"
proof -
  have same: "oai_records (upsert_oai_record t r d) = tbl_upsert record_key (oai_row_of r t)
      (\<lambda>x. (oai_row_of r t)\<lparr>rr_oai_identifier := rr_oai_identifier x, rr_metadata_prefix := rr_metadata_prefix x,
              rr_first_seen_at := rr_first_seen_at x\<rparr>) (oai_records d)"
    by (auto simp: upsert_oai_record_def mark_family_deleted_def Let_def split: option.split)
  have key: "record_key (oai_row_of r t) = or_key r" by (simp add: record_key_def oai_row_of_def or_key_def)
  have row: "(oai_row_of r t)\<lparr>rr_oai_identifier := rr_oai_identifier x, rr_metadata_prefix := rr_metadata_prefix x,
      rr_first_seen_at := rr_first_seen_at x\<rparr> = (oai_row_of r t)\<lparr>rr_first_seen_at := rr_first_seen_at x\<rparr>"
    if "tbl_get record_key (or_key r) (oai_records d) = Some x" for x
    using tbl_get_SomeD [OF that] by (simp add: record_key_def or_key_def oai_row_of_def)
  show ?thesis
    unfolding same using row by (auto simp: tbl_get_upsert key record_key_def oai_row_of_def or_key_def split: option.split)
qed

lemma records_of_page:
  "tbl_get record_key k (oai_records (fold (upsert_oai_record t) rs d)) =
     (if \<exists>r\<in>set rs. or_key r = k
      then Some ((oai_row_of (last (filter (\<lambda>r. or_key r = k) rs)) t)
        \<lparr>rr_first_seen_at := (case tbl_get record_key k (oai_records d) of None \<Rightarrow> t | Some x \<Rightarrow> rr_first_seen_at x)\<rparr>)
      else tbl_get record_key k (oai_records d))"
proof (induction rs arbitrary: d)
  case (Cons r rs)
  have "filter (\<lambda>r. or_key r = k) rs = [] \<longleftrightarrow> \<not> (\<exists>r\<in>set rs. or_key r = k)" by (auto simp: filter_empty_conv)
  then show ?case by (auto simp: Cons.IH record_of_upsert split: option.split)
qed simp

lemma stored_row: "or_key r = k \<Longrightarrow> stores_record t r ((oai_row_of r t)\<lparr>rr_first_seen_at := f\<rparr>)"
  by (simp add: stores_record_def oai_row_of_def)

text \<open>A record without a paper to upsert rewrites at most the OAI columns and the deletion mark.\<close>

definition keeps_paper :: "paper_row \<Rightarrow> paper_row \<Rightarrow> bool" where
  "keeps_paper x y \<longleftrightarrow> pr_id y = pr_id x \<and> paper_content (pr_paper y) = paper_content (pr_paper x) \<and>
     (p_deleted (pr_paper x) \<longrightarrow> p_deleted (pr_paper y))"

lemma keeps_paper_trans: "keeps_paper x y \<Longrightarrow> keeps_paper y z \<Longrightarrow> keeps_paper x z"
  by (simp add: keeps_paper_def)

lemma papers_without:
  assumes "\<not> upserts_paper r"
  shows "papers (upsert_oai_record t r d) = papers d \<or>
    (\<exists>ids e. papers (upsert_oai_record t r d) = papers (mark_family_deleted r ids t e) \<and> papers e = papers d)"
proof -
  define e where "e = d\<lparr>oai_records := tbl_upsert record_key (oai_row_of r t)
                 (\<lambda>x. (oai_row_of r t)\<lparr>rr_oai_identifier := rr_oai_identifier x, rr_metadata_prefix := rr_metadata_prefix x,
                        rr_first_seen_at := rr_first_seen_at x\<rparr>) (oai_records d)\<rparr>"
  have "upsert_oai_record t r d = e \<or> (\<exists>ids. upsert_oai_record t r d = mark_family_deleted r ids t e)"
    using assms by (auto simp: upsert_oai_record_def upserts_paper_def Let_def e_def [symmetric] split: option.split)
  moreover have "papers e = papers d" by (simp add: e_def)
  ultimately show ?thesis by metis
qed

lemma row_without:
  assumes "\<not> upserts_paper r"
  shows "case get_paper_row j d of None \<Rightarrow> get_paper_row j (upsert_oai_record t r d) = None
    | Some x \<Rightarrow> \<exists>y. get_paper_row j (upsert_oai_record t r d) = Some y \<and> keeps_paper x y"
  using papers_without [OF assms, of t d]
proof (elim disjE exE conjE)
  assume "papers (upsert_oai_record t r d) = papers d"
  then show ?thesis by (simp add: get_paper_row_def keeps_paper_def split: option.split)
next
  fix ids e assume "papers (upsert_oai_record t r d) = papers (mark_family_deleted r ids t e)" "papers e = papers d"
  then show ?thesis
    by (auto simp: get_paper_row_def mark_family_deleted_def tbl_get_update keeps_paper_def paper_content_def
        fetched_columns_def split: option.split)
qed

lemma rows_without:
  assumes "\<forall>r\<in>set rs. \<not> upserts_paper r"
  shows "case get_paper_row j d of None \<Rightarrow> get_paper_row j (fold (upsert_oai_record t) rs d) = None
    | Some x \<Rightarrow> \<exists>y. get_paper_row j (fold (upsert_oai_record t) rs d) = Some y \<and> keeps_paper x y"
  using assms
proof (induction rs arbitrary: d)
  case Nil
  then show ?case by (simp add: keeps_paper_def split: option.split)
next
  case (Cons r rs)
  have "\<not> upserts_paper r" using Cons.prems by simp
  note 1 = row_without [OF this, of j t d]
  have 2: "case get_paper_row j (upsert_oai_record t r d) of None \<Rightarrow> get_paper_row j (fold (upsert_oai_record t) (r # rs) d) = None
    | Some x \<Rightarrow> \<exists>y. get_paper_row j (fold (upsert_oai_record t) (r # rs) d) = Some y \<and> keeps_paper x y"
    unfolding fold_simps using Cons.prems by (intro Cons.IH) simp
  show ?case
  proof (cases "get_paper_row j d")
    case (Some x)
    with 1 obtain y where y: "get_paper_row j (upsert_oai_record t r d) = Some y" "keeps_paper x y" by auto
    with 2 obtain z where "get_paper_row j (fold (upsert_oai_record t) (r # rs) d) = Some z" "keeps_paper y z" by auto
    with Some y(2) show ?thesis using keeps_paper_trans by auto
  qed (use 1 2 in simp)
qed

lemma row_stays: "get_paper_row j d \<noteq> None \<Longrightarrow> get_paper_row j (upsert_oai_record t r d) \<noteq> None"
proof -
  assume j: "get_paper_row j d \<noteq> None"
  have up: "get_paper_row j (snd (upsert_paper t p d)) \<noteq> None" for p using upsert_paper_keeps [OF j] .
  have mark: "get_paper_row j (mark_family_deleted r ids t e) = None \<longleftrightarrow> get_paper_row j e = None" for ids e
    by (simp add: get_paper_row_def mark_family_deleted_def tbl_get_update)
  have same: "get_paper_row j (e\<lparr>oai_records := rs\<rparr>) = get_paper_row j e" for e rs by (simp add: get_paper_row_def)
  show ?thesis
    using j up by (auto simp: upsert_oai_record_def Let_def mark same simp del: not_None_eq split: option.split)
qed

lemma rows_stay: "get_paper_row j d \<noteq> None \<Longrightarrow> get_paper_row j (fold (upsert_oai_record t) rs d) \<noteq> None"
  by (induction rs arbitrary: d) (simp_all add: row_stays del: not_None_eq)

lemma max_by_mem: "max_by f xs = Some x \<Longrightarrow> x \<in> set xs"
  by (induction xs arbitrary: x) (auto split: option.splits if_splits)

lemma existing_family_paper:
  "same_family (p_arxiv_id p) (p_arxiv_id (oai_paper_for_existing_version_family d p)) \<and>
   paper_content (oai_paper_for_existing_version_family d p) = paper_content p \<and>
   p_oai_identifier (oai_paper_for_existing_version_family d p) = p_oai_identifier p"
proof -
  have mem: "target \<in> set (paper_arxiv_ids_in_version_family (p_arxiv_id p) d)"
    if "max_by version_family_merge_preference (paper_arxiv_ids_in_version_family (p_arxiv_id p) d) = Some target" for target
    using max_by_mem [OF that] .
  show ?thesis
    by (auto simp: oai_paper_for_existing_version_family_def same_family_def paper_content_def fetched_columns_def Let_def
        family_iff split: option.split dest!: mem)
qed

lemma paper_stored:
  assumes "or_paper r = Some p" "\<not> or_deleted r" "p_oai_identifier p \<noteq> None"
  shows "\<exists>row. get_paper_row (pr_id row) (upsert_oai_record t r d) = Some row \<and> same_family (p_arxiv_id p) (pr_id row) \<and>
    paper_content (pr_paper row) = paper_content p"
proof -
  define q where "q = oai_paper_for_existing_version_family d p"
  note q = existing_family_paper [of p d, folded q_def]
  have leg: "legacy_paper_for_existing_oai_base_row d q = q"
    using q assms(3) by (simp add: legacy_paper_for_existing_oai_base_row_def)
  obtain i d1 where u: "upsert_paper t q d = (i, d1)" by fastforce
  then have i: "i = p_arxiv_id q" by (auto simp: upsert_paper_def leg)
  define row where "row = merged_row t q (get_paper_row i d)"
  have d1: "get_paper_row i d1 = Some row" using upsert_paper_row [OF u, of i] by (simp add: leg row_def)
  then have id: "pr_id row = i" by (auto simp: get_paper_row_def dest: tbl_get_SomeD)
  have "papers (upsert_oai_record t r d) = papers d1"
    using assms u by (simp add: upsert_oai_record_def q_def [symmetric] Let_def split: option.split)
  then have "get_paper_row (pr_id row) (upsert_oai_record t r d) = Some row" using d1 id by (simp add: get_paper_row_def)
  moreover have "paper_content (pr_paper row) = paper_content q"
    using q assms(3) by (auto simp: row_def merged_row_def merge_paper_def paper_content_def fetched_columns_def split: option.split)
  ultimately show ?thesis using q id i by (intro exI [of _ row]) simp
qed

lemma tombstone_marks:
  assumes "or_deleted r" "or_arxiv_id r = Some i" "i \<noteq> []" "j \<in> set (paper_arxiv_ids_in_version_family i d)"
  shows "\<exists>row. get_paper_row j (upsert_oai_record t r d) = Some row \<and> p_deleted (pr_paper row)"
  using tombstone_covers_the_family [OF assms(1-3), of j t d] assms(4) by (auto simp: family_iff)

subsection \<open>The cursor moves once per page\<close>

definition page_committed :: "oai_checkpoint \<Rightarrow> datetime \<Rightarrow> db \<Rightarrow> db \<Rightarrow> bool" where
  "page_committed cp now d d' \<longleftrightarrow>
     (\<forall>k. case tbl_get record_key k (oai_records d') of
        None \<Rightarrow> tbl_get record_key k (oai_records d) = None \<and> (\<forall>r\<in>set (cp_records cp). or_key r \<noteq> k)
      | Some row \<Rightarrow>
          if \<exists>r\<in>set (cp_records cp). or_key r = k
          then stores_record now (last (filter (\<lambda>r. or_key r = k) (cp_records cp))) row \<and>
            rr_first_seen_at row = (case tbl_get record_key k (oai_records d) of None \<Rightarrow> now | Some x \<Rightarrow> rr_first_seen_at x)
          else tbl_get record_key k (oai_records d) = Some row) \<and>
     (\<exists>pg. tbl_get page_key (cp_harvest_id cp, cp_page_index cp) (oai_pages d') = Some pg \<and>
        op_status pg = ''completed'' \<and> op_records_count pg = int (length (cp_records cp)) \<and>
        op_token_hash pg = cp_consumed_hash cp \<and> op_next_token_hash pg = cp_next_hash cp \<and>
        op_request_params pg = cp_request_params cp \<and> op_response_date pg = cp_response_date cp \<and> op_error_category pg = None) \<and>
     (\<forall>k. k \<noteq> (cp_harvest_id cp, cp_page_index cp) \<longrightarrow> tbl_get page_key k (oai_pages d') = tbl_get page_key k (oai_pages d)) \<and>
     (\<forall>front r rear. cp_records cp = front @ r # rear \<longrightarrow>
        (\<forall>p. or_paper r = Some p \<and> \<not> or_deleted r \<and> p_oai_identifier p \<noteq> None \<longrightarrow>
          (\<exists>row. get_paper_row (pr_id row) d' = Some row \<and> same_family (p_arxiv_id p) (pr_id row) \<and>
             ((\<forall>y\<in>set rear. \<not> upserts_paper y) \<longrightarrow> paper_content (pr_paper row) = paper_content p))) \<and>
        (\<forall>i j. or_deleted r \<and> or_arxiv_id r = Some i \<and> i \<noteq> [] \<and> (\<forall>y\<in>set rear. \<not> upserts_paper y) \<and>
             j \<in> set (paper_arxiv_ids_in_version_family i d') \<longrightarrow>
          (\<exists>row. get_paper_row j d' = Some row \<and> p_deleted (pr_paper row))))"

lemma papers_of_page:
  assumes rs: "rs = front @ r # rear"
  shows "or_paper r = Some p \<Longrightarrow> \<not> or_deleted r \<Longrightarrow> p_oai_identifier p \<noteq> None \<Longrightarrow>
      \<exists>row. get_paper_row (pr_id row) (fold (upsert_oai_record t) rs d) = Some row \<and> same_family (p_arxiv_id p) (pr_id row) \<and>
        ((\<forall>y\<in>set rear. \<not> upserts_paper y) \<longrightarrow> paper_content (pr_paper row) = paper_content p)"
    and "or_deleted r \<Longrightarrow> or_arxiv_id r = Some i \<Longrightarrow> i \<noteq> [] \<Longrightarrow> \<forall>y\<in>set rear. \<not> upserts_paper y \<Longrightarrow>
      j \<in> set (paper_arxiv_ids_in_version_family i (fold (upsert_oai_record t) rs d)) \<Longrightarrow>
      \<exists>row. get_paper_row j (fold (upsert_oai_record t) rs d) = Some row \<and> p_deleted (pr_paper row)"
proof -
  define d0 where "d0 = fold (upsert_oai_record t) front d"
  define d1 where "d1 = upsert_oai_record t r d0"
  have d': "fold (upsert_oai_record t) rs d = fold (upsert_oai_record t) rear d1" by (simp add: rs d0_def d1_def)
  note later = rows_without [of rear _ t d1]
  { assume p: "or_paper r = Some p" "\<not> or_deleted r" "p_oai_identifier p \<noteq> None"
    from paper_stored [OF p, of t d0] obtain row where row: "get_paper_row (pr_id row) d1 = Some row"
        "same_family (p_arxiv_id p) (pr_id row)" "paper_content (pr_paper row) = paper_content p"
      unfolding d1_def by blast
    from rows_stay [of "pr_id row" d1 t rear] row(1) obtain row' where row': "get_paper_row (pr_id row) (fold (upsert_oai_record t) rear d1) = Some row'"
      by auto
    then have id: "pr_id row' = pr_id row" by (auto simp: get_paper_row_def dest: tbl_get_SomeD)
    have "paper_content (pr_paper row') = paper_content p" if "\<forall>y\<in>set rear. \<not> upserts_paper y"
      using later [OF that, of "pr_id row"] row row' by (simp add: keeps_paper_def)
    with row' row(2) id show "\<exists>row. get_paper_row (pr_id row) (fold (upsert_oai_record t) rs d) = Some row \<and>
        same_family (p_arxiv_id p) (pr_id row) \<and>
        ((\<forall>y\<in>set rear. \<not> upserts_paper y) \<longrightarrow> paper_content (pr_paper row) = paper_content p)"
      unfolding d' by (intro exI [of _ row']) simp }
  { assume r: "or_deleted r" "or_arxiv_id r = Some i" "i \<noteq> []" and a: "\<forall>y\<in>set rear. \<not> upserts_paper y"
      and j: "j \<in> set (paper_arxiv_ids_in_version_family i (fold (upsert_oai_record t) rs d))"
    have now: "\<not> upserts_paper r" using r(1) by (simp add: upserts_paper_def)
    have "get_paper_row j d1 \<noteq> None" using later [OF a, of j] j unfolding d' by (auto simp: family_iff split: option.splits)
    then have "get_paper_row j d0 \<noteq> None"
      using row_without [OF now, of j t d0] by (auto simp: d1_def split: option.splits)
    then have "j \<in> set (paper_arxiv_ids_in_version_family i d0)" using j by (simp add: family_iff Let_def)
    from tombstone_marks [OF r this, of t] obtain row where "get_paper_row j d1 = Some row" "p_deleted (pr_paper row)"
      unfolding d1_def by blast
    then show "\<exists>row. get_paper_row j (fold (upsert_oai_record t) rs d) = Some row \<and> p_deleted (pr_paper row)"
      using later [OF a, of j] unfolding d' by (auto simp: keeps_paper_def) }
qed

lemma checkpoint_commits:
  assumes d': "d' = update_running hid f (upsert_oai_page (completed_page cp now) (fold (upsert_oai_record now) (cp_records cp) d))"
  shows "page_committed cp now d d'"
proof -
  let ?d1 = "fold (upsert_oai_record now) (cp_records cp) d"
  have rec: "oai_records d' = oai_records ?d1" by (simp add: d' update_running_def)
  have row: "get_paper_row j d' = get_paper_row j ?d1" for j by (simp add: d' update_running_def get_paper_row_def)
  have fam: "paper_arxiv_ids_in_version_family i d' = paper_arxiv_ids_in_version_family i ?d1" for i
    by (simp add: d' update_running_def paper_arxiv_ids_in_version_family_def paper_ids_def)
  have page: "tbl_get page_key k (oai_pages d') = (if k = (cp_harvest_id cp, cp_page_index cp)
      then Some ((completed_page cp now)\<lparr>op_created_at := (case tbl_get page_key k (oai_pages d) of None \<Rightarrow> now | Some x \<Rightarrow> op_created_at x)\<rparr>)
      else tbl_get page_key k (oai_pages d))" for k
    by (auto simp: d' update_running_def upsert_oai_page_def tbl_get_upsert page_key_def completed_page_def
        split: option.split dest: tbl_get_SomeD)
  have records: "case tbl_get record_key k (oai_records d') of
        None \<Rightarrow> tbl_get record_key k (oai_records d) = None \<and> (\<forall>r\<in>set (cp_records cp). or_key r \<noteq> k)
      | Some row \<Rightarrow>
          if \<exists>r\<in>set (cp_records cp). or_key r = k
          then stores_record now (last (filter (\<lambda>r. or_key r = k) (cp_records cp))) row \<and>
            rr_first_seen_at row = (case tbl_get record_key k (oai_records d) of None \<Rightarrow> now | Some x \<Rightarrow> rr_first_seen_at x)
          else tbl_get record_key k (oai_records d) = Some row" for k
    unfolding rec records_of_page by (auto simp: stored_row split: option.split)
  show ?thesis
    unfolding page_committed_def
  proof (intro conjI allI impI)
    fix front r rear p
    assume rs: "cp_records cp = front @ r # rear" and p: "or_paper r = Some p \<and> \<not> or_deleted r \<and> p_oai_identifier p \<noteq> None"
    show "\<exists>row. get_paper_row (pr_id row) d' = Some row \<and> same_family (p_arxiv_id p) (pr_id row) \<and>
        ((\<forall>y\<in>set rear. \<not> upserts_paper y) \<longrightarrow> paper_content (pr_paper row) = paper_content p)"
      unfolding row using papers_of_page(1) [OF rs] p by blast
  next
    fix front r rear i j
    assume rs: "cp_records cp = front @ r # rear" and "or_deleted r \<and> or_arxiv_id r = Some i \<and> i \<noteq> [] \<and>
      (\<forall>y\<in>set rear. \<not> upserts_paper y) \<and> j \<in> set (paper_arxiv_ids_in_version_family i d')"
    then show "\<exists>row. get_paper_row j d' = Some row \<and> p_deleted (pr_paper row)"
      unfolding row fam using papers_of_page(2) [OF rs] by blast
  qed (simp_all add: records page completed_page_def)
qed


subsection \<open>The audit accounts for the counters\<close>

definition completed_pages :: "string \<Rightarrow> oai_page_row list \<Rightarrow> oai_page_row list" where
  "completed_pages k ps = filter (\<lambda>p. op_harvest_id p = k \<and> op_status p = ''completed'') ps"

definition accounted :: "oai_page_row list \<Rightarrow> oai_job_row \<Rightarrow> bool" where
  "accounted ps j \<longleftrightarrow> (let c = completed_pages (h_harvest_id j) ps in
     h_records_processed j = sum_list (map op_records_count c) \<and>
     set (map op_page_index c) = {0..<int (length c)} \<and> int (length c) \<le> h_pages_total j \<and>
     (h_status j = ''running'' \<longrightarrow> h_pages_total j = int (length c)))"

text \<open>
  The writes of the harvester, with what it knows when it makes them: a page that was not fetched is
  recorded at the cursor of the running job, and a job is finished with the counter of its row (the
  loop state is the durable one, see Huldra_Resume) and the pages up to the cursor, the one that failed
  included or not.
\<close>

inductive harvest_write :: "db \<Rightarrow> db \<Rightarrow> bool" where
  create: "harvest_write d (snd (create_oai_harvest_job q tok u now d))"
| request: "harvest_write d (snd (record_oai_request_started k now d))"
| deadline: "harvest_write d (snd (ensure_oai_harvest_deadline k dl now d))"
| checkpoint: "harvest_write d (snd (checkpoint_oai_page cp now d))"
| failed_page: "get_oai_job (op_harvest_id p) d = Some j \<Longrightarrow> h_status j = ''running'' \<Longrightarrow> op_page_index p = h_pages_total j
    \<Longrightarrow> op_status p \<noteq> ''completed'' \<Longrightarrow> harvest_write d (snd (record_oai_page p d))"
| finish: "get_oai_job (fi_harvest_id fi) d = Some j \<Longrightarrow> fi_status fi \<noteq> ''running''
    \<Longrightarrow> fi_records_processed fi = h_records_processed j \<Longrightarrow> h_pages_total j \<le> fi_pages_total fi
    \<Longrightarrow> harvest_write d (complete_oai_harvest_job fi now d)"
| other: "oai_jobs d' = oai_jobs d \<Longrightarrow> oai_pages d' = oai_pages d \<Longrightarrow> harvest_write d d'"

inductive harvest_history :: "db \<Rightarrow> bool" where
  begin_history: "oai_jobs d = [] \<Longrightarrow> oai_pages d = [] \<Longrightarrow> harvest_history d"
| one_more: "harvest_history d \<Longrightarrow> harvest_write d d' \<Longrightarrow> harvest_history d'"

definition audited :: "db \<Rightarrow> bool" where
  "audited d \<longleftrightarrow> keyed h_harvest_id (oai_jobs d) \<and> keyed page_key (oai_pages d) \<and>
     (\<forall>p\<in>set (oai_pages d). get_oai_job (op_harvest_id p) d \<noteq> None) \<and> (\<forall>j\<in>set (oai_jobs d). accounted (oai_pages d) j)"

lemma auditedD:
  assumes "audited d"
  shows "keyed h_harvest_id (oai_jobs d)" "keyed page_key (oai_pages d)"
    "\<And>p. p \<in> set (oai_pages d) \<Longrightarrow> get_oai_job (op_harvest_id p) d \<noteq> None"
    "\<And>k j. get_oai_job k d = Some j \<Longrightarrow> accounted (oai_pages d) j"
  using assms by (auto simp: audited_def get_oai_job_def dest: tbl_get_SomeD)

lemma audited_jobs:
  assumes "audited d" "oai_jobs d' = tbl_update P f (oai_jobs d)" "oai_pages d' = oai_pages d"
    and "\<And>r. h_harvest_id (f r) = h_harvest_id r" "\<And>j. j \<in> set (oai_jobs d) \<Longrightarrow> P j \<Longrightarrow> accounted (oai_pages d) j \<Longrightarrow> accounted (oai_pages d) (f j)"
  shows "audited d'"
  using assms(1,5) keyed_update [of h_harvest_id "oai_jobs d" f P] assms(4)
  by (auto simp: audited_def assms(2,3) get_oai_job_def tbl_get_update) (auto simp: tbl_update_def)

text \<open>A page at the cursor of a running job replaces at most the row of a page that was not completed.\<close>

lemma page_at_cursor:
  assumes ok: "audited d" and j: "get_oai_job (op_harvest_id p) d = Some j" "h_status j = ''running''" "op_page_index p = h_pages_total j"
  shows "\<exists>a b p'. oai_pages (upsert_oai_page p d) = a @ p' # b \<and>
    op_harvest_id p' = op_harvest_id p \<and> op_page_index p' = op_page_index p \<and> op_status p' = op_status p \<and> op_records_count p' = op_records_count p \<and>
    (\<forall>k. completed_pages k (oai_pages d) = completed_pages k a @ completed_pages k b) \<and>
    (\<forall>q\<in>set (oai_pages (upsert_oai_page p d)). get_oai_job (op_harvest_id q) d \<noteq> None) \<and> keyed page_key (oai_pages (upsert_oai_page p d))"
proof -
  let ?f = "\<lambda>x. p\<lparr>op_harvest_id := op_harvest_id x, op_page_index := op_page_index x, op_created_at := op_created_at x\<rparr>"
  have keyed: "keyed page_key (oai_pages (upsert_oai_page p d))"
    unfolding upsert_oai_page_def using auditedD(2) [OF ok] by (auto simp: page_key_def intro!: keyed_upsert)
  have refs: "\<forall>q\<in>set (oai_pages (upsert_oai_page p d)). get_oai_job (op_harvest_id q) d \<noteq> None"
    using auditedD(3) [OF ok] j(1)
    by (auto simp: upsert_oai_page_def tbl_upsert_def tbl_update_def split: if_splits)
  show ?thesis
  proof (cases "tbl_get page_key (page_key p) (oai_pages d)")
    case None
    then have e: "oai_pages (upsert_oai_page p d) = oai_pages d @ p # []" by (simp add: upsert_oai_page_def tbl_upsert_def)
    show ?thesis
      by (rule exI [of _ "oai_pages d"], rule exI [of _ "[]"], rule exI [of _ p]) (use e keyed refs in \<open>simp add: completed_pages_def\<close>)
  next
    case (Some x)
    then have x: "x \<in> set (oai_pages d)" "page_key x = page_key p" by (auto dest: tbl_get_SomeD)
    then obtain a b where ab: "oai_pages d = a @ x # b" by (auto dest: split_list)
    then have uniq: "\<forall>y\<in>set a \<union> set b. page_key y \<noteq> page_key p"
      using auditedD(2) [OF ok] x(2) by (auto simp: keyed_def image_iff)
    then have same: "map (\<lambda>y. if page_key y = page_key p then ?f y else y) a = a" "map (\<lambda>y. if page_key y = page_key p then ?f y else y) b = b"
      by (auto intro!: map_idI)
    have e: "oai_pages (upsert_oai_page p d) = a @ ?f x # b"
      using Some same x(2) by (simp add: upsert_oai_page_def tbl_upsert_def tbl_update_def ab)
    have "op_status x \<noteq> ''completed''"
    proof
      assume "op_status x = ''completed''"
      then have "x \<in> set (completed_pages (op_harvest_id p) (oai_pages d))"
        using x by (auto simp: completed_pages_def page_key_def)
      moreover have "accounted (oai_pages d) j" "h_harvest_id j = op_harvest_id p" using auditedD(4) [OF ok j(1)] get_oai_job_id [OF j(1)] by auto
      ultimately have "op_page_index x \<in> {0..<h_pages_total j}" using j(2) by (auto simp: accounted_def Let_def)
      then show False using x(2) j(3) by (simp add: page_key_def)
    qed
    then have "completed_pages k (oai_pages d) = completed_pages k a @ completed_pages k b" for k
      by (simp add: completed_pages_def ab)
    then show ?thesis
      by (intro exI [of _ a] exI [of _ b] exI [of _ "?f x"]) (use e keyed refs x(2) in \<open>simp add: page_key_def\<close>)
  qed
qed

lemma audited_step:
  assumes "audited d" "harvest_write d d'"
  shows "audited d'"
  using assms(2)
proof (cases rule: harvest_write.cases)
  case (create q tok u now)
  show ?thesis
  proof (cases "get_oai_job u d")
    case None
    let ?j = "new_oai_job q tok u now"
    have e: "completed_pages u (oai_pages d) = []"
      using auditedD(3) [OF assms(1)] None by (fastforce simp: completed_pages_def filter_empty_conv)
    then have new: "accounted (oai_pages d) ?j" by (simp add: accounted_def new_oai_job_def)
    have k: "keyed h_harvest_id (oai_jobs d @ [?j])"
      using keyed_snoc [OF auditedD(1) [OF assms(1)], of ?j] None by (simp add: get_oai_job_def new_oai_job_def)
    have d': "oai_jobs d' = oai_jobs d @ [?j]" "oai_pages d' = oai_pages d"
      by (simp_all add: create create_oai_harvest_job_def None)
    show ?thesis
      using assms(1) new k by (auto simp: audited_def d' get_oai_job_def tbl_get_append split: option.split)
  qed (simp add: create create_oai_harvest_job_def assms(1))
next
  case (request k now)
  show ?thesis
    by (rule audited_jobs [OF assms(1), where f = "\<lambda>r. r\<lparr>h_requests_total := h_requests_total r + 1, h_updated_at := now\<rparr>"
          and P = "\<lambda>r. h_harvest_id r = k \<and> h_status r = ''running''"])
      (simp_all add: request record_oai_request_started_def Let_def update_running_def accounted_def split: option.split)
next
  case (deadline k dl now)
  show ?thesis
    by (rule audited_jobs [OF assms(1), where f = "\<lambda>r. r\<lparr>h_deadline_at := coalesce (h_deadline_at r) (Some dl), h_updated_at := now\<rparr>"
          and P = "\<lambda>r. h_harvest_id r = k \<and> h_status r = ''running''"])
      (simp_all add: deadline ensure_oai_harvest_deadline_def Let_def update_running_def accounted_def split: option.split)
next
  case (finish fi j now)
  have "accounted (oai_pages d) j" using auditedD(4) [OF assms(1) finish(2)] .
  moreover have "i = j" if "i \<in> set (oai_jobs d)" "h_harvest_id i = fi_harvest_id fi" for i
    using that finish(2) tbl_get_memI [OF auditedD(1) [OF assms(1)] that(1)] by (simp add: get_oai_job_def)
  ultimately show ?thesis
    using finish(3-5)
    by (intro audited_jobs [OF assms(1), where f = "\<lambda>r. r\<lparr>h_status := fi_status fi, h_records_processed := fi_records_processed fi,
                 h_papers_upserted := fi_papers_upserted fi, h_deleted_records := fi_deleted_records fi,
                 h_pages_total := fi_pages_total fi, h_current_watermark := fi_current_watermark fi,
                 h_token := fi_token fi, h_error_category := fi_error_category fi,
                 h_error_message := clip_message (fi_error_message fi), h_updated_at := now,
                 h_completed_at := Some now\<rparr>" and P = "\<lambda>r. h_harvest_id r = fi_harvest_id fi"])
      (auto simp: finish(1) complete_oai_harvest_job_def accounted_def Let_def)
next
  case (failed_page p j)
  let ?p = "p\<lparr>op_error_message := clip_message (op_error_message p)\<rparr>"
  have d': "d' = upsert_oai_page ?p d" by (simp add: failed_page(1,2) record_oai_page_def)
  obtain a b p' where ab: "oai_pages d' = a @ p' # b" "op_status p' = op_status p"
    "\<And>k. completed_pages k (oai_pages d) = completed_pages k a @ completed_pages k b"
    "\<forall>q\<in>set (oai_pages d'). get_oai_job (op_harvest_id q) d \<noteq> None" "keyed page_key (oai_pages d')"
    using page_at_cursor [OF assms(1), of ?p j] failed_page unfolding d' by auto
  have "completed_pages k (oai_pages d') = completed_pages k (oai_pages d)" for k
    using failed_page(5) ab(2) by (simp add: ab(1,3)) (simp add: completed_pages_def)
  then show ?thesis
    using assms(1) ab(4,5) by (simp add: audited_def accounted_def d' get_oai_job_def)
next
  case (checkpoint cp now)
  obtain res d'' where run: "checkpoint_oai_page cp now d = (res, d'')" by fastforce
  have ok: "keyed h_harvest_id (oai_jobs d)" using auditedD(1) [OF assms(1)] .
  from ok run show ?thesis
  proof (cases rule: checkpoint_cases)
    case (taken c)
    have d'': "d' = d''" using checkpoint run by simp
    obtain j where j: "get_oai_job (cp_harvest_id cp) d = Some j" "h_status j = ''running''" "h_pages_total j = cp_page_index cp"
      using taken(2) by (auto simp: cursor_matches_def split: option.splits)
    let ?d1 = "fold (upsert_oai_record now) (cp_records cp) d"
    let ?c = "int (length (cp_records cp))"
    have same: "oai_pages (upsert_oai_page p ?d1) = oai_pages (upsert_oai_page p d)" for p by (simp add: upsert_oai_page_def)
    have pages: "oai_pages d' = oai_pages (upsert_oai_page (completed_page cp now) d)"
      unfolding d'' taken(4) update_running_def by (simp add: same)
    have jobs: "oai_jobs d' = tbl_update (\<lambda>r. h_harvest_id r = cp_harvest_id cp \<and> h_status r = ''running'') (advance_job cp c now) (oai_jobs d)"
      unfolding d'' taken(4) update_running_def by simp
    obtain a b p' where ab: "oai_pages d' = a @ p' # b" "op_harvest_id p' = cp_harvest_id cp" "op_page_index p' = cp_page_index cp"
      "op_status p' = ''completed''" "op_records_count p' = ?c"
      "\<And>k. completed_pages k (oai_pages d) = completed_pages k a @ completed_pages k b"
      "\<forall>q\<in>set (oai_pages d'). get_oai_job (op_harvest_id q) d \<noteq> None" "keyed page_key (oai_pages d')"
      using page_at_cursor [OF assms(1), of "completed_page cp now" j] j unfolding pages by (auto simp: completed_page_def)
    have here: "completed_pages (cp_harvest_id cp) (oai_pages d') = completed_pages (cp_harvest_id cp) a @ p' # completed_pages (cp_harvest_id cp) b"
      using ab(1,2,4) by (simp add: completed_pages_def)
    have there: "completed_pages k (oai_pages d') = completed_pages k (oai_pages d)" if "k \<noteq> cp_harvest_id cp" for k
      using that ab(2) by (simp add: ab(1,6)) (simp add: completed_pages_def)
    have "accounted (oai_pages d') (if h_harvest_id i = cp_harvest_id cp \<and> h_status i = ''running'' then advance_job cp c now i else i)"
      if i: "i \<in> set (oai_jobs d)" for i
    proof (cases "h_harvest_id i = cp_harvest_id cp")
      case True
      then have ij: "i = j" using tbl_get_memI [OF ok i] j(1) by (simp add: get_oai_job_def)
      obtain u del where c: "c = (?c, u, del)" using taken(3) by (simp add: upsert_oai_records_conn_def)
      have "accounted (oai_pages d) j" using auditedD(4) [OF assms(1) j(1)] .
      then have "h_records_processed j = sum_list (map op_records_count (completed_pages (cp_harvest_id cp) (oai_pages d)))"
        "op_page_index ` set (completed_pages (cp_harvest_id cp) (oai_pages d)) = {0..<int (length (completed_pages (cp_harvest_id cp) (oai_pages d)))}"
        "h_pages_total j = int (length (completed_pages (cp_harvest_id cp) (oai_pages d)))"
        using True ij j(2) by (auto simp: accounted_def Let_def)
      moreover have "{0..<int n + 1} = insert (int n) {0..<int n}" for n by auto
      ultimately show ?thesis
        using True ij j ab(3,5) by (auto simp: accounted_def Let_def here ab(6) advance_job_def c image_Un)
    next
      case False
      then show ?thesis using assms(1) i by (simp add: audited_def accounted_def there)
    qed
    then have "\<forall>i\<in>set (oai_jobs d'). accounted (oai_pages d') i"
      unfolding jobs tbl_update_def set_map by blast
    moreover have "get_oai_job k d' = None \<longleftrightarrow> get_oai_job k d = None" for k
      by (simp add: get_oai_job_def jobs tbl_get_update)
    moreover have "keyed h_harvest_id (oai_jobs d')" unfolding jobs using ok by (simp add: keyed_update)
    ultimately show ?thesis using ab(7,8) by (simp add: audited_def)
  qed (use checkpoint run assms(1) in simp)
next
  case other
  then show ?thesis using assms(1) by (simp add: audited_def get_oai_job_def)
qed

lemma harvest_history_audited: "harvest_history d \<Longrightarrow> audited d"
proof (induction rule: harvest_history.induct)
  case (begin_history d)
  then show ?case by (simp add: audited_def keyed_def)
next
  case (one_more d d')
  show ?case by (rule audited_step [OF one_more.IH one_more.hyps(2)])
qed


subsection \<open>Watermarks only advance\<close>

text \<open>The texts date() gives are ordered as the days.\<close>

lemma day_text_less:
  assumes "0 \<le> m" "m < n" "n < 3652059"
  shows "date_text (m * us_per_day) < date_text (n * us_per_day)"
proof -
  have v: "valid_fields (time_fields (k * us_per_day))" if "0 \<le> k" "k < 3652059" for k
    using that by (intro time_fields_valid) (simp add: valid_datetime_def us_per_day_def)
  have f: "\<exists>g. time_fields (k * us_per_day) = (ymd_of_day k, g)" for k
    by (simp add: time_fields_def Let_def us_per_day_def)
  obtain y mo d g where 1: "time_fields (m * us_per_day) = ((y, mo, d), g)" "ymd_of_day m = (y, mo, d)"
    using f [of m] by (metis prod.exhaust prod.inject)
  obtain y' mo' d' g' where 2: "time_fields (n * us_per_day) = ((y', mo', d'), g')" "ymd_of_day n = (y', mo', d')"
    using f [of n] by (metis prod.exhaust prod.inject)
  have "(y, mo, d) < (y', mo', d')" using ymd_strict_mono [OF assms(1,2)] 1 2 by simp
  then show ?thesis
    using v [of m] v [of n] assms unfolding date_text_def 1 2 valid_fields_def
    by (cases g; cases g') (auto simp: str_less_append dec_less dec_eq simp del: dec.simps)
qed

text \<open>The newer of two stored texts, by the day they name; a text that names no day is never the newer.\<close>

definition newer_text :: "(string \<Rightarrow> int option) \<Rightarrow> string option \<Rightarrow> string option \<Rightarrow> string option" where
  "newer_text day old new = (case (old, new) of
     (_, None) \<Rightarrow> old
   | (None, Some n) \<Rightarrow> Some n
   | (Some v, Some n) \<Rightarrow> (case (day v, day n) of (Some a, Some b) \<Rightarrow> if a \<le> b then Some n else Some v | _ \<Rightarrow> Some v))"

text \<open>C26. Whatever a harvest reports, the stored response date and datestamp become the newer of the
  stored and the reported one, by the calendar day they name: they never become unset, never move to
  an earlier day, are not kept back when the report is of the same or a later day, and no other
  watermark changes. The harvest id and the time of the row are replaced only when one of the two
  is. SQLite's date() is a parameter of which only the documented form of its results is assumed: the
  text of the day it names, YYYY-MM-DD, or NULL.\<close>

theorem watermark_never_moves_back:
  assumes "get_oai_watermark pfx sp d = Some w"
    and "\<And>s. sqldate s = map_option (\<lambda>n. date_text (n * us_per_day)) (day s)"
    and "\<And>s n. day s = Some n \<Longrightarrow> 0 \<le> n \<and> n < 3652059"
  shows "\<exists>w'. get_oai_watermark pfx sp (set_oai_watermark sqldate pfx sp rd ds k now d) = Some w' \<and>
    wm_last_response_date w' = newer_text day (wm_last_response_date w) rd \<and>
    wm_last_datestamp_seen w' = newer_text day (wm_last_datestamp_seen w) ds \<and>
    (\<forall>v a. wm_last_response_date w = Some v \<and> day v = Some a \<longrightarrow>
       (\<exists>v' b. wm_last_response_date w' = Some v' \<and> day v' = Some b \<and> a \<le> b)) \<and>
    (\<forall>v a. wm_last_datestamp_seen w = Some v \<and> day v = Some a \<longrightarrow>
       (\<exists>v' b. wm_last_datestamp_seen w' = Some v' \<and> day v' = Some b \<and> a \<le> b)) \<and>
    (w' = w \<or> wm_last_harvest_id w' = Some k \<and> wm_updated_at w' = now \<and>
       (wm_last_response_date w' = rd \<or> wm_last_datestamp_seen w' = ds)) \<and>
    (\<forall>pfx' sp'. (pfx', oai_set_key sp') \<noteq> (pfx, oai_set_key sp) \<longrightarrow>
       get_oai_watermark pfx' sp' (set_oai_watermark sqldate pfx sp rd ds k now d) = get_oai_watermark pfx' sp' d)"
proof -
  have le: "date_text (a * us_per_day) \<le> date_text (b * us_per_day) \<longleftrightarrow> a \<le> b" if "day v = Some a" "day u = Some b" for v u a b
    using day_text_less [of a b] day_text_less [of b a] assms(3) [OF that(1)] assms(3) [OF that(2)]
    by (cases a b rule: linorder_cases) (auto simp: less_imp_le not_le)
  have moves: "(if advances sqldate new old then new else old) = newer_text day old new" for new old
    by (auto simp: advances_def date_at_least_def newer_text_def assms(2) le split: option.splits)
  have never: "\<exists>v' b. newer_text day (Some v) new = Some v' \<and> day v' = Some b \<and> a \<le> b" if "day v = Some a" for v a new
    using that by (auto simp: newer_text_def split: option.split)
  have key: "wm_key w = (pfx, oai_set_key sp)" using assms(1) by (auto simp: get_oai_watermark_def dest: tbl_get_SomeD)
  let ?w = "w\<lparr>wm_last_response_date := newer_text day (wm_last_response_date w) rd,
      wm_last_datestamp_seen := newer_text day (wm_last_datestamp_seen w) ds,
      wm_last_harvest_id := (if advances sqldate rd (wm_last_response_date w) \<or> advances sqldate ds (wm_last_datestamp_seen w)
        then Some k else wm_last_harvest_id w),
      wm_updated_at := (if advances sqldate rd (wm_last_response_date w) \<or> advances sqldate ds (wm_last_datestamp_seen w)
        then now else wm_updated_at w)\<rparr>"
  have w': "get_oai_watermark pfx sp (set_oai_watermark sqldate pfx sp rd ds k now d) = Some ?w"
    using assms(1) key by (simp add: get_oai_watermark_def set_oai_watermark_def tbl_get_upsert wm_key_def Let_def moves)
  have id: "?w = w \<or> wm_last_harvest_id ?w = Some k \<and> wm_updated_at ?w = now \<and>
       (wm_last_response_date ?w = rd \<or> wm_last_datestamp_seen ?w = ds)"
    by (auto simp: moves [symmetric])
  have others: "get_oai_watermark pfx' sp' (set_oai_watermark sqldate pfx sp rd ds k now d) = get_oai_watermark pfx' sp' d"
    if "(pfx', oai_set_key sp') \<noteq> (pfx, oai_set_key sp)" for pfx' sp'
    using that by (auto simp: get_oai_watermark_def set_oai_watermark_def tbl_get_upsert wm_key_def Let_def)
  show ?thesis
    using never by (intro exI [of _ ?w] conjI w' id allI impI) (auto simp: others)
qed

subsection \<open>Resuming\<close>

text \<open>The token a new harvest resumes from is that of a job of the same scope that
  ended in a resumable status, and no job of that scope completed after it, among the fifty last
  completed jobs of the prefix and set.\<close>

theorem resume_token_is_the_latest:
  assumes "get_latest_resumable_oai_harvest_token q d = Some token"
  shows "\<exists>j\<in>set (oai_jobs d). same_oai_resume_scope (h_request j) q \<and> h_token j = Some token \<and> token \<noteq> [] \<and>
    h_status j \<in> set resumable_statuses \<and>
    (\<forall>k\<in>set (take 50 (latest_completed_first (filter (\<lambda>r. h_metadata_prefix r = o_metadata_prefix q \<and>
        oai_set_key (h_set_spec r) = oai_set_key (o_set_spec q)) (oai_jobs d)))).
      same_oai_resume_scope (h_request k) q \<longrightarrow>
      (case (h_completed_at k, h_completed_at j) of (Some tk, Some tj) \<Rightarrow> tk \<le> tj | (Some _, None) \<Rightarrow> False | _ \<Rightarrow> True))"
proof -
  let ?rows = "filter (\<lambda>r. h_metadata_prefix r = o_metadata_prefix q \<and>
        oai_set_key (h_set_spec r) = oai_set_key (o_set_spec q)) (oai_jobs d)"
  let ?key = "\<lambda>r. (case h_completed_at r of None \<Rightarrow> (1::int, 0) | Some t \<Rightarrow> (0, - t), - h_started_at r)"
  let ?top = "take 50 (latest_completed_first ?rows)"
  obtain j where j: "List.find (\<lambda>r. same_oai_resume_scope (h_request r) q) ?top = Some j"
    and s: "h_status j \<in> set resumable_statuses" "h_token j = Some token" "token \<noteq> []"
    using assms by (auto simp: get_latest_resumable_oai_harvest_token_def split: option.splits if_splits)
  obtain n where n: "n < length ?top" "?top ! n = j" "same_oai_resume_scope (h_request j) q"
    "\<And>m. m < n \<Longrightarrow> \<not> same_oai_resume_scope (h_request (?top ! m)) q"
    using j by (auto simp: find_Some_iff)
  have mem: "j \<in> set (oai_jobs d)"
    using nth_mem [OF n(1)] n(2) by (auto simp: latest_completed_first_def dest!: in_set_takeD)
  have "sorted (map ?key (latest_completed_first ?rows))" unfolding latest_completed_first_def by (rule sorted_sort_key)
  then have "sorted (map ?key ?top)" unfolding take_map [symmetric] by (rule sorted_wrt_take)
  then have le: "?key (?top ! n) \<le> ?key (?top ! m)" if "n \<le> m" "m < length ?top" for m
    using that sorted_nth_mono [OF \<open>sorted (map ?key ?top)\<close> that(1)] by (simp only: length_map nth_map le_less_trans)
  have "case (h_completed_at k, h_completed_at j) of (Some tk, Some tj) \<Rightarrow> tk \<le> tj | (Some _, None) \<Rightarrow> False | _ \<Rightarrow> True"
    if k: "k \<in> set ?top" "same_oai_resume_scope (h_request k) q" for k
  proof -
    obtain m where m: "m < length ?top" "?top ! m = k" using k(1) by (auto simp: in_set_conv_nth)
    have "\<not> m < n" using n(4) [of m] k(2) unfolding m(2) by blast
    then have "n \<le> m" by simp
    from le [OF this m(1)] have "?key j \<le> ?key k" unfolding m(2) n(2) .
    then show ?thesis
      by (cases "h_completed_at k"; cases "h_completed_at j") (auto simp: less_eq_prod_def)
  qed
  with mem n(3) s show ?thesis by blast
qed

subsection \<open>A harvest on a concrete store\<close>

definition sample_harvest :: oai_request where
  "sample_harvest = \<lparr>o_client_id = ''huldra-oai'', o_metadata_prefix = ArXiv, o_set_spec = Some ''cs'', o_from = None,
     o_until = None, o_token = None, o_mode = INCREMENTAL, o_cache_policy = CACHE_OR_ENQUEUE, o_priority = 0,
     o_timeout_seconds = None, o_max_pages = 10, o_max_requests = 10, o_runtime_budget_seconds = 60\<rparr>"

definition harvest_store :: db where
  "harvest_store = (empty_db (\<lambda>_. 0))\<lparr>oai_jobs := [new_oai_job sample_harvest (Some ''t0'') ''h'' 5,
       (new_oai_job sample_harvest None ''g'' 1)\<lparr>h_status := ''budget_exceeded'', h_token := Some ''t9'', h_completed_at := Some 4\<rparr>],
     oai_watermarks := [\<lparr>wm_metadata_prefix = ArXiv, wm_set_spec = ''cs'', wm_last_response_date = Some ''2024-01-05'',
       wm_last_datestamp_seen = None, wm_last_harvest_id = Some ''g'', wm_updated_at = 4\<rparr>],
     papers := [\<lparr>pr_paper = sample_paper ''2401.00001v1'', pr_first_seen_at = 1, pr_last_seen_at = 1\<rparr>]\<rparr>"

definition sample_tombstone :: oai_record where
  "sample_tombstone = \<lparr>or_oai_identifier = ''oai:arXiv.org:2401.00001'', or_arxiv_id = Some ''2401.00001'',
     or_metadata_prefix = ArXiv, or_datestamp = Some 7, or_set_specs = [''cs''], or_deleted = True, or_paper = None,
     or_raw_xml = None\<rparr>"

definition sample_checkpoint :: oai_checkpoint where
  "sample_checkpoint = \<lparr>cp_harvest_id = ''h'', cp_page_index = 0, cp_request_params = [(''verb'', ''ListRecords'')],
     cp_records = [sample_tombstone], cp_response_date = None, cp_consumed_token = Some ''t0'', cp_consumed_hash = None,
     cp_next_token = Some ''t1'', cp_next_hash = None, cp_last_response_date = None, cp_last_datestamp_seen = None,
     cp_error_category = None, cp_error_message = None\<rparr>"

lemma harvest_store_ok: "keyed h_harvest_id (oai_jobs harvest_store)"
  by (simp add: harvest_store_def empty_db_def keyed_Cons tbl_get_Cons new_oai_job_def)

text \<open>A harvest that records a failed page, retries it and is read after its first page.\<close>

definition audited_store :: db where
  "audited_store = snd (checkpoint_oai_page sample_checkpoint 9
     (snd (record_oai_page ((completed_page sample_checkpoint 8)\<lparr>op_status := ''rate_limited'', op_records_count := 0\<rparr>)
       (snd (create_oai_harvest_job sample_harvest (Some ''t0'') ''h'' 5 (empty_db (\<lambda>_. 0)))))))"

lemma audited_store_rows:
  "map_option (\<lambda>j. (h_status j, h_pages_total j, h_records_processed j)) (get_oai_job ''h'' audited_store) = Some (''running'', 1, 1)"
  "map (\<lambda>p. (op_harvest_id p, op_status p)) (oai_pages audited_store) = [(''h'', ''completed'')]"
  by code_simp+



text \<open>A calendar of two days.\<close>

definition two_days :: "string \<Rightarrow> int option" where
  "two_days s = (if s = ''2024-01-05'' then Some 738889 else if s = ''2024-01-02'' then Some 738886 else None)"

theorem watermark_never_moves_back_witness:
  "\<exists>w. get_oai_watermark ArXiv (Some ''cs'')
      (set_oai_watermark (\<lambda>s. map_option (\<lambda>n. date_text (n * us_per_day)) (two_days s)) ArXiv (Some ''cs'') (Some ''2024-01-02'')
      (Some ''2024-01-02'') ''h'' 9 harvest_store) = Some w \<and>
    wm_last_response_date w = Some ''2024-01-05'' \<and> wm_last_datestamp_seen w = Some ''2024-01-02''"
proof -
  let ?w = "\<lparr>wm_metadata_prefix = ArXiv, wm_set_spec = ''cs'', wm_last_response_date = Some ''2024-01-05'',
       wm_last_datestamp_seen = None, wm_last_harvest_id = Some ''g'', wm_updated_at = 4\<rparr>"
  have "get_oai_watermark ArXiv (Some ''cs'') harvest_store = Some ?w"
    by (simp add: get_oai_watermark_def harvest_store_def tbl_get_Cons wm_key_def oai_set_key_def)
  moreover have "0 \<le> n \<and> n < 3652059" if "two_days s = Some n" for s n
    using that by (auto simp: two_days_def split: if_splits)
  ultimately obtain w' where w': "get_oai_watermark ArXiv (Some ''cs'')
      (set_oai_watermark (\<lambda>s. map_option (\<lambda>n. date_text (n * us_per_day)) (two_days s)) ArXiv (Some ''cs'') (Some ''2024-01-02'')
      (Some ''2024-01-02'') ''h'' 9 harvest_store) = Some w'"
      "wm_last_response_date w' = newer_text two_days (Some ''2024-01-05'') (Some ''2024-01-02'')"
      "wm_last_datestamp_seen w' = newer_text two_days None (Some ''2024-01-02'')"
    using watermark_never_moves_back [where day = two_days and d = harvest_store and pfx = ArXiv and sp = "Some ''cs''" and w = ?w
      and rd = "Some ''2024-01-02''" and ds = "Some ''2024-01-02''" and k = "''h''" and now = 9, OF _ refl] by fastforce
  then show ?thesis by (simp add: newer_text_def two_days_def)
qed

theorem tombstone_covers_the_family_witness:
  "map_option (\<lambda>x. p_deleted (pr_paper x)) (get_paper_row ''2401.00001v1'' (upsert_oai_record 9 sample_tombstone harvest_store)) = Some True"
proof -
  have "or_deleted sample_tombstone" "or_arxiv_id sample_tombstone = Some ''2401.00001''" "''2401.00001'' \<noteq> []"
    by (simp_all add: sample_tombstone_def)
  note eq = tombstone_covers_the_family [OF this, of "''2401.00001v1''" 9 harvest_store]
  have "paper_arxiv_ids_in_version_family ''2401.00001'' harvest_store = [''2401.00001v1'']" by code_simp
  with eq show ?thesis
    by (simp add: harvest_store_def get_paper_row_def tbl_get_Cons sample_paper_def)
qed

theorem resume_token_is_the_latest_witness:
  "\<exists>j\<in>set (oai_jobs harvest_store). h_token j = Some ''t9'' \<and> h_status j \<in> set resumable_statuses"
proof -
  have "get_latest_resumable_oai_harvest_token sample_harvest harvest_store = Some ''t9''" by code_simp
  from resume_token_is_the_latest [OF this] show ?thesis by blast
qed

end
