(* ===== verification/Huldra_Iso.thy ===== *)
theory Huldra_Iso
  imports Huldra_Keys "HOL-Library.Monad_Syntax"
begin

text \<open>
  Reading ISO 8601 text (datetime.fromisoformat of Python 3.13, parse_datetime and
  from_isoformat_or_none of huldra/time.py), and that it inverts isoformat: a timestamp column
  read back is the instant that was written.
\<close>

subsection \<open>Calendar dates to days\<close>

definition day_of_ymd :: "int \<Rightarrow> int \<Rightarrow> int \<Rightarrow> int" where
  "day_of_ymd y m d = days_before_year y + sum_list (take (nat (m - 1)) (month_lengths (is_leap y))) + d - 1"

definition valid_ymd :: "int \<Rightarrow> int \<Rightarrow> int \<Rightarrow> bool" where
  "valid_ymd y m d \<longleftrightarrow> 1 \<le> y \<and> y \<le> 9999 \<and> 1 \<le> m \<and> m \<le> 12 \<and> 1 \<le> d \<and> d \<le> month_lengths (is_leap y) ! nat (m - 1)"

text \<open>Monday is weekday 0; 0001-01-01 is a Monday. The first ISO week is the one with the first Thursday.\<close>

definition iso_week1_monday :: "int \<Rightarrow> int" where
  "iso_week1_monday y =
     (let first = days_before_year y; wd = first mod 7; monday = first - wd in if wd > 3 then monday + 7 else monday)"

definition day_of_iso_week :: "int \<Rightarrow> int \<Rightarrow> int \<Rightarrow> int option" where
  "day_of_iso_week y w d =
     (let wd = days_before_year y mod 7;
          long = (wd = 3 \<or> wd = 2 \<and> is_leap y)
      in if 1 \<le> y \<and> y \<le> 9999 \<and> 1 \<le> w \<and> (w \<le> 52 \<or> w = 53 \<and> long) \<and> 1 \<le> d \<and> d \<le> 7
         then Some (iso_week1_monday y + (w - 1) * 7 + d - 1) else None)"

subsection \<open>datetime.fromisoformat\<close>

text \<open>The next n characters as a number.\<close>

definition take_num :: "nat \<Rightarrow> string \<Rightarrow> (int \<times> string) option" where
  "take_num n s = (if n \<le> length s \<and> list_all is_digit (take n s) then Some (digits_value (take n s), drop n s) else None)"

definition expect :: "bool \<Rightarrow> char \<Rightarrow> string \<Rightarrow> string option" where
  "expect sep c s = (if \<not> sep then Some s else case s of [] \<Rightarrow> None | x # r \<Rightarrow> if x = c then Some r else None)"

text \<open>Where the date ends: decided by the fifth character and, for weeks, by what follows.\<close>

definition date_length :: "string \<Rightarrow> nat option" where
  "date_length s =
     (if length s < 7 then None
      else if length s = 7 then Some 7
      else if s ! 4 = CHR ''-'' then
        (if s ! 5 \<noteq> CHR ''W'' then Some 10
         else if length s > 8 \<and> s ! 8 = CHR ''-'' then
           (if length s = 9 then None
            else if length s > 10 \<and> is_digit (s ! 10) then Some 8 else Some 10)
         else Some 8)
      else if s ! 4 = CHR ''W'' then
        (let pos = 7 + length (takeWhile is_digit (drop 7 s))
         in if pos < 9 then Some pos else if even pos then Some 7 else Some 8)
      else Some 8)"

definition parse_date :: "string \<Rightarrow> int option" where
  "parse_date s = do {
     (y, r) \<leftarrow> take_num 4 s;
     let sep = startswith r ''-'';
     r \<leftarrow> expect sep (CHR ''-'') r;
     if startswith r ''W'' then do {
       (w, r) \<leftarrow> take_num 2 (tl r);
       if r = [] then day_of_iso_week y w 1
       else do {
         r \<leftarrow> expect sep (CHR ''-'') r;
         (d, r) \<leftarrow> take_num 1 r;
         if r = [] then day_of_iso_week y w d else None
       }
     } else do {
       (m, r) \<leftarrow> take_num 2 r;
       r \<leftarrow> expect sep (CHR ''-'') r;
       (d, r) \<leftarrow> take_num 2 r;
       if r = [] \<and> valid_ymd y m d then Some (day_of_ymd y m d) else None
     }
   }"

text \<open>Digits after a decimal mark: six count, the rest is dropped.\<close>

definition parse_fraction :: "string \<Rightarrow> int option" where
  "parse_fraction s =
     (case s of [] \<Rightarrow> Some 0
      | c # ds \<Rightarrow> if c \<in> set ''.,'' \<and> ds \<noteq> [] \<and> list_all is_digit ds
                  then Some (digits_value (take 6 (ds @ ''000000''))) else None)"

text \<open>HH[:MM[:SS[.f]]] or HH[MM[SS[.f]]], as hours, minutes, seconds, microseconds.\<close>

definition parse_clock :: "string \<Rightarrow> (int \<times> int \<times> int \<times> int) option" where
  "parse_clock s = do {
     (h, r) \<leftarrow> take_num 2 s;
     let sep = startswith r '':'';
     if r = [] then Some (h, 0, 0, 0)
     else do {
       r \<leftarrow> expect sep (CHR '':'') r;
       (mi, r) \<leftarrow> take_num 2 r;
       if r = [] then Some (h, mi, 0, 0)
       else do {
         r \<leftarrow> expect sep (CHR '':'') r;
         (sec, r) \<leftarrow> take_num 2 r;
         us \<leftarrow> parse_fraction r;
         Some (h, mi, sec, us)
       }
     }
   }"

definition clock_us :: "int \<times> int \<times> int \<times> int \<Rightarrow> int" where
  "clock_us c = (case c of (h, mi, s, us) \<Rightarrow> (h * 3600 + mi * 60 + s) * us_per_second + us)"

text \<open>The offset: None for a naive time. timezone() refuses a day or more.\<close>

definition parse_offset :: "string \<Rightarrow> int option option" where
  "parse_offset s =
     (case s of [] \<Rightarrow> Some None
      | c # r \<Rightarrow> if c = CHR ''Z'' then (if r = [] then Some (Some 0) else None)
          else do {
            v \<leftarrow> parse_clock r;
            let us = clock_us v;
            if us < us_per_day then Some (Some (if c = CHR ''-'' then - us else us)) else None
          })"

definition parse_time :: "string \<Rightarrow> (int \<times> int option) option" where
  "parse_time s = do {
     let mark = (\<lambda>c. c \<notin> set ''+-Z'');
     (h, mi, sec, us) \<leftarrow> parse_clock (takeWhile mark s);
     offset \<leftarrow> parse_offset (dropWhile mark s);
     if h < 24 \<and> mi < 60 \<and> sec < 60 then Some (clock_us (h, mi, sec, us), offset) else None
   }"

text \<open>None is ValueError.\<close>

definition fromisoformat :: "string \<Rightarrow> py_datetime option" where
  "fromisoformat s = do {
     n \<leftarrow> date_length s;
     day \<leftarrow> parse_date (take n s);
     (us, offset) \<leftarrow> (if length s > n + 1 then parse_time (drop (n + 1) s) else Some (0, None));
     if 0 \<le> day \<and> day < 3652059
     then Some (case offset of None \<Rightarrow> Naive (day * us_per_day + us) | Some z \<Rightarrow> Aware (day * us_per_day + us) z)
     else None
   }"

text \<open>What reading a timestamp raises: ValueError, or OverflowError of astimezone near the ends of time.\<close>

datatype date_error = DateValueError | DateOverflowError

definition to_utc :: "py_datetime \<Rightarrow> date_error + datetime" where
  "to_utc v = (if valid_datetime (ensure_utc v) then Inr (ensure_utc v) else Inl DateOverflowError)"

definition parse_datetime :: "string \<Rightarrow> date_error + datetime" where
  "parse_datetime value =
     (let raw = strip value;
          raw = (if raw \<noteq> [] \<and> last raw = CHR ''Z'' then butlast raw @ ''+00:00'' else raw)
      in case fromisoformat raw of None \<Rightarrow> Inl DateValueError | Some v \<Rightarrow> to_utc v)"

definition from_isoformat_or_none :: "string option \<Rightarrow> date_error + datetime option" where
  "from_isoformat_or_none value =
     (case value of None \<Rightarrow> Inr None | Some s \<Rightarrow> if s = [] then Inr None else map_sum id Some (parse_datetime s))"

subsection \<open>Reading back what isoformat wrote\<close>

lemma of_char_digit: "0 \<le> k \<Longrightarrow> k < 10 \<Longrightarrow> (of_char (digit k) :: nat) = 48 + nat k"
  by (simp add: digit_def)

lemma digits_dec: "list_all is_digit (dec w n)"
proof (induction w arbitrary: n)
  case (Suc w)
  have "0 \<le> n mod 10" "n mod 10 < 10" by simp_all
  then have "is_digit (digit (n mod 10))" by (simp add: is_digit_def of_char_digit)
  with Suc show ?case by simp
qed simp

lemma digits_value_snoc: "digits_value (xs @ [c]) = 10 * digits_value xs + (int (of_char c) - 48)"
  by (simp add: digits_value_def)

lemma digits_value_dec: "0 \<le> n \<Longrightarrow> n < 10 ^ w \<Longrightarrow> digits_value (dec w n) = n"
proof (induction w arbitrary: n)
  case (Suc w)
  have "0 \<le> n mod 10" "n mod 10 < 10" by simp_all
  moreover have "digits_value (dec w (n div 10)) = n div 10" using Suc.prems by (intro Suc.IH) auto
  ultimately show ?case by (simp add: digits_value_snoc of_char_digit)
qed (simp add: digits_value_def)

lemma take_num_dec: "0 \<le> n \<Longrightarrow> n < 10 ^ w \<Longrightarrow> take_num w (dec w n @ r) = Some (n, r)"
  by (simp add: take_num_def digits_value_dec digits_dec)

lemma month_day_sum:
  assumes "0 \<le> n" "n < sum_list ls" "\<forall>l\<in>set ls. 0 < l" "month_day ls m n = (m', d)"
  shows "sum_list (take (nat (m' - m)) ls) + d - 1 = n \<and> 1 \<le> d \<and> d \<le> ls ! nat (m' - m) \<and> m \<le> m'"
  using assms
proof (induction ls arbitrary: m n)
  case (Cons l ls)
  show ?case
  proof (cases "n < l")
    case False
    then have r: "month_day ls (m + 1) (n - l) = (m', d)" using Cons.prems by simp
    then have "sum_list (take (nat (m' - (m + 1))) ls) + d - 1 = n - l \<and> 1 \<le> d \<and>
        d \<le> ls ! nat (m' - (m + 1)) \<and> m + 1 \<le> m'"
      using Cons.prems False by (intro Cons.IH) auto
    moreover from this have "nat (m' - m) = Suc (nat (m' - (m + 1)))" by linarith
    ultimately show ?thesis by simp
  qed (use Cons.prems in auto)
qed simp

lemma ymd_of_day_valid:
  assumes "0 \<le> n" "n < 3652059" "ymd_of_day n = (y, m, d)"
  shows "valid_ymd y m d \<and> day_of_ymd y m d = n"
proof -
  have y: "y = year_of_day n" and md: "month_day (month_lengths (is_leap y)) 1 (n - days_before_year y) = (m, d)"
    using assms(3) by (auto simp: ymd_of_day_def Let_def)
  note b = year_of_day_bounds [OF assms(1), folded y] and f = month_lengths_facts(1,2) [of "is_leap y"]
  have n: "0 \<le> n - days_before_year y" "n - days_before_year y < sum_list (month_lengths (is_leap y))"
    using b by (simp_all add: month_lengths_facts(3))
  have "m < 13" using month_day_range [OF f(1) n, of 1] md f(2) by simp
  moreover have "\<forall>l\<in>set (month_lengths (is_leap y)). 0 < l" using f(1) by auto
  from month_day_sum [OF n this md]
  have "sum_list (take (nat (m - 1)) (month_lengths (is_leap y))) + d - 1 = n - days_before_year y"
    "1 \<le> d" "d \<le> month_lengths (is_leap y) ! nat (m - 1)" "1 \<le> m" by auto
  ultimately show ?thesis
    using year_of_day_range [OF assms(1,2)] by (simp add: valid_ymd_def day_of_ymd_def y)
qed

lemma clock_us_fields:
  assumes "time_fields t = ((y, m, d), h, mi, s, us)"
  shows "t = t div us_per_day * us_per_day + clock_us (h, mi, s, us) \<and>
    0 \<le> h \<and> h < 24 \<and> 0 \<le> mi \<and> mi < 60 \<and> 0 \<le> s \<and> s < 60 \<and> 0 \<le> us \<and> us < 1000000"
proof -
  define r where "r = t mod us_per_day"
  define q where "q = r div us_per_second"
  have h: "h = q div 3600" "mi = q mod 3600 div 60" "s = q mod 60" "us = r mod us_per_second"
    using assms by (auto simp: time_fields_def Let_def r_def q_def)
  have r: "0 \<le> r" "r < 86400 * 1000000" by (simp_all add: r_def us_per_day_def)
  then have q: "0 \<le> q" "q < 86400" by (auto simp: q_def us_per_second_def)
  have "q mod 60 = q mod 3600 mod 60" by (simp add: mod_mod_cancel)
  then have "q = h * 3600 + mi * 60 + s" using h by simp
  moreover have "r = q * us_per_second + us" by (simp add: h q_def)
  moreover have "t = t div us_per_day * us_per_day + r" by (simp add: r_def)
  moreover have "h < 24" "0 \<le> h" "0 \<le> mi" "mi < 60" "0 \<le> s" "s < 60" using q by (auto simp: h)
  moreover have "0 \<le> us" "us < 1000000" by (simp_all add: h us_per_second_def)
  ultimately show ?thesis by (simp add: clock_us_def)
qed

lemma take_num_rest: "0 \<le> n \<Longrightarrow> n < 10 ^ w \<Longrightarrow> take_num w (dec w n) = Some (n, [])"
  using take_num_dec [of n w "[]"] by simp

lemma dec_Nil_iff [simp]: "dec w n = [] \<longleftrightarrow> w = 0"
  by (metis length_0_conv length_dec)

lemma dec_Cons: "dec (Suc w) n = c # r \<Longrightarrow> is_digit c"
  using digits_dec [of "Suc w" n] by simp

lemma take_dec_ne: "\<not> is_digit c \<Longrightarrow> take (Suc 0) (dec w n) \<noteq> [c]"
  using digits_dec [of w n] by (cases "dec w n") auto

lemma dec_mark: "c \<in> set (dec w n) \<Longrightarrow> c \<noteq> CHR ''+'' \<and> c \<noteq> CHR ''-'' \<and> c \<noteq> CHR ''Z''"
  using digits_dec [of w n] by (auto simp: list_all_iff is_digit_def)

lemma parse_date_text:
  assumes "valid_ymd y m d"
  shows "parse_date (dec 4 y @ ''-'' @ dec 2 m @ ''-'' @ dec 2 d) = Some (day_of_ymd y m d)"
proof -
  have "y < 10 ^ 4" "m < 10 ^ 2" "0 \<le> y" "0 \<le> m" "0 \<le> d" "d < 10 ^ 2"
  proof -
    have "d \<le> month_lengths (is_leap y) ! nat (m - 1)" "nat (m - 1) < 12" using assms by (auto simp: valid_ymd_def)
    then have "d \<le> 31" using month_lengths_facts(1,2) [of "is_leap y"] nth_mem [of "nat (m - 1)" "month_lengths (is_leap y)"]
      by fastforce
    then show "d < 10 ^ 2" by simp
  qed (use assms in \<open>auto simp: valid_ymd_def\<close>)
  then show ?thesis
    using assms
    by (simp add: parse_date_def take_num_dec take_num_rest startswith_def expect_def take_dec_ne is_digit_def
        del: dec.simps)
qed

lemma parse_clock_text:
  assumes "0 \<le> h" "h < 100" "0 \<le> mi" "mi < 100" "0 \<le> s" "s < 100" "0 \<le> us" "us < 1000000"
  shows "parse_clock (dec 2 h @ '':'' @ dec 2 mi @ '':'' @ dec 2 s @ (if us = 0 then [] else ''.'' @ dec 6 us)) =
    Some (h, mi, s, us)"
  using assms
  by (simp add: parse_clock_def take_num_dec take_num_rest startswith_def expect_def parse_fraction_def digits_value_dec
      digits_dec del: dec.simps)

lemma parse_offset_utc: "parse_offset ''+00:00'' = Some (Some 0)"
  by code_simp

lemma parse_time_text:
  assumes "0 \<le> h" "h < 24" "0 \<le> mi" "mi < 60" "0 \<le> s" "s < 60" "0 \<le> us" "us < 1000000"
  shows "parse_time (dec 2 h @ '':'' @ dec 2 mi @ '':'' @ dec 2 s @ utc_fraction us) = Some (clock_us (h, mi, s, us), Some 0)"
proof -
  let ?c = "dec 2 h @ '':'' @ dec 2 mi @ '':'' @ dec 2 s @ (if us = 0 then [] else ''.'' @ dec 6 us)"
  let ?mark = "\<lambda>c. c \<notin> set ''+-Z''"
  have m: "\<forall>c\<in>set ?c. ?mark c"
    by (auto simp del: dec.simps dest: dec_mark split: if_splits)
  have split: "dec 2 h @ '':'' @ dec 2 mi @ '':'' @ dec 2 s @ utc_fraction us = ?c @ ''+00:00''"
    by (simp add: utc_fraction_def)
  have "takeWhile ?mark (?c @ ''+00:00'') = ?c" "dropWhile ?mark (?c @ ''+00:00'') = ''+00:00''"
    using m by (auto simp: takeWhile_append2 dropWhile_append2 simp del: dec.simps)
  then show ?thesis
    unfolding split parse_time_def Let_def using parse_clock_text [of h mi s us] assms
    by (simp add: parse_offset_utc del: dec.simps)
qed

lemma fromisoformat_isoformat:
  assumes "valid_datetime t"
  shows "fromisoformat (isoformat t) = Some (Aware t 0)"
proof -
  obtain y m d h mi s us where f: "time_fields t = ((y, m, d), h, mi, s, us)" by (metis prod.exhaust)
  define n where "n = t div us_per_day"
  have n: "0 \<le> n" "n < 3652059" using assms by (auto simp: n_def valid_datetime_def us_per_day_def)
  have "ymd_of_day n = (y, m, d)" using f by (simp add: time_fields_def n_def Let_def)
  from ymd_of_day_valid [OF n this] have ymd: "valid_ymd y m d" "day_of_ymd y m d = n" by auto
  note c = clock_us_fields [OF f, folded n_def]
  let ?D = "dec 4 y @ ''-'' @ dec 2 m @ ''-'' @ dec 2 d"
  let ?T = "dec 2 h @ '':'' @ dec 2 mi @ '':'' @ dec 2 s @ utc_fraction us"
  have iso: "isoformat t = ?D @ CHR ''T'' # ?T" by (simp add: isoformat_def f del: dec.simps)
  have l: "length ?D = 10" "7 < length ?T" by (simp_all add: utc_fraction_def del: dec.simps)
  have D: "?D ! 4 = CHR ''-''" "?D ! 5 \<noteq> CHR ''W''"
  proof -
    show "?D ! 4 = CHR ''-''" by (simp add: nth_append del: dec.simps)
    have "?D ! 5 = dec 2 m ! 0" by (simp add: nth_append del: dec.simps)
    moreover have "is_digit (dec 2 m ! 0)" using digits_dec [of 2 m] by (simp add: list_all_length del: dec.simps)
    ultimately show "?D ! 5 \<noteq> CHR ''W''" by (auto simp: is_digit_def)
  qed
  have len: "date_length (?D @ CHR ''T'' # ?T) = Some 10"
    using l D unfolding date_length_def by (simp add: nth_append del: dec.simps)
  have "take 10 (?D @ CHR ''T'' # ?T) = ?D" "drop (10 + 1) (?D @ CHR ''T'' # ?T) = ?T"
    using l(1) by (simp_all del: dec.simps append_assoc)
  then show ?thesis
    unfolding iso fromisoformat_def len using l(2) parse_date_text [OF ymd(1)] parse_time_text [of h mi s us] c n ymd(2)
    by (simp del: dec.simps)
qed

lemma isoformat_ends: "\<exists>s. isoformat t = s @ ''+00:00'' \<and> s \<noteq> [] \<and> is_digit (hd s)"
proof -
  obtain y m d h mi s us where f: "time_fields t = ((y, m, d), h, mi, s, us)" by (metis prod.exhaust)
  obtain c r where y: "dec 4 y = c # r" by (cases "dec 4 y") auto
  then have "is_digit c" using dec_Cons [of 3 y] by simp
  with y show ?thesis
    by (auto simp: isoformat_def f utc_fraction_def simp del: dec.simps)
qed

lemma strip_isoformat: "strip (isoformat t) = isoformat t"
proof -
  obtain s where s: "isoformat t = s @ ''+00:00''" "s \<noteq> []" "is_digit (hd s)" using isoformat_ends by blast
  then have "\<not> is_space (hd (isoformat t))" by (auto simp: is_space_def is_digit_def)
  then have "lstrip (isoformat t) = isoformat t" by (rule lstrip_id [OF disjI2])
  then show ?thesis by (simp add: strip_def s rstrip_def is_space_def)
qed

text \<open>A timestamp the store writes with isoformat_or_none and reads with
  from_isoformat_or_none is the same instant: the text of every instant between 0001-01-01 and
  9999-12-31 is accepted by fromisoformat and gives the instant back, and NULL stays None.\<close>

theorem timestamp_column_roundtrip:
  assumes "\<And>d. v = Some d \<Longrightarrow> valid_datetime (ensure_utc d)"
  shows "from_isoformat_or_none (isoformat_or_none v) = Inr (map_option ensure_utc v)"
proof (cases v)
  case (Some d)
  let ?t = "ensure_utc d"
  have valid: "valid_datetime ?t" using assms Some by simp
  obtain s where s: "isoformat ?t = s @ ''+00:00''" "s \<noteq> []" using isoformat_ends by blast
  have "parse_datetime (isoformat ?t) = Inr ?t"
    unfolding parse_datetime_def strip_isoformat Let_def using fromisoformat_isoformat [OF valid] s valid
    by (simp add: to_utc_def)
  then show ?thesis using s by (simp add: Some isoformat_or_none_def from_isoformat_or_none_def)
qed (simp add: isoformat_or_none_def from_isoformat_or_none_def)

theorem timestamp_column_roundtrip_witness:
  "from_isoformat_or_none (isoformat_or_none (Some (Aware 63838800000000001 3600000000))) = Inr (Some 63838796400000001)"
  using timestamp_column_roundtrip [of "Some (Aware 63838800000000001 3600000000)"]
  by (simp add: valid_datetime_def us_per_day_def)

end
