(* ===== verification/Huldra_Harvest.thy ===== *)
theory Huldra_Harvest
  imports Huldra_Oai Huldra_Limiter Huldra_Iso Huldra_Programs
begin

text \<open>
  The OAI-PMH harvester (huldra/broker.py, harvest_oai and _harvest_oai_owned): one owner per scope,
  a durable cursor it starts from, and a loop that asks for one page at a time. An iteration of the
  loop is harvest_step; the loop ends because every iteration that goes on has moved the page index
  towards max_pages. sha256 and date() of SQLite are parameters; the OAI fetcher is the parameter
  oai_upstream of the world.
\<close>

subsection \<open>Helpers of broker.py\<close>

definition hash_token :: "(string \<Rightarrow> string) \<Rightarrow> string option \<Rightarrow> string option" where
  "hash_token sha v = map_option sha v"

definition should_commit_oai_watermark :: "oai_request \<Rightarrow> bool" where
  "should_commit_oai_watermark r \<longleftrightarrow> o_from r = None \<and> o_until r = None"

definition or_empty :: "string option \<Rightarrow> string" where
  "or_empty v = (case v of None \<Rightarrow> [] | Some s \<Rightarrow> s)"

fun joined :: "string \<Rightarrow> string list \<Rightarrow> string" where
  "joined sep [] = []"
| "joined sep [x] = x"
| "joined sep (x # y # xs) = x @ sep @ joined sep (y # xs)"

definition oai_scope_lease_name :: "(string \<Rightarrow> string) \<Rightarrow> oai_request \<Rightarrow> string" where
  "oai_scope_lease_name sha r =
     ''oai_harvest:'' @ sha (joined [char_of (0::nat)]
       (if should_commit_oai_watermark r
        then [metadata_prefix_value (o_metadata_prefix r), or_empty (o_set_spec r), ''shared-watermark-writer'']
        else [metadata_prefix_value (o_metadata_prefix r), or_empty (o_set_spec r), or_empty (o_from r),
              or_empty (o_until r), harvest_mode_value (o_mode r)]))"

definition oai_budget_error :: "oai_request \<Rightarrow> int \<Rightarrow> int \<Rightarrow> datetime option \<Rightarrow> string option act" where
  "oai_budget_error r pages_total requests_total deadline_at =
     (if pages_total \<ge> o_max_pages r then returnM (Some ''page_budget_exceeded'')
      else if requests_total \<ge> o_max_requests r then returnM (Some ''request_budget_exceeded'')
      else case deadline_at of None \<Rightarrow> returnM None
        | Some t \<Rightarrow> bindM utc_now (\<lambda>now. returnM (if now \<ge> t then Some ''runtime_budget_exceeded'' else None)))"

definition oai_token_error :: "int \<Rightarrow> string option \<Rightarrow> string option \<Rightarrow> string set \<Rightarrow> string option" where
  "oai_token_error records_total consumed_hash next_hash consumed_hashes =
     (case next_hash of None \<Rightarrow> None
      | Some h \<Rightarrow> if consumed_hash \<noteq> None \<and> next_hash = consumed_hash then Some ''repeated_resumption_token''
                  else if h \<in> consumed_hashes then Some ''resumption_token_cycle''
                  else if records_total = 0 then Some ''no_progress'' else None)"

fun max_datestamp_seen :: "oai_record list \<Rightarrow> string option \<Rightarrow> string option" where
  "max_datestamp_seen [] best = best"
| "max_datestamp_seen (r # rs) best =
     max_datestamp_seen rs (case or_datestamp r of None \<Rightarrow> best
       | Some t \<Rightarrow> (case best of None \<Rightarrow> Some (date_text t)
                    | Some b \<Rightarrow> if date_text t > b then Some (date_text t) else best))"

text \<open>str.replace("Z", "+00:00").\<close>

definition replace_z :: "string \<Rightarrow> string" where
  "replace_z s = concat (map (\<lambda>c. if c = CHR ''Z'' then ''+00:00'' else [c]) s)"

text \<open>astimezone is outside the try: an OverflowError near the ends of time gets out.\<close>

definition normalize_oai_day_datestamp :: "bool \<Rightarrow> string option \<Rightarrow> date_error + string option" where
  "normalize_oai_day_datestamp keep_invalid value =
     (case value of None \<Rightarrow> Inr None
      | Some v \<Rightarrow> if strip v = [] then Inr None
          else (case fromisoformat (replace_z (strip v)) of
                  None \<Rightarrow> Inr (if keep_invalid then Some (strip v) else None)
                | Some parsed \<Rightarrow> map_sum id (\<lambda>t. Some (date_text t)) (to_utc parsed)))"

definition subtract_oai_overlap :: "string \<Rightarrow> int \<Rightarrow> date_error + string" where
  "subtract_oai_overlap value seconds =
     (case fromisoformat (replace_z value) of
        None \<Rightarrow> Inr value
      | Some parsed \<Rightarrow> (case to_utc parsed of Inl e \<Rightarrow> Inl e
          | Inr t \<Rightarrow> if valid_datetime (t - seconds * us_per_second)
                      then Inr (date_text (t - seconds * us_per_second)) else Inl DateOverflowError))"

definition date_exn :: "date_error \<Rightarrow> exn" where
  "date_exn e = (case e of DateValueError \<Rightarrow> StoreExn (ValueError ''Invalid isoformat string'')
     | DateOverflowError \<Rightarrow> OtherExn ''OverflowError'')"

definition dateM :: "date_error + 'a \<Rightarrow> 'a act" where
  "dateM v = (case v of Inl e \<Rightarrow> raiseM (date_exn e) | Inr x \<Rightarrow> returnM x)"

definition storeM :: "store_error + 'a \<Rightarrow> 'a act" where
  "storeM v = (case v of Inl e \<Rightarrow> raiseM (StoreExn e) | Inr x \<Rightarrow> returnM x)"

text \<open>build_list_records_params (oai.py): a dict, in insertion order; an empty string counts as absent.\<close>

definition build_list_records_params ::
  "oai_metadata_prefix \<Rightarrow> string option \<Rightarrow> string option \<Rightarrow> string option \<Rightarrow> string option \<Rightarrow> (string \<times> string) list" where
  "build_list_records_params pfx set_spec from_d until_d token =
     (if truthy token then [(''verb'', ''ListRecords''), (''resumptionToken'', or_empty token)]
      else [(''verb'', ''ListRecords''), (''metadataPrefix'', metadata_prefix_value pfx)] @
        (if truthy set_spec then [(''set'', or_empty set_spec)] else []) @
        (if truthy from_d then [(''from'', or_empty from_d)] else []) @
        (if truthy until_d then [(''until'', or_empty until_d)] else []))"

text \<open>error.replace("_", " ") and str(exc).\<close>

definition unscored :: "string \<Rightarrow> string" where
  "unscored s = map (\<lambda>c. if c = CHR ''_'' then CHR '' '' else c) s"

fun exn_text :: "exn \<Rightarrow> string" where
  "exn_text (StoreExn (IntegrityError m)) = m"
| "exn_text (StoreExn (ValueError m)) = m"
| "exn_text (StoreExn (RuntimeError m)) = m"
| "exn_text (RateLimitedError a b m) = m"
| "exn_text (TransientFetchError a m) = m"
| "exn_text (NonRetryableFetchError a m) = m"
| "exn_text (HuldraFetchError a m) = m"
| "exn_text (OtherExn m) = m"

subsection \<open>The harvester, what is fixed in a run, and the state of its loop\<close>

record harvester =
  hv_settings :: huldra_settings
  hv_store_timeout :: seconds
  hv_jitter :: "seconds \<Rightarrow> seconds"
  hv_sha :: "string \<Rightarrow> string"
  hv_sqldate :: "string \<Rightarrow> string option"

definition oai_limiter :: "harvester \<Rightarrow> limiter" where
  "oai_limiter hv = \<lparr>lim_name = ''arxiv_legacy_api'', lim_lease = ''upstream_fetch'', lim_settings = hv_settings hv,
     lim_store_timeout = hv_store_timeout hv, lim_jitter = hv_jitter hv\<rparr>"

text \<open>
  deadline_at is not None once the run has begun: a new job has one and ensure_oai_harvest_deadline
  gives one to an old job, so the tests of the loop for None are not written out.
\<close>

record harvest_run =
  hx_id :: string
  hx_request :: oai_request
  hx_scope :: string
  hx_owner :: string
  hx_scope_seconds :: int
  hx_from :: "string option"
  hx_until :: "string option"
  hx_deadline :: datetime

record harvest_state =
  hs_page_index :: int
  hs_requests_total :: int
  hs_processed :: int
  hs_upserted :: int
  hs_deleted :: int
  hs_response_watermark :: "string option"
  hs_max_datestamp :: "string option"
  hs_token :: "string option"
  hs_consumed :: "string set"
  hs_finished :: bool

definition oai_owner :: "harvest_run \<Rightarrow> string" where
  "oai_owner hx = ''oai:'' @ hx_id hx"

subsection \<open>Store operations as the harvester calls them\<close>

definition finish_harvest ::
  "harvest_run \<Rightarrow> harvest_state \<Rightarrow> string \<Rightarrow> int \<Rightarrow> string option \<Rightarrow> string option \<Rightarrow> string option
   \<Rightarrow> string option \<Rightarrow> oai_harvest_result act" where
  "finish_harvest hx s status pages_total watermark token category msg =
     bindM utc_now (\<lambda>t.
     thenM (tx_do (complete_oai_harvest_job
        \<lparr>fi_harvest_id = hx_id hx, fi_status = status, fi_records_processed = hs_processed s,
         fi_papers_upserted = hs_upserted s, fi_deleted_records = hs_deleted s, fi_pages_total = pages_total,
         fi_current_watermark = watermark, fi_token = token, fi_error_category = category, fi_error_message = msg\<rparr> t))
     (bindM (readM (get_oai_harvest_result (hx_id hx))) (\<lambda>r.
        case r of None \<Rightarrow> raiseM (OtherExn ''AssertionError'') | Some x \<Rightarrow> returnM x)))"

text \<open>finish with the token of the cursor and an error, as every early return of the loop does.\<close>

definition stop_harvest :: "harvest_run \<Rightarrow> harvest_state \<Rightarrow> string \<Rightarrow> int \<Rightarrow> string option \<Rightarrow> string option
    \<Rightarrow> oai_harvest_result act" where
  "stop_harvest hx s status pages_total category msg =
     finish_harvest hx s status pages_total (hs_response_watermark s) (hs_token s) category msg"

definition oai_default_result :: "string \<Rightarrow> oai_request \<Rightarrow> string \<Rightarrow> oai_harvest_result" where
  "oai_default_result harvest_id r msg =
     \<lparr>hr_harvest_id = harvest_id, hr_status = ''blocked'', hr_metadata_prefix = o_metadata_prefix r,
      hr_set_spec = o_set_spec r, hr_mode = o_mode r, hr_records_processed = 0, hr_papers_upserted = 0,
      hr_deleted_records = 0, hr_pages_total = 0, hr_requests_total = 0, hr_current_watermark = None, hr_token = None,
      hr_error_category = Some ''harvest_in_progress'', hr_error_message = Some msg, hr_deadline_at = None\<rparr>"

definition in_progress :: "string \<Rightarrow> oai_harvest_result \<Rightarrow> oai_harvest_result" where
  "in_progress msg r = r\<lparr>hr_status := ''blocked'', hr_error_category := Some ''harvest_in_progress'',
     hr_error_message := Some msg\<rparr>"

definition ownership_changed :: string where
  "ownership_changed = ''OAI harvest ownership changed before network I/O''"

definition ownership_lost :: "harvest_run \<Rightarrow> oai_harvest_result act" where
  "ownership_lost hx =
     bindM (readM (get_oai_harvest_result (hx_id hx))) (\<lambda>current. returnM
       (case current of
          None \<Rightarrow> oai_default_result (hx_id hx) (hx_request hx) ownership_changed
        | Some r \<Rightarrow> if hr_status r \<noteq> ''running'' then r else in_progress ownership_changed r))"

definition drop_oai_lease :: "harvest_run \<Rightarrow> unit act" where
  "drop_oai_lease hx = tx_do (release_lease ''upstream_fetch'' (oai_owner hx))"

definition page_params :: "harvest_run \<Rightarrow> harvest_state \<Rightarrow> (string \<times> string) list" where
  "page_params hx s = build_list_records_params (o_metadata_prefix (hx_request hx)) (o_set_spec (hx_request hx))
     (hx_from hx) (hx_until hx) (hs_token s)"

text \<open>record_oai_page of a page that was not fetched.\<close>

definition record_failed_page ::
  "harvester \<Rightarrow> harvest_run \<Rightarrow> harvest_state \<Rightarrow> string \<Rightarrow> string option \<Rightarrow> string option \<Rightarrow> unit act" where
  "record_failed_page hv hx s status category msg =
     bindM utc_now (\<lambda>t. tx_try (record_oai_page
       \<lparr>op_harvest_id = hx_id hx, op_page_index = hs_page_index s, op_request_params = page_params hx s,
        op_token_hash = hash_token (hv_sha hv) (hs_token s), op_status = status, op_response_date = None,
        op_records_count = 0, op_next_token_hash = None, op_error_category = category, op_error_message = msg,
        op_created_at = t\<rparr>))"

subsection \<open>One iteration of the loop\<close>

text \<open>It ends with the state of the next iteration or with the result of the harvest.\<close>

type_synonym turn = "harvest_state + oai_harvest_result"

definition endM :: "oai_harvest_result act \<Rightarrow> turn act" where
  "endM m = bindM m (\<lambda>r. returnM (Inr r))"

definition out_of_time :: "harvest_run \<Rightarrow> harvest_state \<Rightarrow> string \<Rightarrow> turn act" where
  "out_of_time hx s msg = thenM (drop_oai_lease hx)
     (endM (stop_harvest hx s ''budget_exceeded'' (hs_page_index s) (Some ''runtime_budget_exceeded'') (Some msg)))"

definition failed_call :: "harvester \<Rightarrow> harvest_run \<Rightarrow> harvest_state \<Rightarrow> exn \<Rightarrow> turn act" where
  "failed_call hv hx s e =
     (let ended = (\<lambda>page_status category msg.
            thenM (record_failed_page hv hx s page_status (Some category) (Some (exn_text e)))
              (endM (stop_harvest hx s page_status (hs_page_index s + 1) (Some category) (Some msg))))
      in case e of
           RateLimitedError retry_after status m \<Rightarrow>
             bindM (after_429 (oai_limiter hv) (oai_owner hx) retry_after
                (case status of None \<Rightarrow> 429 | Some c \<Rightarrow> if c = 0 then 429 else c) (Some m) None) (\<lambda>cooldown_until.
                ended ''rate_limited'' ''rate_limited'' (m @ ''; cooldown_until='' @ isoformat cooldown_until))
         | TransientFetchError status m \<Rightarrow>
             thenM (after_failure (oai_limiter hv) (oai_owner hx) status (Some m) None)
               (ended ''transient_failure'' ''transient'' m)
         | NonRetryableFetchError status m \<Rightarrow>
             thenM (after_failure (oai_limiter hv) (oai_owner hx) status (Some m) None)
               (ended ''failed'' ''non_retryable'' m)
         | _ \<Rightarrow> raiseM e)"

definition page_checkpoint ::
  "harvester \<Rightarrow> harvest_run \<Rightarrow> harvest_state \<Rightarrow> oai_page \<Rightarrow> string option \<Rightarrow> oai_checkpoint" where
  "page_checkpoint hv hx s page watermark =
     (let consumed = hash_token (hv_sha hv) (hs_token s); next_hash = hash_token (hv_sha hv) (og_token page);
          token_error = oai_token_error (int (length (og_records page))) consumed next_hash (hs_consumed s)
      in \<lparr>cp_harvest_id = hx_id hx, cp_page_index = hs_page_index s,
          cp_request_params = (if og_request_params page = [] then page_params hx s else og_request_params page),
          cp_records = og_records page, cp_response_date = og_response_date page,
          cp_consumed_token = hs_token s, cp_consumed_hash = consumed, cp_next_token = og_token page,
          cp_next_hash = next_hash, cp_last_response_date = watermark,
          cp_last_datestamp_seen = max_datestamp_seen (og_records page) (hs_max_datestamp s),
          cp_error_category = token_error, cp_error_message = map_option unscored token_error\<rparr>)"

text \<open>The state after a page has been committed with these counts.\<close>

definition next_state :: "harvest_state \<Rightarrow> oai_checkpoint \<Rightarrow> int \<times> int \<times> int \<Rightarrow> harvest_state" where
  "next_state s cp counts = (case counts of (processed, upserted, deleted) \<Rightarrow>
     \<lparr>hs_page_index = hs_page_index s + 1, hs_requests_total = hs_requests_total s,
      hs_processed = hs_processed s + processed, hs_upserted = hs_upserted s + upserted,
      hs_deleted = hs_deleted s + deleted, hs_response_watermark = cp_last_response_date cp,
      hs_max_datestamp = cp_last_datestamp_seen cp, hs_token = cp_next_token cp,
      hs_consumed = (case cp_consumed_hash cp of None \<Rightarrow> hs_consumed s | Some h \<Rightarrow> insert h (hs_consumed s)),
      hs_finished = (cp_next_token cp = None)\<rparr>)"

definition commit_page :: "harvester \<Rightarrow> harvest_run \<Rightarrow> harvest_state \<Rightarrow> oai_page \<Rightarrow> turn act" where
  "commit_page hv hx s page =
     bindM (dateM (normalize_oai_day_datestamp False (og_response_date page))) (\<lambda>day.
     (let cp = page_checkpoint hv hx s page (if truthy day then day else hs_response_watermark s)
      in bindM (catchM (bindM utc_now (\<lambda>t. tx_try (checkpoint_oai_page cp t)))
           (\<lambda>e. thenM (after_failure (oai_limiter hv) (oai_owner hx) None
                    (Some (''OAI checkpoint failed: '' @ exn_text e)) None) (raiseM e))) (\<lambda>counts.
         thenM (after_success (oai_limiter hv) (oai_owner hx) 200 None)
           (let s' = next_state s cp counts
            in case cp_error_category cp of
                 Some err \<Rightarrow> endM (stop_harvest hx s' ''failed'' (hs_page_index s') (Some err) (Some (unscored err)))
               | None \<Rightarrow> returnM (Inl s')))))"

definition list_page :: "harvester \<Rightarrow> harvest_run \<Rightarrow> harvest_state \<Rightarrow> seconds \<Rightarrow> turn act" where
  "list_page hv hx s timeout =
     try_elseM (oaiM \<lparr>oc_metadata_prefix = o_metadata_prefix (hx_request hx),
          oc_set_spec = o_set_spec (hx_request hx), oc_from = hx_from hx, oc_until = hx_until hx,
          oc_token = hs_token s, oc_timeout = timeout\<rparr>)
       (failed_call hv hx s) (commit_page hv hx s)"

definition expired_message :: string where
  "expired_message = ''runtime budget expired before the next request''"

text \<open>From the renewal of both leases to the call.\<close>

definition call_when_owned :: "harvester \<Rightarrow> harvest_run \<Rightarrow> harvest_state \<Rightarrow> seconds \<Rightarrow> turn act" where
  "call_when_owned hv hx s timeout =
     (let post_fetch = max (lease_timeout_seconds (hv_settings hv)) \<lceil>timeout + hv_store_timeout hv + 5\<rceil>
      in bindM (tx_now (renew_leases_if_owned
            [(hx_scope hx, hx_owner hx, hx_scope_seconds hx), (''upstream_fetch'', oai_owner hx, post_fetch)])) (\<lambda>outcome.
         bindM (storeM outcome) (\<lambda>renewed.
         if \<not> renewed then thenM (drop_oai_lease hx) (endM (ownership_lost hx))
         else bindM utc_now (\<lambda>now.
           let remaining = total_seconds (hx_deadline hx - now)
           in if remaining \<le> 0 then out_of_time hx s expired_message
              else list_page hv hx s (min timeout remaining)))))"

text \<open>From the count of the request to its timeout.\<close>

definition call_when_counted :: "harvester \<Rightarrow> harvest_run \<Rightarrow> harvest_state \<Rightarrow> turn act" where
  "call_when_counted hv hx s =
     bindM utc_now (\<lambda>t.
     bindM (tx_try (record_oai_request_started (hx_id hx) t)) (\<lambda>n.
     (let s = s\<lparr>hs_requests_total := n\<rparr>
      in bindM utc_now (\<lambda>now.
         let remaining = total_seconds (hx_deadline hx - now)
         in if remaining \<le> 0 then out_of_time hx s expired_message
            else call_when_owned hv hx s (min (request_timeout_seconds (hv_settings hv)) remaining)))))"

definition budget_of :: "harvest_run \<Rightarrow> harvest_state \<Rightarrow> string option act" where
  "budget_of hx s = oai_budget_error (hx_request hx) (hs_page_index s) (hs_requests_total s) (Some (hx_deadline hx))"

definition over_budget :: "harvest_run \<Rightarrow> harvest_state \<Rightarrow> string \<Rightarrow> turn act" where
  "over_budget hx s err = endM (stop_harvest hx s ''budget_exceeded'' (hs_page_index s) (Some err) (Some (unscored err)))"

text \<open>From the limiter's grant to the count of the request.\<close>

definition call_when_granted :: "harvester \<Rightarrow> harvest_run \<Rightarrow> harvest_state \<Rightarrow> seconds \<Rightarrow> turn act" where
  "call_when_granted hv hx s wait =
     bindM utc_now (\<lambda>now.
     if now + timedelta_seconds wait \<ge> hx_deadline hx
     then out_of_time hx s ''runtime budget would expire before the next request''
     else thenM (if wait > 0 then sleepM wait else returnM ())
       (bindM (budget_of hx s) (\<lambda>e.
          case e of Some err \<Rightarrow> thenM (drop_oai_lease hx) (over_budget hx s err)
          | None \<Rightarrow> call_when_counted hv hx s)))"

definition refused_page :: "harvester \<Rightarrow> harvest_run \<Rightarrow> harvest_state \<Rightarrow> string option \<Rightarrow> turn act" where
  "refused_page hv hx s reason =
     (let status = (if reason = Some ''cooldown'' then ''cooling_down'' else ''blocked'')
      in thenM (record_failed_page hv hx s status reason reason)
           (endM (stop_harvest hx s status (hs_page_index s + 1) reason reason)))"

definition harvest_step :: "harvester \<Rightarrow> harvest_run \<Rightarrow> harvest_state \<Rightarrow> turn act" where
  "harvest_step hv hx s =
     bindM (tx_now (renew_lease_if_owned (hx_scope hx) (hx_owner hx) (hx_scope_seconds hx))) (\<lambda>renewed.
     if \<not> renewed then endM (ownership_lost hx)
     else bindM (budget_of hx s) (\<lambda>e.
       case e of Some err \<Rightarrow> over_budget hx s err
       | None \<Rightarrow> bindM (before_request (oai_limiter hv) (oai_owner hx) None) (\<lambda>decision.
           if can_fetch decision then call_when_granted hv hx s (wait_seconds decision)
           else refused_page hv hx s (blocked_reason decision))))"

subsection \<open>The loop\<close>

text \<open>
  The function package sees through bindM and the case of the turn by these two rules: the next
  iteration is reached only from a world that harvest_step has left with a new state.
\<close>

lemma bindM_cong [fundef_cong]:
  assumes "m w = m' w'" "\<And>x w1. m' w' = (Inr x, w1) \<Longrightarrow> k x w1 = k' x w1"
  shows "bindM m k w = bindM m' k' w'"
  using assms by (auto simp: bindM_def split: prod.splits sum.splits)

lemma turn_cong [fundef_cong]:
  assumes "v = v'" "w = w'" "\<And>s. v' = Inl s \<Longrightarrow> f s w' = f' s w'" "\<And>r. v' = Inr r \<Longrightarrow> g r w' = g' r w'"
  shows "case_sum f g v w = case_sum f' g' v' w'"
  using assms by (cases v') auto

lemma endM_stops: "endM m w = (Inr v, w') \<Longrightarrow> \<exists>r. v = Inr r"
  by (auto simp: endM_def bindM_def returnM_def split: prod.splits sum.splits)

lemma bindM_Inr: "bindM m k w = (Inr v, w') \<Longrightarrow> \<exists>x w1. m w = (Inr x, w1) \<and> k x w1 = (Inr v, w')"
  by (auto simp: bindM_def split: prod.splits sum.splits)

text \<open>goes_to p m: whenever m ends with the state of another iteration, p holds of it.\<close>

definition goes_to :: "(harvest_state \<Rightarrow> bool) \<Rightarrow> turn act \<Rightarrow> bool" where
  "goes_to p m \<longleftrightarrow> (\<forall>w s w'. m w = (Inr (Inl s), w') \<longrightarrow> p s)"

lemma goes_to_bind: "(\<And>x. goes_to p (k x)) \<Longrightarrow> goes_to p (bindM m k)"
  unfolding goes_to_def by (metis bindM_Inr)

lemma goes_to_then: "goes_to p k \<Longrightarrow> goes_to p (thenM m k)"
  unfolding thenM_def by (rule goes_to_bind)

lemma goes_to_end [simp, intro]: "goes_to p (endM m)"
  unfolding goes_to_def by (metis endM_stops Inl_Inr_False)

lemma goes_to_prims [simp]:
  "goes_to p (raiseM e)" "goes_to p (returnM (Inr r))" "goes_to p (returnM (Inl s)) \<longleftrightarrow> p s"
  by (auto simp: goes_to_def returnM_def raiseM_def)

lemma goes_to_if: "(b \<Longrightarrow> goes_to p m) \<Longrightarrow> (\<not> b \<Longrightarrow> goes_to p m') \<Longrightarrow> goes_to p (if b then m else m')"
  by simp

lemma goes_to_out [simp, intro]: "goes_to p (out_of_time hx s m)" "goes_to p (over_budget hx s e)"
  by (auto simp: out_of_time_def over_budget_def intro: goes_to_then)

lemma goes_to_failed [simp, intro]: "goes_to p (failed_call hv hx s e)"
  by (cases e) (auto simp: failed_call_def Let_def intro!: goes_to_bind goes_to_then)

lemma goes_to_budget:
  assumes "hs_page_index s < o_max_pages (hx_request hx) \<Longrightarrow> goes_to p m" "\<And>e. goes_to p (k e)"
  shows "goes_to p (bindM (budget_of hx s) (\<lambda>e. case e of Some err \<Rightarrow> k err | None \<Rightarrow> m))"
proof (cases "hs_page_index s < o_max_pages (hx_request hx)")
  case True
  with assms show ?thesis by (auto intro!: goes_to_bind split: option.split)
next
  case False
  with assms(2) show ?thesis by (simp add: budget_of_def oai_budget_error_def)
qed

lemma goes_to_commit: "goes_to (\<lambda>s'. hs_page_index s' = hs_page_index s + 1) (commit_page hv hx s page)"
  by (auto simp: commit_page_def Let_def next_state_def intro!: goes_to_bind goes_to_then split: option.split prod.split)

lemma goes_to_try_else:
  "(\<And>e. goes_to p (h e)) \<Longrightarrow> (\<And>x. goes_to p (k x)) \<Longrightarrow> goes_to p (try_elseM m h k)"
  unfolding goes_to_def try_elseM_def by (auto split: prod.splits sum.splits)

lemma goes_to_list: "goes_to (\<lambda>s'. hs_page_index s' = hs_page_index s + 1) (list_page hv hx s t)"
  unfolding list_page_def by (intro goes_to_try_else goes_to_commit goes_to_failed)

lemma goes_to_step:
  "goes_to (\<lambda>s'. hs_page_index s < o_max_pages (hx_request hx) \<and> hs_page_index s' = hs_page_index s + 1) (harvest_step hv hx s)"
proof -
  let ?p = "\<lambda>s'. hs_page_index s < o_max_pages (hx_request hx) \<and> hs_page_index s' = hs_page_index s + 1"
  note list = goes_to_list [of "s\<lparr>hs_requests_total := n\<rparr>" hv hx for n, simplified]
  have counted: "goes_to ?p (call_when_counted hv hx s)" if "hs_page_index s < o_max_pages (hx_request hx)"
    by (auto simp: call_when_counted_def call_when_owned_def Let_def that
        intro!: goes_to_bind goes_to_then goes_to_if list)
  have "goes_to ?p (call_when_granted hv hx s wait)" if "hs_page_index s < o_max_pages (hx_request hx)" for wait
    unfolding call_when_granted_def
    by (intro goes_to_bind goes_to_then goes_to_if goes_to_out goes_to_budget counted that)
  moreover have "goes_to ?p (refused_page hv hx s reason)" for reason
    unfolding refused_page_def Let_def by (intro goes_to_then goes_to_end)
  ultimately show ?thesis
    unfolding harvest_step_def
    by (intro goes_to_bind goes_to_if goes_to_end goes_to_out goes_to_budget)
qed

text \<open>while not finished_paging: the state at the end of the loop, or the result of a return in it.\<close>

function harvest_loop :: "harvester \<Rightarrow> harvest_run \<Rightarrow> harvest_state \<Rightarrow> turn act" where
  "harvest_loop hv hx s w =
     (if hs_finished s then returnM (Inl s) w
      else bindM (harvest_step hv hx s) (\<lambda>turn w1.
         (case turn of Inl s' \<Rightarrow> harvest_loop hv hx s' | Inr r \<Rightarrow> returnM (Inr r)) w1) w)"
  by pat_completeness auto

termination
proof (relation "measure (\<lambda>(hv, hx, s, _). nat (o_max_pages (hx_request hx) - hs_page_index s))", goal_cases)
  case (2 hv hx s w x w1 s')
  then have "hs_page_index s < o_max_pages (hx_request hx) \<and> hs_page_index s' = hs_page_index s + 1"
    using goes_to_step [of s hx hv] unfolding goes_to_def by blast
  then show ?case by simp
qed simp

declare harvest_loop.simps [simp del]

subsection \<open>A whole harvest\<close>

definition complete_harvest :: "harvester \<Rightarrow> harvest_run \<Rightarrow> harvest_state \<Rightarrow> oai_harvest_result act" where
  "complete_harvest hv hx s =
     (let commits = should_commit_oai_watermark (hx_request hx);
          first = (if commits then hs_response_watermark s else hs_max_datestamp s);
          watermark = (if truthy first then first
                       else if truthy (hs_max_datestamp s) then hs_max_datestamp s else hx_from hx)
      in thenM (if commits
           then bindM utc_now (\<lambda>t. tx_do (set_oai_watermark (hv_sqldate hv) (o_metadata_prefix (hx_request hx))
                  (o_set_spec (hx_request hx)) (hs_response_watermark s) (hs_max_datestamp s) (hx_id hx) t))
           else returnM ())
         (finish_harvest hx s ''completed'' (hs_page_index s) watermark None None None))"

text \<open>The watermark to start from: the first readable one, less the overlap.\<close>

definition oai_start_datestamp :: "harvester \<Rightarrow> oai_request \<Rightarrow> string option act" where
  "oai_start_datestamp hv r =
     (if truthy (o_from r) then dateM (normalize_oai_day_datestamp True (o_from r))
      else if o_mode r \<noteq> INCREMENTAL then returnM None
      else bindM (readM (get_oai_watermark (o_metadata_prefix r) (o_set_spec r))) (\<lambda>wm.
        case wm of None \<Rightarrow> returnM None
        | Some v \<Rightarrow>
          (let from_mark = (\<lambda>day. if oai_overlap_seconds (hv_settings hv) \<le> 0 then returnM (Some day)
                  else bindM (dateM (subtract_oai_overlap day (oai_overlap_seconds (hv_settings hv)))) (\<lambda>x. returnM (Some x)))
           in bindM (dateM (normalize_oai_day_datestamp False (wm_last_response_date v))) (\<lambda>a.
              case a of Some day \<Rightarrow> from_mark day
              | None \<Rightarrow> bindM (dateM (normalize_oai_day_datestamp False (wm_last_datestamp_seen v))) (\<lambda>b.
                  case b of Some day \<Rightarrow> from_mark day | None \<Rightarrow> returnM None)))))"

text \<open>The state a new job starts from, and the one a running job resumes from.\<close>

definition fresh_state :: "string option \<Rightarrow> string set \<Rightarrow> harvest_state" where
  "fresh_state token consumed =
     \<lparr>hs_page_index = 0, hs_requests_total = 0, hs_processed = 0, hs_upserted = 0, hs_deleted = 0,
      hs_response_watermark = None, hs_max_datestamp = None, hs_token = token, hs_consumed = consumed,
      hs_finished = False\<rparr>"

definition resume_state :: "oai_job_row \<Rightarrow> string set \<Rightarrow> harvest_state" where
  "resume_state j consumed =
     \<lparr>hs_page_index = h_pages_total j, hs_requests_total = h_requests_total j, hs_processed = h_records_processed j,
      hs_upserted = h_papers_upserted j, hs_deleted = h_deleted_records j,
      hs_response_watermark = h_last_response_date j, hs_max_datestamp = h_last_datestamp_seen j,
      hs_token = h_token j, hs_consumed = consumed, hs_finished = h_finished_paging j\<rparr>"

text \<open>From the cursor on: the start datestamp, the token hashes already used, a pending error, the loop.\<close>

definition run_harvest ::
  "harvester \<Rightarrow> harvest_run \<Rightarrow> (string set \<Rightarrow> harvest_state) \<Rightarrow> (string \<times> string option) option \<Rightarrow> oai_harvest_result act" where
  "run_harvest hv hx state_of carried =
     (let r = hx_request hx; token = hs_token (state_of {})
      in bindM (if token \<noteq> None then returnM None else oai_start_datestamp hv r) (\<lambda>from_d.
         bindM (dateM (normalize_oai_day_datestamp True (o_until r))) (\<lambda>until_d.
         bindM (readM (get_oai_consumed_token_hashes (hx_id hx))) (\<lambda>consumed.
         (let hx = hx\<lparr>hx_from := from_d, hx_until := until_d\<rparr>; s = state_of consumed
          in case carried of
               Some (category, msg) \<Rightarrow> stop_harvest hx s ''failed'' (hs_page_index s) (Some category)
                 (Some (case msg of Some m \<Rightarrow> m | None \<Rightarrow> unscored category))
             | None \<Rightarrow> bindM (harvest_loop hv hx s) (\<lambda>turn.
                 case turn of Inl s' \<Rightarrow> complete_harvest hv hx s' | Inr res \<Rightarrow> returnM res))))))"

definition harvest_oai_owned ::
  "harvester \<Rightarrow> oai_request \<Rightarrow> string \<Rightarrow> string \<Rightarrow> int \<Rightarrow> string \<Rightarrow> oai_harvest_result act" where
  "harvest_oai_owned hv request scope owner scope_seconds new_id =
     (let run = (\<lambda>harvest_id r deadline. \<lparr>hx_id = harvest_id, hx_request = r, hx_scope = scope, hx_owner = owner,
            hx_scope_seconds = scope_seconds, hx_from = None, hx_until = None, hx_deadline = deadline\<rparr>)
      in bindM (readM (get_running_oai_harvest request)) (\<lambda>running.
         case running of
           None \<Rightarrow>
             bindM (if truthy (o_token request) then returnM (o_token request)
                    else readM (get_latest_resumable_oai_harvest_token request)) (\<lambda>token.
             bindM (bindM utc_now (\<lambda>t. tx_try (create_oai_harvest_job request token new_id t))) (\<lambda>harvest_id.
             bindM (readM (get_oai_harvest_result harvest_id)) (\<lambda>created.
             case created of None \<Rightarrow> raiseM (OtherExn ''AssertionError'')
             | Some c \<Rightarrow> (case hr_deadline_at c of None \<Rightarrow> raiseM (OtherExn ''AssertionError'')
                 | Some deadline \<Rightarrow> run_harvest hv (run harvest_id request deadline) (fresh_state token) None))))
         | Some j \<Rightarrow>
             bindM (case h_deadline_at j of Some t \<Rightarrow> returnM t
               | None \<Rightarrow> bindM utc_now (\<lambda>t. bindM utc_now (\<lambda>now. tx_try (ensure_oai_harvest_deadline (h_harvest_id j)
                   (t + timedelta_seconds (o_runtime_budget_seconds (h_request j))) now)))) (\<lambda>deadline.
             run_harvest hv (run (h_harvest_id j) (h_request j) deadline) (resume_state j)
               (map_option (\<lambda>c. (c, h_error_message j)) (h_error_category j)))))"

definition harvest_oai :: "harvester \<Rightarrow> oai_request \<Rightarrow> string \<Rightarrow> string \<Rightarrow> oai_harvest_result act" where
  "harvest_oai hv request owner_id new_id =
     (let scope = oai_scope_lease_name (hv_sha hv) request; owner = ''oai-harvest:'' @ owner_id;
          secs = max (lease_timeout_seconds (hv_settings hv))
            \<lceil>request_timeout_seconds (hv_settings hv) + request_interval_seconds (hv_settings hv) + hv_store_timeout hv + 10\<rceil>
      in bindM (tx_now (acquire_lease scope owner secs)) (\<lambda>acquired.
         if \<not> acquired then
           bindM (readM (get_running_oai_harvest request)) (\<lambda>running.
           bindM (case running of None \<Rightarrow> returnM None | Some j \<Rightarrow> readM (get_oai_harvest_result (h_harvest_id j))) (\<lambda>active.
             returnM (case active of
                Some a \<Rightarrow> in_progress ''an OAI harvest for this scope is already running'' a
              | None \<Rightarrow> oai_default_result scope request ''an OAI harvest for this scope is already starting'')))
         else finallyM (harvest_oai_owned hv request scope owner secs new_id) (tx_do (release_lease scope owner))))"

subsection \<open>What a harvest asks for\<close>

text \<open>mute m: m makes no OAI call. asking A m: m makes at most one, and A holds of its answer, of the call and of
  what m returns; without a call m does not go on to another iteration.\<close>

definition mute :: "'a act \<Rightarrow> bool" where
  "mute m \<longleftrightarrow> (\<forall>w. oai_calls (snd (m w)) = oai_calls w \<and> oai_upstream (snd (m w)) = oai_upstream w)"

lemma muteD: "mute m \<Longrightarrow> m w = (r, w') \<Longrightarrow> oai_calls w' = oai_calls w \<and> oai_upstream w' = oai_upstream w"
  unfolding mute_def by (metis snd_conv)

lemma mute_prims [simp, intro]:
  "mute (returnM x)" "mute (raiseM e)" "mute utc_now" "mute (tx f)" "mute (tx_do g)" "mute (tx_now h)" "mute (tx_try u)"
  "mute (readM v)" "mute (tx_at now h)" "mute (now_or now)" "mute (sleepM t)" "mute (storeM o1)" "mute (dateM o2)"
  by (auto simp: mute_def returnM_def raiseM_def utc_now_def tx_def tx_do_def tx_now_def tx_try_def storeM_def dateM_def
      readM_def tx_at_def now_or_def sleepM_def acquire_lock_def Let_def split: prod.split sum.split option.split)

lemma mute_bind: "mute m \<Longrightarrow> (\<And>x. mute (k x)) \<Longrightarrow> mute (bindM m k)"
  unfolding mute_def bindM_def by (auto split: prod.split sum.split) (metis snd_conv)+

lemma mute_then: "mute m \<Longrightarrow> mute k \<Longrightarrow> mute (thenM m k)"
  unfolding thenM_def by (rule mute_bind)

lemma mute_catch: "mute m \<Longrightarrow> (\<And>e. mute (h e)) \<Longrightarrow> mute (catchM m h)"
  unfolding mute_def catchM_def by (auto split: prod.split sum.split) (metis snd_conv)+

lemma mute_finally: "mute m \<Longrightarrow> mute f \<Longrightarrow> mute (finallyM m f)"
  unfolding mute_def finallyM_def by (auto split: prod.split sum.split) (metis snd_conv)+

lemmas mute_intros = mute_bind mute_then mute_catch mute_finally

lemma mute_limiter [simp, intro]:
  "mute (before_request l o1 now)" "mute (after_success l o1 st now)" "mute (after_failure l o1 s m now)"
  "mute (after_429 l o1 r st m now)"
  by (auto simp: before_request_def after_success_def after_rate_limit_def after_429_def after_failure_def
      finished_event_def Let_def intro!: mute_intros)

lemma mute_budget [simp, intro]: "mute (budget_of hx s)"
  by (auto simp: budget_of_def oai_budget_error_def intro!: mute_intros)

lemma mute_ends [simp, intro]:
  "mute (stop_harvest hx s st n c m)" "mute (ownership_lost hx)" "mute (record_failed_page hv hx s st c m)"
  "mute (drop_oai_lease hx)"
  by (auto simp: stop_harvest_def finish_harvest_def ownership_lost_def record_failed_page_def drop_oai_lease_def
      intro!: mute_intros split: option.split)

lemma mute_endM [simp, intro]: "mute m \<Longrightarrow> mute (endM m)"
  by (simp add: endM_def mute_bind)

lemma mute_stops [simp, intro]:
  "mute (out_of_time hx s m)" "mute (over_budget hx s e)" "mute (refused_page hv hx s r)" "mute (failed_call hv hx s x)"
  by (auto simp: out_of_time_def over_budget_def refused_page_def failed_call_def Let_def intro!: mute_intros split: exn.split)

lemma mute_commit [simp, intro]: "mute (commit_page hv hx s page)"
  by (auto simp: commit_page_def Let_def intro!: mute_intros split: option.split)

definition asking :: "(exn + oai_page \<Rightarrow> oai_call \<Rightarrow> exn + turn \<Rightarrow> bool) \<Rightarrow> turn act \<Rightarrow> bool" where
  "asking A m \<longleftrightarrow> (\<forall>w r w'. m w = (r, w') \<longrightarrow> oai_upstream w' = oai_upstream w \<and>
     (oai_calls w' = oai_calls w \<and> (\<forall>s. r \<noteq> Inr (Inl s)) \<or>
      (\<exists>c d. oai_calls w' = oai_calls w @ [(c, d)] \<and> A (oai_upstream w (length (oai_calls w)) c) c r)))"

lemma asking_bind:
  assumes "mute m" "\<And>x. asking A (k x)"
  shows "asking A (bindM m k)"
  unfolding asking_def
proof (intro allI impI)
  fix w r w' assume run: "bindM m k w = (r, w')"
  obtain u w1 where m: "m w = (u, w1)" by fastforce
  note mu = muteD [OF assms(1) m]
  show "oai_upstream w' = oai_upstream w \<and>
     (oai_calls w' = oai_calls w \<and> (\<forall>s. r \<noteq> Inr (Inl s)) \<or>
      (\<exists>c d. oai_calls w' = oai_calls w @ [(c, d)] \<and> A (oai_upstream w (length (oai_calls w)) c) c r))"
  proof (cases u)
    case (Inl e)
    then show ?thesis using run m mu by (auto simp: bindM_def)
  next
    case (Inr x)
    then have "k x w1 = (r, w')" using run m by (simp add: bindM_def)
    with assms(2) [of x] mu show ?thesis unfolding asking_def by metis
  qed
qed

lemma asking_then: "mute m \<Longrightarrow> asking A k \<Longrightarrow> asking A (thenM m k)"
  unfolding thenM_def by (rule asking_bind)

lemma asking_stop: "mute m \<Longrightarrow> goes_to (\<lambda>_. False) m \<Longrightarrow> asking A m"
  unfolding asking_def goes_to_def by (metis muteD)

lemma asking_end: "mute m \<Longrightarrow> asking A (endM m)"
  by (rule asking_stop) auto

lemma asking_if: "(b \<Longrightarrow> asking A m) \<Longrightarrow> (\<not> b \<Longrightarrow> asking A m') \<Longrightarrow> asking A (if b then m else m')"
  by simp

lemma asking_budget:
  assumes "hs_page_index s < o_max_pages (hx_request hx) \<Longrightarrow> asking A m" "\<And>e. asking A (k e)"
  shows "asking A (bindM (budget_of hx s) (\<lambda>e. case e of Some err \<Rightarrow> k err | None \<Rightarrow> m))"
proof (cases "hs_page_index s < o_max_pages (hx_request hx)")
  case True
  with assms show ?thesis by (intro asking_bind mute_budget) (simp split: option.split)
next
  case False
  with assms(2) show ?thesis by (simp add: budget_of_def oai_budget_error_def)
qed

text \<open>The call of an iteration in state s, and what the next state is when there is one.\<close>

definition proper_call :: "harvester \<Rightarrow> harvest_run \<Rightarrow> harvest_state \<Rightarrow> oai_call \<Rightarrow> bool" where
  "proper_call hv hx s c \<longleftrightarrow> oc_metadata_prefix c = o_metadata_prefix (hx_request hx) \<and>
     oc_set_spec c = o_set_spec (hx_request hx) \<and> oc_from c = hx_from hx \<and> oc_until c = hx_until hx \<and>
     oc_token c = hs_token s \<and> oc_timeout c \<le> request_timeout_seconds (hv_settings hv) \<and>
     (0 < request_timeout_seconds (hv_settings hv) \<longrightarrow> 0 < oc_timeout c)"

definition moves_on :: "harvester \<Rightarrow> harvest_state \<Rightarrow> oai_page \<Rightarrow> harvest_state \<Rightarrow> bool" where
  "moves_on hv s page s' \<longleftrightarrow> hs_page_index s' = hs_page_index s + 1 \<and> hs_token s' = og_token page \<and>
     hs_finished s' = (og_token page = None) \<and>
     hs_consumed s' = hs_consumed s \<union> set_option (hash_token (hv_sha hv) (hs_token s)) \<and>
     oai_token_error (int (length (og_records page))) (hash_token (hv_sha hv) (hs_token s))
       (hash_token (hv_sha hv) (og_token page)) (hs_consumed s) = None"

definition step_call :: "harvester \<Rightarrow> harvest_run \<Rightarrow> harvest_state \<Rightarrow> exn + oai_page \<Rightarrow> oai_call \<Rightarrow> exn + turn \<Rightarrow> bool" where
  "step_call hv hx s answer c r \<longleftrightarrow> proper_call hv hx s c \<and>
     (\<forall>s'. r = Inr (Inl s') \<longrightarrow> (\<exists>page. answer = Inr page \<and> moves_on hv s page s'))"

lemma commit_moves_on: "goes_to (moves_on hv s page) (commit_page hv hx s page)"
proof -
  have "moves_on hv s page (next_state s (page_checkpoint hv hx s page x) (a, b, c))"
    if "cp_error_category (page_checkpoint hv hx s page x) = None" for x a b c
    using that by (auto simp: moves_on_def next_state_def page_checkpoint_def Let_def split: option.split)
  then show ?thesis
    by (auto simp: commit_page_def Let_def intro!: goes_to_bind goes_to_then split: option.split prod.split)
qed

lemma asking_list:
  assumes "t \<le> request_timeout_seconds (hv_settings hv)" "0 < request_timeout_seconds (hv_settings hv) \<longrightarrow> 0 < t" "hs_token s0 = hs_token s"
    "\<And>page s'. moves_on hv s0 page s' \<Longrightarrow> moves_on hv s page s'"
  shows "asking (step_call hv hx s) (list_page hv hx s0 t)"
  unfolding asking_def
proof (intro allI impI)
  fix w w' :: world and r
  let ?c = "\<lparr>oc_metadata_prefix = o_metadata_prefix (hx_request hx), oc_set_spec = o_set_spec (hx_request hx),
    oc_from = hx_from hx, oc_until = hx_until hx, oc_token = hs_token s0, oc_timeout = t\<rparr>"
  let ?w1 = "w\<lparr>oai_calls := oai_calls w @ [(?c, store w)]\<rparr>"
  let ?a = "oai_upstream w (length (oai_calls w)) ?c"
  assume run: "list_page hv hx s0 t w = (r, w')"
  have proper: "proper_call hv hx s ?c" using assms by (simp add: proper_call_def)
  have "oai_calls w' = oai_calls ?w1 \<and> oai_upstream w' = oai_upstream ?w1 \<and> step_call hv hx s ?a ?c r"
  proof (cases ?a)
    case (Inl e)
    then have f: "failed_call hv hx s0 e ?w1 = (r, w')"
      using run by (simp add: list_page_def try_elseM_def oaiM_def)
    have "\<forall>s'. r \<noteq> Inr (Inl s')" using goes_to_failed [of "\<lambda>_. False"] f unfolding goes_to_def by blast
    moreover note muteD [OF mute_stops(4) [where x = e] f]
    ultimately show ?thesis using proper by (auto simp: step_call_def)
  next
    case (Inr page)
    then have f: "commit_page hv hx s0 page ?w1 = (r, w')"
      using run by (simp add: list_page_def try_elseM_def oaiM_def)
    have "\<forall>s'. r = Inr (Inl s') \<longrightarrow> moves_on hv s page s'"
      using commit_moves_on [of hv s0 page hx] f assms(4) unfolding goes_to_def by blast
    moreover note muteD [OF mute_commit f]
    ultimately show ?thesis using proper Inr by (auto simp: step_call_def)
  qed
  then show "oai_upstream w' = oai_upstream w \<and>
     (oai_calls w' = oai_calls w \<and> (\<forall>s. r \<noteq> Inr (Inl s)) \<or>
      (\<exists>c d. oai_calls w' = oai_calls w @ [(c, d)] \<and> step_call hv hx s (oai_upstream w (length (oai_calls w)) c) c r))"
    by auto
qed

lemma asking_step:
  "asking (\<lambda>a c r. hs_page_index s < o_max_pages (hx_request hx) \<and> step_call hv hx s a c r) (harvest_step hv hx s)"
    (is "asking ?A _")
proof -
  have owned: "asking ?A (call_when_owned hv hx (s\<lparr>hs_requests_total := n\<rparr>) (min (request_timeout_seconds (hv_settings hv)) b))"
    if "hs_page_index s < o_max_pages (hx_request hx)" "\<not> b \<le> 0" for n b
  proof -
    have list: "asking ?A (list_page hv hx (s\<lparr>hs_requests_total := n\<rparr>) (min (min (request_timeout_seconds (hv_settings hv)) b) c))"
      if "\<not> c \<le> 0" for c
      using asking_list [of "min (min (request_timeout_seconds (hv_settings hv)) b) c" hv "s\<lparr>hs_requests_total := n\<rparr>" s hx]
        that \<open>hs_page_index s < o_max_pages (hx_request hx)\<close> \<open>\<not> b \<le> 0\<close>
      by (auto simp: moves_on_def)
    show ?thesis
      unfolding call_when_owned_def Let_def
      by (intro asking_bind asking_then asking_if asking_end asking_stop [OF mute_stops(1) goes_to_out(1)] list) auto
  qed
  have "asking ?A (call_when_granted hv hx s wait)" if "hs_page_index s < o_max_pages (hx_request hx)" for wait
    unfolding call_when_granted_def call_when_counted_def Let_def
    by (intro asking_bind asking_then asking_if asking_budget asking_stop [OF mute_stops(1) goes_to_out(1)]
        asking_stop [OF mute_stops(2) goes_to_out(2)] owned that) (auto simp: mute_prims)
  moreover have "asking ?A (refused_page hv hx s reason)" for reason
    unfolding refused_page_def Let_def by (intro asking_then asking_end mute_ends)
  ultimately show ?thesis
    unfolding harvest_step_def
    by (intro asking_bind asking_if asking_budget asking_end asking_stop [OF mute_stops(2) goes_to_out(2)] mute_prims
        mute_limiter mute_ends) auto
qed

text \<open>
  page_walk up n token cs: the calls cs, the first of them the n-th of the world, follow the resumption
  tokens: the first asks for token, each further one for the token the call before it was answered with.
\<close>

fun page_walk :: "(nat \<Rightarrow> oai_call \<Rightarrow> exn + oai_page) \<Rightarrow> nat \<Rightarrow> string option \<Rightarrow> oai_call list \<Rightarrow> bool" where
  "page_walk up n token [] \<longleftrightarrow> True"
| "page_walk up n token (c # cs) \<longleftrightarrow> oc_token c = token \<and>
     (cs = [] \<or> (\<exists>page. up n c = Inr page \<and> og_token page \<noteq> None \<and> page_walk up (Suc n) (og_token page) cs))"

definition token_hashes :: "harvester \<Rightarrow> oai_call list \<Rightarrow> string option list" where
  "token_hashes hv cs = map (\<lambda>c. hash_token (hv_sha hv) (oc_token c)) cs"

text \<open>The last of the calls cs, the first of which is the n-th of the world, was answered without a token.\<close>

definition list_ended :: "(nat \<Rightarrow> oai_call \<Rightarrow> exn + oai_page) \<Rightarrow> nat \<Rightarrow> oai_call list \<Rightarrow> bool" where
  "list_ended up n cs \<longleftrightarrow> cs \<noteq> [] \<and> (\<exists>page. up (n + length cs - 1) (last cs) = Inr page \<and> og_token page = None)"

definition walks :: "harvester \<Rightarrow> harvest_run \<Rightarrow> harvest_state \<Rightarrow> (nat \<Rightarrow> oai_call \<Rightarrow> exn + oai_page) \<Rightarrow> nat
    \<Rightarrow> oai_call list \<Rightarrow> exn + turn \<Rightarrow> bool" where
  "walks hv hx s up n cs r \<longleftrightarrow> int (length cs) \<le> max 0 (o_max_pages (hx_request hx) - hs_page_index s) \<and>
     (\<forall>c\<in>set cs. proper_call hv hx (s\<lparr>hs_token := oc_token c\<rparr>) c) \<and> page_walk up n (hs_token s) cs \<and>
     distinct (token_hashes hv cs) \<and> (\<forall>h\<in>set (tl (token_hashes hv cs)). h \<noteq> None \<and> the h \<notin> hs_consumed s) \<and>
     (\<forall>s'. r = Inr (Inl s') \<longrightarrow> hs_finished s' \<and> (cs = [] \<and> s' = s \<or> list_ended up n cs))"

lemma walks_Cons:
  assumes "proper_call hv hx s c" "hs_page_index s < o_max_pages (hx_request hx)" "up n c = Inr page"
    and "moves_on hv s page s'" "walks hv hx s' up (Suc n) cs r" "hs_finished s' \<Longrightarrow> cs = []"
  shows "walks hv hx s up n (c # cs) r"
proof -
  let ?H = "hash_token (hv_sha hv)"
  have tok: "oc_token c = hs_token s" using assms(1) by (simp add: proper_call_def)
  have m: "hs_page_index s' = hs_page_index s + 1" "hs_token s' = og_token page" "hs_finished s' = (og_token page = None)"
    "hs_consumed s' = hs_consumed s \<union> set_option (?H (hs_token s))"
    "oai_token_error (int (length (og_records page))) (?H (hs_token s)) (?H (og_token page)) (hs_consumed s) = None"
    using assms(4) by (auto simp: moves_on_def)
  have w: "int (length cs) \<le> max 0 (o_max_pages (hx_request hx) - hs_page_index s')"
    "\<forall>c\<in>set cs. proper_call hv hx (s'\<lparr>hs_token := oc_token c\<rparr>) c" "page_walk up (Suc n) (hs_token s') cs"
    "distinct (token_hashes hv cs)" "\<forall>h\<in>set (tl (token_hashes hv cs)). h \<noteq> None \<and> the h \<notin> hs_consumed s'"
    "\<forall>z. r = Inr (Inl z) \<longrightarrow> hs_finished z \<and> (cs = [] \<and> z = s' \<or> list_ended up (Suc n) cs)"
    using assms(5) unfolding walks_def by blast+
  have new: "\<forall>h\<in>set (token_hashes hv cs). h \<noteq> None \<and> the h \<notin> hs_consumed s \<and> h \<noteq> ?H (hs_token s)"
  proof
    fix h assume h: "h \<in> set (token_hashes hv cs)"
    then obtain c1 cs1 where cs: "cs = c1 # cs1" by (cases cs) (auto simp: token_hashes_def)
    then have "og_token page \<noteq> None" using assms(6) m by blast
    moreover have "oc_token c1 = og_token page" using w(3) cs m(2) by simp
    ultimately have first: "?H (oc_token c1) \<noteq> None \<and> the (?H (oc_token c1)) \<notin> hs_consumed s \<and> ?H (oc_token c1) \<noteq> ?H (hs_token s)"
      using m(5) by (auto simp: oai_token_error_def hash_token_def split: if_splits)
    from h cs have "h = ?H (oc_token c1) \<or> h \<in> set (tl (token_hashes hv cs))" by (auto simp: token_hashes_def)
    then show "h \<noteq> None \<and> the h \<notin> hs_consumed s \<and> h \<noteq> ?H (hs_token s)"
      using first w(5) m(4) by (elim disjE) auto
  qed
  have "int (length (c # cs)) \<le> max 0 (o_max_pages (hx_request hx) - hs_page_index s)" using w(1) m(1) assms(2) by simp
  moreover have "\<forall>x\<in>set (c # cs). proper_call hv hx (s\<lparr>hs_token := oc_token x\<rparr>) x"
    using w(2) assms(1) tok by (auto simp: proper_call_def)
  moreover have "page_walk up n (hs_token s) (c # cs)"
    using w(3) m(2,3) assms(3,6) tok by auto
  moreover have "distinct (token_hashes hv (c # cs))" using w(4) new tok by (auto simp: token_hashes_def)
  moreover have "\<forall>h\<in>set (tl (token_hashes hv (c # cs))). h \<noteq> None \<and> the h \<notin> hs_consumed s"
    using new by (simp add: token_hashes_def)
  moreover have "\<forall>z. r = Inr (Inl z) \<longrightarrow> hs_finished z \<and> (c # cs = [] \<and> z = s \<or> list_ended up n (c # cs))"
  proof (intro allI impI)
    fix z assume "r = Inr (Inl z)"
    with w(6) have z: "hs_finished z" "cs = [] \<and> z = s' \<or> list_ended up (Suc n) cs" by blast+
    then have "list_ended up n (c # cs)"
      using assms(3) m(3) by (elim disjE) (auto simp: list_ended_def)
    with z show "hs_finished z \<and> (c # cs = [] \<and> z = s \<or> list_ended up n (c # cs))" by blast
  qed
  ultimately show ?thesis unfolding walks_def by blast
qed

lemma walks_Nil: "(\<And>s'. r = Inr (Inl s') \<Longrightarrow> hs_finished s' \<and> s' = s) \<Longrightarrow> walks hv hx s up n [] r"
  by (auto simp: walks_def token_hashes_def)

lemma walks_one:
  assumes "proper_call hv hx s c" "hs_page_index s < o_max_pages (hx_request hx)" "\<And>s'. r \<noteq> Inr (Inl s')"
  shows "walks hv hx s up n [c] r"
  using assms by (auto simp: walks_def token_hashes_def proper_call_def)

lemma loop_walks:
  "harvest_loop hv hx s w = (r, w') \<Longrightarrow> oai_upstream w' = oai_upstream w \<and>
    (\<exists>cs. oai_calls w' = oai_calls w @ cs \<and> walks hv hx s (oai_upstream w) (length (oai_calls w)) (map fst cs) r \<and>
      (hs_finished s \<longrightarrow> cs = []))"
proof (induction hv hx s w arbitrary: r w' rule: harvest_loop.induct)
  case (1 hv hx s w)
  show ?case
  proof (cases "hs_finished s")
    case True
    then show ?thesis using "1.prems" by (auto simp: harvest_loop.simps intro: walks_Nil)
  next
    case False
    obtain t w1 where st: "harvest_step hv hx s w = (t, w1)" by fastforce
    from asking_step [of s hx hv] st have up: "oai_upstream w1 = oai_upstream w"
      and calls: "oai_calls w1 = oai_calls w \<and> (\<forall>z. t \<noteq> Inr (Inl z)) \<or>
        (\<exists>c d. oai_calls w1 = oai_calls w @ [(c, d)] \<and> hs_page_index s < o_max_pages (hx_request hx) \<and>
          step_call hv hx s (oai_upstream w (length (oai_calls w))  c) c t)"
      unfolding asking_def by blast+
    show ?thesis
    proof (cases "\<exists>s1. t = Inr (Inl s1)")
      case True
      then obtain s1 where t: "t = Inr (Inl s1)" by blast
      with calls obtain c d page where c: "oai_calls w1 = oai_calls w @ [(c, d)]"
        "hs_page_index s < o_max_pages (hx_request hx)" "proper_call hv hx s c"
        "oai_upstream w (length (oai_calls w)) c = Inr page" "moves_on hv s page s1"
        by (auto simp: step_call_def)
      have "harvest_loop hv hx s1 w1 = (r, w')"
        using "1.prems" False st t by (simp add: harvest_loop.simps [of hv hx s] bindM_def)
      from "1.IH" [OF False _ _ this] st t obtain cs where cs: "oai_upstream w' = oai_upstream w1"
        "oai_calls w' = oai_calls w1 @ cs"
        "walks hv hx s1 (oai_upstream w1) (length (oai_calls w1)) (map fst cs) r" "hs_finished s1 \<longrightarrow> cs = []"
        by blast
      have "walks hv hx s (oai_upstream w) (length (oai_calls w)) (c # map fst cs) r"
        using cs c up by (intro walks_Cons [where page = page and s' = s1]) auto
      then show ?thesis using cs(1,2) c(1) up False by (auto intro!: exI [of _ "(c, d) # cs"])
    next
      case stop: False
      then have r: "w' = w1" "\<And>z. r \<noteq> Inr (Inl z)"
        using "1.prems" False st
        by (auto simp: harvest_loop.simps [of hv hx s] bindM_def returnM_def split: prod.splits sum.splits)
      from calls stop show ?thesis
      proof (elim disjE exE conjE)
        assume "oai_calls w1 = oai_calls w"
        then show ?thesis using r up by (auto intro: walks_Nil)
      next
        fix c d assume "oai_calls w1 = oai_calls w @ [(c, d)]" "hs_page_index s < o_max_pages (hx_request hx)"
          "step_call hv hx s (oai_upstream w (length (oai_calls w)) c) c t"
        then show ?thesis using r up False by (auto simp: step_call_def intro!: walks_one)
      qed
    qed
  qed
qed

text \<open>C29. The loop of a harvest returns whatever the API answers and whatever other
  processes do, after at most max_pages - page_index calls. The calls follow the resumption tokens: the
  first asks for the token of the cursor, each further one for the token of the answer before it; no
  token hash is asked for twice and none after the first is among those the job has consumed before.
  Each call is for the run's prefix, set and dates with a timeout within the setting. The loop ends with
  a finished state only if it was finished at the start or the last call was answered without a token.\<close>

theorem harvest_asks_each_page_once:
  assumes "harvest_loop hv hx s w = (r, w')"
  shows "\<exists>cs. oai_calls w' = oai_calls w @ cs \<and>
    int (length cs) \<le> max 0 (o_max_pages (hx_request hx) - hs_page_index s) \<and>
    page_walk (oai_upstream w) (length (oai_calls w)) (hs_token s) (map fst cs) \<and>
    distinct (token_hashes hv (map fst cs)) \<and>
    (\<forall>h\<in>set (tl (token_hashes hv (map fst cs))). h \<noteq> None \<and> the h \<notin> hs_consumed s) \<and>
    (\<forall>(c, d)\<in>set cs. proper_call hv hx (s\<lparr>hs_token := oc_token c\<rparr>) c) \<and>
    (\<forall>s'. r = Inr (Inl s') \<longrightarrow> hs_finished s' \<and>
       (cs = [] \<and> s' = s \<or> list_ended (oai_upstream w) (length (oai_calls w)) (map fst cs)))"
  using loop_walks [OF assms] unfolding walks_def by fastforce

subsection \<open>A harvest on a concrete store\<close>

text \<open>A job with the token t0 whose call fails with an exception the harvester does not know.\<close>

definition sample_harvester :: harvester where
  "sample_harvester = \<lparr>hv_settings = default_settings, hv_store_timeout = 30, hv_jitter = (\<lambda>_. 0), hv_sha = (\<lambda>x. x),
     hv_sqldate = Some\<rparr>"

definition sample_run :: harvest_run where
  "sample_run = \<lparr>hx_id = ''h'', hx_request = sample_harvest, hx_scope = ''oai_harvest:cs'', hx_owner = ''oai-harvest:1'',
     hx_scope_seconds = 75, hx_from = None, hx_until = None, hx_deadline = 5 + 60000000\<rparr>"

definition harvest_world :: world where
  "harvest_world = alone (harvest_store\<lparr>leases := [\<lparr>l_name = ''oai_harvest:cs'', l_owner_token = ''oai-harvest:1'',
     l_acquired_at = 0, l_expires_at = 75000000\<rparr>]\<rparr>) (\<lambda>_ _. Inl (OtherExn ''offline''))"

definition sample_cursor :: harvest_state where
  "sample_cursor = fresh_state (Some ''t0'') {}"

lemma harvest_world_calls:
  "map (\<lambda>(c, _). oc_token c) (oai_calls (snd (harvest_loop sample_harvester sample_run sample_cursor harvest_world))) = [Some ''t0'']"
  by code_simp

theorem harvest_asks_each_page_once_witness:
  "\<exists>c d. oai_calls (snd (harvest_loop sample_harvester sample_run sample_cursor harvest_world)) = [(c, d)] \<and>
     oc_token c = Some ''t0'' \<and> proper_call sample_harvester sample_run (sample_cursor\<lparr>hs_token := oc_token c\<rparr>) c"
proof -
  let ?w = "snd (harvest_loop sample_harvester sample_run sample_cursor harvest_world)"
  obtain cs where "oai_calls ?w = oai_calls harvest_world @ cs"
    "\<forall>(c, d)\<in>set cs. proper_call sample_harvester sample_run (sample_cursor\<lparr>hs_token := oc_token c\<rparr>) c"
    using harvest_asks_each_page_once [OF prod.collapse [symmetric], of sample_harvester sample_run sample_cursor harvest_world]
    by blast
  moreover have "oai_calls harvest_world = []" by (simp add: harvest_world_def alone_def)
  moreover note harvest_world_calls
  ultimately show ?thesis by auto
qed

end
