(* ===== verification/Huldra_Resume.thy ===== *)
theory Huldra_Resume
  imports Huldra_Harvest
begin

text \<open>
  The harvester is the durable cursor it resumes from: as long as nobody else writes the row and the
  pages of its job, the state of the loop of broker.py is at the head of every iteration the state
  that resume_state reads from the job row and the page rows, so a process that takes over a running
  job continues exactly where the last one stopped.
\<close>

subsection \<open>The cursor of a job\<close>

definition own_pages :: "string \<Rightarrow> db \<Rightarrow> oai_page_row list" where
  "own_pages harvest_id d = filter (\<lambda>p. op_harvest_id p = harvest_id) (oai_pages d)"

definition page_hashes :: "oai_page_row list \<Rightarrow> string set" where
  "page_hashes ps = set (List.map_filter op_token_hash ps)"

lemma consumed_own: "get_oai_consumed_token_hashes h d = page_hashes (own_pages h d)"
  by (simp add: get_oai_consumed_token_hashes_def own_pages_def page_hashes_def)

definition cursor_at :: "harvest_run \<Rightarrow> oai_job_row \<Rightarrow> oai_page_row list \<Rightarrow> db \<Rightarrow> bool" where
  "cursor_at hx j ps d \<longleftrightarrow> get_oai_job (hx_id hx) d = Some j \<and> own_pages (hx_id hx) d = ps"

text \<open>The other processes leave the row and the pages of the job alone; any clock.\<close>

definition cursor_rely :: "harvest_run \<Rightarrow> rely" where
  "cursor_rely hx = \<lparr>steps = (\<lambda>d d'. get_oai_job (hx_id hx) d' = get_oai_job (hx_id hx) d \<and>
     own_pages (hx_id hx) d' = own_pages (hx_id hx) d), times = (\<lambda>_. True)\<rparr>"

text \<open>The job is running, s is what would be resumed from it, and no page beyond the cursor is recorded.\<close>

definition durable :: "harvest_run \<Rightarrow> harvest_state \<Rightarrow> db \<Rightarrow> bool" where
  "durable hx s d \<longleftrightarrow> (\<exists>j. get_oai_job (hx_id hx) d = Some j \<and> h_status j = ''running'' \<and>
       resume_state j (get_oai_consumed_token_hashes (hx_id hx) d) = s) \<and>
     (\<forall>p\<in>set (own_pages (hx_id hx) d). op_page_index p < hs_page_index s)"

definition row_matches :: "harvest_state \<Rightarrow> oai_job_row \<Rightarrow> oai_page_row list \<Rightarrow> bool" where
  "row_matches s j ps \<longleftrightarrow> h_status j = ''running'' \<and> resume_state j (page_hashes ps) = s \<and>
     (\<forall>p\<in>set ps. op_page_index p < hs_page_index s)"

lemma durable_iff: "durable hx s d \<longleftrightarrow> (\<exists>j ps. cursor_at hx j ps d \<and> row_matches s j ps)"
  by (auto simp: durable_def cursor_at_def row_matches_def consumed_own)

lemma cursor_at_same: "oai_jobs d' = oai_jobs d \<Longrightarrow> oai_pages d' = oai_pages d \<Longrightarrow> cursor_at hx j ps d' = cursor_at hx j ps d"
  by (simp add: cursor_at_def own_pages_def get_oai_job_def)

lemma stable_cursor: "stable (cursor_rely hx) (cursor_at hx j ps)"
  by (simp add: stable_def cursor_rely_def cursor_at_def)

subsection \<open>More rules for actions\<close>

lemma triple_goes:
  assumes "triple R G P m Q E" "goes_to p m"
  shows "triple R G P m (\<lambda>v d. Q v d \<and> (\<forall>s. v = Inl s \<longrightarrow> p s)) E"
proof (rule tripleI)
  fix w r w' assume w: "runs_under R w" "P (store w)" "m w = (r, w')"
  from triple_at [OF assms(1) w] assms(2) w(3)
  show "env w' = env w \<and> (\<exists>rs. fetches w' = fetches w @ rs \<and> list_all G rs) \<and>
      (case r of Inl e \<Rightarrow> E e (store w') | Inr x \<Rightarrow> Q x (store w') \<and> (\<forall>s. x = Inl s \<longrightarrow> p s))"
    by (auto simp: goes_to_def split: sum.splits)
qed

subsection \<open>Actions that leave the cursor alone\<close>

abbreviation keeps :: "harvest_run \<Rightarrow> oai_job_row \<Rightarrow> oai_page_row list \<Rightarrow> 'a act \<Rightarrow> bool" where
  "keeps hx j ps m \<equiv> triple (cursor_rely hx) (\<lambda>_. True) (cursor_at hx j ps) m (\<lambda>_. cursor_at hx j ps) (\<lambda>_. cursor_at hx j ps)"

lemma keeps_tx:
  "(\<And>d. oai_jobs (g d) = oai_jobs d \<and> oai_pages (g d) = oai_pages d) \<Longrightarrow> keeps hx j ps (tx_do g)"
  "(\<And>t d. oai_jobs (snd (h t d)) = oai_jobs d \<and> oai_pages (snd (h t d)) = oai_pages d) \<Longrightarrow> keeps hx j ps (tx_now h)"
  by (rule triple_tx_do [OF stable_cursor], metis cursor_at_same)
    (rule triple_tx_now [OF stable_cursor], metis cursor_at_same)

lemma oai_frames [simp]:
  "oai_jobs (release_lease n w d) = oai_jobs d" "oai_pages (release_lease n w d) = oai_pages d"
  "oai_jobs (set_rate_state r d) = oai_jobs d" "oai_pages (set_rate_state r d) = oai_pages d"
  "oai_jobs (snd (acquire_lease n w l t d)) = oai_jobs d" "oai_pages (snd (acquire_lease n w l t d)) = oai_pages d"
  by (simp_all add: release_lease_def set_rate_state_def acquire_lease_def Let_def)

lemma oai_frames_renew [simp]:
  "oai_jobs (snd (renew_leases_if_owned rs t d)) = oai_jobs d \<and> oai_pages (snd (renew_leases_if_owned rs t d)) = oai_pages d"
proof -
  have "oai_jobs (fold (extend_lease t) rs d) = oai_jobs d \<and> oai_pages (fold (extend_lease t) rs d) = oai_pages d"
    by (induction rs arbitrary: d) (auto simp: extend_lease_def split: prod.splits)
  then show ?thesis by (simp add: renew_leases_if_owned_def)
qed

lemma oai_frames_renew1 [simp]:
  "oai_jobs (snd (renew_lease_if_owned n w l t d)) = oai_jobs d \<and> oai_pages (snd (renew_lease_if_owned n w l t d)) = oai_pages d"
proof -
  obtain r d' where e: "renew_leases_if_owned [(n, w, l)] t d = (r, d')" by fastforce
  from oai_frames_renew [of "[(n, w, l)]" t d] show ?thesis
    by (cases r) (simp_all add: renew_lease_if_owned_def e)
qed

lemma keeps_bind: "keeps hx j ps m \<Longrightarrow> (\<And>x. keeps hx j ps (k x)) \<Longrightarrow> keeps hx j ps (bindM m k)"
  by (rule triple_bind)

lemma keeps_then: "keeps hx j ps m \<Longrightarrow> keeps hx j ps k \<Longrightarrow> keeps hx j ps (thenM m k)"
  by (rule triple_then)

lemma keeps_catch: "keeps hx j ps m \<Longrightarrow> (\<And>e. keeps hx j ps (h e)) \<Longrightarrow> keeps hx j ps (catchM m h)"
  by (rule triple_catch)

lemma keeps_finally: "keeps hx j ps m \<Longrightarrow> keeps hx j ps f \<Longrightarrow> keeps hx j ps (finallyM m f)"
  by (rule triple_finally)

lemma keeps_prims [simp, intro]:
  "keeps hx j ps (returnM x)" "keeps hx j ps (raiseM e)" "keeps hx j ps utc_now" "keeps hx j ps (sleepM t)"
  "keeps hx j ps (readM f)" "keeps hx j ps (tx_do (release_lease n w))" "keeps hx j ps (tx_do (set_rate_state r))"
  "keeps hx j ps (tx_do (record_event ty pl))" "keeps hx j ps (tx_now (acquire_lease n w l))"
  "keeps hx j ps (tx_now (renew_lease_if_owned n w l))" "keeps hx j ps (tx_now (renew_leases_if_owned rs))"
  "keeps hx j ps (storeM o1)" "keeps hx j ps (dateM o2)" "keeps hx j ps (oaiM c)" "keeps hx j ps (drop_oai_lease hx)"
  by (auto simp: storeM_def dateM_def drop_oai_lease_def
      intro!: triple_return triple_raise triple_now triple_sleep triple_read triple_oai stable_cursor keeps_tx split: sum.split)

lemmas keeps_intros = keeps_bind keeps_then keeps_catch keeps_finally

lemma keeps_limiter [simp, intro]:
  "keeps hx j ps (before_request l o1 None)" "keeps hx j ps (after_success l o1 st None)"
  "keeps hx j ps (after_failure l o1 e m None)" "keeps hx j ps (after_429 l o1 r st m None)"
  by (auto simp: before_request_def after_success_def after_rate_limit_def after_429_def after_failure_def tx_at_def now_or_def
      finished_event_def Let_def intro!: keeps_intros)

lemma keeps_budget [simp, intro]: "keeps hx j ps (budget_of hx s)"
  by (auto simp: budget_of_def oai_budget_error_def intro!: keeps_intros)

subsection \<open>Actions that move the cursor\<close>

lemma own_pages_jobs [simp]: "own_pages h (d\<lparr>oai_jobs := x\<rparr>) = own_pages h d" "own_pages h (record_event t p d) = own_pages h d"
  by (simp_all add: own_pages_def)

lemma get_oai_job_event: "get_oai_job h (record_event t p d) = get_oai_job h d"
  by (simp add: get_oai_job_def)

lemma cursor_finish:
  assumes "cursor_at hx j ps d" "fi_harvest_id fi = hx_id hx"
  shows "\<exists>j'. cursor_at hx j' ps (complete_oai_harvest_job fi t d)"
  using assms by (simp add: cursor_at_def complete_oai_harvest_job_def get_oai_job_event get_oai_job_update)

text \<open>What the harvest returns is what its job row says.\<close>

definition reports_row :: "harvest_run \<Rightarrow> oai_harvest_result \<Rightarrow> db \<Rightarrow> bool" where
  "reports_row hx r d \<longleftrightarrow> (\<exists>x. get_oai_harvest_result (hx_id hx) d = Some x \<and> (r = x \<or> r = in_progress ownership_changed x))"

lemma cursor_result: "cursor_at hx j ps d \<Longrightarrow> get_oai_harvest_result (hx_id hx) d = Some (oai_result_from_row j)"
  by (simp add: cursor_at_def get_oai_harvest_result_def)

lemma finish_reports:
  "triple (cursor_rely hx) (\<lambda>_. True) (cursor_at hx j ps) (finish_harvest hx s st n wm tok c m) (reports_row hx) E"
proof -
  have E: "triple (cursor_rely hx) (\<lambda>_. True) (cursor_at hx j' ps)
      (bindM (readM (get_oai_harvest_result (hx_id hx))) (\<lambda>r. case r of None \<Rightarrow> raiseM (OtherExn ''AssertionError'') | Some x \<Rightarrow> returnM x))
      (reports_row hx) E" for j'
    by (rule triple_bind [where Q' = "\<lambda>r d. r = Some (oai_result_from_row j') \<and> cursor_at hx j' ps d"])
      (auto simp: cursor_result reports_row_def intro!: triple_read stable_cursor triple_return triple_raise split: option.split)
  show ?thesis
    unfolding finish_harvest_def
    by (intro bind_now triple_then [where Q' = "\<lambda>d. \<exists>j'. cursor_at hx j' ps d"] triple_ex E
        triple_tx_do [OF stable_cursor]) (simp add: cursor_finish)
qed

lemma stop_reports:
  "triple (cursor_rely hx) (\<lambda>_. True) (cursor_at hx j ps) (stop_harvest hx s st n c m) (reports_row hx) E"
  unfolding stop_harvest_def by (rule finish_reports)

lemma lost_reports: "triple (cursor_rely hx) (\<lambda>_. True) (cursor_at hx j ps) (ownership_lost hx) (reports_row hx) E"
  unfolding ownership_lost_def
  by (rule triple_bind [where Q' = "\<lambda>r d. r = Some (oai_result_from_row j) \<and> cursor_at hx j ps d"])
    (auto simp: cursor_result reports_row_def intro!: triple_read stable_cursor triple_return)

lemma upsert_page_other: "get_oai_job h (upsert_oai_page p d) = get_oai_job h d"
  by (simp add: get_oai_job_def)

lemma own_pages_fresh:
  assumes "\<forall>q\<in>set (own_pages (op_harvest_id p) d). op_page_index q \<noteq> op_page_index p"
  shows "own_pages (op_harvest_id p) (upsert_oai_page p d) = own_pages (op_harvest_id p) d @ [p]"
proof -
  have "tbl_get page_key (page_key p) (oai_pages d) = None"
    using assms by (auto simp: tbl_get_None page_key_def own_pages_def)
  then show ?thesis by (simp add: upsert_oai_page_def tbl_upsert_def own_pages_def)
qed

lemma cursor_failed_page:
  "triple (cursor_rely hx) (\<lambda>_. True) (cursor_at hx j ps) (record_failed_page hv hx s st c m)
    (\<lambda>_ d. \<exists>ps'. cursor_at hx j ps' d) E"
  unfolding record_failed_page_def
  by (intro bind_now triple_tx_try [OF stable_cursor])
    (auto simp: record_oai_page_def cursor_at_def upsert_page_other)

lemma started_at:
  assumes "cursor_at hx j ps d" "h_status j = ''running''"
  shows "\<exists>d'. record_oai_request_started (hx_id hx) t d = (Inr (h_requests_total j + 1), d') \<and>
    cursor_at hx (j\<lparr>h_requests_total := h_requests_total j + 1, h_updated_at := t\<rparr>) ps d'"
  using assms by (simp add: record_oai_request_started_def Let_def cursor_at_def get_oai_job_running)
    (simp add: update_running_def)

lemma cursor_started:
  assumes "h_status j = ''running''"
  shows "triple (cursor_rely hx) (\<lambda>_. True) (cursor_at hx j ps) (tx_try (record_oai_request_started (hx_id hx) t))
    (\<lambda>n d. n = h_requests_total j + 1 \<and> cursor_at hx (j\<lparr>h_requests_total := n, h_updated_at := t\<rparr>) ps d) E"
proof (rule triple_tx_try [OF stable_cursor])
  fix d assume "cursor_at hx j ps d"
  from started_at [OF this assms, of t]
  show "case fst (record_oai_request_started (hx_id hx) t d) of
      Inr n \<Rightarrow> n = h_requests_total j + 1 \<and> cursor_at hx (j\<lparr>h_requests_total := n, h_updated_at := t\<rparr>) ps
        (snd (record_oai_request_started (hx_id hx) t d))
    | Inl e \<Rightarrow> E (StoreExn e) (snd (record_oai_request_started (hx_id hx) t d))"
    by auto
qed

lemma upsert_records_frames:
  "oai_jobs (snd (upsert_oai_records_conn rs t d)) = oai_jobs d" "oai_pages (snd (upsert_oai_records_conn rs t d)) = oai_pages d"
  by (simp_all add: upsert_oai_records_conn_def)

lemma page_of_checkpoint:
  "op_harvest_id (completed_page cp t) = cp_harvest_id cp" "op_page_index (completed_page cp t) = cp_page_index cp"
  "op_token_hash (completed_page cp t) = cp_consumed_hash cp"
  by (simp_all add: completed_page_def)

text \<open>A checkpoint taken from the cursor: the row has advanced, the page is the last of the job.\<close>

lemma checkpoint_at:
  assumes "cursor_at hx j ps d" "cp_harvest_id cp = hx_id hx" "\<forall>p\<in>set ps. op_page_index p < cp_page_index cp"
  shows "case checkpoint_oai_page cp t d of
     (Inl e, d') \<Rightarrow> cursor_at hx j ps d'
   | (Inr counts, d') \<Rightarrow> cursor_at hx (advance_job cp counts t j) (ps @ [completed_page cp t]) d'"
proof (cases "checkpoint_oai_page cp t d")
  case (Pair r d')
  show ?thesis
  proof (cases r)
    case (Inl e)
    then have "d' = d" using Pair by (auto simp: checkpoint_oai_page_def Let_def split: if_splits prod.splits)
    with Inl Pair assms(1) show ?thesis by simp
  next
    case (Inr counts)
    let ?d1 = "snd (upsert_oai_records_conn (cp_records cp) t d)"
    have run: "h_status j = ''running''" and d': "d' = update_running (hx_id hx) (advance_job cp counts t)
        (upsert_oai_page (completed_page cp t) ?d1)"
      using Pair Inr assms(1,2)
      by (auto simp: checkpoint_oai_page_def cursor_matches_def cursor_at_def Let_def split: if_splits prod.splits)
    have pages: "own_pages (hx_id hx) ?d1 = ps"
      using assms(1) by (simp add: own_pages_def upsert_records_frames cursor_at_def)
    have job: "get_oai_job (hx_id hx) ?d1 = Some j"
      using assms(1) by (simp add: get_oai_job_same [OF upsert_records_frames(1)] cursor_at_def)
    have "own_pages (hx_id hx) (upsert_oai_page (completed_page cp t) ?d1) = ps @ [completed_page cp t]"
      using own_pages_fresh [of "completed_page cp t" ?d1] pages assms(3)
      unfolding page_of_checkpoint [of cp t] assms(2) by force
    then show ?thesis
      unfolding Pair Inr d' using job run
      by (simp add: cursor_at_def get_oai_job_running upsert_page_other) (simp add: update_running_def)
  qed
qed

lemma max_datestamp_None: "max_datestamp_seen rs b = None \<Longrightarrow> b = None"
  by (induction rs b rule: max_datestamp_seen.induct) (auto split: option.splits if_splits)

text \<open>What is resumed from the advanced row is the next state of the loop.\<close>

lemma row_matches_next:
  assumes "row_matches s j ps" "cp = page_checkpoint hv hx s page wm" "wm = None \<longrightarrow> hs_response_watermark s = None"
  shows "row_matches (next_state s cp counts) (advance_job cp counts t j) (ps @ [completed_page cp t])"
proof -
  obtain a b c where counts: "counts = (a, b, c)" by (metis prod.exhaust)
  have s: "hs_page_index s = h_pages_total j" "hs_requests_total s = h_requests_total j"
    "hs_processed s = h_records_processed j" "hs_upserted s = h_papers_upserted j" "hs_deleted s = h_deleted_records j"
    "hs_response_watermark s = h_last_response_date j" "hs_max_datestamp s = h_last_datestamp_seen j"
    "hs_token s = h_token j" "hs_consumed s = page_hashes ps" "h_status j = ''running''"
    "\<forall>p\<in>set ps. op_page_index p < hs_page_index s"
    using assms(1) by (auto simp: row_matches_def resume_state_def)
  have cp: "cp_page_index cp = hs_page_index s" "cp_last_response_date cp = wm"
    "cp_last_datestamp_seen cp = max_datestamp_seen (og_records page) (hs_max_datestamp s)"
    by (simp_all add: assms(2) page_checkpoint_def Let_def)
  have h: "page_hashes (ps @ [completed_page cp t]) =
      (case cp_consumed_hash cp of None \<Rightarrow> page_hashes ps | Some h \<Rightarrow> insert h (page_hashes ps))"
    by (auto simp: page_hashes_def completed_page_def map_filter_def split: option.split)
  have w: "coalesce (cp_last_response_date cp) (h_last_response_date j) = cp_last_response_date cp"
    using assms(3) s(6) cp(2) by (auto simp: coalesce_def split: option.split)
  have m: "coalesce (cp_last_datestamp_seen cp) (h_last_datestamp_seen j) = cp_last_datestamp_seen cp"
    using max_datestamp_None [of "og_records page" "hs_max_datestamp s"] s(7) cp(3)
    by (auto simp: coalesce_def split: option.split)
  show ?thesis
    using s by (auto simp: row_matches_def resume_state_def next_state_def advance_job_def counts h w m cp(1)
        page_of_checkpoint split: option.split)
qed

subsection \<open>One iteration\<close>

definition resumes :: "harvest_run \<Rightarrow> int \<Rightarrow> turn \<Rightarrow> db \<Rightarrow> bool" where
  "resumes hx n v d = (case v of Inl s' \<Rightarrow> durable hx s' d \<and> hs_requests_total s' = n \<and> n \<le> o_max_requests (hx_request hx) | Inr r \<Rightarrow> reports_row hx r d)"

definition broken :: "harvest_run \<Rightarrow> int \<Rightarrow> exn \<Rightarrow> db \<Rightarrow> bool" where
  "broken hx n e d \<longleftrightarrow> (\<exists>s'. durable hx s' d \<and> n \<le> hs_page_index s')"

abbreviation runs :: "harvest_run \<Rightarrow> oai_job_row \<Rightarrow> oai_page_row list \<Rightarrow> int \<Rightarrow> int \<Rightarrow> turn act \<Rightarrow> bool" where
  "runs hx j ps n i m \<equiv> triple (cursor_rely hx) (\<lambda>_. True) (cursor_at hx j ps) m (resumes hx n) (broken hx i)"

lemma runs_end:
  assumes "\<And>E. triple (cursor_rely hx) (\<lambda>_. True) (cursor_at hx j ps) m (reports_row hx) E"
  shows "runs hx j ps n i (endM m)"
  unfolding endM_def by (rule triple_bind [OF assms]) (auto simp: resumes_def intro: triple_return)

lemma durable_at: "cursor_at hx j ps d \<Longrightarrow> row_matches s j ps \<Longrightarrow> durable hx s d"
  by (auto simp: durable_iff)

lemma broken_at: "cursor_at hx j ps d \<Longrightarrow> row_matches s j ps \<Longrightarrow> i \<le> hs_page_index s \<Longrightarrow> broken hx i e d"
  by (auto simp: broken_def durable_iff)

lemma keeps_broken:
  assumes "keeps hx j ps m" "row_matches s j ps" "i \<le> hs_page_index s"
  shows "triple (cursor_rely hx) (\<lambda>_. True) (cursor_at hx j ps) m (\<lambda>_. cursor_at hx j ps) (broken hx i)"
  by (rule triple_post [OF assms(1)]) (use assms(2,3) in \<open>auto intro: broken_at\<close>)

lemma runs_bind:
  "keeps hx j ps m \<Longrightarrow> row_matches s j ps \<Longrightarrow> i \<le> hs_page_index s \<Longrightarrow> (\<And>x. runs hx j ps n i (k x)) \<Longrightarrow> runs hx j ps n i (bindM m k)"
  by (rule triple_bind [OF keeps_broken])

lemma runs_then:
  "keeps hx j ps m \<Longrightarrow> row_matches s j ps \<Longrightarrow> i \<le> hs_page_index s \<Longrightarrow> runs hx j ps n i k \<Longrightarrow> runs hx j ps n i (thenM m k)"
  unfolding thenM_def by (rule runs_bind)

lemma runs_stop: "runs hx j ps n i (endM (stop_harvest hx s st k c m))"
  by (rule runs_end) (rule stop_reports)

lemma runs_out:
  assumes "row_matches s' j ps" "i \<le> hs_page_index s'"
  shows "runs hx j ps n i (out_of_time hx s m)" "runs hx j ps n i (over_budget hx s err)"
  unfolding out_of_time_def over_budget_def
  by (rule runs_then [OF _ assms], simp, rule runs_stop) (rule runs_stop)

lemma runs_failed_page:
  "runs hx j ps n i (thenM (record_failed_page hv hx s st c m) (endM (stop_harvest hx s st' k c' m')))"
  by (rule triple_then [OF cursor_failed_page], rule triple_ex, rule runs_stop)

lemma runs_failed:
  assumes "row_matches s' j ps" "i \<le> hs_page_index s'"
  shows "runs hx j ps n i (failed_call hv hx s e)"
  by (cases e)
    (auto simp: failed_call_def Let_def keeps_limiter
      intro!: runs_bind [OF _ assms] runs_then [OF _ assms] runs_failed_page triple_raise broken_at [OF _ assms])

lemma runs_commit:
  assumes "row_matches s j ps" "i \<le> hs_page_index s" "hs_requests_total s \<le> o_max_requests (hx_request hx)"
  shows "runs hx j ps (hs_requests_total s) i (commit_page hv hx s page)"
proof -
  have committed: "runs hx (advance_job cp counts t j) (ps @ [completed_page cp t]) (hs_requests_total s) i
      (thenM (after_success (oai_limiter hv) (oai_owner hx) 200 None)
        (let s' = next_state s cp counts
         in case cp_error_category cp of
              Some err \<Rightarrow> endM (stop_harvest hx s' ''failed'' (hs_page_index s') (Some err) (Some (unscored err)))
            | None \<Rightarrow> returnM (Inl s')))"
    if cp: "cp = page_checkpoint hv hx s page wm" "wm = None \<longrightarrow> hs_response_watermark s = None" for cp wm counts t
  proof -
    note nxt = row_matches_next [OF assms(1) cp, of counts t]
    have pos: "i \<le> hs_page_index (next_state s cp counts)" "hs_requests_total (next_state s cp counts) = hs_requests_total s"
      using assms(2) by (simp_all add: next_state_def split: prod.split)
    show ?thesis
      unfolding Let_def
      by (rule runs_then [OF _ nxt pos(1)])
        (use nxt pos(2) assms(3) in \<open>auto simp: resumes_def intro!: runs_stop triple_return durable_at split: option.split\<close>)
  qed
  have taken: "triple (cursor_rely hx) (\<lambda>_. True) (cursor_at hx j ps)
      (catchM (bindM utc_now (\<lambda>t. tx_try (checkpoint_oai_page cp t)))
         (\<lambda>e. thenM (after_failure (oai_limiter hv) (oai_owner hx) None (Some (''OAI checkpoint failed: '' @ exn_text e)) None)
                (raiseM e)))
      (\<lambda>counts d. \<exists>t. cursor_at hx (advance_job cp counts t j) (ps @ [completed_page cp t]) d) (broken hx i)"
    if "cp = page_checkpoint hv hx s page wm" for cp wm
  proof (rule triple_catch [where E' = "\<lambda>_. cursor_at hx j ps"])
    have cp: "cp_harvest_id cp = hx_id hx" "\<forall>p\<in>set ps. op_page_index p < cp_page_index cp"
      using that assms(1) by (auto simp: page_checkpoint_def row_matches_def Let_def)
    show "triple (cursor_rely hx) (\<lambda>_. True) (cursor_at hx j ps) (bindM utc_now (\<lambda>t. tx_try (checkpoint_oai_page cp t)))
      (\<lambda>counts d. \<exists>t. cursor_at hx (advance_job cp counts t j) (ps @ [completed_page cp t]) d) (\<lambda>_. cursor_at hx j ps)"
    proof (intro bind_now triple_tx_try [OF stable_cursor])
      fix t d assume "cursor_at hx j ps d"
      from checkpoint_at [OF this cp, of t]
      show "case fst (checkpoint_oai_page cp t d) of
          Inr counts \<Rightarrow> \<exists>t'. cursor_at hx (advance_job cp counts t' j) (ps @ [completed_page cp t']) (snd (checkpoint_oai_page cp t d))
        | Inl e \<Rightarrow> cursor_at hx j ps (snd (checkpoint_oai_page cp t d))"
        by (auto split: prod.splits sum.splits)
    qed
  next
    fix e
    show "triple (cursor_rely hx) (\<lambda>_. True) (cursor_at hx j ps)
        (thenM (after_failure (oai_limiter hv) (oai_owner hx) None (Some (''OAI checkpoint failed: '' @ exn_text e)) None) (raiseM e))
        (\<lambda>counts d. \<exists>t. cursor_at hx (advance_job cp counts t j) (ps @ [completed_page cp t]) d) (broken hx i)"
      by (rule triple_then [OF keeps_broken [OF _ assms(1,2)]])
        (auto intro!: triple_raise broken_at [OF _ assms(1,2)])
  qed
  have wm: "(if truthy day then day else hs_response_watermark s) = None \<longrightarrow> hs_response_watermark s = None" for day
    by (auto simp: truthy_def split: option.splits)
  show ?thesis
    unfolding commit_page_def Let_def [of "page_checkpoint _ _ _ _ _"]
    by (rule runs_bind [OF _ assms(1,2)], simp)
      (rule triple_bind [OF taken [OF refl]], rule triple_ex, rule committed [OF refl wm])
qed

lemma runs_list:
  assumes "row_matches s j ps" "i \<le> hs_page_index s" "hs_requests_total s \<le> o_max_requests (hx_request hx)"
  shows "runs hx j ps (hs_requests_total s) i (list_page hv hx s timeout)"
  unfolding list_page_def
  by (rule triple_try_else [OF keeps_prims(14)]) (rule runs_failed [OF assms(1,2)], rule runs_commit [OF assms])

lemma runs_owned:
  assumes "row_matches s j ps" "i \<le> hs_page_index s" "hs_requests_total s \<le> o_max_requests (hx_request hx)"
  shows "runs hx j ps (hs_requests_total s) i (call_when_owned hv hx s timeout)"
  unfolding call_when_owned_def Let_def
  by (rule runs_bind [OF _ assms(1,2)], simp, rule runs_bind [OF _ assms(1,2)], simp, rule triple_if,
      rule runs_then [OF _ assms(1,2)], simp, rule runs_end, rule lost_reports,
      rule runs_bind [OF _ assms(1,2)], simp, rule triple_if, rule runs_out [OF assms(1,2)], rule runs_list [OF assms])

lemma runs_counted:
  assumes "row_matches s j ps" "hs_requests_total s < o_max_requests (hx_request hx)"
  shows "runs hx j ps (hs_requests_total s + 1) (hs_page_index s) (call_when_counted hv hx s)"
proof -
  let ?j = "\<lambda>n t. j\<lparr>h_requests_total := n, h_updated_at := t\<rparr>" and ?s = "\<lambda>n. s\<lparr>hs_requests_total := n\<rparr>"
  have m: "row_matches (?s n) (?j n t) ps" for n t
    using assms(1) by (auto simp: row_matches_def resume_state_def)
  have run: "h_status j = ''running''" "h_requests_total j = hs_requests_total s"
    using assms(1) by (auto simp: row_matches_def resume_state_def)
  have go: "runs hx (?j n t) ps (hs_requests_total s + 1) (hs_page_index s)
      (bindM utc_now (\<lambda>now. if total_seconds (hx_deadline hx - now) \<le> 0 then out_of_time hx (?s n) expired_message
         else call_when_owned hv hx (?s n) (min (request_timeout_seconds (hv_settings hv)) (total_seconds (hx_deadline hx - now)))))"
    if "n = hs_requests_total s + 1" for n t
    by (rule runs_bind [OF _ m], simp, simp, rule triple_if, rule runs_out [OF m], simp)
      (use runs_owned [OF m, where i = "hs_page_index s"] that assms(2) in simp)
  show ?thesis
    unfolding call_when_counted_def Let_def
    by (rule bind_now, rule triple_bind [OF cursor_started [OF run(1)]], rule triple_pure, rule go) (simp add: run(2))
qed

lemma runs_budget:
  assumes "row_matches s j ps" "i \<le> hs_page_index s"
    and "hs_requests_total s < o_max_requests (hx_request hx) \<Longrightarrow> runs hx j ps n i m" "\<And>e. runs hx j ps n i (k e)"
  shows "runs hx j ps n i (bindM (budget_of hx s) (\<lambda>e. case e of Some err \<Rightarrow> k err | None \<Rightarrow> m))"
proof (cases "hs_requests_total s < o_max_requests (hx_request hx)")
  case True
  show ?thesis by (rule runs_bind [OF _ assms(1,2)]) (use assms(3,4) True in \<open>auto split: option.split\<close>)
next
  case False
  then show ?thesis using assms(4) by (simp add: budget_of_def oai_budget_error_def)
qed

lemma runs_granted:
  assumes "row_matches s j ps"
  shows "runs hx j ps (hs_requests_total s + 1) (hs_page_index s) (call_when_granted hv hx s wait)"
proof -
  note here = assms order_refl
  show ?thesis
    unfolding call_when_granted_def
    by (rule runs_bind [OF _ here], simp, rule triple_if, rule runs_out [OF here], rule runs_then [OF _ here], simp,
        rule runs_budget [OF here], rule runs_counted [OF assms], assumption, rule runs_then [OF _ here], simp, rule runs_out [OF here])
qed

lemma runs_step:
  assumes "row_matches s j ps"
  shows "runs hx j ps (hs_requests_total s + 1) (hs_page_index s) (harvest_step hv hx s)"
proof -
  note here = assms order_refl
  have refused: "runs hx j ps (hs_requests_total s + 1) (hs_page_index s) (refused_page hv hx s reason)" for reason
    unfolding refused_page_def Let_def by (rule runs_failed_page)
  show ?thesis
    unfolding harvest_step_def
    by (rule runs_bind [OF _ here], simp, rule triple_if, rule runs_end, rule lost_reports, rule runs_budget [OF here],
        rule runs_bind [OF _ here], simp, rule triple_if, rule runs_granted [OF assms], rule refused, rule runs_out [OF here])
qed

subsection \<open>The loop\<close>

lemma loop_unfold:
  "harvest_loop hv hx s = (if hs_finished s then returnM (Inl s)
     else bindM (harvest_step hv hx s) (\<lambda>turn. case turn of Inl s' \<Rightarrow> harvest_loop hv hx s' | Inr r \<Rightarrow> returnM (Inr r)))"
  by (rule ext) (simp add: harvest_loop.simps [of hv hx s])

definition loop_post :: "harvest_run \<Rightarrow> harvest_state \<Rightarrow> turn \<Rightarrow> db \<Rightarrow> bool" where
  "loop_post hx s v d = (case v of
      Inl s' \<Rightarrow> durable hx s' d \<and> hs_finished s' \<and> hs_page_index s' - hs_page_index s = hs_requests_total s' - hs_requests_total s \<and>
        hs_page_index s \<le> hs_page_index s' \<and> hs_requests_total s' \<le> max (hs_requests_total s) (o_max_requests (hx_request hx))
    | Inr r \<Rightarrow> reports_row hx r d)"

lemma loop_runs:
  "triple (cursor_rely hx) (\<lambda>_. True) (durable hx s) (harvest_loop hv hx s) (loop_post hx s) (broken hx (hs_page_index s))"
proof (induction "nat (o_max_pages (hx_request hx) - hs_page_index s)" arbitrary: s rule: less_induct)
  case less
  let ?p = "\<lambda>s'. hs_page_index s < o_max_pages (hx_request hx) \<and> hs_page_index s' = hs_page_index s + 1"
  have step: "triple (cursor_rely hx) (\<lambda>_. True) (durable hx s) (harvest_step hv hx s)
      (\<lambda>v d. resumes hx (hs_requests_total s + 1) v d \<and> (\<forall>s'. v = Inl s' \<longrightarrow> ?p s')) (broken hx (hs_page_index s))"
    by (rule triple_goes [OF _ goes_to_step], unfold durable_iff, intro triple_ex)
      (use runs_step in \<open>fastforce simp: triple_def\<close>)
  have rest: "triple (cursor_rely hx) (\<lambda>_. True)
      (\<lambda>d. resumes hx (hs_requests_total s + 1) v d \<and> (\<forall>s'. v = Inl s' \<longrightarrow> ?p s'))
      (case v of Inl s' \<Rightarrow> harvest_loop hv hx s' | Inr r \<Rightarrow> returnM (Inr r)) (loop_post hx s) (broken hx (hs_page_index s))" for v
  proof (cases v)
    case (Inr r)
    then show ?thesis by (auto simp: resumes_def loop_post_def intro!: triple_return)
  next
    case (Inl s')
    show ?thesis
    proof (cases "?p s' \<and> hs_requests_total s' = hs_requests_total s + 1 \<and> hs_requests_total s' \<le> o_max_requests (hx_request hx)")
      case True
      then have "nat (o_max_pages (hx_request hx) - hs_page_index s') < nat (o_max_pages (hx_request hx) - hs_page_index s)" by simp
      from less.hyps [OF this] have "triple (cursor_rely hx) (\<lambda>_. True) (durable hx s') (harvest_loop hv hx s')
          (loop_post hx s) (broken hx (hs_page_index s))"
        by (rule triple_post) (use True in \<open>auto simp: loop_post_def broken_def split: sum.splits\<close>)
      then show ?thesis unfolding Inl sum.case by (rule triple_pre) (simp add: resumes_def)
    next
      case False
      show ?thesis by (rule triple_pre [OF triple_never]) (use False in \<open>auto simp: Inl resumes_def\<close>)
    qed
  qed
  show ?case
  proof (cases "hs_finished s")
    case True
    then show ?thesis by (auto simp: loop_unfold [of hv hx s] loop_post_def intro!: triple_return)
  next
    case False
    then show ?thesis unfolding loop_unfold [of hv hx s] by (simp add: triple_bind [OF step rest])
  qed
qed

text \<open>C28. Let nobody else write the row and the pages of the job, and let the
  state s of the loop be the one resumed from them. An iteration that goes on leaves a store from which
  exactly its next state is resumed: one page and one request further, the requests within max_requests.
  An iteration that returns reports what the job row says. When an exception breaks it, the job is still
  running and a state not behind s is resumed from it. The same holds of the whole loop, whose requests
  are as many as its pages; so a process that takes the job over continues where this one stopped.\<close>

theorem loop_state_is_the_durable_cursor:
  assumes "runs_under (cursor_rely hx) w" "durable hx s (store w)"
  shows "(case harvest_step hv hx s w of
      (Inr (Inl s'), w') \<Rightarrow> durable hx s' (store w') \<and> hs_page_index s' = hs_page_index s + 1 \<and>
        hs_requests_total s' = hs_requests_total s + 1 \<and> hs_requests_total s' \<le> o_max_requests (hx_request hx)
    | (Inr (Inr r), w') \<Rightarrow> reports_row hx r (store w')
    | (Inl e, w') \<Rightarrow> \<exists>s'. durable hx s' (store w') \<and> hs_page_index s \<le> hs_page_index s') \<and>
   (case harvest_loop hv hx s w of
      (Inr (Inl s'), w') \<Rightarrow> durable hx s' (store w') \<and> hs_finished s' \<and>
        hs_page_index s' - hs_page_index s = hs_requests_total s' - hs_requests_total s \<and>
        hs_requests_total s' \<le> max (hs_requests_total s) (o_max_requests (hx_request hx))
    | (Inr (Inr r), w') \<Rightarrow> reports_row hx r (store w')
    | (Inl e, w') \<Rightarrow> \<exists>s'. durable hx s' (store w') \<and> hs_page_index s \<le> hs_page_index s')"
proof
  obtain v w' where step: "harvest_step hv hx s w = (v, w')" by fastforce
  obtain j ps where at: "cursor_at hx j ps (store w)" "row_matches s j ps" using assms(2) by (auto simp: durable_iff)
  from triple_at(3) [OF runs_step [OF at(2)] assms(1) at(1) step] goes_to_step [of s hx hv] step
  show "case harvest_step hv hx s w of
      (Inr (Inl s'), w') \<Rightarrow> durable hx s' (store w') \<and> hs_page_index s' = hs_page_index s + 1 \<and>
        hs_requests_total s' = hs_requests_total s + 1 \<and> hs_requests_total s' \<le> o_max_requests (hx_request hx)
    | (Inr (Inr r), w') \<Rightarrow> reports_row hx r (store w')
    | (Inl e, w') \<Rightarrow> \<exists>s'. durable hx s' (store w') \<and> hs_page_index s \<le> hs_page_index s'"
    by (auto simp: resumes_def broken_def goes_to_def split: sum.splits)
next
  obtain v w' where loop: "harvest_loop hv hx s w = (v, w')" by fastforce
  from triple_at(3) [OF loop_runs assms loop] loop
  show "case harvest_loop hv hx s w of
      (Inr (Inl s'), w') \<Rightarrow> durable hx s' (store w') \<and> hs_finished s' \<and>
        hs_page_index s' - hs_page_index s = hs_requests_total s' - hs_requests_total s \<and>
        hs_requests_total s' \<le> max (hs_requests_total s) (o_max_requests (hx_request hx))
    | (Inr (Inr r), w') \<Rightarrow> reports_row hx r (store w')
    | (Inl e, w') \<Rightarrow> \<exists>s'. durable hx s' (store w') \<and> hs_page_index s \<le> hs_page_index s'"
    by (auto simp: loop_post_def broken_def split: sum.splits)
qed

lemma harvest_world_ready:
  "runs_under (cursor_rely sample_run) harvest_world" "durable sample_run sample_cursor (store harvest_world)"
  by (simp add: runs_under_def cursor_rely_def harvest_world_def alone_def)
    (simp add: durable_iff cursor_at_def row_matches_def harvest_world_def alone_def harvest_store_def own_pages_def
      empty_db_def get_oai_job_def tbl_get_def sample_run_def resume_state_def sample_cursor_def fresh_state_def
      page_hashes_def map_filter_def new_oai_job_def)

lemma harvest_world_breaks: "fst (harvest_step sample_harvester sample_run sample_cursor harvest_world) = Inl (OtherExn ''offline'')"
  by code_simp

theorem loop_state_is_the_durable_cursor_witness:
  "\<exists>s'. durable sample_run s' (store (snd (harvest_step sample_harvester sample_run sample_cursor harvest_world))) \<and>
     0 \<le> hs_page_index s'"
  using loop_state_is_the_durable_cursor [OF harvest_world_ready, of sample_harvester, THEN conjunct1] harvest_world_breaks
  by (auto simp: sample_cursor_def fresh_state_def split: prod.splits)

end
