(* ===== verification/Huldra_Sync.thy ===== *)
theory Huldra_Sync
  imports Huldra_Worker
begin

text \<open>
  Sync jobs (huldra/db.py, create_sync_job to get_sync_job): one row per maintenance target and one
  row per result page of it. Each operation reads the clock before it takes the write lock, so that
  the time is an argument of the transaction.
\<close>

subsection \<open>Operations of the store\<close>

definition get_sync_row :: "string \<Rightarrow> db \<Rightarrow> sync_job_row option" where
  "get_sync_row sync_job_id d = tbl_get sj_sync_job_id sync_job_id (sync_jobs d)"

definition new_sync_job ::
  "arxiv_request \<Rightarrow> legacy_sync_mode \<Rightarrow> string option \<Rightarrow> string \<Rightarrow> datetime \<Rightarrow> sync_job_row" where
  "new_sync_job request mode budget_id uuid now =
     \<lparr>sj_sync_job_id = uuid, sj_mode = mode, sj_request = request, sj_status = ''running'',
      sj_upstream_budget_id = budget_id, sj_coverage_status = UNKNOWN, sj_result_count = 0,
      sj_total_results = None, sj_pages_total = 0, sj_pages_completed_total = 0,
      sj_error_category = None, sj_error_message = None, sj_created_at = now, sj_updated_at = now,
      sj_completed_at = None\<rparr>"

definition create_sync_job ::
  "(string \<Rightarrow> string) \<Rightarrow> arxiv_request \<Rightarrow> legacy_sync_mode \<Rightarrow> string option \<Rightarrow> string \<Rightarrow> datetime \<Rightarrow> db
   \<Rightarrow> (store_error + string) \<times> db" where
  "create_sync_job sha256 request mode budget_id uuid now d =
     (if get_sync_row uuid d \<noteq> None then (Inl (IntegrityError ''sync_jobs.sync_job_id''), d)
      else (Inr uuid, record_event ''sync_job_started''
              [(''sync_job_id'', JStr uuid), (''mode'', JStr (sync_mode_value mode)),
               (''cache_key'', JStr (request_cache_key sha256 request))]
              (d\<lparr>sync_jobs := sync_jobs d @ [new_sync_job request mode budget_id uuid now]\<rparr>)))"

text \<open>The arguments of record_sync_job_page.\<close>

record sync_page =
  y_sync_job_id :: string
  y_request :: arxiv_request
  y_cache_key :: string
  y_status :: string
  y_result_count :: int
  y_total_results :: "int option"
  y_diagnostics :: "(string \<times> json) list"

definition sync_page_row_of :: "sync_page \<Rightarrow> datetime \<Rightarrow> sync_page_row" where
  "sync_page_row_of y now = \<lparr>sp_sync_job_id = y_sync_job_id y, sp_cache_key = y_cache_key y,
     sp_request = y_request y, sp_start = start (y_request y), sp_max_results = max_results (y_request y),
     sp_status = y_status y, sp_result_count = y_result_count y, sp_total_results = y_total_results y,
     sp_attempt_diagnostics = y_diagnostics y, sp_created_at = now, sp_updated_at = now\<rparr>"

definition sync_page_key :: "sync_page_row \<Rightarrow> string \<times> string" where
  "sync_page_key p = (sp_sync_job_id p, sp_cache_key p)"

definition get_sync_page :: "string \<Rightarrow> string \<Rightarrow> db \<Rightarrow> sync_page_row option" where
  "get_sync_page sync_job_id cache_key d = tbl_get sync_page_key (sync_job_id, cache_key) (sync_pages d)"

text \<open>ON CONFLICT keeps the key and created_at; the foreign key asks for the job.\<close>

definition record_sync_job_page :: "sync_page \<Rightarrow> datetime \<Rightarrow> db \<Rightarrow> (store_error + unit) \<times> db" where
  "record_sync_job_page y now d =
     (if get_sync_row (y_sync_job_id y) d = None then (Inl (IntegrityError ''FOREIGN KEY''), d)
      else (Inr (), d\<lparr>sync_pages := tbl_upsert sync_page_key (sync_page_row_of y now)
        (\<lambda>p. p\<lparr>sp_request := y_request y, sp_start := start (y_request y),
               sp_max_results := max_results (y_request y), sp_status := y_status y,
               sp_result_count := y_result_count y, sp_total_results := y_total_results y,
               sp_attempt_diagnostics := y_diagnostics y, sp_updated_at := now\<rparr>) (sync_pages d)\<rparr>))"

definition delete_sync_job_followup_pages :: "string \<Rightarrow> string \<Rightarrow> db \<Rightarrow> db" where
  "delete_sync_job_followup_pages sync_job_id initial_cache_key d =
     d\<lparr>sync_pages := tbl_delete (\<lambda>p. sp_sync_job_id p = sync_job_id \<and> sp_cache_key p \<noteq> initial_cache_key)
        (sync_pages d)\<rparr>"

record sync_finish =
  sf_status :: string
  sf_coverage_status :: coverage_status
  sf_result_count :: int
  sf_total_results :: "int option"
  sf_pages_total :: int
  sf_pages_completed_total :: int
  sf_error_category :: "string option"
  sf_error_message :: "string option"

definition finished_sync_row :: "sync_finish \<Rightarrow> datetime \<Rightarrow> sync_job_row \<Rightarrow> sync_job_row" where
  "finished_sync_row f now j =
     j\<lparr>sj_status := sf_status f, sj_coverage_status := sf_coverage_status f,
       sj_result_count := sf_result_count f, sj_total_results := sf_total_results f,
       sj_pages_total := sf_pages_total f, sj_pages_completed_total := sf_pages_completed_total f,
       sj_error_category := sf_error_category f, sj_error_message := clip_message (sf_error_message f),
       sj_updated_at := now, sj_completed_at := Some now\<rparr>"

definition complete_sync_job :: "string \<Rightarrow> sync_finish \<Rightarrow> datetime \<Rightarrow> db \<Rightarrow> db" where
  "complete_sync_job sync_job_id f now d =
     record_event ''sync_job_completed''
       [(''sync_job_id'', JStr sync_job_id), (''status'', JStr (sf_status f)),
        (''coverage_status'', JStr (coverage_value (sf_coverage_status f))),
        (''result_count'', JInt (sf_result_count f)), (''total_results'', jint (sf_total_results f)),
        (''pages_total'', JInt (sf_pages_total f)),
        (''pages_completed_total'', JInt (sf_pages_completed_total f)),
        (''error_category'', jstr (sf_error_category f))]
       (d\<lparr>sync_jobs := tbl_update (\<lambda>j. sj_sync_job_id j = sync_job_id) (finished_sync_row f now) (sync_jobs d)\<rparr>)"

text \<open>get_sync_job: the columns it hands out.\<close>

record sync_job_view =
  jv_sync_job_id :: string
  jv_mode :: legacy_sync_mode
  jv_finish :: sync_finish

definition get_sync_job :: "string \<Rightarrow> db \<Rightarrow> sync_job_view option" where
  "get_sync_job sync_job_id d = map_option (\<lambda>j.
     \<lparr>jv_sync_job_id = sj_sync_job_id j, jv_mode = sj_mode j,
      jv_finish = \<lparr>sf_status = sj_status j, sf_coverage_status = sj_coverage_status j,
        sf_result_count = sj_result_count j, sf_total_results = sj_total_results j,
        sf_pages_total = sj_pages_total j, sf_pages_completed_total = sj_pages_completed_total j,
        sf_error_category = sj_error_category j, sf_error_message = sj_error_message j\<rparr>\<rparr>)
     (get_sync_row sync_job_id d)"

subsection \<open>Operations as the broker calls them\<close>

definition start_sync_job ::
  "(string \<Rightarrow> string) \<Rightarrow> arxiv_request \<Rightarrow> legacy_sync_mode \<Rightarrow> string option \<Rightarrow> string act" where
  "start_sync_job sha256 request mode budget_id =
     bindM uuid4 (\<lambda>uuid. bindM utc_now (\<lambda>t. tx_try (create_sync_job sha256 request mode budget_id uuid t)))"

definition sync_page_recorded :: "sync_page \<Rightarrow> unit act" where
  "sync_page_recorded y = bindM utc_now (\<lambda>t. tx_try (record_sync_job_page y t))"

definition sync_job_completed :: "string \<Rightarrow> sync_finish \<Rightarrow> unit act" where
  "sync_job_completed sync_job_id f = bindM utc_now (\<lambda>t. tx_do (complete_sync_job sync_job_id f t))"

definition planned_page :: "string \<Rightarrow> arxiv_request \<Rightarrow> string \<Rightarrow> string \<Rightarrow> sync_page" where
  "planned_page sync_job_id request cache_key status =
     \<lparr>y_sync_job_id = sync_job_id, y_request = request, y_cache_key = cache_key, y_status = status,
      y_result_count = 0, y_total_results = None, y_diagnostics = []\<rparr>"

text \<open>Members of the diagnostics object in the order of sort_keys.\<close>

definition page_of_entry :: "string \<Rightarrow> arxiv_request \<Rightarrow> string \<Rightarrow> cache_entry option \<Rightarrow> sync_page" where
  "page_of_entry sync_job_id request cache_key entry =
     (case entry of
        None \<Rightarrow> planned_page sync_job_id request cache_key ''missing''
      | Some c \<Rightarrow> (planned_page sync_job_id request cache_key (c_status c))
          \<lparr>y_result_count := c_result_count c, y_total_results := c_total_results c,
           y_diagnostics := [(''error_category'', jstr (c_error_category c)),
                             (''upstream_status'', jint (c_upstream_status c))]\<rparr>)"

record page_report =
  pg_status :: string
  pg_result_count :: int
  pg_total_results :: "int option"
  pg_error_category :: "string option"

definition refresh_sync_job_page_from_cache :: "string \<Rightarrow> arxiv_request \<Rightarrow> string \<Rightarrow> page_report act" where
  "refresh_sync_job_page_from_cache sync_job_id request cache_key =
     bindM (readM (get_cache_entry cache_key)) (\<lambda>entry.
     (let y = page_of_entry sync_job_id request cache_key entry in
      thenM (sync_page_recorded y)
        (returnM \<lparr>pg_status = y_status y, pg_result_count = y_result_count y,
           pg_total_results = y_total_results y,
           pg_error_category = Option.bind entry c_error_category\<rparr>)))"

subsection \<open>What a statement does to the tables\<close>

lemma sync_other_tables [simp]:
  "papers (snd (create_sync_job h r m b u t d)) = papers d"
  "cache_entries (snd (create_sync_job h r m b u t d)) = cache_entries d"
  "cache_matches (snd (create_sync_job h r m b u t d)) = cache_matches d"
  "queue_items (snd (create_sync_job h r m b u t d)) = queue_items d"
  "papers (snd (record_sync_job_page y t d)) = papers d"
  "cache_entries (snd (record_sync_job_page y t d)) = cache_entries d"
  "cache_matches (snd (record_sync_job_page y t d)) = cache_matches d"
  "queue_items (snd (record_sync_job_page y t d)) = queue_items d"
  "papers (delete_sync_job_followup_pages i k d) = papers d"
  "cache_entries (delete_sync_job_followup_pages i k d) = cache_entries d"
  "cache_matches (delete_sync_job_followup_pages i k d) = cache_matches d"
  "queue_items (delete_sync_job_followup_pages i k d) = queue_items d"
  "papers (complete_sync_job i f t d) = papers d"
  "cache_entries (complete_sync_job i f t d) = cache_entries d"
  "cache_matches (complete_sync_job i f t d) = cache_matches d"
  "queue_items (complete_sync_job i f t d) = queue_items d"
  by (simp_all add: create_sync_job_def record_sync_job_page_def delete_sync_job_followup_pages_def complete_sync_job_def)

end
