(* ===== verification/Huldra_Serve.thy ===== *)
theory Huldra_Serve
  imports Huldra_Sync Huldra_Programs
begin

text \<open>
  Serving (huldra/broker.py: ensure, get_result, _wait_until_ready and their helpers). The wait is a
  loop that polls the store until a deadline of the monotonic clock. It is a partial function to an
  option, so that an answer is something to prove: if that clock goes past every bound, it returns.
\<close>

subsection \<open>Runs that need not end\<close>

type_synonym 'a run = "world \<Rightarrow> ((exn + 'a) \<times> world) option"

definition lift_run :: "'a act \<Rightarrow> 'a run" where "lift_run m w = Some (m w)"

definition bind_run :: "'a run \<Rightarrow> ('a \<Rightarrow> 'b run) \<Rightarrow> 'b run" where
  "bind_run m k w = (case m w of None \<Rightarrow> None
     | Some (Inl e, w') \<Rightarrow> Some (Inl e, w') | Some (Inr x, w') \<Rightarrow> k x w')"

text \<open>
  while time.monotonic() < deadline: body. The body returns or breaks with Inl, or goes on with a
  new state Inr; the loop gives Inl of the former, or Inr of the state at the deadline.
\<close>

partial_function (option) poll_until ::
  "seconds \<Rightarrow> ('s \<Rightarrow> ('r + 's) act) \<Rightarrow> 's \<Rightarrow> world \<Rightarrow> ((exn + ('r + 's)) \<times> world) option" where
  [code]: "poll_until deadline body s w =
    (case monotonic w of
       (Inl e, w1) \<Rightarrow> Some (Inl e, w1)
     | (Inr t, w1) \<Rightarrow>
         if t < deadline
         then (case body s w1 of
             (Inl e, w2) \<Rightarrow> Some (Inl e, w2)
           | (Inr (Inl r), w2) \<Rightarrow> Some (Inr (Inl r), w2)
           | (Inr (Inr s'), w2) \<Rightarrow> poll_until deadline body s' w2)
         else Some (Inr (Inr s), w1))"

subsection \<open>Answers\<close>

record arxiv_result =
  ar_serving_mode :: readiness_mode
  ar_status :: string
  ar_cache_key :: string
  ar_request_id :: "string option"
  ar_papers :: "arxiv_paper list"
  ar_papers_total :: int
  ar_cached_papers_total :: int
  ar_total_results :: "int option"
  ar_coverage_status :: coverage_status
  ar_cache_hit :: bool
  ar_stale :: bool
  ar_cache_readable :: bool
  ar_mature :: bool
  ar_ready :: bool
  ar_analysis_ready :: bool
  ar_maturity_applicable :: bool
  ar_maturity_cutoff :: "datetime option"
  ar_cooldown_until :: "datetime option"
  ar_blocked_reason :: "string option"
  ar_error_category :: "string option"
  ar_error_message :: "string option"
  ar_completed_at :: "datetime option"
  ar_refresh_after :: "datetime option"
  ar_queued_at :: "datetime option"
  ar_upstream_status :: "int option"

text \<open>ArxivResult(serving_mode=.., status=.., cache_key=..) with the other fields at their defaults.\<close>

definition plain_result :: "arxiv_request \<Rightarrow> string \<Rightarrow> string \<Rightarrow> arxiv_result" where
  "plain_result request status cache_key =
     \<lparr>ar_serving_mode = readiness request, ar_status = status, ar_cache_key = cache_key, ar_request_id = None,
      ar_papers = [], ar_papers_total = 0, ar_cached_papers_total = 0, ar_total_results = None,
      ar_coverage_status = UNKNOWN, ar_cache_hit = False, ar_stale = False, ar_cache_readable = False,
      ar_mature = True, ar_ready = False, ar_analysis_ready = False, ar_maturity_applicable = False,
      ar_maturity_cutoff = None, ar_cooldown_until = None, ar_blocked_reason = None,
      ar_error_category = None, ar_error_message = None, ar_completed_at = None, ar_refresh_after = None,
      ar_queued_at = None, ar_upstream_status = None\<rparr>"

record raw_inspection =
  ir_status :: string
  ir_cache_key :: string
  ir_papers :: "arxiv_paper list"
  ir_papers_total :: int
  ir_total_results :: "int option"
  ir_coverage_status :: coverage_status
  ir_cache_hit :: bool
  ir_cache_readable :: bool
  ir_cooldown_until :: "datetime option"
  ir_blocked_reason :: "string option"
  ir_error_category :: "string option"
  ir_error_message :: "string option"
  ir_completed_at :: "datetime option"
  ir_upstream_status :: "int option"

definition plain_inspection :: "string \<Rightarrow> string \<Rightarrow> raw_inspection" where
  "plain_inspection status cache_key =
     \<lparr>ir_status = status, ir_cache_key = cache_key, ir_papers = [], ir_papers_total = 0,
      ir_total_results = None, ir_coverage_status = UNKNOWN, ir_cache_hit = False,
      ir_cache_readable = False, ir_cooldown_until = None, ir_blocked_reason = None,
      ir_error_category = None, ir_error_message = None, ir_completed_at = None, ir_upstream_status = None\<rparr>"

text \<open>The broker: its settings, SHA-256 for the cache keys, the lock timeout and the jitter of its limiter.\<close>

record broker =
  bk_settings :: huldra_settings
  bk_sha256 :: "string \<Rightarrow> string"
  bk_store_timeout :: seconds
  bk_jitter :: "seconds \<Rightarrow> seconds"

definition bk_limiter :: "broker \<Rightarrow> limiter" where
  "bk_limiter bk = \<lparr>lim_name = ''arxiv_legacy_api'', lim_lease = ''upstream_fetch'', lim_settings = bk_settings bk,
     lim_store_timeout = bk_store_timeout bk, lim_jitter = bk_jitter bk\<rparr>"

subsection \<open>Readiness\<close>

record readiness_verdict =
  rd_analysis_ready :: bool
  rd_mature :: bool
  rd_maturity_applicable :: bool
  rd_maturity_cutoff :: "datetime option"
  rd_blocked_reason :: "string option"

definition always_ready :: readiness_verdict where
  "always_ready = \<lparr>rd_analysis_ready = True, rd_mature = True, rd_maturity_applicable = False,
     rd_maturity_cutoff = None, rd_blocked_reason = None\<rparr>"

definition maturity_lag :: "arxiv_request \<Rightarrow> huldra_settings \<Rightarrow> int" where
  "maturity_lag request settings =
     (case req_maturity_lag_days request of None \<Rightarrow> maturity_lag_days settings | Some n \<Rightarrow> n)"

definition maturity_cutoff :: "int \<Rightarrow> datetime \<Rightarrow> datetime" where
  "maturity_cutoff lag now = utc_day_floor now - max 0 (lag - 1) * us_per_day"

text \<open>A cutoff before the year 1 is an OverflowError.\<close>

definition evaluate_readiness :: "arxiv_request \<Rightarrow> huldra_settings \<Rightarrow> readiness_verdict act" where
  "evaluate_readiness request settings =
     (case (submitted_start request, submitted_end request) of
        (Some _, Some until) \<Rightarrow>
          if maturity_lag request settings \<le> 0 then returnM always_ready
          else bindM utc_now (\<lambda>now.
            (let cutoff = maturity_cutoff (maturity_lag request settings) now; mature = until \<le> cutoff in
             if cutoff < 0 then raiseM (OtherExn ''OverflowError'')
             else returnM \<lparr>rd_analysis_ready = mature, rd_mature = mature, rd_maturity_applicable = True,
                    rd_maturity_cutoff = Some cutoff,
                    rd_blocked_reason = (if mature then None else Some ''immature_window'')\<rparr>))
      | _ \<Rightarrow> returnM always_ready)"

subsection \<open>Queue items\<close>

definition terminal_delayed :: "string option \<Rightarrow> bool" where
  "terminal_delayed category \<longleftrightarrow> category = Some ''cooldown'' \<or> category = Some ''rate_limited''"

definition queue_item_has_terminal_outcome :: "queue_item option \<Rightarrow> bool" where
  "queue_item_has_terminal_outcome item =
     (case item of None \<Rightarrow> False
      | Some i \<Rightarrow> \<not> pending (i_status i) \<or> i_status i = DELAYED \<and> terminal_delayed (i_error_category i))"

definition raw_status_from_queue_item :: "queue_item option \<Rightarrow> string option" where
  "raw_status_from_queue_item item =
     (case item of None \<Rightarrow> None
      | Some i \<Rightarrow>
          if i_status i = DELAYED \<and> i_error_category i = Some ''cooldown'' then Some ''skipped''
          else if i_status i = DELAYED \<and> i_error_category i = Some ''rate_limited'' then Some ''rate_limited''
          else Some (status_value (i_status i)))"

definition enqueue_work ::
  "broker \<Rightarrow> arxiv_request \<Rightarrow> string \<Rightarrow> string option \<Rightarrow> (queue_item \<times> bool) act" where
  "enqueue_work bk request cache_key budget_id =
     bindM utc_now (\<lambda>t. bindM uuid4 (\<lambda>uuid.
       tx_try (enqueue_request_for_work request cache_key (Some FETCH_MISSING) budget_id
         (request_timeout_seconds (bk_settings bk)) t uuid)))"

subsection \<open>What the cache gives\<close>

definition result_from_completed_cache ::
  "broker \<Rightarrow> string \<Rightarrow> cache_entry \<Rightarrow> bool \<Rightarrow> string option \<Rightarrow> arxiv_request \<Rightarrow> arxiv_result act" where
  "result_from_completed_cache bk cache_key entry cache_hit request_id request =
     bindM (readM (get_cached_papers cache_key)) (\<lambda>ps.
     bindM (evaluate_readiness request (bk_settings bk)) (\<lambda>rd.
     (let accepted = (readiness request = RAW_COMPLETED \<or> rd_analysis_ready rd);
          exposed = (if accepted then ps else [])
      in returnM (plain_result request (if accepted then ''ready'' else ''immature'') cache_key
           \<lparr>ar_request_id := request_id, ar_papers := exposed, ar_papers_total := int (length exposed),
            ar_cached_papers_total := int (length ps), ar_total_results := c_total_results entry,
            ar_coverage_status := c_coverage_status entry, ar_cache_hit := cache_hit,
            ar_cache_readable := True, ar_mature := rd_mature rd, ar_ready := accepted,
            ar_analysis_ready := rd_analysis_ready rd, ar_maturity_applicable := rd_maturity_applicable rd,
            ar_maturity_cutoff := rd_maturity_cutoff rd, ar_blocked_reason := rd_blocked_reason rd,
            ar_error_category := c_error_category entry, ar_error_message := c_error_message entry,
            ar_completed_at := c_completed_at entry, ar_refresh_after := c_refresh_after entry,
            ar_cooldown_until := c_cooldown_until entry, ar_upstream_status := c_upstream_status entry\<rparr>))))"

definition record_composed :: "string \<Rightarrow> arxiv_request \<Rightarrow> arxiv_paper list \<Rightarrow> unit act" where
  "record_composed cache_key request ps =
     bindM utc_now (\<lambda>requested. bindM utc_now (\<lambda>completed.
       tx_do (record_completed_cache_entry cache_key request ps (Some (int (length ps))) SLICE 200 0
         requested completed)))"

definition try_compose_cached_id_list :: "broker \<Rightarrow> arxiv_request \<Rightarrow> string \<Rightarrow> arxiv_result option act" where
  "try_compose_cached_id_list bk request cache_key =
     (if \<not> is_pure_id_list_request request then returnM None
      else (let ids = dedup (map normalize_arxiv_id (id_list request)) in
        bindM (readM (get_papers_by_ids ids)) (\<lambda>found.
        case lookup_all ids found of
          None \<Rightarrow> returnM None
        | Some ps \<Rightarrow>
            thenM (record_composed cache_key request ps)
            (bindM (read_completed_cache cache_key) (\<lambda>entry.
             case entry of
               None \<Rightarrow> raiseM (OtherExn ''AssertionError'')
             | Some c \<Rightarrow> bindM (result_from_completed_cache bk cache_key c True None request)
                          (\<lambda>r. returnM (Some r)))))))"

definition get_result :: "string \<Rightarrow> raw_inspection act" where
  "get_result cache_key =
     bindM (readM (get_cache_entry cache_key)) (\<lambda>found.
     case found of
       None \<Rightarrow> returnM (plain_inspection ''cache_miss'' cache_key)
     | Some entry \<Rightarrow>
         if c_status entry = ''completed'' then
           bindM (read_completed_cache cache_key) (\<lambda>readable.
           if readable = None then
             returnM (plain_inspection ''cache_unreadable'' cache_key
               \<lparr>ir_cache_hit := True, ir_cache_readable := False, ir_total_results := c_total_results entry,
                ir_coverage_status := c_coverage_status entry, ir_error_category := c_error_category entry,
                ir_error_message := c_error_message entry, ir_completed_at := c_completed_at entry,
                ir_cooldown_until := c_cooldown_until entry, ir_upstream_status := c_upstream_status entry\<rparr>)
           else bindM (readM (get_cached_papers cache_key)) (\<lambda>ps.
             returnM (plain_inspection ''ready'' cache_key
               \<lparr>ir_papers := ps, ir_papers_total := int (length ps), ir_total_results := c_total_results entry,
                ir_coverage_status := c_coverage_status entry, ir_cache_hit := True, ir_cache_readable := True,
                ir_error_category := c_error_category entry, ir_error_message := c_error_message entry,
                ir_completed_at := c_completed_at entry, ir_cooldown_until := c_cooldown_until entry,
                ir_upstream_status := c_upstream_status entry\<rparr>)))
         else
           returnM (plain_inspection (if c_status entry = ''rate_limited'' then ''cooling_down'' else c_status entry)
                      cache_key
             \<lparr>ir_cooldown_until := c_cooldown_until entry, ir_error_category := c_error_category entry,
              ir_error_message := c_error_message entry, ir_upstream_status := c_upstream_status entry\<rparr>))"

definition result_from_terminal_raw_state ::
  "arxiv_request \<Rightarrow> raw_inspection \<Rightarrow> string \<Rightarrow> queue_item option \<Rightarrow> arxiv_result" where
  "result_from_terminal_raw_state request raw request_id item =
     (let failed = (map_option i_status item = Some FAILED);
          cooling = (case item of None \<Rightarrow> False
                     | Some i \<Rightarrow> i_status i = DELAYED \<and> terminal_delayed (i_error_category i))
      in plain_result request
           (if failed then ''failed'' else if cooling then ''cooling_down'' else ir_status raw) (ir_cache_key raw)
         \<lparr>ar_request_id := Some request_id, ar_papers := ir_papers raw, ar_papers_total := ir_papers_total raw,
          ar_total_results := ir_total_results raw, ar_coverage_status := ir_coverage_status raw,
          ar_cache_hit := ir_cache_hit raw, ar_cache_readable := ir_cache_readable raw,
          ar_cooldown_until := coalesce (Option.bind item i_next_attempt_at) (ir_cooldown_until raw),
          ar_blocked_reason := (if cooling then Option.bind item i_error_category else ir_blocked_reason raw),
          ar_error_category := or_else (Option.bind item i_error_category) (ir_error_category raw),
          ar_error_message := or_else (Option.bind item i_error_message) (ir_error_message raw),
          ar_completed_at := ir_completed_at raw, ar_upstream_status := ir_upstream_status raw\<rparr>)"

subsection \<open>Waiting\<close>

definition terminal_answer :: "arxiv_request \<Rightarrow> string \<Rightarrow> string \<Rightarrow> arxiv_result option act" where
  "terminal_answer request cache_key request_id =
     bindM (readM (get_queue_item request_id)) (\<lambda>item.
     if item = None \<or> queue_item_has_terminal_outcome item
     then bindM (get_result cache_key) (\<lambda>raw.
       returnM (Some (result_from_terminal_raw_state request raw request_id item)))
     else returnM None)"

definition poll_answer :: "broker \<Rightarrow> arxiv_request \<Rightarrow> string \<Rightarrow> string \<Rightarrow> arxiv_result option act" where
  "poll_answer bk request cache_key request_id =
     bindM (readM (get_cache_entry cache_key)) (\<lambda>entry.
     case map_option c_status entry of
       None \<Rightarrow> returnM None
     | Some status \<Rightarrow>
         if status = ''completed'' then
           bindM (read_completed_cache cache_key) (\<lambda>readable.
           case readable of
             Some c \<Rightarrow> bindM (result_from_completed_cache bk cache_key c True (Some request_id) request)
                         (\<lambda>r. returnM (Some r))
           | None \<Rightarrow> terminal_answer request cache_key request_id)
         else if status = ''failed'' \<or> status = ''rate_limited'' then terminal_answer request cache_key request_id
         else returnM None)"

definition wait_step :: "broker \<Rightarrow> arxiv_request \<Rightarrow> string \<Rightarrow> string \<Rightarrow> seconds \<Rightarrow> (arxiv_result + unit) act" where
  "wait_step bk request cache_key request_id timeout =
     bindM (poll_answer bk request cache_key request_id) (\<lambda>answer.
     case answer of
       Some r \<Rightarrow> returnM (Inl r)
     | None \<Rightarrow> bindM (sleepM (min (1/10) (max (1/100) (timeout / 50)))) (\<lambda>_. returnM (Inr ())))"

definition timeout_result :: "arxiv_request \<Rightarrow> string \<Rightarrow> string \<Rightarrow> arxiv_result" where
  "timeout_result request cache_key request_id =
     plain_result request ''timeout'' cache_key\<lparr>ar_request_id := Some request_id, ar_blocked_reason := Some ''timeout''\<rparr>"

definition wait_until_ready :: "broker \<Rightarrow> arxiv_request \<Rightarrow> string \<Rightarrow> string \<Rightarrow> arxiv_result run" where
  "wait_until_ready bk request cache_key request_id =
     (let timeout = timeout_or (timeout_seconds request) (request_timeout_seconds (bk_settings bk)) in
      bind_run (lift_run monotonic) (\<lambda>t.
      bind_run (poll_until (t + timeout) (\<lambda>_. wait_step bk request cache_key request_id timeout) ())
        (\<lambda>ended. lift_run (returnM (case ended of
           Inl r \<Rightarrow> r | Inr _ \<Rightarrow> timeout_result request cache_key request_id)))))"

subsection \<open>ensure\<close>

definition serve_cached :: "broker \<Rightarrow> arxiv_request \<Rightarrow> string \<Rightarrow> cache_entry \<Rightarrow> arxiv_result act" where
  "serve_cached bk request cache_key cached =
     bindM (result_from_completed_cache bk cache_key cached True None request) (\<lambda>result.
     if req_cache_policy request = STALE_WHILE_REVALIDATE then
       bindM utc_now (\<lambda>t. bindM uuid4 (\<lambda>uuid.
       bindM (tx_try (enqueue_refresh_if_due request cache_key (request_timeout_seconds (bk_settings bk)) t uuid))
         (\<lambda>(item, joined).
         case item of
           None \<Rightarrow> returnM result
         | Some i \<Rightarrow> bindM (readM (get_cache_entry cache_key)) (\<lambda>reserved.
             returnM (result\<lparr>ar_stale := True, ar_request_id := Some (i_request_id i),
               ar_queued_at := Some (i_created_at i),
               ar_refresh_after := (case reserved of None \<Rightarrow> ar_refresh_after result
                                    | Some c \<Rightarrow> c_refresh_after c)\<rparr>)))))
     else returnM result)"

text \<open>The answer, or the request id to wait for.\<close>

definition answer_queued :: "broker \<Rightarrow> arxiv_request \<Rightarrow> string \<Rightarrow> (arxiv_result + string) act" where
  "answer_queued bk request cache_key =
     bindM (enqueue_work bk request cache_key None) (\<lambda>(item, joined).
     bindM (readM (get_rate_state ''arxiv_legacy_api'')) (\<lambda>rate.
     bindM (case rs_cooldown_until rate of None \<Rightarrow> returnM False
            | Some t \<Rightarrow> bindM utc_now (\<lambda>now. returnM (t > now))) (\<lambda>cooling.
     if cooling then
       returnM (Inl (plain_result request ''cooling_down'' cache_key
         \<lparr>ar_request_id := Some (i_request_id item), ar_queued_at := Some (i_created_at item),
          ar_cooldown_until := rs_cooldown_until rate, ar_blocked_reason := Some ''cooldown''\<rparr>))
     else if req_cache_policy request = WAIT_UNTIL_READY then returnM (Inr (i_request_id item))
     else returnM (Inl (plain_result request ''queued'' cache_key
         \<lparr>ar_request_id := Some (i_request_id item), ar_queued_at := Some (i_created_at item)\<rparr>)))))"

definition answer_or_wait :: "broker \<Rightarrow> arxiv_request \<Rightarrow> string \<Rightarrow> (arxiv_result + string) act" where
  "answer_or_wait bk request cache_key =
     bindM (read_completed_cache cache_key) (\<lambda>cached.
     case cached of
       Some c \<Rightarrow> bindM (serve_cached bk request cache_key c) (\<lambda>r. returnM (Inl r))
     | None \<Rightarrow>
         bindM (try_compose_cached_id_list bk request cache_key) (\<lambda>composed.
         case composed of
           Some r \<Rightarrow> returnM (Inl r)
         | None \<Rightarrow>
             if req_cache_policy request = CACHE_ONLY then
               returnM (Inl (plain_result request ''cache_miss'' cache_key
                 \<lparr>ar_blocked_reason := Some ''cache_miss''\<rparr>))
             else answer_queued bk request cache_key))"

definition ensure :: "broker \<Rightarrow> arxiv_request \<Rightarrow> arxiv_result run" where
  "ensure bk request =
     (let cache_key = request_cache_key (bk_sha256 bk) request in
      bind_run (lift_run (answer_or_wait bk request cache_key)) (\<lambda>answer.
      case answer of
        Inl r \<Rightarrow> lift_run (returnM r)
      | Inr request_id \<Rightarrow> wait_until_ready bk request cache_key request_id))"

end
