(* ===== verification/Huldra_Runs.thy ===== *)
theory Huldra_Runs
  imports Huldra_Serve Huldra_Passes
begin

text \<open>
  Rules for runs with polling loops: the rely logic of Huldra_Programs for the runs that return, and
  the return itself when the monotonic clock goes past every bound.
\<close>

subsection \<open>Silence\<close>

lemma fetching_still: "fetching n P m \<Longrightarrow> still (snd (m w)) = still w"
  by (simp add: fetching_def)

lemma fetching_serve1 [simp, intro]:
  "fetching 0 P (evaluate_readiness q settings)" "fetching 0 P (enqueue_work bk q k b)"
  "fetching 0 P (record_composed k q ps)"
  by (auto simp: evaluate_readiness_def enqueue_work_def record_composed_def Let_def intro!: no_fetch split: option.split)

lemma fetching_serve2 [simp, intro]:
  "fetching 0 P (result_from_completed_cache bk k e h i q)" "fetching 0 P (get_result k)"
  by (auto simp: result_from_completed_cache_def get_result_def Let_def intro!: no_fetch split: option.split)

lemma fetching_serve3 [simp, intro]:
  "fetching 0 P (try_compose_cached_id_list bk q k)" "fetching 0 P (terminal_answer q k i)"
  "fetching 0 P (serve_cached bk q k c)" "fetching 0 P (answer_queued bk q k)"
  by (auto simp: try_compose_cached_id_list_def terminal_answer_def serve_cached_def answer_queued_def Let_def
      intro!: no_fetch split: option.split)

lemma fetching_serve4 [simp, intro]:
  "fetching 0 P (poll_answer bk q k i)" "fetching 0 P (answer_or_wait bk q k)"
  by (auto simp: poll_answer_def answer_or_wait_def intro!: no_fetch split: option.split)

lemma fetching_wait_step [simp, intro]: "fetching 0 P (wait_step bk q k i t)"
  by (auto simp: wait_step_def intro!: no_fetch split: option.split)

subsection \<open>The loop returns\<close>

lemma poll_until_unfold:
  "poll_until deadline body s w =
     (if mono_clock w (mono_reads w) < deadline
      then (case body s (w\<lparr>mono_reads := Suc (mono_reads w)\<rparr>) of
          (Inl e, w2) \<Rightarrow> Some (Inl e, w2)
        | (Inr (Inl r), w2) \<Rightarrow> Some (Inr (Inl r), w2)
        | (Inr (Inr s'), w2) \<Rightarrow> poll_until deadline body s' w2)
      else Some (Inr (Inr s), w\<lparr>mono_reads := Suc (mono_reads w)\<rparr>))"
  by (subst poll_until.simps) (simp add: monotonic_def)

lemma poll_until_returns:
  assumes "\<And>s w. still (snd (body s w)) = still w" "mono (mono_clock w)" "deadline \<le> mono_clock w n"
  shows "\<exists>res. poll_until deadline body s w = Some res"
  using assms(2,3)
proof (induction "Suc n - mono_reads w" arbitrary: s w rule: less_induct)
  case less
  show ?case
  proof (cases "mono_clock w (mono_reads w) < deadline")
    case False
    then show ?thesis by (subst poll_until_unfold) simp
  next
    case True
    let ?w1 = "w\<lparr>mono_reads := Suc (mono_reads w)\<rparr>"
    have "mono_reads w < n"
      using True less.prems monoD [OF less.prems(1), of n "mono_reads w"] by (meson leI less_le_trans not_le)
    obtain v w2 where b: "body s ?w1 = (v, w2)" by fastforce
    have w2: "mono_clock w2 = mono_clock w" "mono_reads w2 = Suc (mono_reads w)"
      using assms(1) [of s ?w1] unfolding b by (simp_all add: still_def env_def)
    have again: "\<exists>res. poll_until deadline body s' w2 = Some res" for s'
      using \<open>mono_reads w < n\<close> less.prems by (intro less.hyps) (simp_all add: w2)
    show ?thesis
      using True again by (subst poll_until_unfold) (simp add: b split: sum.split)
  qed
qed

subsection \<open>Triples for runs\<close>

definition run_triple ::
  "rely \<Rightarrow> (arxiv_request \<times> db \<Rightarrow> bool) \<Rightarrow> (db \<Rightarrow> bool) \<Rightarrow> 'a run \<Rightarrow> ('a \<Rightarrow> db \<Rightarrow> bool)
   \<Rightarrow> (exn \<Rightarrow> db \<Rightarrow> bool) \<Rightarrow> bool" where
  "run_triple R G P m Q E \<longleftrightarrow> (\<forall>w r w'. runs_under R w \<longrightarrow> P (store w) \<longrightarrow> m w = Some (r, w') \<longrightarrow>
     env w' = env w \<and> (\<exists>rs. fetches w' = fetches w @ rs \<and> list_all G rs) \<and>
     (case r of Inl e \<Rightarrow> E e (store w') | Inr x \<Rightarrow> Q x (store w')))"

lemma run_tripleD:
  assumes "run_triple R G P m Q E" "runs_under R w" "P (store w)" "m w = Some (r, w')"
  shows "env w' = env w" "\<exists>rs. fetches w' = fetches w @ rs \<and> list_all G rs"
    "case r of Inl e \<Rightarrow> E e (store w') | Inr x \<Rightarrow> Q x (store w')"
  using assms unfolding run_triple_def by blast+

lemma run_lift: "triple R G P m Q E \<Longrightarrow> run_triple R G P (lift_run m) Q E"
  unfolding run_triple_def lift_run_def using triple_at [of R G P m Q E] by (metis option.inject)

lemma run_return: "(\<And>d. P d \<Longrightarrow> Q x d) \<Longrightarrow> run_triple R G P (lift_run (returnM x)) Q E"
  by (rule run_lift [OF triple_return])

lemma run_bind:
  assumes "run_triple R G P m Q' E" "\<And>x. run_triple R G (Q' x) (k x) Q E"
  shows "run_triple R G P (bind_run m k) Q E"
  unfolding run_triple_def
proof (intro allI impI)
  fix w r w' assume w: "runs_under R w" "P (store w)" "bind_run m k w = Some (r, w')"
  from w(3) obtain s w1 where m: "m w = Some (s, w1)" by (auto simp: bind_run_def split: option.splits)
  note 1 = run_tripleD [OF assms(1) w(1,2) m]
  show "env w' = env w \<and> (\<exists>rs. fetches w' = fetches w @ rs \<and> list_all G rs) \<and>
      (case r of Inl e \<Rightarrow> E e (store w') | Inr x \<Rightarrow> Q x (store w'))"
  proof (cases s)
    case (Inl e)
    with m 1 w(3) show ?thesis by (auto simp: bind_run_def)
  next
    case (Inr x)
    with m w(3) have k: "k x w1 = Some (r, w')" by (simp add: bind_run_def)
    have "runs_under R w1" "Q' x (store w1)" using 1 w(1) Inr runs_under_env [of w1 w] by simp_all
    from run_tripleD [OF assms(2) this k] 1 show ?thesis by auto
  qed
qed

lemma run_pre: "run_triple R G P m Q E \<Longrightarrow> (\<And>d. P' d \<Longrightarrow> P d) \<Longrightarrow> run_triple R G P' m Q E"
  unfolding run_triple_def by blast

lemma run_post: "run_triple R G P m Q E \<Longrightarrow> (\<And>x d. Q x d \<Longrightarrow> Q' x d) \<Longrightarrow> run_triple R G P m Q' E"
  unfolding run_triple_def by (fastforce split: sum.splits)

abbreviation loop_post :: "('r \<Rightarrow> db \<Rightarrow> bool) \<Rightarrow> ('s \<Rightarrow> db \<Rightarrow> bool) \<Rightarrow> 'r + 's \<Rightarrow> db \<Rightarrow> bool" where
  "loop_post Q I v \<equiv> (case v of Inl r \<Rightarrow> Q r | Inr s \<Rightarrow> I s)"

definition run_ends ::
  "(arxiv_request \<times> db \<Rightarrow> bool) \<Rightarrow> ('a \<Rightarrow> db \<Rightarrow> bool) \<Rightarrow> (exn \<Rightarrow> db \<Rightarrow> bool) \<Rightarrow> world
   \<Rightarrow> (exn + 'a) \<times> world \<Rightarrow> bool" where
  "run_ends G Q E w out \<longleftrightarrow> env (snd out) = env w \<and>
     (\<exists>rs. fetches (snd out) = fetches w @ rs \<and> list_all G rs) \<and>
     (case fst out of Inl e \<Rightarrow> E e (store (snd out)) | Inr x \<Rightarrow> Q x (store (snd out)))"

lemma run_ends_before:
  assumes "run_ends G Q E w1 out" "env w1 = env w" "\<exists>rs. fetches w1 = fetches w @ rs \<and> list_all G rs"
  shows "run_ends G Q E w out"
  using assms by (auto simp: run_ends_def)

lemma poll_until_ends:
  assumes "poll_until deadline body s w = Some out"
  shows "(\<forall>s. triple R G (I s) (body s) (loop_post Q I) E) \<longrightarrow> runs_under R w \<longrightarrow> I s (store w) \<longrightarrow>
    run_ends G (loop_post Q I) E w out"
proof (rule poll_until.raw_induct [OF _ assms, where P = "\<lambda>deadline body s w out.
    (\<forall>s. triple R G (I s) (body s) (loop_post Q I) E) \<longrightarrow> runs_under R w \<longrightarrow> I s (store w) \<longrightarrow>
    run_ends G (loop_post Q I) E w out"])
  fix loop deadline body s w out
  assume IH: "\<And>deadline body s w out. loop deadline body s w = Some out \<Longrightarrow>
      (\<forall>s. triple R G (I s) (body s) (loop_post Q I) E) \<longrightarrow> runs_under R w \<longrightarrow> I s (store w) \<longrightarrow>
      run_ends G (loop_post Q I) E w out"
    and run: "(case monotonic w of (Inl e, w1) \<Rightarrow> Some (Inl e, w1)
      | (Inr t, w1) \<Rightarrow>
          if t < deadline
          then case body s w1 of (Inl e, w2) \<Rightarrow> Some (Inl e, w2)
               | (Inr (Inl r), w2) \<Rightarrow> Some (Inr (Inl r), w2)
               | (Inr (Inr s'), w2) \<Rightarrow> loop deadline body s' w2
          else Some (Inr (Inr s), w1)) = Some out"
  let ?w1 = "w\<lparr>mono_reads := Suc (mono_reads w)\<rparr>"
  show "(\<forall>s. triple R G (I s) (body s) (loop_post Q I) E) \<longrightarrow> runs_under R w \<longrightarrow> I s (store w) \<longrightarrow>
      run_ends G (loop_post Q I) E w out"
  proof (intro impI)
    assume body: "\<forall>s. triple R G (I s) (body s) (loop_post Q I) E" and R: "runs_under R w" and I: "I s (store w)"
    have w1: "env ?w1 = env w" by (simp add: env_def)
    obtain v w2 where b: "body s ?w1 = (v, w2)" by fastforce
    have R1: "runs_under R ?w1" using R runs_under_env [OF w1] by simp
    have I1: "I s (store ?w1)" using I by simp
    from body have "triple R G (I s) (body s) (loop_post Q I) E" by blast
    note t = triple_at [OF this R1 I1 b]
    have R2: "runs_under R w2" using R1 t(1) runs_under_env [of w2 ?w1] by simp
    show "run_ends G (loop_post Q I) E w out"
    proof (cases "mono_clock w (mono_reads w) < deadline")
      case False
      with run I show ?thesis by (auto simp: monotonic_def run_ends_def env_def)
    next
      case True
      have stop: "run_ends G (loop_post Q I) E w (v, w2)" if "\<forall>s'. v \<noteq> Inr (Inr s')"
        using t w1 by (simp add: run_ends_def fst_conv snd_conv cong: sum.case_cong)
      show ?thesis
      proof (cases "\<exists>s'. v = Inr (Inr s')")
        case False
        then have "out = (v, w2)" using run True b by (auto simp: monotonic_def split: sum.splits)
        with stop False show ?thesis by blast
      next
        case again: True
        then obtain s' where v: "v = Inr (Inr s')" by blast
        then have "loop deadline body s' w2 = Some out" using run True b by (simp add: monotonic_def)
        from IH [OF this] body R2 t(3) v have "run_ends G (loop_post Q I) E w2 out" by simp
        then show ?thesis by (rule run_ends_before) (use t(1,2) w1 in auto)
      qed
    qed
  qed
qed

lemma run_poll:
  assumes "\<And>s. triple R G (I s) (body s) (loop_post Q I) E"
  shows "run_triple R G (I s) (poll_until deadline body s) (loop_post Q I) E"
  unfolding run_triple_def
proof (intro allI impI)
  fix w r w' assume "runs_under R w" "I s (store w)" "poll_until deadline body s w = Some (r, w')"
  with poll_until_ends [of deadline body s w "(r, w')" R G I Q E] assms
  show "env w' = env w \<and> (\<exists>rs. fetches w' = fetches w @ rs \<and> list_all G rs) \<and>
      (case r of Inl e \<Rightarrow> E e (store w') | Inr x \<Rightarrow> loop_post Q I x (store w'))"
    unfolding run_ends_def fst_conv snd_conv by blast
qed

subsection \<open>Runs that return\<close>

text \<open>The monotonic clock does not run backwards and passes every bound.\<close>

definition clock_goes_on :: "world \<Rightarrow> bool" where
  "clock_goes_on w \<longleftrightarrow> mono (mono_clock w) \<and> (\<forall>x. \<exists>n. x \<le> mono_clock w n)"

definition regular :: "'a act \<Rightarrow> bool" where
  "regular m \<longleftrightarrow> (\<forall>w. env (snd (m w)) = env w \<and> (\<exists>rs. fetches (snd (m w)) = fetches w @ rs))"

definition returning :: "'a run \<Rightarrow> bool" where
  "returning m \<longleftrightarrow> (\<forall>w. clock_goes_on w \<longrightarrow> (\<exists>r w'. m w = Some (r, w') \<and> mono_clock w' = mono_clock w))"

lemma clock_goes_on_same: "mono_clock w' = mono_clock w \<Longrightarrow> clock_goes_on w' = clock_goes_on w"
  by (simp add: clock_goes_on_def)

lemma regular_fetching: "fetching n P m \<Longrightarrow> regular m"
  unfolding regular_def fetching_def still_def by blast

lemma regular_monotonic [simp, intro]: "regular monotonic"
  by (simp add: regular_def monotonic_def env_def)

lemma regular_bind:
  assumes "regular m" "\<And>x. regular (k x)"
  shows "regular (bindM m k)"
  unfolding regular_def
proof
  fix w
  obtain r w1 where m: "m w = (r, w1)" by fastforce
  have 1: "env w1 = env w" "\<exists>rs. fetches w1 = fetches w @ rs" using assms(1) m unfolding regular_def by (metis snd_conv)+
  show "env (snd (bindM m k w)) = env w \<and> (\<exists>rs. fetches (snd (bindM m k w)) = fetches w @ rs)"
  proof (cases r)
    case (Inl e)
    with m 1 show ?thesis by (simp add: bindM_def)
  next
    case (Inr x)
    from assms(2) [of x] have "env (snd (k x w1)) = env w1 \<and> (\<exists>rs. fetches (snd (k x w1)) = fetches w1 @ rs)"
      unfolding regular_def by blast
    with m 1 Inr show ?thesis by (auto simp: bindM_def)
  qed
qed

lemma triple_regular: "regular m \<Longrightarrow> triple R (\<lambda>_. True) P m (\<lambda>_ _. True) (\<lambda>_ _. True)"
  unfolding triple_def regular_def by (simp add: list_all_iff split: sum.split)

lemma regular_then: "regular m \<Longrightarrow> regular k \<Longrightarrow> regular (thenM m k)"
  unfolding thenM_def by (rule regular_bind)

lemma returning_lift: "regular m \<Longrightarrow> returning (lift_run m)"
  by (auto simp: returning_def lift_run_def regular_def env_def) (metis prod.collapse)

lemma returning_bind:
  assumes "returning m" "\<And>x. returning (k x)"
  shows "returning (bind_run m k)"
  unfolding returning_def
proof (intro allI impI)
  fix w assume w: "clock_goes_on w"
  with assms(1) obtain r w1 where m: "m w = Some (r, w1)" "mono_clock w1 = mono_clock w"
    unfolding returning_def by blast
  show "\<exists>r w'. bind_run m k w = Some (r, w') \<and> mono_clock w' = mono_clock w"
  proof (cases r)
    case (Inl e)
    with m show ?thesis by (simp add: bind_run_def)
  next
    case (Inr x)
    from assms(2) w m(2) obtain q w2 where "k x w1 = Some (q, w2)" "mono_clock w2 = mono_clock w1"
      unfolding returning_def using clock_goes_on_same by metis
    with m Inr show ?thesis by (simp add: bind_run_def)
  qed
qed

lemma poll_until_keeps:
  assumes "poll_until deadline body s w = Some out"
  shows "(\<forall>s w. still (snd (body s w)) = still w) \<longrightarrow> mono_clock (snd out) = mono_clock w"
proof (rule poll_until.raw_induct [OF _ assms, where P = "\<lambda>deadline body s w out.
    (\<forall>s w. still (snd (body s w)) = still w) \<longrightarrow> mono_clock (snd out) = mono_clock w"])
  fix loop deadline body s w out
  assume IH: "\<And>deadline body s w out. loop deadline body s w = Some out \<Longrightarrow>
      (\<forall>s w. still (snd (body s w)) = still w) \<longrightarrow> mono_clock (snd out) = mono_clock w"
    and run: "(case monotonic w of (Inl e, w1) \<Rightarrow> Some (Inl e, w1)
      | (Inr t, w1) \<Rightarrow>
          if t < deadline
          then case body s w1 of (Inl e, w2) \<Rightarrow> Some (Inl e, w2)
               | (Inr (Inl r), w2) \<Rightarrow> Some (Inr (Inl r), w2)
               | (Inr (Inr s'), w2) \<Rightarrow> loop deadline body s' w2
          else Some (Inr (Inr s), w1)) = Some out"
  show "(\<forall>s w. still (snd (body s w)) = still w) \<longrightarrow> mono_clock (snd out) = mono_clock w"
  proof
    assume body: "\<forall>s w. still (snd (body s w)) = still w"
    let ?w1 = "w\<lparr>mono_reads := Suc (mono_reads w)\<rparr>"
    obtain v w2 where b: "body s ?w1 = (v, w2)" by fastforce
    have w2: "mono_clock w2 = mono_clock w"
      using body [rule_format, of s ?w1] unfolding b by (simp add: still_def env_def)
    show "mono_clock (snd out) = mono_clock w"
      using run body IH w2 by (auto simp: monotonic_def b split: if_splits sum.splits)
  qed
qed

lemma returning_poll:
  assumes "\<And>s. fetching n P (body s)"
  shows "returning (poll_until deadline body s)"
  unfolding returning_def
proof (intro allI impI)
  fix w assume "clock_goes_on w"
  then obtain m where m: "mono (mono_clock w)" "deadline \<le> mono_clock w m" unfolding clock_goes_on_def by blast
  have body: "still (snd (body s w)) = still w" for s w by (rule fetching_still [OF assms])
  from poll_until_returns [of body w deadline m s, OF body m] obtain out where "poll_until deadline body s w = Some out" by blast
  with poll_until_keeps [OF this] body show "\<exists>r w'. poll_until deadline body s w = Some (r, w') \<and> mono_clock w' = mono_clock w"
    by (cases out) auto
qed

end
