(* ===== verification/Huldra_Windows.thy ===== *)
theory Huldra_Windows
  imports Huldra_Runs
begin

text \<open>
  Draining maintenance targets and completing submitted-date windows (huldra/broker.py, from
  _drain_complete_window_targets to _target_terminal). A target is a value that the steps hand on;
  the code updates it in place, and no two names of one step denote the same target.
\<close>

subsection \<open>Targets, budgets and results\<close>

text \<open>Every target the broker makes has a sync job, so its id is not optional here.\<close>

record maintenance_target =
  mt_request :: arxiv_request
  mt_cache_key :: string
  mt_sync_job_id :: string
  mt_request_id :: "string option"
  mt_joined :: bool
  mt_initial_hit :: bool
  mt_coverage :: coverage_status
  mt_result_count :: int
  mt_total_results :: "int option"
  mt_pages_total :: int
  mt_pages_completed :: int
  mt_raw_status :: "string option"
  mt_error_category :: "string option"
  mt_error_message :: "string option"

definition new_target :: "arxiv_request \<Rightarrow> string \<Rightarrow> string \<Rightarrow> maintenance_target" where
  "new_target request cache_key sync_job_id =
     \<lparr>mt_request = request, mt_cache_key = cache_key, mt_sync_job_id = sync_job_id, mt_request_id = None,
      mt_joined = False, mt_initial_hit = False, mt_coverage = UNKNOWN, mt_result_count = 0,
      mt_total_results = None, mt_pages_total = 1, mt_pages_completed = 0, mt_raw_status = None,
      mt_error_category = None, mt_error_message = None\<rparr>"

text \<open>
  _MaintenanceBudget. Its reserved_requests is written before it is read wherever it is read, so it
  is a local value of the step that plans a window.
\<close>

record maintenance_budget =
  mb_id :: string
  mb_max_pages :: int
  mb_max_requests :: int
  mb_deadline :: seconds

record request_report =
  hr_sync_job_id :: string
  hr_cache_key :: string
  hr_request_id :: "string option"
  hr_search_query :: "string option"
  hr_submitted_start :: "datetime option"
  hr_submitted_end :: "datetime option"
  hr_raw_cache_status :: string
  hr_serving_status :: string
  hr_coverage_status :: coverage_status
  hr_cache_hit :: bool
  hr_joined_existing_queue :: bool
  hr_upstream_status :: "int option"
  hr_cooldown_until :: "datetime option"
  hr_error_category :: "string option"
  hr_error_message :: "string option"
  hr_papers_total :: int
  hr_result_count :: int
  hr_total_results :: "int option"
  hr_pages_total :: int
  hr_pages_completed_total :: int

record maintenance_result =
  mr_requested_total :: int
  mr_queued_total :: int
  mr_cache_miss_total :: int
  mr_cache_hit_total :: int
  mr_completed_windows_total :: int
  mr_completed_slices_total :: int
  mr_complete_windows_total :: int
  mr_partial_windows_total :: int
  mr_overflow_windows_total :: int
  mr_upstream_requests_total :: int
  mr_upstream_429_total :: int
  mr_retry_after_seconds :: "int option"
  mr_cooldown_active_total :: int
  mr_skipped_windows_total :: int
  mr_rate_limited_windows_total :: int
  mr_failed_windows_total :: int
  mr_budget_exhausted_windows_total :: int
  mr_papers_total :: int
  mr_cooldown_active :: bool
  mr_cooldown_until :: "datetime option"
  mr_requests :: "request_report list"

subsection \<open>Inline passes of a worker\<close>

definition inline_worker :: "broker \<Rightarrow> string \<Rightarrow> worker" where
  "inline_worker bk token = \<lparr>wk_name = ''default'', wk_token = token, wk_settings = bk_settings bk,
     wk_limiter = bk_limiter bk, wk_store_timeout = bk_store_timeout bk\<rparr>"

definition inline_upstream_statuses :: "string list" where
  "inline_upstream_statuses = [''completed'', ''rate_limited'', ''transient_failure'', ''failed'']"

definition count_inline_worker_result :: "maintenance_result \<Rightarrow> pass_result \<Rightarrow> maintenance_result" where
  "count_inline_worker_result result pass =
     (let r1 = (if wr_status pass \<in> set inline_upstream_statuses
                then result\<lparr>mr_upstream_requests_total := mr_upstream_requests_total result + 1\<rparr> else result)
      in if wr_status pass = ''rate_limited''
         then r1\<lparr>mr_upstream_429_total := mr_upstream_429_total r1 + 1,
                 mr_retry_after_seconds := wr_retry_after_seconds pass\<rparr>
         else r1)"

definition item_of :: "maintenance_target \<Rightarrow> queue_item option act" where
  "item_of target = (case mt_request_id target of None \<Rightarrow> returnM None | Some i \<Rightarrow> readM (get_queue_item i))"

text \<open>failed, rate_limited: or what the queue item says; a pending item that is due is not terminal.\<close>

definition outcome_of :: "cache_entry option \<Rightarrow> queue_item option \<Rightarrow> bool" where
  "outcome_of entry item \<longleftrightarrow>
     (case entry of Some c \<Rightarrow> c_status c = ''failed'' \<or> c_status c = ''rate_limited'' | None \<Rightarrow> False) \<or>
     queue_item_has_terminal_outcome item"

definition target_terminal :: "maintenance_target \<Rightarrow> bool act" where
  "target_terminal target =
     bindM (read_completed_cache (mt_cache_key target)) (\<lambda>readable.
     if readable \<noteq> None then returnM True
     else
       bindM (readM (get_cache_entry (mt_cache_key target))) (\<lambda>entry.
       bindM (item_of target) (\<lambda>item.
       case item of
         Some i \<Rightarrow>
           if pending (i_status i) then
             if i_status i \<noteq> DELAYED then returnM False
             else (case i_next_attempt_at i of
                 None \<Rightarrow> returnM False
               | Some t \<Rightarrow> bindM utc_now (\<lambda>now.
                   if t \<le> now then returnM False else returnM (outcome_of entry item)))
           else returnM (outcome_of entry item)
       | None \<Rightarrow> returnM (outcome_of entry item))))"

fun all_terminal :: "maintenance_target list \<Rightarrow> bool act" where
  "all_terminal [] = returnM True"
| "all_terminal (t # ts) = bindM (target_terminal t) (\<lambda>b. if b then all_terminal ts else returnM False)"

subsection \<open>Draining\<close>

definition drain_turn ::
  "broker \<Rightarrow> maintenance_target list \<Rightarrow> seconds \<Rightarrow> maintenance_result
   \<Rightarrow> (maintenance_result + maintenance_result) act" where
  "drain_turn bk targets timeout result =
     bindM (all_terminal targets) (\<lambda>ended.
     if ended then returnM (Inl result)
     else
       bindM uuid4 (\<lambda>token.
       bindM (run_once (inline_worker bk token) (Some (map mt_cache_key targets))) (\<lambda>pass.
       bindM (if wr_status pass = ''idle'' then sleepM (min (1/20) (max (1/100) (timeout / 50))) else returnM ()) (\<lambda>_.
       returnM (Inr (count_inline_worker_result result pass))))))"

definition drain_until ::
  "broker \<Rightarrow> maintenance_target list \<Rightarrow> seconds \<Rightarrow> seconds \<Rightarrow> maintenance_result \<Rightarrow> maintenance_result run" where
  "drain_until bk targets deadline timeout result =
     bind_run (poll_until deadline (drain_turn bk targets timeout) result)
       (\<lambda>ended. lift_run (returnM (case ended of Inl r \<Rightarrow> r | Inr r \<Rightarrow> r)))"

definition upstream_expired :: string where
  "upstream_expired = ''maintenance deadline expired before upstream fetch''"

definition expire_target :: "maintenance_target \<Rightarrow> maintenance_target" where
  "expire_target t = t\<lparr>mt_raw_status := Some ''partial'', mt_error_category := Some ''deadline_budget_exceeded'',
     mt_error_message := Some upstream_expired\<rparr>"

fun mark_expired :: "maintenance_target list \<Rightarrow> maintenance_target list act" where
  "mark_expired [] = returnM []"
| "mark_expired (t # ts) = bindM (target_terminal t) (\<lambda>b. bindM (mark_expired ts) (\<lambda>us.
     returnM ((if b then t else expire_target t) # us)))"

definition fail_budget_items :: "string \<Rightarrow> string \<Rightarrow> string \<Rightarrow> unit act" where
  "fail_budget_items budget_id category msg =
     bindM utc_now (\<lambda>t. bindM (tx (fail_active_upstream_budget_items budget_id category msg t)) (\<lambda>_. returnM ()))"

definition drain_targets_until_deadline ::
  "broker \<Rightarrow> maintenance_target list \<Rightarrow> maintenance_result \<Rightarrow> seconds \<Rightarrow> seconds \<Rightarrow> string
   \<Rightarrow> (maintenance_target list \<times> maintenance_result) run" where
  "drain_targets_until_deadline bk targets result deadline timeout budget_id =
     (if targets = [] then lift_run (returnM ([], result))
      else
        bind_run (drain_until bk targets deadline timeout result) (\<lambda>result1.
        lift_run (bindM monotonic (\<lambda>t.
          if t \<ge> deadline then
            bindM (mark_expired targets) (\<lambda>targets1.
            thenM (fail_budget_items budget_id ''deadline_budget_exceeded'' upstream_expired)
              (returnM (targets1, result1)))
          else returnM (targets, result1)))))"

subsection \<open>Ending the job of a window\<close>

definition partial_finish :: "int \<Rightarrow> int option \<Rightarrow> int \<Rightarrow> string option \<Rightarrow> string option \<Rightarrow> sync_finish" where
  "partial_finish count results completed category msg =
     \<lparr>sf_status = ''partial'', sf_coverage_status = PARTIAL, sf_result_count = count, sf_total_results = results,
      sf_pages_total = 1, sf_pages_completed_total = completed, sf_error_category = category,
      sf_error_message = msg\<rparr>"

definition complete_initial_maintenance_budget_failure ::
  "maintenance_target \<Rightarrow> string \<Rightarrow> string \<Rightarrow> maintenance_target act" where
  "complete_initial_maintenance_budget_failure target category msg =
     thenM (sync_job_completed (mt_sync_job_id target) (partial_finish 0 None 0 (Some category) (Some msg)))
       (returnM (target\<lparr>mt_coverage := PARTIAL, mt_pages_total := 1, mt_pages_completed := 0,
          mt_raw_status := Some ''partial'', mt_error_category := Some category, mt_error_message := Some msg\<rparr>))"

definition complete_window_budget_failure ::
  "maintenance_target \<Rightarrow> cache_entry \<Rightarrow> string \<Rightarrow> string \<Rightarrow> maintenance_target act" where
  "complete_window_budget_failure target first category msg =
     thenM (sync_job_completed (mt_sync_job_id target)
         (partial_finish (c_result_count first) (c_total_results first) 1 (Some category) (Some msg)))
       (returnM (target\<lparr>mt_coverage := PARTIAL, mt_result_count := c_result_count first,
          mt_total_results := c_total_results first, mt_pages_total := 1, mt_pages_completed := 1,
          mt_raw_status := Some ''partial'', mt_error_category := Some category, mt_error_message := Some msg\<rparr>))"

definition followup_expired :: string where
  "followup_expired = ''maintenance deadline expired before follow-up enqueue''"

definition complete_followup_deadline_budget_failure ::
  "maintenance_target \<Rightarrow> cache_entry \<Rightarrow> maintenance_budget \<Rightarrow> maintenance_target act" where
  "complete_followup_deadline_budget_failure target first budget =
     thenM (fail_budget_items (mb_id budget) ''deadline_budget_exceeded'' followup_expired)
    (thenM (tx_do (delete_sync_job_followup_pages (mt_sync_job_id target) (mt_cache_key target)))
      (complete_window_budget_failure target first ''deadline_budget_exceeded'' followup_expired))"

text \<open>The first page is not readable: the entry, else the queue item, says why.\<close>

definition window_without_first ::
  "maintenance_target \<Rightarrow> maintenance_target act" where
  "window_without_first target =
     bindM (readM (get_cache_entry (mt_cache_key target))) (\<lambda>entry.
     bindM (item_of target) (\<lambda>item.
     (let raw = (case entry of Some c \<Rightarrow> c_status c
                 | None \<Rightarrow> (case item of Some i \<Rightarrow> status_value (i_status i) | None \<Rightarrow> ''partial''));
          category = (case entry of Some c \<Rightarrow> c_error_category c | None \<Rightarrow> Option.bind item i_error_category);
          msg = (case entry of Some c \<Rightarrow> c_error_message c | None \<Rightarrow> Option.bind item i_error_message)
      in thenM (sync_job_completed (mt_sync_job_id target)
             (partial_finish 0 (Option.bind entry c_total_results) 0 category msg))
          (returnM (target\<lparr>mt_coverage := PARTIAL, mt_raw_status := Some raw, mt_error_category := category,
             mt_error_message := msg, mt_pages_total := 1, mt_pages_completed := 0\<rparr>)))))"

definition window_without_total :: "maintenance_target \<Rightarrow> cache_entry \<Rightarrow> maintenance_target act" where
  "window_without_total target first =
     thenM (sync_job_completed (mt_sync_job_id target) (partial_finish (c_result_count first) None 1
         (Some ''missing_total_results'') (Some ''legacy search response did not include totalResults'')))
       (returnM (target\<lparr>mt_total_results := c_total_results first, mt_coverage := PARTIAL,
          mt_result_count := c_result_count first, mt_pages_total := 1, mt_pages_completed := 1,
          mt_raw_status := Some ''partial''\<rparr>))"

definition overflow_message :: string where
  "overflow_message = ''legacy search window total_results exceeds configured cap''"

definition window_overflow :: "maintenance_target \<Rightarrow> cache_entry \<Rightarrow> maintenance_target act" where
  "window_overflow target first =
     thenM (sync_job_completed (mt_sync_job_id target)
         \<lparr>sf_status = ''overflow'', sf_coverage_status = OVERFLOW, sf_result_count = c_result_count first,
          sf_total_results = c_total_results first, sf_pages_total = 1, sf_pages_completed_total = 1,
          sf_error_category = Some ''legacy_window_overflow'', sf_error_message = Some overflow_message\<rparr>)
       (returnM (target\<lparr>mt_total_results := c_total_results first, mt_coverage := OVERFLOW,
          mt_result_count := c_result_count first, mt_pages_total := 1, mt_pages_completed := 1,
          mt_raw_status := Some ''overflow'', mt_error_category := Some ''legacy_window_overflow'',
          mt_error_message := Some overflow_message\<rparr>))"

definition empty_page_message :: string where
  "empty_page_message = ''legacy search first page did not advance coverage''"

definition window_empty_page :: "maintenance_target \<Rightarrow> cache_entry \<Rightarrow> maintenance_target act" where
  "window_empty_page target first =
     complete_window_budget_failure target first ''empty_page'' empty_page_message"

subsection \<open>Planning the pages of a window\<close>

text \<open>while next_start < total: .. next_start += max_results, for a positive max_results.\<close>

function page_starts :: "int \<Rightarrow> int \<Rightarrow> int \<Rightarrow> int list" where
  "page_starts next_start results step =
     (if next_start < results \<and> 0 < step then next_start # page_starts (next_start + step) results step else [])"
  by auto

termination by (relation "measure (\<lambda>(n, t, s). nat (t - n))") auto

definition followup_pages_total :: "int \<Rightarrow> int \<Rightarrow> int \<Rightarrow> int" where
  "followup_pages_total next_start results step = (max 0 (results - next_start) + step - 1) div step"

type_synonym planned = "arxiv_request \<times> string \<times> cache_entry option"

fun plan_pages :: "broker \<Rightarrow> arxiv_request \<Rightarrow> int list \<Rightarrow> planned list act" where
  "plan_pages bk request [] = returnM []"
| "plan_pages bk request (s # ss) =
     (let page = request\<lparr>start := s, req_cache_policy := CACHE_OR_ENQUEUE\<rparr>;
          key = request_cache_key (bk_sha256 bk) page
      in bindM (read_completed_cache key) (\<lambda>cached.
         bindM (plan_pages bk request ss) (\<lambda>ps. returnM ((page, key, cached) # ps))))"

definition deadline_can_fit_requests :: "seconds \<Rightarrow> int \<Rightarrow> seconds \<Rightarrow> seconds \<Rightarrow> bool act" where
  "deadline_can_fit_requests deadline requests_total interval initial_wait =
     bindM monotonic (\<lambda>t.
       returnM (t + (max 0 initial_wait + of_int (max 0 (requests_total - 1)) * interval) \<le> deadline))"

definition wait_before_next :: "broker \<Rightarrow> seconds act" where
  "wait_before_next bk =
     bindM utc_now (\<lambda>now. bindM (readM (get_rate_state (lim_name (bk_limiter bk)))) (\<lambda>s.
       returnM (seconds_until_next_request (bk_settings bk) s now)))"

definition fits_deadline :: "broker \<Rightarrow> seconds \<Rightarrow> int \<Rightarrow> bool act" where
  "fits_deadline bk deadline requests_total =
     bindM (wait_before_next bk) (\<lambda>wait.
       deadline_can_fit_requests deadline requests_total (request_interval_seconds (bk_settings bk)) wait)"

text \<open>The loop that queues the pages: the deadline passed (None), or the page targets.\<close>

fun queue_pages ::
  "broker \<Rightarrow> maintenance_budget \<Rightarrow> string \<Rightarrow> planned list \<Rightarrow> maintenance_result
   \<Rightarrow> (maintenance_target list option \<times> maintenance_result) act" where
  "queue_pages bk budget sync_job_id [] result = returnM (Some [], result)"
| "queue_pages bk budget sync_job_id ((page, key, cached) # ps) result =
     (let planned = sync_page_recorded (planned_page sync_job_id page key ''planned'');
          t = new_target page key sync_job_id;
          rest = (\<lambda>t r. bindM (queue_pages bk budget sync_job_id ps r) (\<lambda>(ts, r').
                    returnM (map_option (\<lambda>us. t # us) ts, r')))
      in case cached of
           Some c \<Rightarrow> thenM planned (rest (t\<lparr>mt_initial_hit := True\<rparr>) result)
         | None \<Rightarrow>
             bindM monotonic (\<lambda>now1.
             if now1 \<ge> mb_deadline budget then returnM (None, result)
             else thenM planned
              (bindM monotonic (\<lambda>now2.
               if now2 \<ge> mb_deadline budget then returnM (None, result)
               else
                 bindM (enqueue_work bk page key (Some (mb_id budget))) (\<lambda>(item, joined).
                 (let result1 = (if joined then result
                                 else result\<lparr>mr_queued_total := mr_queued_total result + 1\<rparr>)
                  in bindM monotonic (\<lambda>now3.
                     if now3 \<ge> mb_deadline budget then returnM (None, result1)
                     else rest (t\<lparr>mt_request_id := Some (i_request_id item), mt_joined := joined\<rparr>) result1)))))))"

subsection \<open>Closing a window\<close>

record page_tally =
  ty_results :: int
  ty_total :: "int option"
  ty_completed :: int
  ty_ids :: "string list"
  ty_category :: "string option"
  ty_message :: "string option"

definition family_ids :: "arxiv_paper list \<Rightarrow> string list" where
  "family_ids ps = map (\<lambda>p. arxiv_id_family_base (p_arxiv_id p)) ps"

text \<open>A readable page counts, the first other page gives the error; ty_ids is the set as a list.\<close>

definition tally_page :: "string \<Rightarrow> maintenance_target \<Rightarrow> page_tally \<Rightarrow> page_tally act" where
  "tally_page sync_job_id t y =
     bindM (refresh_sync_job_page_from_cache sync_job_id (mt_request t) (mt_cache_key t)) (\<lambda>page.
     bindM (read_completed_cache (mt_cache_key t)) (\<lambda>readable.
     case readable of
       Some c \<Rightarrow> bindM (readM (get_cached_papers (mt_cache_key t))) (\<lambda>ps.
         returnM (y\<lparr>ty_results := ty_results y + c_result_count c, ty_ids := dedup (ty_ids y @ family_ids ps),
           ty_total := coalesce (ty_total y) (c_total_results c), ty_completed := ty_completed y + 1\<rparr>))
     | None \<Rightarrow>
         if ty_category y \<noteq> None then returnM y
         else bindM (readM (get_cache_entry (mt_cache_key t))) (\<lambda>entry.
           returnM (y\<lparr>ty_category := or_else (mt_error_category t) (pg_error_category page),
             ty_message := or_else (mt_error_message t) (Option.bind entry c_error_message)\<rparr>))))"

fun tally_pages :: "string \<Rightarrow> maintenance_target list \<Rightarrow> page_tally \<Rightarrow> page_tally act" where
  "tally_pages sync_job_id [] y = returnM y"
| "tally_pages sync_job_id (t # ts) y = bindM (tally_page sync_job_id t y) (tally_pages sync_job_id ts)"

definition overlap_message :: "int \<Rightarrow> string" where
  "overlap_message n = ''legacy search pages contained '' @ int_text n @ '' duplicate or overlapping paper results''"

definition tally_complete :: "maintenance_target \<Rightarrow> int \<Rightarrow> page_tally \<Rightarrow> bool" where
  "tally_complete target pages_total y \<longleftrightarrow>
     (case ty_total y of None \<Rightarrow> False
      | Some results \<Rightarrow> ty_completed y = pages_total \<and> ty_results y - int (length (ty_ids y)) = 0 \<and>
          int (length (ty_ids y)) \<ge> max 0 (results - start (mt_request target)))"

definition close_target :: "maintenance_target \<Rightarrow> int \<Rightarrow> page_tally \<Rightarrow> maintenance_target" where
  "close_target target pages_total y =
     (let count = int (length (ty_ids y)); overlap = ty_results y - count;
          overlapping = (overlap > 0 \<and> ty_category y = None);
          category = (if overlapping then Some ''overlapping_page_results'' else ty_category y);
          msg = (if overlapping then Some (overlap_message overlap) else ty_message y);
          complete = tally_complete target pages_total y
      in target\<lparr>mt_coverage := (if complete then COMPLETE else PARTIAL), mt_result_count := count,
           mt_total_results := ty_total y, mt_pages_total := pages_total, mt_pages_completed := ty_completed y,
           mt_raw_status := Some (if complete then ''completed'' else ''partial''),
           mt_error_category := (if complete then None else category),
           mt_error_message := (if complete then None else msg)\<rparr>)"

definition finalize_complete_window_target ::
  "maintenance_target \<Rightarrow> maintenance_target list \<Rightarrow> maintenance_target act" where
  "finalize_complete_window_target target page_targets =
     bindM (tally_pages (mt_sync_job_id target) page_targets
       \<lparr>ty_results = 0, ty_total = mt_total_results target, ty_completed = 0, ty_ids = [], ty_category = None,
        ty_message = None\<rparr>) (\<lambda>y.
     (let t = close_target target (int (length page_targets)) y
      in thenM (sync_job_completed (mt_sync_job_id target)
           \<lparr>sf_status = (if mt_coverage t = COMPLETE then ''completed'' else ''partial''),
            sf_coverage_status = mt_coverage t, sf_result_count = mt_result_count t,
            sf_total_results = mt_total_results t, sf_pages_total = mt_pages_total t,
            sf_pages_completed_total = mt_pages_completed t, sf_error_category = mt_error_category t,
            sf_error_message = mt_error_message t\<rparr>)
         (returnM t)))"

subsection \<open>One window\<close>

definition page_budget_message :: "int \<Rightarrow> int \<Rightarrow> string" where
  "page_budget_message required limit =
     ''complete window requires '' @ int_text required @ '' pages; limit is '' @ int_text limit"

definition request_budget_message :: "int \<Rightarrow> int \<Rightarrow> int \<Rightarrow> string" where
  "request_budget_message missing used limit =
     ''complete window would reserve '' @ int_text missing @ '' additional requests; ''
       @ int_text used @ '' of '' @ int_text limit @ '' already used''"

definition late_message :: string where
  "late_message = ''complete window cannot finish before the maintenance deadline''"

text \<open>Why the planned pages may not be queued: the category and the message of the failure.\<close>

definition refuse_pages :: "broker \<Rightarrow> maintenance_budget \<Rightarrow> int \<Rightarrow> (string \<times> string) option act" where
  "refuse_pages bk budget missing =
     bindM (readM (get_upstream_request_budget_requests_started (mb_id budget))) (\<lambda>started.
     case started of
       None \<Rightarrow> returnM (Some (''request_budget_exceeded'', ''upstream request budget no longer exists''))
     | Some used \<Rightarrow>
         if used + missing > mb_max_requests budget
         then returnM (Some (''request_budget_exceeded'', request_budget_message missing used (mb_max_requests budget)))
         else if missing = 0 then returnM None
         else bindM (fits_deadline bk (mb_deadline budget) missing) (\<lambda>fits.
           returnM (if fits then None else Some (''deadline_budget_exceeded'', late_message))))"

definition drain_pages ::
  "broker \<Rightarrow> maintenance_target \<Rightarrow> cache_entry \<Rightarrow> maintenance_budget \<Rightarrow> seconds \<Rightarrow> planned list
   \<Rightarrow> maintenance_result \<Rightarrow> (maintenance_target \<times> maintenance_result) run" where
  "drain_pages bk target first budget timeout pages result =
     bind_run (lift_run (queue_pages bk budget (mt_sync_job_id target) pages result)) (\<lambda>(queued, result1).
     case queued of
       None \<Rightarrow> lift_run (bindM (complete_followup_deadline_budget_failure target first budget) (\<lambda>t.
                 returnM (t, result1)))
     | Some ts \<Rightarrow>
         bind_run (drain_targets_until_deadline bk ts result1 (mb_deadline budget) timeout (mb_id budget))
           (\<lambda>(ts1, result2). lift_run (bindM (finalize_complete_window_target target (target # ts1)) (\<lambda>t.
              returnM (t, result2)))))"

definition window_with_first ::
  "broker \<Rightarrow> maintenance_target \<Rightarrow> cache_entry \<Rightarrow> maintenance_budget \<Rightarrow> seconds
   \<Rightarrow> maintenance_result \<Rightarrow> (maintenance_target \<times> maintenance_result) run" where
  "window_with_first bk target0 first budget timeout result =
     (let target = target0\<lparr>mt_total_results := c_total_results first\<rparr>;
          ends = (\<lambda>m. lift_run (bindM m (\<lambda>t. returnM (t, result))));
          refuse = (\<lambda>category msg. ends (complete_window_budget_failure target first category msg));
          request = mt_request target
      in case c_total_results first of
           None \<Rightarrow> ends (window_without_total target first)
         | Some results \<Rightarrow>
             if results > legacy_search_window_result_cap (bk_settings bk) then ends (window_overflow target first)
             else if c_result_count first \<le> 0 \<and> start request < results then ends (window_empty_page target first)
             else
               (let next_start = start request + c_result_count first;
                    required = 1 + followup_pages_total next_start results (max_results request)
                in if required > mb_max_pages budget
                   then refuse ''page_budget_exceeded'' (page_budget_message required (mb_max_pages budget))
                   else
                     bind_run (lift_run (plan_pages bk request (page_starts next_start results (max_results request)))) (\<lambda>pages.
                     bind_run (lift_run (refuse_pages bk budget (int (length (filter (\<lambda>(_, _, cached). cached = None) pages)))))
                       (\<lambda>refused. case refused of
                          Some (category, msg) \<Rightarrow> refuse category msg
                        | None \<Rightarrow> drain_pages bk target first budget timeout pages result))))"

definition plan_and_drain_complete_window_target ::
  "broker \<Rightarrow> maintenance_target \<Rightarrow> maintenance_result \<Rightarrow> maintenance_budget \<Rightarrow> seconds
   \<Rightarrow> (maintenance_target \<times> maintenance_result) run" where
  "plan_and_drain_complete_window_target bk target result budget timeout =
     (if mt_error_category target = Some ''deadline_budget_exceeded'' then
        if mt_coverage target = UNKNOWN
        then lift_run (bindM (complete_initial_maintenance_budget_failure target ''deadline_budget_exceeded''
               (case mt_error_message target of Some (c # cs) \<Rightarrow> c # cs | _ \<Rightarrow> upstream_expired)) (\<lambda>t.
               returnM (t, result)))
        else lift_run (returnM (target, result))
      else
        bind_run (lift_run (read_completed_cache (mt_cache_key target))) (\<lambda>first.
        bind_run (lift_run (refresh_sync_job_page_from_cache (mt_sync_job_id target) (mt_request target)
                   (mt_cache_key target))) (\<lambda>_.
        case first of
          None \<Rightarrow> lift_run (bindM (window_without_first target) (\<lambda>t. returnM (t, result)))
        | Some c \<Rightarrow> window_with_first bk target c budget timeout result)))"

fun plan_and_drain_all ::
  "broker \<Rightarrow> maintenance_budget \<Rightarrow> seconds \<Rightarrow> maintenance_target list \<Rightarrow> maintenance_result
   \<Rightarrow> (maintenance_target list \<times> maintenance_result) run" where
  "plan_and_drain_all bk budget timeout [] result = lift_run (returnM ([], result))"
| "plan_and_drain_all bk budget timeout (t # ts) result =
     bind_run (plan_and_drain_complete_window_target bk t result budget timeout) (\<lambda>(t1, result1).
     bind_run (plan_and_drain_all bk budget timeout ts result1) (\<lambda>(ts1, result2).
       lift_run (returnM (t1 # ts1, result2))))"

definition drain_complete_window_targets ::
  "broker \<Rightarrow> maintenance_target list \<Rightarrow> maintenance_result \<Rightarrow> maintenance_budget \<Rightarrow> seconds
   \<Rightarrow> (maintenance_target list \<times> maintenance_result) run" where
  "drain_complete_window_targets bk targets result budget timeout =
     bind_run (drain_targets_until_deadline bk targets result (mb_deadline budget) timeout (mb_id budget))
       (\<lambda>(targets1, result1). plan_and_drain_all bk budget timeout targets1 result1)"

end
