(* ===== verification/Huldra_Maintenance.thy ===== *)
theory Huldra_Maintenance
  imports Huldra_Windows Huldra_Planner
begin

text \<open>
  The maintenance calls of the broker (huldra/broker.py: sync_windows, backfill_windows,
  _drain_maintenance_targets, _finalize_maintenance_result).
\<close>

subsection \<open>The report\<close>

definition sync_job_terminal_raw_statuses :: "string list" where
  "sync_job_terminal_raw_statuses = [''completed'', ''failed'', ''rate_limited'', ''cache_unreadable'', ''skipped'']"

definition async_sync_job_handoff_statuses :: "string list" where
  "async_sync_job_handoff_statuses = [''queued'', ''delayed'', ''claimed'']"

definition unreadable_completed_raw_status :: "queue_item option \<Rightarrow> string" where
  "unreadable_completed_raw_status item =
     (case raw_status_from_queue_item item of
        None \<Rightarrow> ''cache_unreadable''
      | Some s \<Rightarrow> if s = ''completed'' then ''cache_unreadable'' else s)"

definition refresh_target_page :: "maintenance_target \<Rightarrow> unit act" where
  "refresh_target_page t =
     bindM (refresh_sync_job_page_from_cache (mt_sync_job_id t) (mt_request t) (mt_cache_key t)) (\<lambda>_. returnM ())"

text \<open>The counters of one target in complete-window mode whose window has been settled.\<close>

definition count_window :: "maintenance_target \<Rightarrow> maintenance_result \<Rightarrow> maintenance_result" where
  "count_window t r =
     (let r1 = (case mt_coverage t of
            COMPLETE \<Rightarrow> r\<lparr>mr_completed_windows_total := mr_completed_windows_total r + 1,
                          mr_complete_windows_total := mr_complete_windows_total r + 1,
                          mr_papers_total := mr_papers_total r + mt_result_count t\<rparr>
          | PARTIAL \<Rightarrow> r\<lparr>mr_partial_windows_total := mr_partial_windows_total r + 1\<rparr>
          | OVERFLOW \<Rightarrow> r\<lparr>mr_overflow_windows_total := mr_overflow_windows_total r + 1\<rparr>
          | _ \<Rightarrow> r)
      in r1\<lparr>mr_completed_slices_total := mr_completed_slices_total r1 + mt_pages_completed t\<rparr>)"

definition count_slice :: "cache_entry \<Rightarrow> maintenance_result \<Rightarrow> maintenance_result" where
  "count_slice c r = r\<lparr>mr_completed_windows_total := mr_completed_windows_total r + 1,
     mr_completed_slices_total := mr_completed_slices_total r + 1,
     mr_papers_total := mr_papers_total r + c_result_count c\<rparr>"

definition slice_target :: "cache_entry \<Rightarrow> maintenance_target \<Rightarrow> maintenance_target" where
  "slice_target c t = t\<lparr>mt_coverage := c_coverage_status c, mt_result_count := c_result_count c,
     mt_total_results := c_total_results c, mt_pages_total := max (mt_pages_total t) 1, mt_pages_completed := 1\<rparr>"

text \<open>The raw status of a target, the target and the counters after it.\<close>

definition raw_status_of_target ::
  "legacy_sync_mode \<Rightarrow> maintenance_target \<Rightarrow> cache_entry option \<Rightarrow> cache_entry option \<Rightarrow> queue_item option
   \<Rightarrow> maintenance_result \<Rightarrow> (string \<times> maintenance_target \<times> maintenance_result) act" where
  "raw_status_of_target mode t readable entry item r =
     (if mode = MODE_COMPLETE_WINDOW \<and> mt_coverage t \<noteq> UNKNOWN then
        returnM (the (or_else (mt_raw_status t) (Some (coverage_value (mt_coverage t)))), t, count_window t r)
      else case readable of
        Some c \<Rightarrow> thenM (refresh_target_page t) (returnM (''completed'', slice_target c t, count_slice c r))
      | None \<Rightarrow> (case entry of
            None \<Rightarrow> returnM (case raw_status_from_queue_item item of Some s \<Rightarrow> s | None \<Rightarrow> ''missing'', t, r)
          | Some e \<Rightarrow>
              thenM (refresh_target_page t)
                (returnM (if c_status e = ''completed'' then unreadable_completed_raw_status item else c_status e, t, r))))"

definition count_unreadable :: "string \<Rightarrow> maintenance_result \<Rightarrow> maintenance_result" where
  "count_unreadable raw r =
     (if raw = ''skipped'' then r\<lparr>mr_skipped_windows_total := mr_skipped_windows_total r + 1\<rparr>
      else if raw = ''rate_limited'' then r\<lparr>mr_rate_limited_windows_total := mr_rate_limited_windows_total r + 1\<rparr>
      else if raw \<in> {''failed'', ''cache_unreadable'', ''partial'', ''overflow''}
      then r\<lparr>mr_failed_windows_total := mr_failed_windows_total r + 1\<rparr>
      else r)"

text \<open>cooldown_until of the last target that has one, and how many are still running.\<close>

definition count_cooldown :: "cache_entry option \<Rightarrow> queue_item option \<Rightarrow> maintenance_result \<Rightarrow> maintenance_result act" where
  "count_cooldown entry item r =
     (let running = (\<lambda>t r. bindM utc_now (\<lambda>now. returnM
            (if t > now then r\<lparr>mr_cooldown_active_total := mr_cooldown_active_total r + 1\<rparr> else r)))
      in case Option.bind entry c_cooldown_until of
           Some t \<Rightarrow> running t (r\<lparr>mr_cooldown_until := Some t\<rparr>)
         | None \<Rightarrow>
             if terminal_delayed (Option.bind item i_error_category) then
               (case Option.bind item i_next_attempt_at of
                  None \<Rightarrow> returnM (r\<lparr>mr_cooldown_until := None\<rparr>)
                | Some t \<Rightarrow> running t (r\<lparr>mr_cooldown_until := Some t\<rparr>))
             else returnM r)"

definition report_cooldown :: "cache_entry option \<Rightarrow> queue_item option \<Rightarrow> datetime option" where
  "report_cooldown entry item =
     (if item \<noteq> None \<and> (entry = None \<or> map_option c_status entry = Some ''completed'')
      then coalesce (Option.bind item i_next_attempt_at) (Option.bind entry c_cooldown_until)
      else Option.bind entry c_cooldown_until)"

definition report_error ::
  "(cache_entry \<Rightarrow> string option) \<Rightarrow> (queue_item \<Rightarrow> string option) \<Rightarrow> string option
   \<Rightarrow> cache_entry option \<Rightarrow> queue_item option \<Rightarrow> string option" where
  "report_error of_entry of_item aggregate entry item =
     coalesce aggregate
       (if item \<noteq> None \<and> (entry = None \<or> map_option c_status entry = Some ''completed'')
        then or_else (Option.bind item of_item) (Option.bind entry of_entry)
        else Option.bind entry of_entry)"

definition budget_categories :: "string list" where
  "budget_categories = [''page_budget_exceeded'', ''request_budget_exceeded'', ''deadline_budget_exceeded'']"

definition count_budget :: "string option \<Rightarrow> maintenance_result \<Rightarrow> maintenance_result" where
  "count_budget category r =
     (if (\<exists>b\<in>set budget_categories. category = Some b)
      then r\<lparr>mr_budget_exhausted_windows_total := mr_budget_exhausted_windows_total r + 1\<rparr> else r)"

definition slice_job_ends :: "legacy_sync_mode \<Rightarrow> bool \<Rightarrow> string \<Rightarrow> bool" where
  "slice_job_ends mode complete_pending raw \<longleftrightarrow> mode = MODE_SLICE \<and>
     (raw \<in> set sync_job_terminal_raw_statuses \<or> complete_pending \<and> raw \<in> set async_sync_job_handoff_statuses)"

definition report_of ::
  "maintenance_target \<Rightarrow> string \<Rightarrow> string \<Rightarrow> cache_entry option \<Rightarrow> datetime option \<Rightarrow> string option \<Rightarrow> string option
   \<Rightarrow> request_report" where
  "report_of t raw serving entry cooldown category msg =
     \<lparr>hr_sync_job_id = mt_sync_job_id t, hr_cache_key = mt_cache_key t, hr_request_id = mt_request_id t,
      hr_search_query = search_query (mt_request t), hr_submitted_start = submitted_start (mt_request t),
      hr_submitted_end = submitted_end (mt_request t), hr_raw_cache_status = raw, hr_serving_status = serving,
      hr_coverage_status = mt_coverage t, hr_cache_hit = mt_initial_hit t,
      hr_joined_existing_queue = mt_joined t, hr_upstream_status = Option.bind entry c_upstream_status,
      hr_cooldown_until = cooldown, hr_error_category = category, hr_error_message = msg,
      hr_papers_total = mt_result_count t, hr_result_count = mt_result_count t,
      hr_total_results = mt_total_results t, hr_pages_total = mt_pages_total t,
      hr_pages_completed_total = mt_pages_completed t\<rparr>"

definition target_served :: "broker \<Rightarrow> maintenance_target \<Rightarrow> cache_entry option \<Rightarrow> arxiv_result option act" where
  "target_served bk t readable =
     (case readable of
        None \<Rightarrow> returnM None
      | Some c \<Rightarrow> bindM (result_from_completed_cache bk (mt_cache_key t) c (mt_initial_hit t) (mt_request_id t) (mt_request t))
                   (\<lambda>s. returnM (Some s)))"

definition end_slice_job :: "maintenance_target \<Rightarrow> string \<Rightarrow> string option \<Rightarrow> string option \<Rightarrow> unit act" where
  "end_slice_job t raw category msg =
     sync_job_completed (mt_sync_job_id t)
       \<lparr>sf_status = raw, sf_coverage_status = mt_coverage t, sf_result_count = mt_result_count t,
        sf_total_results = mt_total_results t, sf_pages_total = max (mt_pages_total t) 1,
        sf_pages_completed_total = mt_pages_completed t, sf_error_category = category, sf_error_message = msg\<rparr>"

definition finalize_target ::
  "broker \<Rightarrow> legacy_sync_mode \<Rightarrow> bool \<Rightarrow> maintenance_target \<Rightarrow> maintenance_result \<Rightarrow> maintenance_result act" where
  "finalize_target bk mode complete_pending t r =
     bindM (read_completed_cache (mt_cache_key t)) (\<lambda>readable.
     bindM (readM (get_cache_entry (mt_cache_key t))) (\<lambda>entry.
     bindM (item_of t) (\<lambda>item.
     bindM (target_served bk t readable) (\<lambda>serving.
     bindM (raw_status_of_target mode t readable entry item r) (\<lambda>(raw, t1, r1).
     (let r2 = (if readable = None then count_unreadable raw r1 else r1)
      in bindM (count_cooldown entry item r2) (\<lambda>r3.
        (let category = report_error c_error_category i_error_category (mt_error_category t1) entry item;
             msg = report_error c_error_message i_error_message (mt_error_message t1) entry item;
             r4 = count_budget category r3;
             report = report_of t1 raw (case serving of Some s \<Rightarrow> ar_status s | None \<Rightarrow> raw) entry
                        (report_cooldown entry item) category msg
         in thenM (if slice_job_ends mode complete_pending raw then end_slice_job t1 raw category msg else returnM ())
              (returnM (r4\<lparr>mr_requests := mr_requests r4 @ [report]\<rparr>))))))))))"

fun finalize_targets ::
  "broker \<Rightarrow> legacy_sync_mode \<Rightarrow> bool \<Rightarrow> maintenance_target list \<Rightarrow> maintenance_result \<Rightarrow> maintenance_result act" where
  "finalize_targets bk mode complete_pending [] r = returnM r"
| "finalize_targets bk mode complete_pending (t # ts) r =
     bindM (finalize_target bk mode complete_pending t r) (finalize_targets bk mode complete_pending ts)"

text \<open>The counters of the report start at zero; the others are those of the result so far.\<close>

definition fresh_counters :: "maintenance_result \<Rightarrow> maintenance_result" where
  "fresh_counters r = r\<lparr>mr_completed_windows_total := 0, mr_completed_slices_total := 0,
     mr_complete_windows_total := 0, mr_partial_windows_total := 0, mr_overflow_windows_total := 0,
     mr_papers_total := 0, mr_cooldown_active_total := 0, mr_skipped_windows_total := 0,
     mr_rate_limited_windows_total := 0, mr_failed_windows_total := 0,
     mr_budget_exhausted_windows_total := 0, mr_cooldown_until := None, mr_requests := []\<rparr>"

definition finalize_maintenance_result ::
  "broker \<Rightarrow> legacy_sync_mode \<Rightarrow> bool \<Rightarrow> maintenance_target list \<Rightarrow> maintenance_result \<Rightarrow> maintenance_result act" where
  "finalize_maintenance_result bk mode complete_pending targets result =
     bindM (finalize_targets bk mode complete_pending targets (fresh_counters result)) (\<lambda>r.
       returnM (r\<lparr>mr_cooldown_active := (mr_cooldown_active_total r > 0)\<rparr>))"

subsection \<open>sync_windows\<close>

definition empty_maintenance_result :: maintenance_result where
  "empty_maintenance_result = \<lparr>mr_requested_total = 0, mr_queued_total = 0, mr_cache_miss_total = 0,
     mr_cache_hit_total = 0, mr_completed_windows_total = 0, mr_completed_slices_total = 0,
     mr_complete_windows_total = 0, mr_partial_windows_total = 0, mr_overflow_windows_total = 0,
     mr_upstream_requests_total = 0, mr_upstream_429_total = 0, mr_retry_after_seconds = None,
     mr_cooldown_active_total = 0, mr_skipped_windows_total = 0, mr_rate_limited_windows_total = 0,
     mr_failed_windows_total = 0, mr_budget_exhausted_windows_total = 0, mr_papers_total = 0,
     mr_cooldown_active = False, mr_cooldown_until = None, mr_requests = []\<rparr>"

definition maintenance_timeout_seconds :: "arxiv_request list \<Rightarrow> huldra_settings \<Rightarrow> seconds option \<Rightarrow> seconds" where
  "maintenance_timeout_seconds requests settings wait_timeout =
     (case wait_timeout of
        Some t \<Rightarrow> t
      | None \<Rightarrow> (case List.map_filter timeout_seconds requests of
            [] \<Rightarrow> request_timeout_seconds settings
          | t # ts \<Rightarrow> foldl max t ts))"

definition drain_maintenance_targets ::
  "broker \<Rightarrow> maintenance_target list \<Rightarrow> maintenance_result \<Rightarrow> seconds option \<Rightarrow> maintenance_result run" where
  "drain_maintenance_targets bk targets result wait_timeout =
     (let timeout = maintenance_timeout_seconds (map mt_request targets) (bk_settings bk) wait_timeout in
      bind_run (lift_run monotonic) (\<lambda>t. drain_until bk targets (t + timeout) timeout result))"

text \<open>The arguments of sync_windows.\<close>

record sync_call =
  sc_requests :: "arxiv_request list"
  sc_wait :: bool
  sc_wait_timeout :: "seconds option"
  sc_mode :: legacy_sync_mode
  sc_max_pages :: int
  sc_max_requests :: int

definition value_error :: "string \<Rightarrow> 'a act" where
  "value_error msg = raiseM (OtherExn (''ValueError: '' @ msg))"

fun initial_plan :: "broker \<Rightarrow> arxiv_request list \<Rightarrow> planned list act" where
  "initial_plan bk [] = returnM []"
| "initial_plan bk (q # qs) =
     (let key = request_cache_key (bk_sha256 bk) q in
      bindM (read_completed_cache key) (\<lambda>found.
      bindM (if found = None then try_compose_cached_id_list bk q key else returnM None) (\<lambda>composed.
      bindM (if composed \<noteq> None then read_completed_cache key else returnM found) (\<lambda>readable.
      bindM (initial_plan bk qs) (\<lambda>ps. returnM ((q, key, readable) # ps))))))"

definition misses :: "planned list \<Rightarrow> string list" where
  "misses ps = dedup (map (\<lambda>(_, key, _). key) (filter (\<lambda>(_, _, cached). cached = None) ps))"

text \<open>Jobs and their first pages, in the order of the requests.\<close>

fun start_targets ::
  "broker \<Rightarrow> legacy_sync_mode \<Rightarrow> string \<Rightarrow> planned list \<Rightarrow> maintenance_target list act" where
  "start_targets bk mode budget_id [] = returnM []"
| "start_targets bk mode budget_id ((q, key, cached) # ps) =
     bindM (start_sync_job (bk_sha256 bk) q mode (Some budget_id)) (\<lambda>job.
     thenM (sync_page_recorded (planned_page job q key ''planned''))
     (bindM (start_targets bk mode budget_id ps) (\<lambda>ts. returnM (new_target q key job # ts))))"

text \<open>initial_cache[key]: the last reading of a key.\<close>

definition initial_cache :: "planned list \<Rightarrow> string \<Rightarrow> cache_entry option" where
  "initial_cache ps key = (case map_of (rev (map (\<lambda>(_, k, cached). (k, cached)) ps)) key of None \<Rightarrow> None | Some c \<Rightarrow> c)"

definition enqueue_expired :: string where
  "enqueue_expired = ''maintenance deadline expired before initial enqueue''"

definition open_target ::
  "broker \<Rightarrow> legacy_sync_mode \<Rightarrow> maintenance_budget \<Rightarrow> cache_entry option \<Rightarrow> maintenance_target \<Rightarrow> maintenance_result
   \<Rightarrow> (maintenance_target \<times> maintenance_result) act" where
  "open_target bk mode budget cached t r =
     (if cached \<noteq> None then
        thenM (refresh_target_page t)
          (returnM (t\<lparr>mt_initial_hit := True\<rparr>, r\<lparr>mr_cache_hit_total := mr_cache_hit_total r + 1\<rparr>))
      else
       (let r1 = r\<lparr>mr_cache_miss_total := mr_cache_miss_total r + 1\<rparr> in
        bindM (if mode = MODE_COMPLETE_WINDOW then bindM monotonic (\<lambda>now. returnM (now \<ge> mb_deadline budget))
               else returnM False) (\<lambda>late.
        if late then
          thenM (fail_budget_items (mb_id budget) ''deadline_budget_exceeded'' enqueue_expired)
            (bindM (complete_initial_maintenance_budget_failure t ''deadline_budget_exceeded'' enqueue_expired) (\<lambda>t1.
              returnM (t1, r1)))
        else
          bindM (enqueue_work bk ((mt_request t)\<lparr>req_cache_policy := CACHE_OR_ENQUEUE\<rparr>) (mt_cache_key t)
            (Some (mb_id budget))) (\<lambda>(item, joined).
          thenM (sync_page_recorded (planned_page (mt_sync_job_id t) (mt_request t) (mt_cache_key t)
              (the (or_else (raw_status_from_queue_item (Some item)) (Some (status_value (i_status item)))))))
            (returnM (t\<lparr>mt_request_id := Some (i_request_id item), mt_joined := joined\<rparr>,
               r1\<lparr>mr_queued_total := mr_queued_total r1 + 1\<rparr>))))))"

fun open_targets ::
  "broker \<Rightarrow> legacy_sync_mode \<Rightarrow> maintenance_budget \<Rightarrow> planned list \<Rightarrow> maintenance_target list \<Rightarrow> maintenance_result
   \<Rightarrow> (maintenance_target list \<times> maintenance_result) act" where
  "open_targets bk mode budget plan [] r = returnM ([], r)"
| "open_targets bk mode budget plan (t # ts) r =
     bindM (open_target bk mode budget (initial_cache plan (mt_cache_key t)) t r) (\<lambda>(t1, r1).
     bindM (open_targets bk mode budget plan ts r1) (\<lambda>(ts1, r2). returnM (t1 # ts1, r2)))"

definition over_plan_message :: "int \<Rightarrow> int \<Rightarrow> string" where
  "over_plan_message required limit = ''maintenance plan exceeds request budget: required='' @ int_text required
     @ '', limit='' @ int_text limit"

definition create_budget :: "sync_call \<Rightarrow> datetime \<Rightarrow> string act" where
  "create_budget call deadline_at =
     bindM uuid4 (\<lambda>uuid. bindM utc_now (\<lambda>t.
       tx_try (create_upstream_request_budget (sc_max_requests call)
         (if sc_mode call = MODE_COMPLETE_WINDOW then Some (Aware deadline_at 0) else None) uuid t)))"

text \<open>Everything before the drains: the targets, the result so far, the budget and the timeout.\<close>

definition open_sync ::
  "broker \<Rightarrow> sync_call \<Rightarrow> (maintenance_target list \<times> maintenance_result \<times> maintenance_budget \<times> seconds) act" where
  "open_sync bk call =
     bindM (initial_plan bk (sc_requests call)) (\<lambda>plan.
     (let required = int (length (misses plan)) in
      if required > sc_max_requests call then value_error (over_plan_message required (sc_max_requests call))
      else
       (let timeout = maintenance_timeout_seconds (sc_requests call) (bk_settings bk) (sc_wait_timeout call) in
        bindM monotonic (\<lambda>m.
        bindM utc_now (\<lambda>now.
        (let deadline = m + timeout; deadline_at = now + timedelta_seconds timeout in
         bindM (if sc_mode call = MODE_COMPLETE_WINDOW \<and> required > 0 then fits_deadline bk deadline required
                else returnM True) (\<lambda>fits.
         if \<not> fits then value_error ''maintenance plan exceeds runtime deadline budget''
         else
           bindM (create_budget call deadline_at) (\<lambda>budget_id.
           (let budget = \<lparr>mb_id = budget_id, mb_max_pages = sc_max_pages call,
                          mb_max_requests = sc_max_requests call, mb_deadline = deadline\<rparr> in
            bindM (start_targets bk (sc_mode call) budget_id plan) (\<lambda>targets.
            bindM (open_targets bk (sc_mode call) budget plan targets
                (empty_maintenance_result\<lparr>mr_requested_total := int (length targets)\<rparr>)) (\<lambda>(targets1, result).
              returnM (targets1, result, budget, timeout))))))))))))"

definition drain_sync ::
  "broker \<Rightarrow> sync_call \<Rightarrow> maintenance_target list \<Rightarrow> maintenance_result \<Rightarrow> maintenance_budget \<Rightarrow> seconds
   \<Rightarrow> (maintenance_target list \<times> maintenance_result) run" where
  "drain_sync bk call targets result budget timeout =
     (if \<not> sc_wait call \<or> targets = [] then lift_run (returnM (targets, result))
      else if sc_mode call = MODE_COMPLETE_WINDOW
      then drain_complete_window_targets bk targets result budget timeout
      else bind_run (drain_maintenance_targets bk targets result (sc_wait_timeout call)) (\<lambda>r.
             lift_run (returnM (targets, r))))"

definition sync_windows :: "broker \<Rightarrow> sync_call \<Rightarrow> maintenance_result run" where
  "sync_windows bk call =
     (if sc_mode call = MODE_COMPLETE_WINDOW \<and> \<not> sc_wait call
      then lift_run (value_error ''complete_window mode requires wait=True'')
      else if sc_max_pages call \<le> 0 \<or> sc_max_requests call \<le> 0
      then lift_run (value_error ''maintenance budgets must be positive'')
      else if sc_requests call = [] then lift_run (returnM empty_maintenance_result)
      else
        bind_run (lift_run (open_sync bk call)) (\<lambda>(targets, result, budget, timeout).
        bind_run (drain_sync bk call targets result budget timeout) (\<lambda>(targets1, result1).
          lift_run (finalize_maintenance_result bk (sc_mode call) (\<not> sc_wait call) targets1 result1))))"

text \<open>An exception of the planner is raised before sync_windows starts.\<close>

definition plan_exn :: "plan_error \<Rightarrow> exn" where
  "plan_exn err = (case err of PlanValueError msg \<Rightarrow> OtherExn (''ValueError: '' @ msg)
     | PlanValidation msgs \<Rightarrow> OtherExn ''ValidationError'' | PlanOverflow \<Rightarrow> OtherExn ''OverflowError'')"

definition backfill_windows ::
  "broker \<Rightarrow> string list \<Rightarrow> int \<Rightarrow> int \<Rightarrow> int \<Rightarrow> string \<Rightarrow> sync_call \<Rightarrow> maintenance_result run" where
  "backfill_windows bk search_queries start_date end_date max_res client call =
     (case build_submitted_date_windows search_queries start_date end_date max_res client of
        Inl err \<Rightarrow> lift_run (raiseM (plan_exn err))
      | Inr requests \<Rightarrow> sync_windows bk (call\<lparr>sc_requests := requests\<rparr>))"

end
