(* ===== verification/Huldra_Answers.thy ===== *)
theory Huldra_Answers
  imports Huldra_Runs
begin

text \<open>
  What the broker promises of its answers (HuldraBroker.ensure), whatever the other processes do
  between two of its transactions: it answers, it never calls upstream, a cache-only request leaves
  the queue alone, papers come from a completed readable entry, and windows that are not mature are
  withheld.
\<close>

subsection \<open>It answers\<close>

lemma returning_wait: "returning (wait_until_ready bk q k i)"
  unfolding wait_until_ready_def Let_def
  by (intro returning_bind returning_lift regular_monotonic returning_poll [OF fetching_wait_step [where P = "\<lambda>_. True"]]
      regular_fetching [OF fetching_prims(1) [where P = "\<lambda>_. True"]])

lemma returning_ensure: "returning (ensure bk q)"
proof -
  have "returning (case v of Inl r \<Rightarrow> lift_run (returnM r) | Inr i \<Rightarrow> wait_until_ready bk q k i)" for v k
    by (cases v) (auto intro: returning_wait returning_lift regular_fetching [OF fetching_prims(1) [where P = "\<lambda>_. True"]])
  then show ?thesis
    unfolding ensure_def Let_def
    by (intro returning_bind returning_lift regular_fetching [OF fetching_serve4(2) [where P = "\<lambda>_. True"]])
qed

lemma ensure_returns: "clock_goes_on w \<Longrightarrow> \<exists>out. ensure bk q w = Some out"
  using returning_ensure unfolding returning_def by blast

lemma silent_triple:
  assumes "run_triple \<lparr>steps = \<lambda>_ _. True, times = \<lambda>_. True\<rparr> (\<lambda>_. False) (\<lambda>_. True) m (\<lambda>_ _. True) (\<lambda>_ _. True)"
    and "m w = Some (res, w')"
  shows "fetches w' = fetches w"
proof -
  obtain rs where "fetches w' = fetches w @ rs" "list_all (\<lambda>_. False) rs"
    using run_tripleD(2) [OF assms(1) _ _ assms(2)] by (auto simp: runs_under_def)
  then show ?thesis by (cases rs) auto
qed

lemma quiet_lift: "fetching 0 (\<lambda>_. True) m \<Longrightarrow> run_triple R G P (lift_run m) (\<lambda>_ _. True) (\<lambda>_ _. True)"
  by (rule run_lift [OF triple_silent])

lemma triple_monotonic_lift: "run_triple R G (\<lambda>_. True) (lift_run monotonic) (\<lambda>_ _. True) (\<lambda>_ _. True)"
  by (rule run_lift [OF triple_monotonic]) simp

lemma ensure_silent: "run_triple R G (\<lambda>_. True) (ensure bk q) (\<lambda>_ _. True) (\<lambda>_ _. True)"
proof -
  have loop: "run_triple R G (\<lambda>_. True) (poll_until dl (\<lambda>_. wait_step bk q k i t) ()) (\<lambda>_ _. True) (\<lambda>_ _. True)" for dl k i t
    using run_poll [where I = "\<lambda>_ _. True" and Q = "\<lambda>_ _. True" and E = "\<lambda>_ _. True" and R = R and G = G
        and deadline = dl and body = "\<lambda>_. wait_step bk q k i t" and s = "()"]
      triple_silent [OF fetching_wait_step, where R = R and G = G and P = "\<lambda>_. True"]
    by (simp add: case_sum_if)
  have wait: "run_triple R G (\<lambda>_. True) (wait_until_ready bk q k i) (\<lambda>_ _. True) (\<lambda>_ _. True)" for k i
    unfolding wait_until_ready_def Let_def by (intro run_bind [OF triple_monotonic_lift] run_bind [OF loop] run_return) simp
  show ?thesis
    unfolding ensure_def Let_def
    by (rule run_bind [OF quiet_lift]) (auto intro!: wait run_return split: sum.split)
qed

subsection \<open>A cache-only request leaves the queue alone\<close>

definition queue_rely :: rely where
  "queue_rely = \<lparr>steps = \<lambda>d d'. queue_items d' = queue_items d, times = \<lambda>_. True\<rparr>"

definition keeps_queue :: "queue_row list \<Rightarrow> 'a act \<Rightarrow> ('a \<Rightarrow> bool) \<Rightarrow> bool" where
  "keeps_queue qs m Q \<longleftrightarrow> triple queue_rely (\<lambda>_. True) (\<lambda>d. queue_items d = qs) m
     (\<lambda>x d. Q x \<and> queue_items d = qs) (\<lambda>_ d. queue_items d = qs)"

lemma stable_queue [simp]: "stable queue_rely (\<lambda>d. queue_items d = qs)"
  by (simp add: stable_def queue_rely_def)

lemma keeps_queue_bind:
  "keeps_queue qs m P \<Longrightarrow> (\<And>x. P x \<Longrightarrow> keeps_queue qs (k x) Q) \<Longrightarrow> keeps_queue qs (bindM m k) Q"
  unfolding keeps_queue_def by (rule triple_bind) (auto intro: triple_pure)

lemma keeps_queue_then:
  "keeps_queue qs m (\<lambda>_. True) \<Longrightarrow> keeps_queue qs k Q \<Longrightarrow> keeps_queue qs (thenM m k) Q"
  unfolding thenM_def by (rule keeps_queue_bind)

lemma keeps_queue_return: "Q x \<Longrightarrow> keeps_queue qs (returnM x) Q"
  unfolding keeps_queue_def by (rule triple_return) simp

lemma keeps_queue_raise: "keeps_queue qs (raiseM err) Q"
  unfolding keeps_queue_def by (rule triple_raise)

lemma keeps_queue_now: "keeps_queue qs utc_now (\<lambda>_. True)"
  unfolding keeps_queue_def by (rule triple_now) simp

lemma keeps_queue_read: "keeps_queue qs (readM f) (\<lambda>_. True)"
  unfolding keeps_queue_def by (rule triple_read) simp_all

lemma keeps_queue_tx_do: "(\<And>d. queue_items (f d) = queue_items d) \<Longrightarrow> keeps_queue qs (tx_do f) (\<lambda>_. True)"
  unfolding keeps_queue_def by (rule triple_tx_do) simp_all

lemmas keeps_queue_rules = keeps_queue_bind [OF keeps_queue_read] keeps_queue_bind [OF keeps_queue_now]
  keeps_queue_then [OF keeps_queue_tx_do] keeps_queue_return keeps_queue_raise

lemma keeps_queue_readable: "keeps_queue qs (read_completed_cache k) (\<lambda>_. True)"
  unfolding read_completed_cache_def
  by (rule keeps_queue_rules) (auto intro!: keeps_queue_rules split: option.split)

lemma keeps_queue_readiness: "keeps_queue qs (evaluate_readiness q settings) (\<lambda>_. True)"
  by (auto simp: evaluate_readiness_def Let_def intro!: keeps_queue_rules split: option.split)

definition served :: "arxiv_result \<Rightarrow> bool" where
  "served a \<longleftrightarrow> ar_status a = ''ready'' \<or> ar_status a = ''immature''"

lemma keeps_queue_result: "keeps_queue qs (result_from_completed_cache bk k c h i q) served"
  unfolding result_from_completed_cache_def Let_def
  by (intro keeps_queue_rules keeps_queue_bind [OF keeps_queue_readiness]) (simp add: served_def plain_result_def)

lemma keeps_queue_composed: "keeps_queue qs (record_composed k q ps) (\<lambda>_. True)"
  unfolding record_composed_def by (intro keeps_queue_rules keeps_queue_tx_do) simp

lemma keeps_queue_compose: "keeps_queue qs (try_compose_cached_id_list bk q k) (\<lambda>r. \<forall>a. r = Some a \<longrightarrow> served a)"
  unfolding try_compose_cached_id_list_def Let_def
  by (auto intro!: keeps_queue_rules keeps_queue_then [OF keeps_queue_composed] keeps_queue_bind [OF keeps_queue_readable]
      keeps_queue_bind [OF keeps_queue_result] split: option.split)

lemma keeps_queue_answer:
  assumes "req_cache_policy q = CACHE_ONLY"
  shows "keeps_queue qs (answer_or_wait bk q k)
    (\<lambda>v. \<exists>a. v = Inl a \<and> (served a \<or> ar_status a = ''cache_miss'' \<and> ar_papers a = []))"
  unfolding answer_or_wait_def serve_cached_def using assms
  by (auto simp: plain_result_def intro!: keeps_queue_bind [OF keeps_queue_readable] keeps_queue_bind [OF keeps_queue_result]
      keeps_queue_bind [OF keeps_queue_compose] keeps_queue_rules split: option.split)

text \<open>A cache-only request never queues work: as long as the other
  processes leave the queue as it is, it is the same when ensure is back, whether it returns or
  raises, and the answer is one from the cache or a miss without papers.\<close>

theorem cache_only_leaves_the_queue_alone:
  assumes "req_cache_policy q = CACHE_ONLY" and "\<And>n d. queue_items (others w n d) = queue_items d"
    and "ensure bk q w = Some (res, w')"
  shows "queue_items (store w') = queue_items (store w) \<and>
    (case res of Inl _ \<Rightarrow> True
     | Inr a \<Rightarrow> ar_status a = ''ready'' \<or> ar_status a = ''immature'' \<or> ar_status a = ''cache_miss'' \<and> ar_papers a = [])"
proof -
  let ?k = "request_cache_key (bk_sha256 bk) q"
  have R: "runs_under queue_rely w" using assms(2) by (simp add: runs_under_def queue_rely_def)
  obtain v w1 where a: "answer_or_wait bk q ?k w = (v, w1)" by fastforce
  note 1 = triple_at(3) [OF keeps_queue_answer [OF assms(1), unfolded keeps_queue_def] R refl a]
  show ?thesis
  proof (cases v)
    case (Inl err)
    with 1 assms(3) a show ?thesis by (auto simp: ensure_def Let_def bind_run_def lift_run_def)
  next
    case (Inr x)
    with 1 obtain r where "v = Inr (Inl r)" "queue_items (store w1) = queue_items (store w)"
      "served r \<or> ar_status r = ''cache_miss'' \<and> ar_papers r = []" by auto
    with assms(3) a show ?thesis
      by (auto simp: ensure_def Let_def bind_run_def lift_run_def served_def)
  qed
qed

subsection \<open>Papers come from a readable entry\<close>

definition answers :: "string \<Rightarrow> cache_entry \<Rightarrow> arxiv_paper list \<Rightarrow> db \<Rightarrow> bool" where
  "answers k c ps d \<longleftrightarrow> get_cache_entry k d = Some c \<and> c_status c = ''completed'' \<and>
     completed_cache_integrity_failure k c d = None \<and> get_cached_papers k d = ps"

text \<open>The others do not replace a completed entry of the key, nor touch its matches and its papers.\<close>

definition spares :: "string \<Rightarrow> db \<Rightarrow> db \<Rightarrow> bool" where
  "spares k d d' \<longleftrightarrow> (\<forall>c. get_cache_entry k d = Some c \<longrightarrow> c_status c = ''completed'' \<longrightarrow>
     get_cache_entry k d' = Some c \<and>
     completed_cache_integrity_failure k c d' = completed_cache_integrity_failure k c d \<and>
     get_cached_papers k d' = get_cached_papers k d)"

definition answer_rely :: "string \<Rightarrow> rely" where
  "answer_rely k = \<lparr>steps = spares k, times = \<lambda>_. True\<rparr>"

lemma stable_answers: "stable (answer_rely k) (answers k c ps)"
  by (auto simp: stable_def answer_rely_def spares_def answers_def)

lemma stable_completed: "stable (answer_rely k) (\<lambda>d. get_cache_entry k d = Some c \<and> c_status c = ''completed'')"
  by (auto simp: stable_def answer_rely_def spares_def)

lemma stable_True: "stable R (\<lambda>_. True)"
  by (simp add: stable_def)

abbreviation gets :: "string \<Rightarrow> (db \<Rightarrow> bool) \<Rightarrow> 'a act \<Rightarrow> ('a \<Rightarrow> db \<Rightarrow> bool) \<Rightarrow> bool" where
  "gets k P m Q \<equiv> triple (answer_rely k) (\<lambda>_. True) P m Q (\<lambda>_ _. True)"

definition truthful :: "string \<Rightarrow> arxiv_result \<Rightarrow> db \<Rightarrow> bool" where
  "truthful k a d \<longleftrightarrow> (ar_ready a \<longrightarrow> ar_cache_readable a \<and> ar_status a = ''ready'') \<and>
     (if ar_cache_readable a
      then \<exists>c ps. answers k c ps d \<and> ar_total_results a = c_total_results c \<and>
             ar_coverage_status a = c_coverage_status c \<and>
             (ar_papers a = ps \<or> ar_papers a = [] \<and> ar_status a = ''immature'') \<and>
             ar_papers_total a = int (length (ar_papers a))
      else ar_papers a = [])"

definition truthful_raw :: "string \<Rightarrow> raw_inspection \<Rightarrow> db \<Rightarrow> bool" where
  "truthful_raw k a d \<longleftrightarrow>
     (if ir_cache_readable a
      then \<exists>c ps. answers k c ps d \<and> ir_total_results a = c_total_results c \<and>
             ir_coverage_status a = c_coverage_status c \<and> ir_papers a = ps \<and>
             ir_papers_total a = int (length (ir_papers a))
      else ir_papers a = [])"

lemma stable_truthful: "stable (answer_rely k) (truthful k a)"
proof -
  have "answers k c ps d'" if "steps (answer_rely k) d d'" "answers k c ps d" for c ps d d'
    using stable_answers that unfolding stable_def by blast
  then show ?thesis unfolding stable_def truthful_def by (cases "ar_cache_readable a") (simp, blast, simp)
qed

lemma gets_readable:
  "gets k (\<lambda>_. True) (read_completed_cache k) (\<lambda>v d. \<forall>c. v = Some c \<longrightarrow> (\<exists>ps. answers k c ps d))"
proof -
  have entry: "gets k (\<lambda>d. get_cache_entry k d = Some c \<and> c_status c = ''completed'')
      (bindM (readM (completed_cache_integrity_failure k c)) (\<lambda>failure. case failure of None \<Rightarrow> returnM (Some c)
         | Some reason \<Rightarrow> thenM (tx_do (f reason)) (returnM None)))
      (\<lambda>v d. \<forall>c. v = Some c \<longrightarrow> (\<exists>ps. answers k c ps d))" for c f
  proof (rule triple_bind)
    show "gets k (\<lambda>d. get_cache_entry k d = Some c \<and> c_status c = ''completed'')
      (readM (completed_cache_integrity_failure k c)) (\<lambda>v d. v = None \<longrightarrow> answers k c (get_cached_papers k d) d)"
      by (rule triple_read [OF stable_completed]) (simp add: answers_def)
    show "gets k (\<lambda>d. v = None \<longrightarrow> answers k c (get_cached_papers k d) d)
      (case v of None \<Rightarrow> returnM (Some c) | Some reason \<Rightarrow> thenM (tx_do (f reason)) (returnM None))
      (\<lambda>v d. \<forall>c. v = Some c \<longrightarrow> (\<exists>ps. answers k c ps d))" for v
    proof (cases v)
      case None
      then show ?thesis by (auto intro: triple_return)
    next
      case (Some reason)
      then show ?thesis
        by (auto intro!: triple_then [where Q' = "\<lambda>_. True"] triple_tx_do [OF stable_True] triple_return)
    qed
  qed
  show ?thesis
    unfolding read_completed_cache_def
  proof (rule triple_bind)
    show "gets k (\<lambda>_. True) (readM (get_cache_entry k)) (\<lambda>v d. get_cache_entry k d = v)"
      by (rule triple_read [OF stable_True]) simp
    show "gets k (\<lambda>d. get_cache_entry k d = v) (case v of None \<Rightarrow> returnM None | Some c \<Rightarrow>
        if c_status c \<noteq> ''completed'' then returnM None
        else bindM (readM (completed_cache_integrity_failure k c)) (\<lambda>failure. case failure of None \<Rightarrow> returnM (Some c)
         | Some reason \<Rightarrow> thenM (tx_do (record_event ''cache_integrity_failure''
             [(''cache_key'', JStr k), (''reason'', JStr reason), (''result_count'', JInt (c_result_count c))]))
             (returnM None)))
      (\<lambda>v d. \<forall>c. v = Some c \<longrightarrow> (\<exists>ps. answers k c ps d))" for v
      by (cases v) (auto intro!: triple_return triple_pre [OF entry])
  qed
qed

lemma gets_now: "gets k P utc_now (\<lambda>_. P)"
  by (rule triple_now)

lemma gets_readiness: "gets k P (evaluate_readiness q settings) (\<lambda>_. P)"
  by (auto simp: evaluate_readiness_def Let_def intro!: triple_return triple_raise triple_bind [OF gets_now] split: option.split)

definition shows_entry :: "cache_entry \<Rightarrow> arxiv_paper list \<Rightarrow> arxiv_result \<Rightarrow> bool" where
  "shows_entry c ps a \<longleftrightarrow> ar_cache_readable a \<and> (ar_ready a \<longrightarrow> ar_status a = ''ready'') \<and>
     ar_total_results a = c_total_results c \<and> ar_coverage_status a = c_coverage_status c \<and>
     (ar_papers a = ps \<or> ar_papers a = [] \<and> ar_status a = ''immature'') \<and>
     ar_papers_total a = int (length (ar_papers a))"

lemma shows_truthful: "shows_entry c ps a \<Longrightarrow> answers k c ps d \<Longrightarrow> truthful k a d"
  by (auto simp: shows_entry_def truthful_def)

lemma gets_result:
  "gets k (\<lambda>d. \<exists>ps. answers k c ps d) (result_from_completed_cache bk k c h i q)
     (\<lambda>a d. \<exists>ps. answers k c ps d \<and> shows_entry c ps a)"
proof (rule triple_ex)
  fix ps
  have papers: "gets k (answers k c ps) (readM (get_cached_papers k)) (\<lambda>v d. v = ps \<and> answers k c ps d)"
    by (rule triple_read [OF stable_answers]) (simp add: answers_def)
  show "gets k (answers k c ps) (result_from_completed_cache bk k c h i q)
      (\<lambda>a d. \<exists>ps. answers k c ps d \<and> shows_entry c ps a)"
    unfolding result_from_completed_cache_def Let_def
    by (rule triple_bind [OF papers], rule triple_pure, rule triple_bind [OF gets_readiness], rule triple_return)
      (auto simp: shows_entry_def plain_result_def)
qed

lemma gets_post_truthful:
  "gets k P m (\<lambda>a d. \<exists>ps. answers k c ps d \<and> shows_entry c ps a) \<Longrightarrow> gets k P m (truthful k)"
  by (erule triple_post) (auto intro: shows_truthful)

lemma gets_any: "fetching 0 (\<lambda>_. True) m \<Longrightarrow> gets k P m (\<lambda>_ _. True)"
  by (rule triple_silent)

lemma gets_compose:
  "gets k (\<lambda>_. True) (try_compose_cached_id_list bk q k) (\<lambda>v d. \<forall>a. v = Some a \<longrightarrow> truthful k a d)"
proof -
  have result: "gets k (\<lambda>d. \<exists>ps. answers k c ps d)
      (bindM (result_from_completed_cache bk k c True None q) (\<lambda>r. returnM (Some r)))
      (\<lambda>v d. \<forall>a. v = Some a \<longrightarrow> truthful k a d)" for c
    by (rule triple_bind [OF gets_post_truthful [OF gets_result]]) (auto intro: triple_return)
  have readable: "gets k (\<lambda>_. True) (bindM (read_completed_cache k) (\<lambda>entry. case entry of
        None \<Rightarrow> raiseM (OtherExn ''AssertionError'')
      | Some c \<Rightarrow> bindM (result_from_completed_cache bk k c True None q) (\<lambda>r. returnM (Some r))))
      (\<lambda>v d. \<forall>a. v = Some a \<longrightarrow> truthful k a d)"
    by (rule triple_bind [OF gets_readable]) (auto intro!: triple_raise triple_pre [OF result] split: option.split)
  have found: "gets k (\<lambda>_. True) (case v of None \<Rightarrow> returnM None | Some ps \<Rightarrow>
        thenM (record_composed k q ps) (bindM (read_completed_cache k) (\<lambda>entry. case entry of
        None \<Rightarrow> raiseM (OtherExn ''AssertionError'')
      | Some c \<Rightarrow> bindM (result_from_completed_cache bk k c True None q) (\<lambda>r. returnM (Some r)))))
      (\<lambda>v d. \<forall>a. v = Some a \<longrightarrow> truthful k a d)" for v
    by (cases v) (auto intro: triple_return triple_then [OF gets_any readable])
  show ?thesis
    unfolding try_compose_cached_id_list_def Let_def
    by (auto intro!: triple_return triple_bind [OF gets_any found])
qed

text \<open>The entry read first is still the entry when its papers are read.\<close>

lemma gets_readable_at:
  "gets k (\<lambda>d. get_cache_entry k d = Some e \<and> c_status e = ''completed'') (read_completed_cache k)
     (\<lambda>v d. v \<noteq> None \<longrightarrow> (\<exists>ps. answers k e ps d))"
proof -
  let ?P = "\<lambda>d. get_cache_entry k d = Some e \<and> c_status e = ''completed''"
  have first: "gets k ?P (readM (get_cache_entry k)) (\<lambda>v d. v = Some e \<and> ?P d)"
    by (rule triple_read [OF stable_completed]) simp
  have second: "gets k ?P (readM (completed_cache_integrity_failure k e)) (\<lambda>v d. v = None \<longrightarrow> answers k e (get_cached_papers k d) d)"
    by (rule triple_read [OF stable_completed]) (simp add: answers_def)
  have verdict: "gets k (\<lambda>d. u = None \<longrightarrow> answers k e (get_cached_papers k d) d)
      (case u of None \<Rightarrow> returnM (Some e) | Some reason \<Rightarrow> thenM (tx_do (f reason)) (returnM None))
      (\<lambda>v d. v \<noteq> None \<longrightarrow> (\<exists>ps. answers k e ps d))" for u f
    by (cases u) (auto intro: triple_return triple_then [where Q' = "\<lambda>_. True"] triple_pre [OF triple_tx_do [OF stable_True]])
  have checked: "gets k ?P (if c_status e \<noteq> ''completed'' then returnM None
      else bindM (readM (completed_cache_integrity_failure k e)) (\<lambda>failure. case failure of
         None \<Rightarrow> returnM (Some e) | Some reason \<Rightarrow> thenM (tx_do (f reason)) (returnM None)))
      (\<lambda>v d. v \<noteq> None \<longrightarrow> (\<exists>ps. answers k e ps d))" for f
    by (rule triple_if, rule triple_return, simp, rule triple_bind [OF second], rule verdict)
  show ?thesis
    unfolding read_completed_cache_def
    by (rule triple_bind [OF first], rule triple_pure) (simp only: option.case checked)
qed

lemma gets_inspection: "gets k (\<lambda>_. True) (get_result k) (truthful_raw k)"
proof -
  have entry: "gets k (\<lambda>_. True) (readM (get_cache_entry k)) (\<lambda>v d. get_cache_entry k d = v)"
    by (rule triple_read [OF stable_True]) simp
  have papers: "gets k (\<lambda>d. \<exists>ps. answers k e ps d) (readM (get_cached_papers k)) (\<lambda>v d. answers k e v d)" for e
    by (rule triple_ex, rule triple_read [OF stable_answers]) (simp add: answers_def)
  have shown: "gets k (\<lambda>d. \<exists>ps. answers k e ps d) (bindM (readM (get_cached_papers k)) (\<lambda>ps.
      returnM (plain_inspection ''ready'' k
               \<lparr>ir_papers := ps, ir_papers_total := int (length ps), ir_total_results := c_total_results e,
                ir_coverage_status := c_coverage_status e, ir_cache_hit := True, ir_cache_readable := True,
                ir_error_category := c_error_category e, ir_error_message := c_error_message e,
                ir_completed_at := c_completed_at e, ir_cooldown_until := c_cooldown_until e,
                ir_upstream_status := c_upstream_status e\<rparr>))) (truthful_raw k)" for e
    by (rule triple_bind [OF papers], rule triple_return) (auto simp: truthful_raw_def)
  have some: "gets k (\<lambda>d. get_cache_entry k d = Some e \<and> c_status e = ''completed'')
      (bindM (read_completed_cache k) (\<lambda>readable. if readable = None then returnM (f e)
         else bindM (readM (get_cached_papers k)) (\<lambda>ps.
      returnM (plain_inspection ''ready'' k
               \<lparr>ir_papers := ps, ir_papers_total := int (length ps), ir_total_results := c_total_results e,
                ir_coverage_status := c_coverage_status e, ir_cache_hit := True, ir_cache_readable := True,
                ir_error_category := c_error_category e, ir_error_message := c_error_message e,
                ir_completed_at := c_completed_at e, ir_cooldown_until := c_cooldown_until e,
                ir_upstream_status := c_upstream_status e\<rparr>)))) (truthful_raw k)"
    if "\<And>e d. truthful_raw k (f e) d" for e f
    by (rule triple_bind [OF gets_readable_at]) (auto intro!: triple_return that triple_pre [OF shown])
  show ?thesis
    unfolding get_result_def
    by (rule triple_bind [OF entry])
      (auto intro!: triple_return triple_pre [OF some] simp: truthful_raw_def plain_inspection_def split: option.split)
qed

lemma gets_terminal:
  "gets k (\<lambda>_. True) (terminal_answer q k i) (\<lambda>v d. \<forall>a. v = Some a \<longrightarrow> truthful k a d)"
proof -
  have made: "truthful k (result_from_terminal_raw_state q raw i item) d" if "truthful_raw k raw d" for raw item d
    using that unfolding truthful_def truthful_raw_def by (fastforce simp: result_from_terminal_raw_state_def plain_result_def Let_def split: if_splits)
  show ?thesis
    unfolding terminal_answer_def
    by (rule triple_bind [where Q' = "\<lambda>_ _. True"])
      (auto intro!: gets_any triple_bind [OF gets_inspection] triple_return made)
qed

lemma gets_poll: "gets k (\<lambda>_. True) (poll_answer bk q k i) (\<lambda>v d. \<forall>a. v = Some a \<longrightarrow> truthful k a d)"
proof -
  have result: "gets k (\<lambda>d. \<exists>ps. answers k c ps d)
      (bindM (result_from_completed_cache bk k c True (Some i) q) (\<lambda>r. returnM (Some r)))
      (\<lambda>v d. \<forall>a. v = Some a \<longrightarrow> truthful k a d)" for c
    by (rule triple_bind [OF gets_post_truthful [OF gets_result]]) (auto intro: triple_return)
  have completed: "gets k (\<lambda>_. True) (bindM (read_completed_cache k) (\<lambda>readable. case readable of
      Some c \<Rightarrow> bindM (result_from_completed_cache bk k c True (Some i) q) (\<lambda>r. returnM (Some r))
    | None \<Rightarrow> terminal_answer q k i)) (\<lambda>v d. \<forall>a. v = Some a \<longrightarrow> truthful k a d)"
    by (rule triple_bind [OF gets_readable]) (auto intro!: triple_pre [OF result] triple_pre [OF gets_terminal] split: option.split)
  show ?thesis
    unfolding poll_answer_def
    by (rule triple_bind [where Q' = "\<lambda>_ _. True"])
      (auto intro!: gets_any triple_return completed gets_terminal split: option.split)
qed

lemma gets_wait_step:
  "gets k (\<lambda>_. True) (wait_step bk q k i t) (loop_post (truthful k) (\<lambda>_ _. True))"
  unfolding wait_step_def
  by (rule triple_bind [OF gets_poll]) (auto intro!: triple_return triple_bind [where Q' = "\<lambda>_ _. True"] triple_sleep split: option.split)

lemma gets_wait: "run_triple (answer_rely k) (\<lambda>_. True) (\<lambda>_. True) (wait_until_ready bk q k i) (truthful k) (\<lambda>_ _. True)"
proof -
  have loop: "run_triple (answer_rely k) (\<lambda>_. True) (\<lambda>_. True) (poll_until dl (\<lambda>_. wait_step bk q k i t) ())
      (loop_post (truthful k) (\<lambda>_ _. True)) (\<lambda>_ _. True)" for dl t
    by (rule run_poll [where I = "\<lambda>_ _. True", OF gets_wait_step])
  show ?thesis
    unfolding wait_until_ready_def Let_def
    by (intro run_bind [OF triple_monotonic_lift] run_bind [OF loop] run_return)
      (auto simp: timeout_result_def truthful_def plain_result_def split: sum.splits)
qed

text \<open>Queueing a refresh moves refresh_after of the entry and nothing else of the answer.\<close>

lemma enqueue_tables:
  "cache_entries (snd (enqueue_request_for_work_conn q k wk b dflt t u d)) = cache_entries d"
  "cache_matches (snd (enqueue_request_for_work_conn q k wk b dflt t u d)) = cache_matches d"
  "papers (snd (enqueue_request_for_work_conn q k wk b dflt t u d)) = papers d"
  by (simp_all add: enqueue_request_for_work_conn_def Let_def split: option.split)

definition only_refresh_moves :: "db \<Rightarrow> db \<Rightarrow> bool" where
  "only_refresh_moves d d' \<longleftrightarrow> papers d' = papers d \<and> cache_matches d' = cache_matches d \<and>
     (\<forall>k. map_option (\<lambda>c. c\<lparr>c_refresh_after := None\<rparr>) (get_cache_entry k d') =
          map_option (\<lambda>c. c\<lparr>c_refresh_after := None\<rparr>) (get_cache_entry k d))"

lemma set_refresh_moves: "only_refresh_moves d (set_refresh_after k t d)"
proof -
  have "map_option (\<lambda>c. c\<lparr>c_refresh_after := None\<rparr>) (get_cache_entry j (set_refresh_after k t d)) =
      map_option (\<lambda>c. c\<lparr>c_refresh_after := None\<rparr>) (get_cache_entry j d)" for j
    by (cases "tbl_get c_cache_key j (cache_entries d)")
      (simp_all add: set_refresh_after_def get_cache_entry_def tbl_get_update)
  then show ?thesis by (simp add: only_refresh_moves_def set_refresh_after_def)
qed

lemma refresh_moves: "only_refresh_moves d (snd (enqueue_refresh_if_due q k dflt t u d))"
proof -
  have conn: "only_refresh_moves d (snd (enqueue_request_for_work_conn q k wk b dflt t u e))"
    if "only_refresh_moves d e" for wk b e
    using that by (simp add: only_refresh_moves_def enqueue_tables get_cache_entry_def)
  have refl: "only_refresh_moves d d" by (simp add: only_refresh_moves_def)
  have pick: "only_refresh_moves d (snd (case enqueue_request_for_work_conn q k wk b dflt t u e of
      (Inl err, d') \<Rightarrow> (Inl err, d') | (Inr (i, joined), d') \<Rightarrow> (Inr (Some i, joined), d')))"
    if "only_refresh_moves d e" for wk b e
    using conn [OF that, of wk b] by (auto split: prod.split sum.split)
  have undone: "only_refresh_moves d (snd (case (case enqueue_request_for_work_conn q k wk b dflt t u e of
      (Inl err, d') \<Rightarrow> (Inl err, d') | (Inr (i, joined), d') \<Rightarrow> (Inr (Some i, joined), d')) of
      (Inl err, _) \<Rightarrow> (Inl err, d) | ok \<Rightarrow> ok))"
    if "only_refresh_moves d e" for wk b e
    using conn [OF that, of wk b] refl by (auto split: prod.split sum.split)
  show ?thesis
    unfolding enqueue_refresh_if_due_def Let_def
    by (auto simp: refl set_refresh_moves intro!: pick undone split: option.split)
qed

lemma refreshed_entry:
  assumes "only_refresh_moves d d'" "answers k c ps d"
  shows "\<exists>c'. answers k c' ps d' \<and> c_total_results c' = c_total_results c \<and> c_coverage_status c' = c_coverage_status c"
proof -
  have c: "get_cache_entry k d = Some c" using assms(2) by (simp add: answers_def)
  then obtain c' where c': "get_cache_entry k d' = Some c'" "c'\<lparr>c_refresh_after := None\<rparr> = c\<lparr>c_refresh_after := None\<rparr>"
    using assms(1) unfolding only_refresh_moves_def by (metis (no_types, lifting) map_option_eq_Some)
  have eq: "c_status c' = c_status c" "c_result_count c' = c_result_count c" "c_total_results c' = c_total_results c"
    "c_coverage_status c' = c_coverage_status c"
    using arg_cong [OF c'(2), of c_status] arg_cong [OF c'(2), of c_result_count]
      arg_cong [OF c'(2), of c_total_results] arg_cong [OF c'(2), of c_coverage_status] by simp_all
  have same: "papers d' = papers d" "cache_matches d' = cache_matches d"
    using assms(1) by (simp_all add: only_refresh_moves_def)
  then have "completed_cache_integrity_failure k c' d' = completed_cache_integrity_failure k c d"
    "get_cached_papers k d' = get_cached_papers k d"
    by (simp_all add: completed_cache_integrity_failure_def get_cached_papers_def matches_of_def get_paper_row_def eq Let_def)
  with assms(2) c' eq show ?thesis by (auto simp: answers_def)
qed

lemma truthful_refresh: "truthful k a d \<Longrightarrow> only_refresh_moves d d' \<Longrightarrow> truthful k a d'"
  using refreshed_entry [of d d' k] unfolding truthful_def by (auto split: if_splits) metis+

lemma gets_serve:
  "gets k (\<lambda>d. \<exists>ps. answers k c ps d) (serve_cached bk q k c) (truthful k)"
proof -
  have reread: "gets k (truthful k r) (readM (get_cache_entry k)) (\<lambda>_. truthful k r)" for r
    by (rule triple_read [OF stable_truthful])
  have stale: "truthful k (r\<lparr>ar_stale := b, ar_request_id := i, ar_queued_at := t, ar_refresh_after := u\<rparr>) d"
    if "truthful k r d" for r b i t u d
    using that by (simp add: truthful_def)
  have refresh: "gets k (truthful k r) (tx_try (enqueue_refresh_if_due q k dflt t u)) (\<lambda>_. truthful k r)" for r dflt t u
    by (rule triple_tx_try [OF stable_truthful]) (auto intro: truthful_refresh refresh_moves split: sum.split)
  have told: "gets k (truthful k r) (case item of None \<Rightarrow> returnM r
       | Some i \<Rightarrow> bindM (readM (get_cache_entry k)) (\<lambda>reserved.
           returnM (r\<lparr>ar_stale := True, ar_request_id := Some (i_request_id i), ar_queued_at := Some (i_created_at i),
             ar_refresh_after := (case reserved of None \<Rightarrow> ar_refresh_after r | Some c \<Rightarrow> c_refresh_after c)\<rparr>)))
      (truthful k)" for r item
    by (cases item) (auto intro!: triple_return triple_bind [OF reread] stale)
  show ?thesis
    unfolding serve_cached_def
    by (rule triple_bind [OF gets_post_truthful [OF gets_result]])
      (auto intro!: triple_return bind_now bind_uuid triple_bind [OF refresh] told)
qed

lemma gets_queued:
  "gets k (\<lambda>_. True) (answer_queued bk q k) (\<lambda>v d. \<forall>a. v = Inl a \<longrightarrow> truthful k a d)"
  unfolding answer_queued_def
  by (auto intro!: triple_bind [where Q' = "\<lambda>_ _. True"] gets_any triple_return no_fetch
      simp: truthful_def plain_result_def split: prod.split option.split)

lemma gets_answer: "gets k (\<lambda>_. True) (answer_or_wait bk q k) (\<lambda>v d. \<forall>a. v = Inl a \<longrightarrow> truthful k a d)"
proof -
  have serve: "gets k (\<lambda>d. \<exists>ps. answers k c ps d) (bindM (serve_cached bk q k c) (\<lambda>r. returnM (Inl r)))
      (\<lambda>v d. \<forall>a. v = Inl a \<longrightarrow> truthful k a d)" for c
    by (rule triple_bind [OF gets_serve]) (auto intro: triple_return)
  have miss: "gets k (\<lambda>d. \<forall>a. v = Some a \<longrightarrow> truthful k a d) (case v of Some r \<Rightarrow> returnM (Inl r) | None \<Rightarrow>
      if req_cache_policy q = CACHE_ONLY then returnM (Inl (plain_result q ''cache_miss'' k\<lparr>ar_blocked_reason := Some ''cache_miss''\<rparr>))
      else answer_queued bk q k) (\<lambda>v d. \<forall>a. v = Inl a \<longrightarrow> truthful k a d)" for v
  proof -
    have "truthful k (plain_result q ''cache_miss'' k\<lparr>ar_blocked_reason := u\<rparr>) d" for u d
      by (simp add: truthful_def plain_result_def)
    then show ?thesis by (cases v) (auto intro!: triple_return triple_pre [OF gets_queued])
  qed
  note compose = triple_bind [OF gets_compose miss]
  show ?thesis
    unfolding answer_or_wait_def
  proof (rule triple_bind [OF gets_readable])
    fix v
    show "gets k (\<lambda>d. \<forall>c. v = Some c \<longrightarrow> (\<exists>ps. answers k c ps d)) (case v of
        Some c \<Rightarrow> bindM (serve_cached bk q k c) (\<lambda>r. returnM (Inl r))
      | None \<Rightarrow> bindM (try_compose_cached_id_list bk q k) (\<lambda>composed. case composed of Some r \<Rightarrow> returnM (Inl r)
          | None \<Rightarrow> if req_cache_policy q = CACHE_ONLY then
              returnM (Inl (plain_result q ''cache_miss'' k\<lparr>ar_blocked_reason := Some ''cache_miss''\<rparr>))
            else answer_queued bk q k)) (\<lambda>v d. \<forall>a. v = Inl a \<longrightarrow> truthful k a d)"
    proof (cases v)
      case None
      show ?thesis unfolding None option.case by (rule triple_pre [OF compose]) simp
    next
      case (Some c)
      then show ?thesis by (auto intro: triple_pre [OF serve])
    qed
  qed
qed

text \<open>C2. The papers of an answer are those of the cache: as long as the other
  processes spare the completed entry of the key, an answer that says it is readable describes a
  completed entry that passes the integrity check at that moment, with its total and coverage and all
  its papers in order, unless the window is immature and no paper is shown; any other answer carries
  no papers, and an answer is marked ready only when it is a readable one.\<close>

theorem answers_are_stored_answers:
  assumes "\<And>n d. spares (request_cache_key (bk_sha256 bk) q) d (others w n d)"
    and "ensure bk q w = Some (Inr a, w')"
  shows "truthful (request_cache_key (bk_sha256 bk) q) a (store w')"
proof -
  let ?k = "request_cache_key (bk_sha256 bk) q"
  have R: "runs_under (answer_rely ?k) w" using assms(1) by (simp add: runs_under_def answer_rely_def)
  have "run_triple (answer_rely ?k) (\<lambda>_. True) (\<lambda>_. True) (ensure bk q) (truthful ?k) (\<lambda>_ _. True)"
    unfolding ensure_def Let_def
  proof (rule run_bind [OF run_lift [OF gets_answer]])
    show "run_triple (answer_rely ?k) (\<lambda>_. True) (\<lambda>d. \<forall>a. v = Inl a \<longrightarrow> truthful ?k a d)
        (case v of Inl r \<Rightarrow> lift_run (returnM r) | Inr i \<Rightarrow> wait_until_ready bk q ?k i) (truthful ?k) (\<lambda>_ _. True)" for v
      by (cases v) (auto intro: run_return run_pre [OF gets_wait])
  qed
  from run_tripleD(3) [OF this R _ assms(2)] show ?thesis by simp
qed

subsection \<open>Immature windows are withheld\<close>

definition clock_rely :: "(datetime \<Rightarrow> bool) \<Rightarrow> rely" where
  "clock_rely T = \<lparr>steps = \<lambda>_ _. True, times = T\<rparr>"

text \<open>Facts about results alone, which no step of the others touches.\<close>

definition yields :: "(datetime \<Rightarrow> bool) \<Rightarrow> 'a act \<Rightarrow> ('a \<Rightarrow> bool) \<Rightarrow> bool" where
  "yields T m Q \<longleftrightarrow> triple (clock_rely T) (\<lambda>_. True) (\<lambda>_. True) m (\<lambda>x _. Q x) (\<lambda>_ _. True)"

lemma yields_bind: "yields T m P \<Longrightarrow> (\<And>x. P x \<Longrightarrow> yields T (k x) Q) \<Longrightarrow> yields T (bindM m k) Q"
  unfolding yields_def
proof (rule triple_bind)
  fix x assume k: "\<And>x. P x \<Longrightarrow> triple (clock_rely T) (\<lambda>_. True) (\<lambda>_. True) (k x) (\<lambda>x _. Q x) (\<lambda>_ _. True)"
  show "triple (clock_rely T) (\<lambda>_. True) (\<lambda>_. P x) (k x) (\<lambda>x _. Q x) (\<lambda>_ _. True)"
    by (cases "P x") (auto intro: k triple_never)
qed

lemma yields_return: "Q x \<Longrightarrow> yields T (returnM x) Q"
  unfolding yields_def by (rule triple_return)

lemma yields_raise: "yields T (raiseM err) Q"
  unfolding yields_def by (rule triple_raise) simp

lemma yields_now: "yields T utc_now T"
  unfolding yields_def by (rule triple_now_times) (simp add: clock_rely_def)

lemma yields_any: "fetching 0 (\<lambda>_. True) m \<Longrightarrow> yields T m (\<lambda>_. True)"
  unfolding yields_def by (rule triple_silent)

lemma yields_then: "fetching 0 (\<lambda>_. True) m \<Longrightarrow> yields T k Q \<Longrightarrow> yields T (thenM m k) Q"
  unfolding thenM_def by (rule yields_bind [OF yields_any])

lemma yields_weaken: "yields T m P \<Longrightarrow> (\<And>x. P x \<Longrightarrow> Q x) \<Longrightarrow> yields T m Q"
  unfolding yields_def by (erule triple_post)

lemmas yields_rules = yields_return yields_raise yields_then yields_bind [OF yields_any]

definition matured :: "broker \<Rightarrow> arxiv_request \<Rightarrow> (datetime \<Rightarrow> bool) \<Rightarrow> bool" where
  "matured bk q T \<longleftrightarrow> submitted_start q = None \<or> submitted_end q = None \<or> maturity_lag q (bk_settings bk) \<le> 0 \<or>
     (\<exists>t until. T t \<and> submitted_end q = Some until \<and> until \<le> maturity_cutoff (maturity_lag q (bk_settings bk)) t)"

definition in_time :: "arxiv_result \<Rightarrow> bool" where
  "in_time a \<longleftrightarrow> ar_blocked_reason a \<noteq> Some ''timeout''"

lemma yields_readiness:
  "yields T (evaluate_readiness q (bk_settings bk))
     (\<lambda>rd. (rd_analysis_ready rd \<longrightarrow> matured bk q T) \<and> rd_blocked_reason rd \<noteq> Some ''timeout'')"
  by (auto simp: evaluate_readiness_def Let_def matured_def always_ready_def intro!: yields_rules yields_bind [OF yields_now]
      split: option.split)

definition withheld :: "broker \<Rightarrow> arxiv_request \<Rightarrow> (datetime \<Rightarrow> bool) \<Rightarrow> arxiv_result \<Rightarrow> bool" where
  "withheld bk q T a \<longleftrightarrow> (readiness q = ANALYSIS_READY \<longrightarrow> ar_papers a \<noteq> [] \<longrightarrow> matured bk q T) \<and> in_time a"

text \<open>What a wait can also give: the papers of a terminal state, not marked ready.\<close>

definition settled :: "broker \<Rightarrow> arxiv_request \<Rightarrow> (datetime \<Rightarrow> bool) \<Rightarrow> arxiv_result \<Rightarrow> bool" where
  "settled bk q T a \<longleftrightarrow> (readiness q = ANALYSIS_READY \<longrightarrow> ar_papers a \<noteq> [] \<longrightarrow>
     matured bk q T \<or> \<not> ar_ready a \<and> \<not> ar_analysis_ready a) \<and> in_time a"

lemma withheld_settled: "withheld bk q T a \<Longrightarrow> settled bk q T a"
  by (auto simp: withheld_def settled_def)

lemma withheld_plain: "u \<noteq> Some ''timeout'' \<Longrightarrow> withheld bk q T (plain_result q s k\<lparr>ar_blocked_reason := u\<rparr>)"
  by (simp add: withheld_def in_time_def plain_result_def)

lemma yields_result: "yields T (result_from_completed_cache bk k c h i q) (withheld bk q T)"
  unfolding result_from_completed_cache_def Let_def
  by (intro yields_rules yields_bind [OF yields_readiness [of T q bk]])
    (auto simp: withheld_def in_time_def plain_result_def)

lemma yields_compose: "yields T (try_compose_cached_id_list bk q k) (\<lambda>v. \<forall>a. v = Some a \<longrightarrow> withheld bk q T a)"
  unfolding try_compose_cached_id_list_def Let_def
  by (auto intro!: yields_rules yields_bind [OF yields_result] split: option.split)

lemma yields_serve: "yields T (serve_cached bk q k c) (withheld bk q T)"
proof -
  have "withheld bk q T (r\<lparr>ar_stale := b, ar_request_id := i, ar_queued_at := t, ar_refresh_after := u\<rparr>)"
    if "withheld bk q T r" for r b i t u
    using that by (simp add: withheld_def in_time_def)
  then show ?thesis
    unfolding serve_cached_def
    by (auto intro!: yields_rules yields_bind [OF yields_result] split: option.split prod.split)
qed

lemma yields_queued: "yields T (answer_queued bk q k) (\<lambda>v. \<forall>a. v = Inl a \<longrightarrow> withheld bk q T a)"
  unfolding answer_queued_def
  by (auto simp: plain_result_def withheld_def in_time_def intro!: yields_rules no_fetch split: prod.split option.split)

lemma yields_answer: "yields T (answer_or_wait bk q k) (\<lambda>v. \<forall>a. v = Inl a \<longrightarrow> withheld bk q T a)"
  unfolding answer_or_wait_def
  by (auto intro!: withheld_plain yields_queued yields_rules yields_bind [OF yields_serve] yields_bind [OF yields_compose]
      split: option.split)

lemma no_wait:
  assumes "req_cache_policy q \<noteq> WAIT_UNTIL_READY"
  shows "yields T (answer_or_wait bk q k) (\<lambda>v. \<exists>a. v = Inl a)"
  unfolding answer_or_wait_def answer_queued_def using assms
  by (auto intro!: yields_rules no_fetch split: option.split prod.split)

lemma yields_inspection: "yields T (get_result k) (\<lambda>raw. ir_blocked_reason raw = None)"
  unfolding get_result_def by (auto simp: plain_inspection_def intro!: yields_rules no_fetch split: option.split)

lemma yields_terminal: "yields T (terminal_answer q k i) (\<lambda>v. \<forall>a. v = Some a \<longrightarrow> settled bk q T a)"
proof -
  have "settled bk q T (result_from_terminal_raw_state q raw i item)" if "ir_blocked_reason raw = None" for raw item
    using that by (auto simp: settled_def in_time_def result_from_terminal_raw_state_def plain_result_def Let_def
        terminal_delayed_def split: option.splits)
  then show ?thesis
    unfolding terminal_answer_def by (auto intro!: yields_rules yields_bind [OF yields_inspection])
qed

lemma yields_poll: "yields T (poll_answer bk q k i) (\<lambda>v. \<forall>a. v = Some a \<longrightarrow> settled bk q T a)"
  unfolding poll_answer_def
  by (auto intro!: yields_rules yields_terminal yields_bind [OF yields_result] withheld_settled split: option.split)

lemma yields_wait_step: "yields T (wait_step bk q k i t) (\<lambda>v. \<forall>a. v = Inl a \<longrightarrow> settled bk q T a)"
  unfolding wait_step_def by (auto intro!: yields_rules yields_bind [OF yields_poll] split: option.split)

lemma wait_loop:
  "run_triple (clock_rely T) (\<lambda>_. True) (\<lambda>_. True) (poll_until dl (\<lambda>_. wait_step bk q k i t) ())
     (\<lambda>v _. \<forall>a. v = Inl a \<longrightarrow> settled bk q T a) (\<lambda>_ _. True)"
proof (rule run_post [OF run_poll [where I = "\<lambda>_ _. True" and Q = "\<lambda>a _. settled bk q T a"]])
  show "triple (clock_rely T) (\<lambda>_. True) (\<lambda>_. True) (wait_step bk q k i t)
      (loop_post (\<lambda>a _. settled bk q T a) (\<lambda>_ _. True)) (\<lambda>_ _. True)"
    using yields_wait_step unfolding yields_def by (rule triple_post) (auto split: sum.split)
qed (auto split: sum.splits)

lemma timed_out_result:
  "ar_papers (timeout_result q k i) = []" "ar_blocked_reason (timeout_result q k i) = Some ''timeout''"
  by (simp_all add: timeout_result_def plain_result_def)


subsection \<open>It answers by the deadline\<close>

text \<open>Pauses: what a program sleeps, each pause of a hundredth to a tenth of a second.\<close>

definition pausing :: "'a act \<Rightarrow> bool" where
  "pausing m \<longleftrightarrow> (\<forall>w. \<exists>ss. slept (snd (m w)) = slept w @ ss \<and> list_all (\<lambda>s. 1/100 \<le> s \<and> s \<le> 1/10) ss)"

lemma pausing_prims:
  "pausing (returnM x)" "pausing (raiseM e)" "pausing utc_now" "pausing (tx_do g)" "pausing (tx_try u)"
  "pausing (readM v)" "pausing uuid4" "1/100 \<le> s \<Longrightarrow> s \<le> 1/10 \<Longrightarrow> pausing (sleepM s)"
  by (auto simp: pausing_def returnM_def raiseM_def utc_now_def tx_def tx_do_def tx_try_def readM_def uuid4_def
      sleepM_def acquire_lock_def Let_def split: prod.split sum.split)

lemma pausing_bind:
  assumes "pausing m" "\<And>x. pausing (k x)"
  shows "pausing (bindM m k)"
  unfolding pausing_def
proof
  fix w
  obtain r w1 where m: "m w = (r, w1)" by fastforce
  obtain ss where 1: "slept w1 = slept w @ ss" "list_all (\<lambda>s. 1/100 \<le> s \<and> s \<le> 1/10) ss"
    using assms(1) m unfolding pausing_def by (metis snd_conv)
  show "\<exists>ss. slept (snd (bindM m k w)) = slept w @ ss \<and> list_all (\<lambda>s. 1/100 \<le> s \<and> s \<le> 1/10) ss"
  proof (cases r)
    case (Inl e)
    with m 1 show ?thesis by (auto simp: bindM_def)
  next
    case (Inr x)
    obtain rs where "slept (snd (k x w1)) = slept w1 @ rs" "list_all (\<lambda>s. 1/100 \<le> s \<and> s \<le> 1/10) rs"
      using assms(2) unfolding pausing_def by metis
    with m 1 Inr show ?thesis by (auto simp: bindM_def intro!: exI [of _ "ss @ rs"])
  qed
qed

lemma pausing_then: "pausing m \<Longrightarrow> pausing k \<Longrightarrow> pausing (thenM m k)"
  unfolding thenM_def by (rule pausing_bind)

lemmas pausing_rules = pausing_prims pausing_bind pausing_then

lemma pausing_readable: "pausing (read_completed_cache k)"
  by (auto simp: read_completed_cache_def intro!: pausing_rules split: option.split simp del: runM_return)

lemma pausing_result: "pausing (result_from_completed_cache bk k c h i q)"
  by (auto simp: result_from_completed_cache_def evaluate_readiness_def Let_def intro!: pausing_rules split: option.split simp del: runM_return)

lemma pausing_answer: "pausing (answer_or_wait bk q k)"
  by (auto simp: answer_or_wait_def try_compose_cached_id_list_def record_composed_def serve_cached_def answer_queued_def
      enqueue_work_def Let_def intro!: pausing_rules pausing_readable pausing_result split: option.split prod.split simp del: runM_return)

lemma pausing_wait_step: "pausing (wait_step bk q k i t)"
  by (auto simp: wait_step_def poll_answer_def terminal_answer_def get_result_def
      intro!: pausing_rules pausing_readable pausing_result split: option.split simp del: runM_return)

text \<open>A loop that returns: every reading but the last is before the deadline, and the loop ends by the deadline
  exactly when the last one is not.\<close>

definition polled :: "seconds \<Rightarrow> world \<Rightarrow> bool \<Rightarrow> world \<Rightarrow> bool" where
  "polled deadline w late w' \<longleftrightarrow> mono_reads w < mono_reads w' \<and>
     (\<forall>n. mono_reads w \<le> n \<longrightarrow> Suc n < mono_reads w' \<longrightarrow> mono_clock w n < deadline) \<and>
     (late \<longleftrightarrow> deadline \<le> mono_clock w (mono_reads w' - 1)) \<and>
     (\<exists>ss. slept w' = slept w @ ss \<and> list_all (\<lambda>s. 1/100 \<le> s \<and> s \<le> 1/10) ss)"

lemma polled_again:
  assumes "polled deadline w2 late w'" "mono_clock w (mono_reads w) < deadline"
    and "mono_clock w2 = mono_clock w" "mono_reads w2 = Suc (mono_reads w)"
    and "slept w2 = slept w @ rs" "list_all (\<lambda>s. 1/100 \<le> s \<and> s \<le> 1/10) rs"
  shows "polled deadline w late w'"
proof -
  have "mono_clock w n < deadline" if "mono_reads w \<le> n" "Suc n < mono_reads w'" for n
    using assms that by (cases "n = mono_reads w") (auto simp: polled_def)
  then show ?thesis using assms by (auto simp: polled_def)
qed

lemma poll_until_polled:
  assumes "poll_until deadline body s w = Some out"
  shows "(\<forall>s w. still (snd (body s w)) = still w) \<and> (\<forall>s. pausing (body s)) \<longrightarrow>
    polled deadline w (\<exists>s. fst out = Inr (Inr s)) (snd out)"
proof (rule poll_until.raw_induct [OF _ assms, where P = "\<lambda>deadline body s w out.
    (\<forall>s w. still (snd (body s w)) = still w) \<and> (\<forall>s. pausing (body s)) \<longrightarrow>
    polled deadline w (\<exists>s. fst out = Inr (Inr s)) (snd out)"])
  fix loop deadline body s w out
  assume IH: "\<And>deadline body s w out. loop deadline body s w = Some out \<Longrightarrow>
      (\<forall>s w. still (snd (body s w)) = still w) \<and> (\<forall>s. pausing (body s)) \<longrightarrow>
      polled deadline w (\<exists>s. fst out = Inr (Inr s)) (snd out)"
    and run: "(case monotonic w of (Inl e, w1) \<Rightarrow> Some (Inl e, w1)
      | (Inr t, w1) \<Rightarrow>
          if t < deadline
          then case body s w1 of (Inl e, w2) \<Rightarrow> Some (Inl e, w2)
               | (Inr (Inl r), w2) \<Rightarrow> Some (Inr (Inl r), w2)
               | (Inr (Inr s'), w2) \<Rightarrow> loop deadline body s' w2
          else Some (Inr (Inr s), w1)) = Some out"
  show "(\<forall>s w. still (snd (body s w)) = still w) \<and> (\<forall>s. pausing (body s)) \<longrightarrow>
      polled deadline w (\<exists>s. fst out = Inr (Inr s)) (snd out)"
  proof (intro impI)
    assume body: "(\<forall>s w. still (snd (body s w)) = still w) \<and> (\<forall>s. pausing (body s))"
    let ?w1 = "w\<lparr>mono_reads := Suc (mono_reads w)\<rparr>"
    obtain v w2 where b: "body s ?w1 = (v, w2)" by fastforce
    have "still (snd (body s ?w1)) = still ?w1" using body by blast
    then have w2: "mono_clock w2 = mono_clock w" "mono_reads w2 = Suc (mono_reads w)"
      by (simp_all add: b still_def env_def)
    from body have "pausing (body s)" by blast
    then have "\<exists>ss. slept (snd (body s ?w1)) = slept ?w1 @ ss \<and> list_all (\<lambda>s. 1/100 \<le> s \<and> s \<le> 1/10) ss"
      unfolding pausing_def by blast
    then obtain rs where rs: "slept w2 = slept w @ rs" "list_all (\<lambda>s. 1/100 \<le> s \<and> s \<le> 1/10) rs"
      unfolding b by auto
    show "polled deadline w (\<exists>s. fst out = Inr (Inr s)) (snd out)"
    proof (cases "mono_clock w (mono_reads w) < deadline")
      case False
      with run have "out = (Inr (Inr s), ?w1)" by (simp add: monotonic_def)
      with False show ?thesis by (simp add: polled_def)
    next
      case True
      show ?thesis
      proof (cases "\<exists>s'. v = Inr (Inr s')")
        case False
        then have "snd out = w2" "\<not> (\<exists>s'. fst out = Inr (Inr s'))" using run True b
          by (auto simp: monotonic_def split: sum.splits)
        with True w2 rs show ?thesis by (auto simp: polled_def)
      next
        case again: True
        then obtain s' where "v = Inr (Inr s')" by blast
        then have "loop deadline body s' w2 = Some out" using run True b by (simp add: monotonic_def)
        with IH body have "polled deadline w2 (\<exists>s. fst out = Inr (Inr s)) (snd out)" by blast
        from polled_again [OF this True w2 rs] show ?thesis .
      qed
    qed
  qed
qed

definition timed_out :: "exn + arxiv_result \<Rightarrow> bool" where
  "timed_out res = (case res of Inr a \<Rightarrow> ar_blocked_reason a = Some ''timeout'' | Inl _ \<Rightarrow> False)"

text \<open>The instant of the monotonic clock a request waits for: its timeout, or that of the settings,
  from the first reading on.\<close>

definition wait_limit :: "broker \<Rightarrow> arxiv_request \<Rightarrow> world \<Rightarrow> seconds" where
  "wait_limit bk q w = mono_clock w (mono_reads w) +
     (case timeout_seconds q of Some t \<Rightarrow> if t \<noteq> 0 then t else request_timeout_seconds (bk_settings bk)
      | None \<Rightarrow> request_timeout_seconds (bk_settings bk))"

lemma wait_limit_timeout:
  "wait_limit bk q w = mono_clock w (mono_reads w) + timeout_or (timeout_seconds q) (request_timeout_seconds (bk_settings bk))"
  by (simp add: wait_limit_def timeout_or_def split: option.split)

lemma all_worlds: "runs_under (clock_rely (\<lambda>_. True)) w"
  by (simp add: runs_under_def clock_rely_def)

lemma waited:
  assumes "wait_until_ready bk q k i w = Some (res, w')"
  shows "polled (wait_limit bk q w) (w\<lparr>mono_reads := Suc (mono_reads w)\<rparr>) (timed_out res) w'"
proof -
  let ?w1 = "w\<lparr>mono_reads := Suc (mono_reads w)\<rparr>"
  let ?t = "timeout_or (timeout_seconds q) (request_timeout_seconds (bk_settings bk))"
  let ?loop = "poll_until (wait_limit bk q w) (\<lambda>_. wait_step bk q k i ?t) ()"
  have body: "\<forall>s w. still (snd ((\<lambda>_. wait_step bk q k i ?t) s w)) = still w"
    using fetching_still [OF fetching_wait_step] by blast
  obtain v w2 where loop: "?loop ?w1 = Some (v, w2)" and out: "w' = w2"
    "res = (case v of Inl e \<Rightarrow> Inl e | Inr (Inl r) \<Rightarrow> Inr r | Inr (Inr _) \<Rightarrow> Inr (timeout_result q k i))"
    using assms unfolding wait_until_ready_def Let_def wait_limit_timeout
    by (auto simp: bind_run_def lift_run_def monotonic_def split: option.splits sum.splits)
  have "timed_out res \<longleftrightarrow> (\<exists>s. v = Inr (Inr s))"
    using run_tripleD(3) [OF wait_loop all_worlds TrueI loop] out(2)
    by (auto simp: timed_out_def timed_out_result settled_def in_time_def split: sum.splits)
  moreover have "polled (wait_limit bk q w) ?w1 (\<exists>s. v = Inr (Inr s)) w2"
    using poll_until_polled [OF loop] body pausing_wait_step by simp
  ultimately show ?thesis using out(1) by simp
qed

text \<open>C1. ensure always comes back, by the deadline of its wait: when the monotonic clock does
  not run backwards and passes every bound, ensure returns an answer or raises, whatever policy the
  request has and whatever the other processes do; it never calls upstream itself. It looks at the store
  again only while the clock is before the limit (every reading but the last is), it reports a timeout
  exactly when its last reading is not, and between two looks it pauses for a tenth of a second at
  most.\<close>

theorem ensure_answers:
  assumes "clock_goes_on w"
  shows "\<exists>res w'. ensure bk q w = Some (res, w') \<and> fetches w' = fetches w \<and>
    (\<forall>n. mono_reads w < n \<longrightarrow> Suc n < mono_reads w' \<longrightarrow> mono_clock w n < wait_limit bk q w) \<and>
    (timed_out res \<longleftrightarrow> mono_reads w < mono_reads w' \<and> wait_limit bk q w \<le> mono_clock w (mono_reads w' - 1)) \<and>
    (\<exists>ss. slept w' = slept w @ ss \<and> list_all (\<lambda>s. 1/100 \<le> s \<and> s \<le> 1/10) ss)"
proof -
  let ?k = "request_cache_key (bk_sha256 bk) q"
  obtain res w' where run: "ensure bk q w = Some (res, w')" using ensure_returns [OF assms, of bk q] by fastforce
  obtain v w1 where a: "answer_or_wait bk q ?k w = (v, w1)" by fastforce
  have w1: "mono_clock w1 = mono_clock w" "mono_reads w1 = mono_reads w"
    using fetching_still [OF fetching_serve4(2) [where P = "\<lambda>_. True"], of bk q ?k w] by (simp_all add: a still_def env_def)
  obtain ss where ss: "slept w1 = slept w @ ss" "list_all (\<lambda>s. 1/100 \<le> s \<and> s \<le> 1/10) ss"
    using pausing_answer [of bk q ?k] a unfolding pausing_def by (metis snd_conv)
  note 1 = triple_at(3) [OF yields_answer [unfolded yields_def] all_worlds TrueI a]
  have "(\<forall>n. mono_reads w < n \<longrightarrow> Suc n < mono_reads w' \<longrightarrow> mono_clock w n < wait_limit bk q w) \<and>
    (timed_out res \<longleftrightarrow> mono_reads w < mono_reads w' \<and> wait_limit bk q w \<le> mono_clock w (mono_reads w' - 1)) \<and>
    (\<exists>ss. slept w' = slept w @ ss \<and> list_all (\<lambda>s. 1/100 \<le> s \<and> s \<le> 1/10) ss)"
  proof (cases "\<exists>i. v = Inr (Inr i)")
    case False
    with run a have "w' = w1" "res = (case v of Inl e \<Rightarrow> Inl e | Inr (Inl r) \<Rightarrow> Inr r | Inr (Inr _) \<Rightarrow> res)"
      by (auto simp: ensure_def Let_def bind_run_def lift_run_def split: sum.splits)
    moreover from this 1 False have "\<not> timed_out res" by (auto simp: timed_out_def withheld_def in_time_def split: sum.splits)
    ultimately show ?thesis using w1 ss by auto
  next
    case True
    then obtain i where "v = Inr (Inr i)" by blast
    with run a have "wait_until_ready bk q ?k i w1 = Some (res, w')"
      by (simp add: ensure_def Let_def bind_run_def lift_run_def)
    from waited [OF this] have "polled (wait_limit bk q w) (w1\<lparr>mono_reads := Suc (mono_reads w1)\<rparr>) (timed_out res) w'"
      by (simp add: wait_limit_def w1)
    with w1 ss show ?thesis by (auto simp: polled_def)
  qed
  with run silent_triple [OF ensure_silent run] show ?thesis by blast
qed

subsection \<open>Samples\<close>

text \<open>A broker whose SHA-256 is constant, and a store that answers a request from the cache.\<close>

definition sample_broker :: broker where
  "sample_broker = \<lparr>bk_settings = default_settings, bk_sha256 = (\<lambda>_. ''h''), bk_store_timeout = 30, bk_jitter = (\<lambda>_. 0)\<rparr>"

definition served_store :: db where
  "served_store = record_completed_cache_entry ''huldra:v1:h'' sample_request [sample_paper ''b'', sample_paper ''a'']
     (Some 2) SLICE 200 1 0 5 (empty_db (\<lambda>_. 0))"

definition offline :: "nat \<Rightarrow> arxiv_request \<Rightarrow> exn + fetch_result" where
  "offline n r = Inl (OtherExn ''offline'')"

definition cache_only_request :: arxiv_request where
  "cache_only_request = sample_request\<lparr>req_cache_policy := CACHE_ONLY\<rparr>"

lemma sample_key: "request_cache_key (bk_sha256 sample_broker) q = ''huldra:v1:h''"
proof -
  have "int_text NORMALIZATION_VERSION = ''1''" by code_simp
  then show ?thesis by (simp add: request_cache_key_def sample_broker_def)
qed


definition january_request :: arxiv_request where
  "january_request = sample_request\<lparr>id_list := [], search_query := Some ''cat:cs.LO'', submitted_start := Some 0,
     submitted_end := Some us_per_day, readiness := ANALYSIS_READY, req_cache_policy := WAIT_UNTIL_READY\<rparr>"

definition failed_store :: db where
  "failed_store = (snd (record_cache_failure ''huldra:v1:h'' january_request ''transient'' ''HTTP 500''
      ''failed'' None (Some 500) 1 0 (empty_db (\<lambda>_. 0))))
     \<lparr>queue_items := [sample_row\<lparr>q_cache_key := ''huldra:v1:h'', q_request := january_request, q_status := DELAYED,
        q_upstream_budget_id := None, q_unbudgeted_demand := True\<rparr>]\<rparr>"

text \<open>What a worker leaves behind that retries the item in between.\<close>

definition retried_store :: db where
  "retried_store = complete_queue_item ''r'' 6 (record_completed_cache_entry ''huldra:v1:h'' january_request
     [sample_paper ''b''] (Some 1) SLICE 200 1 0 5 failed_store)"

definition racing_world :: world where
  "racing_world = (alone failed_store offline)\<lparr>others := (\<lambda>n d. if n = 4 then retried_store else d)\<rparr>"

definition analysis_request :: arxiv_request where
  "analysis_request = january_request\<lparr>req_cache_policy := CACHE_OR_ENQUEUE\<rparr>"

definition later_world :: world where
  "later_world = (alone served_store offline)\<lparr>clock := (\<lambda>n. 10 * us_per_day + int n)\<rparr>"

lemma alone_clock: "clock_goes_on (alone d up)"
  by (simp add: clock_goes_on_def alone_def monoI real_arch_simple)

lemmas alone_answers = ensure_returns [OF alone_clock]

lemma delayed_limit: "wait_limit sample_broker january_request (alone failed_store offline) = 30"
  by code_simp

theorem ensure_answers_witness:
  "\<exists>res w'. ensure sample_broker january_request (alone failed_store offline) = Some (res, w') \<and> fetches w' = [] \<and>
     (\<forall>n. 0 < n \<longrightarrow> Suc n < mono_reads w' \<longrightarrow> n < 30) \<and> (timed_out res \<longleftrightarrow> 30 < mono_reads w')"
proof -
  obtain res w' where run: "ensure sample_broker january_request (alone failed_store offline) = Some (res, w')"
    "fetches w' = []" "\<forall>n. 0 < n \<longrightarrow> Suc n < mono_reads w' \<longrightarrow> (of_nat n :: seconds) < 30"
    "timed_out res \<longleftrightarrow> 0 < mono_reads w' \<and> 30 \<le> (of_nat (mono_reads w' - 1) :: seconds)"
    using ensure_answers [OF alone_clock [of failed_store offline], of sample_broker january_request]
    unfolding delayed_limit by (auto simp: alone_def)
  have "(30 :: seconds) \<le> of_nat n \<longleftrightarrow> 30 \<le> n" "(of_nat n :: seconds) < 30 \<longleftrightarrow> n < 30" for n
    using of_nat_le_iff [of 30 n, where 'a = seconds] of_nat_less_iff [of n 30, where 'a = seconds] by simp_all
  with run show ?thesis by auto
qed

theorem cache_only_leaves_the_queue_alone_witness:
  "case ensure sample_broker cache_only_request (alone failed_store offline) of
     None \<Rightarrow> False | Some (res, w') \<Rightarrow> queue_items (store w') = queue_items failed_store"
proof -
  obtain res w' where run: "ensure sample_broker cache_only_request (alone failed_store offline) = Some (res, w')"
    using alone_answers by fastforce
  have "req_cache_policy cache_only_request = CACHE_ONLY" by (simp add: cache_only_request_def)
  from cache_only_leaves_the_queue_alone [OF this _ run] show ?thesis
    unfolding run by (simp add: alone_def)
qed

lemma served_ready:
  "case ensure sample_broker cache_only_request (alone served_store offline) of
     Some (Inr a, w') \<Rightarrow> ar_status a = ''ready'' \<and> ar_cache_readable a \<and> map p_arxiv_id (ar_papers a) = [''b'', ''a''] | _ \<Rightarrow> False"
  by code_simp

theorem answers_are_stored_answers_witness:
  "case ensure sample_broker cache_only_request (alone served_store offline) of
     Some (Inr a, w') \<Rightarrow> ar_cache_readable a \<and> truthful ''huldra:v1:h'' a (store w') | _ \<Rightarrow> False"
proof -
  obtain a w' where run: "ensure sample_broker cache_only_request (alone served_store offline) = Some (Inr a, w')"
    and a: "ar_cache_readable a"
    using served_ready by (auto split: option.splits sum.splits)
  have "spares k d (others (alone served_store offline) n d)" for k n d by (simp add: alone_def spares_def)
  from answers_are_stored_answers [OF this run] a show ?thesis unfolding run sample_key by simp
qed

lemma later_ready:
  "case ensure sample_broker analysis_request later_world of Some (Inr a, w') \<Rightarrow> ar_papers a \<noteq> [] | _ \<Rightarrow> False"
  by code_simp


text \<open>
  What the policy WAIT_UNTIL_READY misses: the entry is failed when the wait reads it, a worker
  then completes the retry, and the answer made of the queue item and the raw state is ready, with
  the papers of a window that ends after the cutoff.
\<close>

theorem waiting_exposes_immature_window:
  "case ensure sample_broker january_request racing_world of
     Some (Inr a, w') \<Rightarrow> ar_status a = ''ready'' \<and> map p_arxiv_id (ar_papers a) = [''b''] \<and> \<not> ar_ready a | _ \<Rightarrow> False"
  by code_simp

end
