(* ===== verification/Huldra_Completeness.thy ===== *)
theory Huldra_Completeness
  imports Huldra_Maintenance Huldra_Answers
begin

text \<open>
  What maintenance promises (HuldraBroker.sync_windows): it comes back, the planned pages tile the
  rest of the window, and a window reported complete is complete in the cache.
\<close>

subsection \<open>The pages of a window\<close>

declare page_starts.simps [simp del]

lemma page_starts_member:
  "0 < s \<Longrightarrow> p \<in> set (page_starts n t s) \<longleftrightarrow> (\<exists>i\<ge>0. p = n + i * s \<and> p < t)"
proof (induction n t s rule: page_starts.induct)
  case (1 n t s)
  show ?case
  proof (cases "n < t")
    case False
    have "\<not> n + i * s < t" if "0 \<le> i" for i using False 1(2) that by (smt (verit) mult_nonneg_nonneg)
    with False show ?thesis by (subst page_starts.simps) auto
  next
    case True
    have IH: "p \<in> set (page_starts (n + s) t s) \<longleftrightarrow> (\<exists>i\<ge>0. p = n + s + i * s \<and> p < t)"
      using 1 True by blast
    have "(\<exists>i\<ge>0. p = n + i * s \<and> p < t) \<longleftrightarrow> p = n \<or> (\<exists>i\<ge>0. p = n + s + i * s \<and> p < t)"
    proof
      assume "\<exists>i\<ge>0. p = n + i * s \<and> p < t"
      then obtain i where i: "0 \<le> i" "p = n + i * s" "p < t" by blast
      show "p = n \<or> (\<exists>i\<ge>0. p = n + s + i * s \<and> p < t)"
      proof (cases "i = 0")
        case False
        then have "0 \<le> i - 1" "p = n + s + (i - 1) * s" using i by (simp_all add: algebra_simps)
        with i(3) show ?thesis by blast
      qed (use i in simp)
    next
      assume "p = n \<or> (\<exists>i\<ge>0. p = n + s + i * s \<and> p < t)"
      then show "\<exists>i\<ge>0. p = n + i * s \<and> p < t"
      proof
        assume "p = n" then show ?thesis using True by (auto intro: exI [of _ 0])
      next
        assume "\<exists>i\<ge>0. p = n + s + i * s \<and> p < t"
        then obtain i where "0 \<le> i" "p = n + (i + 1) * s" "p < t" by (auto simp: algebra_simps)
        then show ?thesis by (intro exI [of _ "i + 1"]) simp
      qed
    qed
    with IH True 1(2) show ?thesis by (subst page_starts.simps) auto
  qed
qed

lemma page_starts_length:
  "0 < s \<Longrightarrow> int (length (page_starts n t s)) = followup_pages_total n t s"
proof (induction n t s rule: page_starts.induct)
  case (1 n t s)
  show ?case
  proof (cases "n < t")
    case False
    then show ?thesis using 1(2) by (subst page_starts.simps) (simp add: followup_pages_total_def div_pos_pos_trivial)
  next
    case True
    have "followup_pages_total n t s = followup_pages_total (n + s) t s + 1"
    proof (cases "n + s < t")
      case more: True
      have "(t - n + s - 1) div s = (t - (n + s) + s - 1 + 1 * s) div s" by (simp add: algebra_simps)
      also have "\<dots> = (t - (n + s) + s - 1) div s + 1" using 1(2) by (subst div_mult_self1) auto
      finally show ?thesis using True more by (simp add: followup_pages_total_def)
    next
      case last: False
      have "(t - n + s - 1) div s = 1"
        using True last 1(2) by (intro int_div_pos_eq [where r = "t - n - 1"]) simp_all
      with True last 1(2) show ?thesis by (simp add: followup_pages_total_def div_pos_pos_trivial)
    qed
    then show ?thesis using 1 True by (subst page_starts.simps) simp
  qed
qed

text \<open>C30. The follow-up pages of a complete window are as many as the page
  budget was charged for, and they tile the rest of the window: every result position from the end of
  the first page to the total lies in exactly one page, and no page starts at or after the total.\<close>

theorem planned_pages_tile_the_window:
  assumes "0 < page_size"
  shows "int (length (page_starts next_start results page_size)) = followup_pages_total next_start results page_size \<and>
    (\<forall>p\<in>set (page_starts next_start results page_size). next_start \<le> p \<and> p < results) \<and>
    (\<forall>j. next_start \<le> j \<and> j < results \<longrightarrow>
      (\<exists>!p. p \<in> set (page_starts next_start results page_size) \<and> p \<le> j \<and> j < p + page_size))"
proof (intro conjI ballI allI impI)
  let ?n = next_start and ?t = results and ?s = page_size
  note mem = page_starts_member [OF assms, of _ ?n ?t]
  show "int (length (page_starts ?n ?t ?s)) = followup_pages_total ?n ?t ?s" by (rule page_starts_length [OF assms])
  show "?n \<le> p" "p < ?t" if "p \<in> set (page_starts ?n ?t ?s)" for p using that assms by (auto simp: mem)
  fix j assume j: "?n \<le> j \<and> j < ?t"
  let ?i = "(j - ?n) div ?s"
  have p: "?n + ?i * ?s \<le> j" "j < ?n + ?i * ?s + ?s" "0 \<le> ?i"
  proof -
    have "?i * ?s + (j - ?n) mod ?s = j - ?n" by simp
    moreover have "0 \<le> (j - ?n) mod ?s" "(j - ?n) mod ?s < ?s" using assms by simp_all
    ultimately show "?n + ?i * ?s \<le> j" "j < ?n + ?i * ?s + ?s" by linarith+
    show "0 \<le> ?i" using j assms by (simp add: pos_imp_zdiv_nonneg_iff)
  qed
  show "\<exists>!p. p \<in> set (page_starts ?n ?t ?s) \<and> p \<le> j \<and> j < p + ?s"
  proof (rule ex1I [of _ "?n + ?i * ?s"])
    show "?n + ?i * ?s \<in> set (page_starts ?n ?t ?s) \<and> ?n + ?i * ?s \<le> j \<and> j < ?n + ?i * ?s + ?s"
      using p j by (auto simp: mem)
  next
    fix q assume "q \<in> set (page_starts ?n ?t ?s) \<and> q \<le> j \<and> j < q + ?s"
    then obtain i where i: "q = ?n + i * ?s" "q \<le> j" "j < q + ?s" by (auto simp: mem)
    then have "j - ?n = i * ?s + (j - q)" "0 \<le> j - q" "j - q < ?s" by simp_all
    then have "(j - ?n) div ?s = i" using assms by (intro int_div_pos_eq) (simp_all add: mult.commute)
    with i(1) show "q = ?n + ?i * ?s" by simp
  qed
qed

subsection \<open>Maintenance comes back\<close>

lemma fetching_sync [simp, intro]:
  "fetching 0 P (start_sync_job h q mode b)" "fetching 0 P (sync_page_recorded y)"
  "fetching 0 P (sync_job_completed i f)" "fetching 0 P (refresh_sync_job_page_from_cache i q k)"
  "fetching 0 P (fail_budget_items bid c m)" "fetching 0 P (item_of t)"
  by (auto simp: start_sync_job_def sync_page_recorded_def sync_job_completed_def refresh_sync_job_page_from_cache_def
      fail_budget_items_def item_of_def Let_def intro!: no_fetch split: option.split)

lemma fetching_target_terminal [simp, intro]: "fetching 0 P (target_terminal t)"
  by (auto simp: target_terminal_def intro!: no_fetch split: option.split)

lemma fetching_all_terminal [simp, intro]: "fetching 0 P (all_terminal ts)"
  by (induction ts) (auto simp del: runM_return intro!: no_fetch)

lemma fetching_mark_expired [simp, intro]: "fetching 0 P (mark_expired ts)"
  by (induction ts) (auto simp del: runM_return intro!: no_fetch)

lemma fetching_endings_window [simp, intro]:
  "fetching 0 P (complete_initial_maintenance_budget_failure t c m)"
  "fetching 0 P (complete_window_budget_failure t e c m)"
  "fetching 0 P (window_without_first t)" "fetching 0 P (window_without_total t e)"
  "fetching 0 P (window_overflow t e)"
  by (auto simp: complete_initial_maintenance_budget_failure_def complete_window_budget_failure_def
      window_without_first_def window_without_total_def window_overflow_def Let_def intro!: no_fetch)

lemma fetching_ends_more [simp, intro]:
  "fetching 0 P (complete_followup_deadline_budget_failure t e b)" "fetching 0 P (window_empty_page t e)"
  "fetching 0 P (wait_before_next bk)" "fetching 0 P (tally_page i t y)"
  by (auto simp: complete_followup_deadline_budget_failure_def window_empty_page_def wait_before_next_def
      tally_page_def intro!: no_fetch split: option.split)

lemma fetching_tally [simp, intro]: "fetching 0 P (tally_pages i ts y)"
  by (induction ts arbitrary: y) (auto simp del: runM_return intro!: no_fetch)

lemma fetching_close [simp, intro]: "fetching 0 P (finalize_complete_window_target t ts)"
  by (auto simp: finalize_complete_window_target_def Let_def intro!: no_fetch)

lemma fetching_plan_pages [simp, intro]: "fetching 0 P (plan_pages bk q ss)"
  by (induction ss) (auto simp: Let_def simp del: runM_return intro!: no_fetch)

lemma fetching_drain_turn: "fetching (Suc 0) (\<lambda>_. True) (drain_turn bk ts t r)"
proof -
  have once: "fetching (Suc 0 + 0) (\<lambda>_. True) (bindM (run_once wk keys) (\<lambda>pass.
      bindM (if wr_status pass = ''idle'' then sleepM u else returnM ())
        (\<lambda>_. returnM (Inr (count_inline_worker_result r pass)))))" for wk keys u
    by (rule fetching_bind [OF fetching_run_once]) (auto simp del: runM_return bindM_return intro!: no_fetch)
  have turn: "fetching (Suc 0) (\<lambda>_. True) (bindM uuid4 (\<lambda>token. bindM (run_once (inline_worker bk token) keys) (\<lambda>pass.
      bindM (if wr_status pass = ''idle'' then sleepM u else returnM ())
        (\<lambda>_. returnM (Inr (count_inline_worker_result r pass))))))" for keys u
    by (rule fetching_bind0 [OF fetching_prims(12)], rule once [simplified])
  have stop: "fetching (Suc 0) (\<lambda>_. True) (returnM x)" for x :: "maintenance_result + maintenance_result"
    by (rule fetching_none) (rule fetching_prims)
  show ?thesis
    unfolding drain_turn_def by (rule fetching_bind0 [OF fetching_all_terminal]) (simp add: turn stop)
qed

lemmas silently = regular_fetching [where n = 0 and P = "\<lambda>_. True"]

lemma regular_prims [simp, intro]:
  "regular (returnM x)" "regular (raiseM e)" "regular utc_now" "regular uuid4" "regular (readM f)"
  "regular (tx_try u)" "regular (sync_page_recorded y)" "regular (enqueue_work bk q k bid)"
  "regular (fail_budget_items b c m)" "regular (complete_initial_maintenance_budget_failure t c m)"
  "regular (refresh_sync_job_page_from_cache i q k)" "regular (wait_before_next bk)" "regular (mark_expired ts)"
  by (rule silently; simp)+

lemmas clock_rules = regular_bind regular_then regular_monotonic

lemma regular_fits [simp, intro]: "regular (fits_deadline bk dl n)"
  unfolding fits_deadline_def deadline_can_fit_requests_def by (auto intro!: clock_rules)

lemma regular_refuse: "regular (refuse_pages bk b n)"
  unfolding refuse_pages_def by (auto intro!: clock_rules regular_fits split: option.split)

lemma regular_queue: "regular (queue_pages bk b i ps r)"
proof (induction ps arbitrary: r)
  case Nil
  show ?case unfolding queue_pages.simps by (rule regular_prims)
next
  case (Cons p ps)
  obtain page key cached where p: "p = (page, key, cached)" by (cases p) auto
  have step: "regular (bindM (queue_pages bk b i ps r') (\<lambda>(ts, r''). returnM (map_option (\<lambda>us. t # us) ts, r'')))" for t r'
    by (intro regular_bind Cons.IH) (auto split: prod.split)
  show ?case
    unfolding p queue_pages.simps Let_def
    by (cases cached) (auto intro!: clock_rules step split: prod.split)
qed

lemma returning_drain: "returning (drain_until bk ts dl t r)"
  unfolding drain_until_def
  by (intro returning_bind returning_poll [OF fetching_drain_turn] returning_lift silently) auto

lemma returning_return: "returning (lift_run (returnM x))"
  by (intro returning_lift silently) auto

lemma returning_quiet: "fetching 0 (\<lambda>_. True) m \<Longrightarrow> returning (lift_run m)"
  by (rule returning_lift [OF silently])

lemma returning_drain_targets: "returning (drain_targets_until_deadline bk ts r dl t b)"
proof -
  have "returning (lift_run (bindM monotonic (\<lambda>now. if now \<ge> dl then
      bindM (mark_expired ts) (\<lambda>ts1. thenM (fail_budget_items b c m) (returnM (ts1, r1)))
      else returnM (ts, r1))))" for c m r1
    by (intro returning_lift) (auto intro!: clock_rules)
  then show ?thesis
    unfolding drain_targets_until_deadline_def by (auto intro!: returning_bind returning_drain returning_return)
qed

lemma returning_drain_pages: "returning (drain_pages bk t e b timeout ps r)"
  unfolding drain_pages_def
  by (intro returning_bind returning_lift [OF regular_queue])
    (auto intro!: returning_bind returning_drain_targets returning_quiet no_fetch split: option.split prod.split)

lemma returning_window: "returning (window_with_first bk t e b timeout r)"
  unfolding window_with_first_def Let_def
  by (auto intro!: returning_bind returning_drain_pages returning_quiet returning_lift [OF regular_refuse] no_fetch
      split: option.split prod.split)

lemma returning_plan: "returning (plan_and_drain_complete_window_target bk t r b timeout)"
  unfolding plan_and_drain_complete_window_target_def
  by (auto intro!: returning_bind returning_window returning_quiet no_fetch split: option.split)

lemma returning_plan_all: "returning (plan_and_drain_all bk b timeout ts r)"
  by (induction ts arbitrary: r) (auto intro!: returning_bind returning_plan returning_return split: prod.split)

lemma returning_drain_sync: "returning (drain_sync bk call ts r b timeout)"
  unfolding drain_sync_def drain_complete_window_targets_def drain_maintenance_targets_def Let_def
  by (auto intro!: returning_bind returning_plan_all returning_drain_targets returning_drain returning_return
      returning_lift regular_monotonic split: prod.split)

lemma fetching_finalize_target [simp, intro]: "fetching 0 P (finalize_target bk mode cp t r)"
proof -
  have "fetching 0 P (count_cooldown e i r)" for e i r
    by (auto simp: count_cooldown_def Let_def intro!: no_fetch split: option.split)
  moreover have "fetching 0 P (raw_status_of_target mode t rd e i r)" for t rd e i r
    by (auto simp: raw_status_of_target_def refresh_target_page_def intro!: no_fetch split: option.split)
  moreover have "fetching 0 P (target_served bk t rd)" for t rd
    by (auto simp: target_served_def intro!: no_fetch split: option.split)
  moreover have "fetching 0 P (end_slice_job t raw c m)" for t raw c m
    by (auto simp: end_slice_job_def)
  ultimately show ?thesis
    unfolding finalize_target_def Let_def by (auto intro!: no_fetch split: prod.split)
qed

lemma fetching_finalize_targets [simp, intro]: "fetching 0 P (finalize_targets bk mode cp ts r)"
  by (induction ts arbitrary: r) (auto simp del: runM_return intro!: no_fetch)

lemma fetching_finalize [simp, intro]: "fetching 0 P (finalize_maintenance_result bk mode cp ts r)"
  by (auto simp: finalize_maintenance_result_def intro!: no_fetch)

lemma fetching_initial_plan [simp, intro]: "fetching 0 P (initial_plan bk qs)"
  by (induction qs) (auto simp: Let_def simp del: runM_return intro!: no_fetch)

lemma fetching_start_targets [simp, intro]: "fetching 0 P (start_targets bk mode b ps)"
  by (induction bk mode b ps rule: start_targets.induct) (auto simp del: runM_return intro!: no_fetch)

lemma regular_open_target: "regular (open_target bk mode b c t r)"
  unfolding open_target_def refresh_target_page_def Let_def
  by (auto intro!: clock_rules split: prod.split)

lemma regular_open_targets: "regular (open_targets bk mode b plan ts r)"
  by (induction ts arbitrary: r)
    (auto simp del: runM_return intro!: clock_rules regular_open_target split: prod.split)

lemma regular_openers [simp, intro]: "regular (initial_plan bk qs)" "regular (start_targets bk mode b ps)"
  by (rule silently; simp)+

lemma regular_open_sync: "regular (open_sync bk call)"
  unfolding open_sync_def Let_def create_budget_def value_error_def
  by (auto intro!: clock_rules regular_fits regular_open_targets split: prod.split)

lemma returning_sync: "returning (sync_windows bk call)"
  unfolding sync_windows_def value_error_def
  by (auto intro!: returning_bind returning_drain_sync returning_lift [OF regular_open_sync] returning_quiet
      split: prod.split)

text \<open>C5. Maintenance always comes back: as long as the monotonic clock goes on,
  sync_windows with any requests, mode and budgets returns a report or raises, however the other
  processes interfere and whatever the upstream API answers to the passes it runs inline.\<close>

theorem sync_windows_returns:
  assumes "clock_goes_on w"
  shows "\<exists>res w'. sync_windows bk call w = Some (res, w')"
  using returning_sync assms unfolding returning_def by blast

subsection \<open>A complete window is complete\<close>

definition all_spare :: rely where
  "all_spare = \<lparr>steps = \<lambda>d d'. \<forall>k. spares k d d', times = \<lambda>_. True\<rparr>"

abbreviation spared :: "(db \<Rightarrow> bool) \<Rightarrow> 'a act \<Rightarrow> ('a \<Rightarrow> db \<Rightarrow> bool) \<Rightarrow> bool" where
  "spared P m Q \<equiv> triple all_spare (\<lambda>_. True) P m Q (\<lambda>_ _. True)"

lemma spared_gets: "gets k P m Q \<Longrightarrow> spared P m Q"
  unfolding triple_def runs_under_def all_spare_def answer_rely_def by simp

lemma triple_conj:
  "triple R G P m Q E \<Longrightarrow> triple R G P' m Q' E' \<Longrightarrow>
   triple R G (\<lambda>d. P d \<and> P' d) m (\<lambda>x d. Q x d \<and> Q' x d) (\<lambda>e d. E e d \<and> E' e d)"
  unfolding triple_def by (auto split: sum.splits)

lemma spared_conj: "spared P m Q \<Longrightarrow> spared P' m Q' \<Longrightarrow> spared (\<lambda>d. P d \<and> P' d) m (\<lambda>x d. Q x d \<and> Q' x d)"
  using triple_conj [of all_spare "\<lambda>_. True" P m Q "\<lambda>_ _. True" P' Q' "\<lambda>_ _. True"] by simp

text \<open>Assertions about the cache tables that the others keep.\<close>

definition of_cache :: "(db \<Rightarrow> bool) \<Rightarrow> bool" where
  "of_cache P \<longleftrightarrow> stable all_spare P \<and> (\<forall>d d'. cache_entries d' = cache_entries d \<longrightarrow>
     cache_matches d' = cache_matches d \<longrightarrow> papers d' = papers d \<longrightarrow> P d \<longrightarrow> P d')"

lemma of_cacheD:
  "of_cache P \<Longrightarrow> cache_entries d' = cache_entries d \<Longrightarrow> cache_matches d' = cache_matches d \<Longrightarrow> papers d' = papers d \<Longrightarrow> P d \<Longrightarrow> P d'"
  unfolding of_cache_def by blast

lemma spared_read: "of_cache P \<Longrightarrow> spared P (readM f) (\<lambda>_. P)"
  by (rule triple_read) (simp_all add: of_cache_def)

lemma spared_tx_do:
  assumes "of_cache P" "\<And>d. cache_entries (f d) = cache_entries d" "\<And>d. cache_matches (f d) = cache_matches d"
    "\<And>d. papers (f d) = papers d"
  shows "spared P (tx_do f) (\<lambda>_. P)"
proof (rule triple_tx_do)
  show "stable all_spare P" using assms(1) by (simp add: of_cache_def)
  show "P (f d)" if "P d" for d using of_cacheD [OF assms(1) assms(2-4) that] .
qed

lemma spared_event: "of_cache P \<Longrightarrow> spared P (tx_do (record_event t p)) (\<lambda>_. P)"
  by (rule spared_tx_do) simp_all

lemma spared_readable: "of_cache P \<Longrightarrow> spared P (read_completed_cache k) (\<lambda>_. P)"
  unfolding read_completed_cache_def
  by (auto intro!: triple_bind [OF spared_read] triple_return triple_then [OF spared_event] split: option.split)

lemma spared_readable_found:
  "of_cache P \<Longrightarrow> spared P (read_completed_cache k) (\<lambda>v d. P d \<and> (\<forall>c. v = Some c \<longrightarrow> (\<exists>ps. answers k c ps d)))"
  using spared_conj [OF spared_readable spared_gets [OF gets_readable], of P] by simp

lemma spared_refresh: "of_cache P \<Longrightarrow> spared P (refresh_sync_job_page_from_cache i q k) (\<lambda>_. P)"
proof -
  assume P: "of_cache P"
  have page: "spared P (sync_page_recorded y) (\<lambda>_. P)" for y
    unfolding sync_page_recorded_def
  proof (rule bind_now, rule triple_tx_try)
    show "stable all_spare P" using P by (simp add: of_cache_def)
    show "case fst (record_sync_job_page y t d) of Inl e \<Rightarrow> True | Inr x \<Rightarrow> P (snd (record_sync_job_page y t d))"
      if "P d" for t d
      using of_cacheD [OF P _ _ _ that, of "snd (record_sync_job_page y t d)"] by (simp split: sum.split)
  qed
  show ?thesis
    unfolding refresh_sync_job_page_from_cache_def Let_def
    by (auto intro!: triple_bind [OF spared_read [OF P]] triple_then [OF page] triple_return)
qed

lemma spared_completed: "of_cache P \<Longrightarrow> spared P (sync_job_completed i f) (\<lambda>_. P)"
  unfolding sync_job_completed_def
  by (rule bind_now, rule spared_tx_do) simp_all

lemma answers_same:
  "cache_entries d' = cache_entries d \<Longrightarrow> cache_matches d' = cache_matches d \<Longrightarrow> papers d' = papers d \<Longrightarrow>
   answers k c ps d' = answers k c ps d"
  by (simp add: answers_def get_cache_entry_def completed_cache_integrity_failure_def get_cached_papers_def
      matches_of_def get_paper_row_def)

lemma answers_kept: "spares k d d' \<Longrightarrow> answers k c ps d \<Longrightarrow> answers k c ps d'"
  by (auto simp: spares_def answers_def)

lemma answers_count:
  assumes "answers k c ps d"
  shows "c_result_count c = int (length ps)"
proof -
  let ?ms = "matches_of k d"
  have mf: "length (List.map_filter f xs) = length (filter (\<lambda>x. f x \<noteq> None) xs)" for f :: "'b \<Rightarrow> 'c option" and xs
    by (induction xs) (auto simp: List.map_filter_def)
  have "length ps = length (filter (\<lambda>m. get_paper_row (m_arxiv_id m) d \<noteq> None) (sort_key m_sort_position ?ms))"
    using assms mf by (auto simp: answers_def get_cached_papers_def)
  also have "\<dots> = length (filter (\<lambda>m. get_paper_row (m_arxiv_id m) d \<noteq> None) ?ms)"
    by (simp add: filter_sort)
  finally show ?thesis
    using assms by (auto simp: answers_def completed_cache_integrity_failure_def Let_def split: if_splits)
qed

text \<open>What the tally knows after the pages ts, when all of them were readable.\<close>

definition pages_read :: "string list \<Rightarrow> arxiv_paper list list \<Rightarrow> db \<Rightarrow> bool" where
  "pages_read keys pss d \<longleftrightarrow> list_all2 (\<lambda>k ps. \<exists>c. answers k c ps d) keys pss"

definition tallied :: "int \<Rightarrow> string list \<Rightarrow> page_tally \<Rightarrow> db \<Rightarrow> bool" where
  "tallied results keys y d \<longleftrightarrow> ty_total y = Some results \<and> ty_completed y \<le> int (length keys) \<and>
     (ty_completed y = int (length keys) \<longrightarrow> (\<exists>pss. pages_read keys pss d \<and>
        ty_results y = int (length (concat pss)) \<and>
        distinct (ty_ids y) \<and> set (ty_ids y) = set (concat (map family_ids pss))))"

lemma pages_read_mono:
  "pages_read keys pss d \<Longrightarrow> (\<And>k c ps. answers k c ps d \<Longrightarrow> answers k c ps d') \<Longrightarrow> pages_read keys pss d'"
  unfolding pages_read_def by (erule list_all2_mono) blast

lemma tallied_mono:
  assumes "tallied results keys y d" "\<And>k c ps. answers k c ps d \<Longrightarrow> answers k c ps d'"
  shows "tallied results keys y d'"
  using assms pages_read_mono [of keys _ d d'] unfolding tallied_def by blast

lemma of_cache_tallied: "of_cache (tallied results keys y)"
  unfolding of_cache_def stable_def
proof (intro conjI allI impI)
  fix d d' assume steps: "steps all_spare d d'" and J: "tallied results keys y d"
  have "spares k d d'" for k using steps by (simp add: all_spare_def)
  from tallied_mono [OF J answers_kept [OF this]] show "tallied results keys y d'" .
next
  fix d d' :: db assume same: "cache_entries d' = cache_entries d" "cache_matches d' = cache_matches d" "papers d' = papers d"
    and J: "tallied results keys y d"
  from tallied_mono [OF J iffD2 [OF answers_same [OF same]]] show "tallied results keys y d'" .
qed

lemma of_cache_conj: "of_cache P \<Longrightarrow> of_cache Q \<Longrightarrow> of_cache (\<lambda>d. P d \<and> Q d)"
  unfolding of_cache_def stable_def by blast

lemma of_cache_answers: "of_cache (answers k c ps)"
  unfolding of_cache_def stable_def
proof (intro conjI allI impI)
  show "answers k c ps d'" if "steps all_spare d d'" "answers k c ps d" for d d'
    using answers_kept [of k d d' c ps] that by (simp add: all_spare_def)
  show "answers k c ps d'" if "cache_entries d' = cache_entries d" "cache_matches d' = cache_matches d" "papers d' = papers d"
    "answers k c ps d" for d d'
    using answers_same [OF that(1-3)] that(4) by simp
qed

lemma tally_next:
  assumes "tallied results keys y d" "answers k c ps d"
  shows "tallied results (keys @ [k]) (y\<lparr>ty_results := ty_results y + c_result_count c,
    ty_ids := dedup (ty_ids y @ family_ids ps), ty_total := coalesce (ty_total y) t,
    ty_completed := ty_completed y + 1\<rparr>) d"
proof -
  have total: "ty_total y = Some results" "ty_completed y \<le> int (length keys)" using assms(1) by (auto simp: tallied_def)
  show ?thesis
  proof (cases "ty_completed y = int (length keys)")
    case False
    with total show ?thesis by (simp add: tallied_def)
  next
    case True
    with assms(1) obtain pss where pss: "pages_read keys pss d" "ty_results y = int (length (concat pss))"
      "set (ty_ids y) = set (concat (map family_ids pss))" by (auto simp: tallied_def)
    have "pages_read (keys @ [k]) (pss @ [ps]) d"
      using pss(1) assms(2) unfolding pages_read_def by (auto intro: list_all2_appendI)
    with pss total True answers_count [OF assms(2)] show ?thesis
      unfolding tallied_def by (intro conjI impI exI [of _ "pss @ [ps]"]) simp_all
  qed
qed

lemma spared_tally_page:
  "spared (tallied results keys y) (tally_page i t y) (\<lambda>y'. tallied results (keys @ [mt_cache_key t]) y')"
proof -
  let ?J = "tallied results keys y" and ?k = "mt_cache_key t"
  have skip: "tallied results (keys @ [?k]) (y\<lparr>ty_category := a, ty_message := b\<rparr>) d" "tallied results (keys @ [?k]) y d"
    if "?J d" for a b d
    using that by (auto simp: tallied_def)
  have papers: "spared (\<lambda>d. answers ?k c ps d \<and> ?J d) (readM (get_cached_papers ?k)) (\<lambda>v d. v = ps \<and> answers ?k c ps d \<and> ?J d)" for c ps
  proof (rule triple_read)
    show "stable all_spare (\<lambda>d. answers ?k c ps d \<and> ?J d)"
      using of_cache_conj [OF of_cache_answers of_cache_tallied] unfolding of_cache_def by blast
    show "get_cached_papers ?k d = ps \<and> answers ?k c ps d \<and> ?J d" if "answers ?k c ps d \<and> ?J d" for d
      using that unfolding answers_def by blast
  qed
  have counted: "spared (\<lambda>d. \<exists>ps. answers ?k c ps d \<and> ?J d) (bindM (readM (get_cached_papers ?k)) (\<lambda>ps.
         returnM (y\<lparr>ty_results := ty_results y + c_result_count c, ty_ids := dedup (ty_ids y @ family_ids ps),
           ty_total := coalesce (ty_total y) (c_total_results c), ty_completed := ty_completed y + 1\<rparr>)))
      (\<lambda>y'. tallied results (keys @ [?k]) y')" for c
    by (rule triple_ex, rule triple_bind [OF papers], rule triple_pure, rule triple_return) (auto intro: tally_next)
  have verdict: "spared (\<lambda>d. ?J d \<and> (\<forall>c. v = Some c \<longrightarrow> (\<exists>ps. answers ?k c ps d))) (case v of
       Some c \<Rightarrow> bindM (readM (get_cached_papers (mt_cache_key t))) (\<lambda>ps.
         returnM (y\<lparr>ty_results := ty_results y + c_result_count c, ty_ids := dedup (ty_ids y @ family_ids ps),
           ty_total := coalesce (ty_total y) (c_total_results c), ty_completed := ty_completed y + 1\<rparr>))
     | None \<Rightarrow>
         if ty_category y \<noteq> None then returnM y
         else bindM (readM (get_cache_entry (mt_cache_key t))) (\<lambda>entry.
           returnM (y\<lparr>ty_category := or_else (mt_error_category t) (pg_error_category page),
             ty_message := or_else (mt_error_message t) (Option.bind entry c_error_message)\<rparr>)))
      (\<lambda>y'. tallied results (keys @ [?k]) y')" for v page
  proof (cases v)
    case None
    then show ?thesis
      by (auto intro!: triple_return triple_bind [OF spared_read [OF of_cache_tallied]] skip)
  next
    case (Some c)
    show ?thesis unfolding Some option.case by (rule triple_pre [OF counted]) auto
  qed
  show ?thesis
    unfolding tally_page_def
    by (rule triple_bind [OF spared_refresh [OF of_cache_tallied]], rule triple_bind [OF spared_readable_found [OF of_cache_tallied]])
      (rule verdict)
qed

lemma spared_tally:
  "spared (tallied results keys y) (tally_pages i ts y) (\<lambda>y'. tallied results (keys @ map mt_cache_key ts) y')"
proof (induction ts arbitrary: keys y)
  case Nil
  show ?case unfolding tally_pages.simps by (rule triple_return) simp
next
  case (Cons t ts)
  show ?case
    unfolding tally_pages.simps
    by (rule triple_bind [OF spared_tally_page]) (use Cons.IH [of "keys @ [mt_cache_key t]"] in simp)
qed

text \<open>The window from the first position of the request to the total, as the cache holds it.\<close>

definition window_complete :: "string list \<Rightarrow> int \<Rightarrow> arxiv_request \<Rightarrow> maintenance_target \<Rightarrow> db \<Rightarrow> bool" where
  "window_complete keys results q t d \<longleftrightarrow> (\<exists>pss. pages_read keys pss d \<and> distinct (family_ids (concat pss)) \<and>
     mt_total_results t = Some results \<and> results - start q \<le> int (length (concat pss)) \<and>
     mt_result_count t = int (length (concat pss)) \<and> mt_pages_completed t = int (length keys))"

lemma of_cache_window: "of_cache (window_complete keys results q t)"
  unfolding of_cache_def stable_def
proof (intro conjI allI impI)
  fix d d' assume steps: "steps all_spare d d'" and J: "window_complete keys results q t d"
  have sp: "spares k d d'" for k using steps by (simp add: all_spare_def)
  show "window_complete keys results q t d'"
    using J pages_read_mono [OF _ answers_kept [OF sp]] unfolding window_complete_def by blast
next
  fix d d' :: db assume same: "cache_entries d' = cache_entries d" "cache_matches d' = cache_matches d" "papers d' = papers d"
    and J: "window_complete keys results q t d"
  show "window_complete keys results q t d'"
    using J pages_read_mono [OF _ iffD2 [OF answers_same [OF same]]] unfolding window_complete_def by blast
qed

lemma family_concat: "concat (map family_ids pss) = family_ids (concat pss)"
  by (induction pss) (simp_all add: family_ids_def)

lemma close_complete:
  assumes "tallied results keys y d" "mt_coverage (close_target t (int (length keys)) y) = COMPLETE"
  shows "window_complete keys results (mt_request t) (close_target t (int (length keys)) y) d"
proof -
  have c: "tally_complete t (int (length keys)) y"
    using assms(2) by (auto simp: close_target_def Let_def split: if_splits)
  have total: "ty_total y = Some results" using assms(1) by (simp add: tallied_def)
  with c have n: "ty_completed y = int (length keys)" "ty_results y = int (length (ty_ids y))"
    "results - start (mt_request t) \<le> int (length (ty_ids y))" by (auto simp: tally_complete_def)
  with assms(1) obtain pss where pss: "pages_read keys pss d" "ty_results y = int (length (concat pss))"
    "distinct (ty_ids y)" "set (ty_ids y) = set (family_ids (concat pss))" by (auto simp: tallied_def family_concat)
  have "card (set (family_ids (concat pss))) = length (family_ids (concat pss))"
    using pss n distinct_card [OF pss(3)] by (simp add: family_ids_def)
  then have "distinct (family_ids (concat pss))" by (rule card_distinct)
  with pss n total show ?thesis
    by (auto simp: window_complete_def close_target_def Let_def intro!: exI [of _ pss])
qed

lemma spared_finalize:
  assumes "mt_total_results t = Some results"
  shows "spared (\<lambda>_. True) (finalize_complete_window_target t ts)
    (\<lambda>u d. mt_coverage u = COMPLETE \<longrightarrow> window_complete (map mt_cache_key ts) results (mt_request t) u d)"
proof -
  let ?y = "\<lparr>ty_results = 0, ty_total = mt_total_results t, ty_completed = 0, ty_ids = [], ty_category = None,
        ty_message = None\<rparr>" and ?keys = "map mt_cache_key ts"
  have tally: "spared (\<lambda>_. True) (tally_pages (mt_sync_job_id t) ts ?y) (\<lambda>y'. tallied results ?keys y')"
    by (rule triple_pre [OF spared_tally [where keys = "[]", simplified]]) (simp add: tallied_def pages_read_def assms)
  have job: "spared (tallied results ?keys y) (thenM (sync_job_completed i f) (returnM (close_target t (int (length ts)) y)))
      (\<lambda>u d. mt_coverage u = COMPLETE \<longrightarrow> window_complete ?keys results (mt_request t) u d)" for y i f
    by (rule triple_then [OF spared_completed [OF of_cache_tallied]], rule triple_return)
      (use close_complete [of results ?keys y _ t] in simp)
  show ?thesis
    unfolding finalize_complete_window_target_def Let_def by (rule triple_bind [OF tally job])
qed

subsection \<open>The keys of the pages\<close>

definition gives :: "'a act \<Rightarrow> ('a \<Rightarrow> bool) \<Rightarrow> bool" where
  "gives m Q \<longleftrightarrow> (\<forall>w x w'. m w = (Inr x, w') \<longrightarrow> Q x)"

lemma gives_bind: "gives m P \<Longrightarrow> (\<And>x. P x \<Longrightarrow> gives (k x) Q) \<Longrightarrow> gives (bindM m k) Q"
  unfolding gives_def bindM_def by (fastforce split: prod.splits sum.splits)

lemma gives_return: "Q x \<Longrightarrow> gives (returnM x) Q"
  by (simp add: gives_def)

lemma gives_any: "gives m (\<lambda>_. True)"
  by (simp add: gives_def)

lemma gives_then: "gives k Q \<Longrightarrow> gives (thenM m k) Q"
  unfolding thenM_def by (rule gives_bind [OF gives_any])

lemma triple_gives:
  assumes "regular m" "gives m F"
  shows "triple R (\<lambda>_. True) P m (\<lambda>x _. F x) (\<lambda>_ _. True)"
proof (rule tripleI)
  fix w r w' assume w: "runs_under R w" "P (store w)" "m w = (r, w')"
  from triple_at [OF triple_regular [OF assms(1), of R P] w] assms(2) w(3)
  show "env w' = env w \<and> (\<exists>rs. fetches w' = fetches w @ rs \<and> list_all (\<lambda>_. True) rs) \<and>
      (case r of Inl e \<Rightarrow> True | Inr x \<Rightarrow> F x)"
    by (auto simp: gives_def split: sum.split)
qed

definition window_page_key :: "broker \<Rightarrow> arxiv_request \<Rightarrow> int \<Rightarrow> string" where
  "window_page_key bk q s = request_cache_key (bk_sha256 bk) (q\<lparr>start := s, req_cache_policy := CACHE_OR_ENQUEUE\<rparr>)"

definition planned_keys :: "planned list \<Rightarrow> string list" where
  "planned_keys ps = map (\<lambda>(_, k, _). k) ps"

lemma gives_plan_pages: "gives (plan_pages bk q ss) (\<lambda>ps. planned_keys ps = map (window_page_key bk q) ss)"
proof (induction ss)
  case Nil
  show ?case unfolding plan_pages.simps by (rule gives_return) (simp add: planned_keys_def)
next
  case (Cons s ss)
  show ?case
    unfolding plan_pages.simps Let_def
    by (rule gives_bind [OF gives_any], rule gives_bind [OF Cons.IH], rule gives_return)
      (simp add: planned_keys_def window_page_key_def)
qed

definition queued_for :: "planned list \<Rightarrow> maintenance_target list option \<times> maintenance_result \<Rightarrow> bool" where
  "queued_for ps x \<longleftrightarrow> (\<forall>us. fst x = Some us \<longrightarrow> map mt_cache_key us = planned_keys ps)"

lemma gives_queue_pages: "gives (queue_pages bk b i ps r) (queued_for ps)"
proof (induction ps arbitrary: r)
  case Nil
  show ?case unfolding queue_pages.simps by (rule gives_return) (simp add: planned_keys_def queued_for_def)
next
  case (Cons p ps)
  obtain page key cached where p: "p = (page, key, cached)" by (cases p) auto
  have step: "gives (bindM (queue_pages bk b i ps r') (\<lambda>(ts, r''). returnM (map_option (\<lambda>us. t # us) ts, r'')))
      (queued_for ((page, key, cached) # ps))" if "mt_cache_key t = key" for t r'
    by (rule gives_bind [OF Cons.IH]) (auto intro!: gives_return simp: planned_keys_def that queued_for_def split: prod.split)
  have stop: "gives (returnM (None, r')) (queued_for ((page, key, cached) # ps))" for r'
    by (rule gives_return) (simp add: queued_for_def)
  show ?case
  proof (cases cached)
    case None
    with step stop show ?thesis
      unfolding p queue_pages.simps Let_def
      by (auto intro!: gives_then gives_bind [OF gives_any] simp: new_target_def split: prod.split)
  next
    case (Some c)
    show ?thesis
      unfolding p queue_pages.simps Let_def Some option.case
      by (rule gives_then, rule step [unfolded Some]) (simp add: new_target_def)
  qed
qed

lemma gives_mark_expired: "gives (mark_expired ts) (\<lambda>us. map mt_cache_key us = map mt_cache_key ts)"
proof (induction ts)
  case Nil
  show ?case unfolding mark_expired.simps by (rule gives_return) simp
next
  case (Cons t ts)
  show ?case
    unfolding mark_expired.simps
    by (rule gives_bind [OF gives_any], rule gives_bind [OF Cons.IH], rule gives_return) (simp add: expire_target_def)
qed

subsection \<open>From the plan to the report of a window\<close>

abbreviation spared_run :: "(db \<Rightarrow> bool) \<Rightarrow> 'a run \<Rightarrow> ('a \<Rightarrow> db \<Rightarrow> bool) \<Rightarrow> bool" where
  "spared_run P m Q \<equiv> run_triple all_spare (\<lambda>_. True) P m Q (\<lambda>_ _. True)"

lemma run_regular: "regular m \<Longrightarrow> spared_run P (lift_run m) (\<lambda>_ _. True)"
  by (rule run_lift [OF triple_regular])

lemma run_gives: "regular m \<Longrightarrow> gives m F \<Longrightarrow> spared_run P (lift_run m) (\<lambda>x _. F x)"
  by (rule run_lift [OF triple_gives])

lemma run_pure: "(b \<Longrightarrow> spared_run (\<lambda>_. True) m Q) \<Longrightarrow> spared_run (\<lambda>_. b) m Q"
  unfolding run_triple_def by blast

lemma run_drain: "spared_run (\<lambda>_. True) (drain_until bk ts dl timeout r) (\<lambda>_ _. True)"
proof -
  have turn: "spared (\<lambda>_. True) (drain_turn bk ts timeout s) (loop_post (\<lambda>_ _. True) (\<lambda>_ _. True))" for s
    using triple_regular [OF regular_fetching [OF fetching_drain_turn], of all_spare "\<lambda>_. True" bk ts timeout s]
    by (simp add: case_sum_if)
  show ?thesis
    unfolding drain_until_def by (rule run_bind [OF run_poll [where I = "\<lambda>_ _. True", OF turn]]) (rule run_return, simp)
qed

definition same_keys :: "maintenance_target list \<Rightarrow> maintenance_target list \<times> maintenance_result \<Rightarrow> bool" where
  "same_keys ts x \<longleftrightarrow> map mt_cache_key (fst x) = map mt_cache_key ts"

lemma run_drain_targets:
  "spared_run (\<lambda>_. True) (drain_targets_until_deadline bk ts r dl timeout b) (\<lambda>x _. same_keys ts x)"
proof -
  have same: "same_keys ts (ts, r1)" for r1 by (simp add: same_keys_def)
  have rest: "spared_run P (lift_run (bindM monotonic (\<lambda>t. if t \<ge> dl
      then bindM (mark_expired ts) (\<lambda>us. thenM (fail_budget_items b c m) (returnM (us, r1)))
      else returnM (ts, r1)))) (\<lambda>x _. same_keys ts x)" for c m r1 P
  proof (rule run_gives)
    show "regular (bindM monotonic (\<lambda>t. if t \<ge> dl
        then bindM (mark_expired ts) (\<lambda>us. thenM (fail_budget_items b c m) (returnM (us, r1)))
        else returnM (ts, r1)))" by (auto intro!: clock_rules)
    show "gives (bindM monotonic (\<lambda>t. if t \<ge> dl
        then bindM (mark_expired ts) (\<lambda>us. thenM (fail_budget_items b c m) (returnM (us, r1)))
        else returnM (ts, r1))) (same_keys ts)"
      by (rule gives_bind [OF gives_any])
        (auto intro!: gives_bind [OF gives_mark_expired] gives_then gives_return same simp: same_keys_def)
  qed
  show ?thesis
  proof (cases "ts = []")
    case True
    have "same_keys ts ([], r)" by (simp add: True same_keys_def)
    then show ?thesis by (simp add: drain_targets_until_deadline_def True run_return)
  next
    case False
    then show ?thesis
      unfolding drain_targets_until_deadline_def if_not_P [OF False] by (intro run_bind [OF run_drain] rest)
  qed
qed

text \<open>A window reported complete: the keys of its first page and of the pages planned after it.\<close>

definition reported :: "broker \<Rightarrow> maintenance_target \<Rightarrow> maintenance_target \<times> maintenance_result \<Rightarrow> db \<Rightarrow> bool" where
  "reported bk target x d \<longleftrightarrow> (mt_coverage (fst x) = COMPLETE \<longrightarrow>
     (\<exists>n results. window_complete (mt_cache_key target # map (window_page_key bk (mt_request target))
        (page_starts n results (max_results (mt_request target)))) results (mt_request target) (fst x) d))"

lemma run_ends:
  assumes "regular m" "gives m (\<lambda>t. mt_coverage t \<noteq> COMPLETE)"
  shows "spared_run P (lift_run (bindM m (\<lambda>t. returnM (t, r)))) (reported bk target)"
proof -
  have "gives (bindM m (\<lambda>t. returnM (t, r))) (\<lambda>x. mt_coverage (fst x) \<noteq> COMPLETE)"
    by (rule gives_bind [OF assms(2)]) (simp add: gives_return)
  from run_gives [OF regular_bind [OF assms(1)] this, of P] show ?thesis
    by (rule run_post) (auto simp: reported_def)
qed

lemma gives_incomplete:
  "gives (complete_initial_maintenance_budget_failure t c m) (\<lambda>t. mt_coverage t \<noteq> COMPLETE)"
  "gives (complete_window_budget_failure t e c m) (\<lambda>t. mt_coverage t \<noteq> COMPLETE)"
  "gives (complete_followup_deadline_budget_failure t e b) (\<lambda>t. mt_coverage t \<noteq> COMPLETE)"
  "gives (window_without_first t) (\<lambda>t. mt_coverage t \<noteq> COMPLETE)"
  "gives (window_without_total t e) (\<lambda>t. mt_coverage t \<noteq> COMPLETE)"
  "gives (window_overflow t e) (\<lambda>t. mt_coverage t \<noteq> COMPLETE)"
  "gives (window_empty_page t e) (\<lambda>t. mt_coverage t \<noteq> COMPLETE)"
  unfolding complete_initial_maintenance_budget_failure_def complete_followup_deadline_budget_failure_def
    window_empty_page_def complete_window_budget_failure_def window_without_first_def window_without_total_def
    window_overflow_def Let_def
  by (auto intro!: gives_then gives_return gives_bind [OF gives_any])

lemmas incomplete_ends = gives_incomplete [THEN run_ends [rotated], OF silently]

lemma run_drain_pages:
  assumes "mt_total_results t = Some results"
    and "planned_keys ps = map (window_page_key bk (mt_request t)) (page_starts n results (max_results (mt_request t)))"
  shows "spared_run (\<lambda>_. True) (drain_pages bk t first b timeout ps r) (reported bk t)"
proof -
  have close: "spared_run (\<lambda>_. map mt_cache_key us = planned_keys ps)
      (lift_run (bindM (finalize_complete_window_target t (t # us)) (\<lambda>v. returnM (v, r')))) (reported bk t)" for us r'
  proof (rule run_pure, rule run_lift, rule triple_bind [OF spared_finalize [OF assms(1)]], rule triple_return)
    fix v d
    assume "map mt_cache_key us = planned_keys ps"
      "mt_coverage v = COMPLETE \<longrightarrow> window_complete (map mt_cache_key (t # us)) results (mt_request t) v d"
    then show "reported bk t (v, r') d" using assms(2) unfolding reported_def by (metis fst_conv list.simps(9))
  qed
  have drained: "spared_run (\<lambda>_. queued_for ps (Some us, r1)) (bind_run
       (drain_targets_until_deadline bk us r1 (mb_deadline b) timeout (mb_id b))
       (\<lambda>(ts1, result2). lift_run (bindM (finalize_complete_window_target t (t # ts1)) (\<lambda>t. returnM (t, result2)))))
     (reported bk t)" for us r1
  proof (rule run_pure, rule run_bind [OF run_drain_targets])
    fix x :: "maintenance_target list \<times> maintenance_result"
    assume "queued_for ps (Some us, r1)"
    then show "spared_run (\<lambda>_. same_keys us x)
        (case x of (ts1, result2) \<Rightarrow> lift_run (bindM (finalize_complete_window_target t (t # ts1)) (\<lambda>t. returnM (t, result2))))
        (reported bk t)"
      by (cases x) (auto simp: queued_for_def same_keys_def intro: run_pre [OF close])
  qed
  show ?thesis
    unfolding drain_pages_def
  proof (rule run_bind [OF run_gives [OF regular_queue gives_queue_pages]])
    fix x :: "maintenance_target list option \<times> maintenance_result"
    obtain v r1 where x: "x = (v, r1)" by fastforce
    show "spared_run (\<lambda>_. queued_for ps x) (case x of (queued, result1) \<Rightarrow> case queued of
          None \<Rightarrow> lift_run (bindM (complete_followup_deadline_budget_failure t first b) (\<lambda>t. returnM (t, result1)))
        | Some ts \<Rightarrow> bind_run (drain_targets_until_deadline bk ts result1 (mb_deadline b) timeout (mb_id b))
            (\<lambda>(ts1, result2). lift_run (bindM (finalize_complete_window_target t (t # ts1)) (\<lambda>t. returnM (t, result2)))))
        (reported bk t)"
      by (cases v) (use drained x in \<open>auto intro!: incomplete_ends\<close>)
  qed
qed

lemma reported_same:
  "mt_cache_key t = mt_cache_key target \<Longrightarrow> mt_request t = mt_request target \<Longrightarrow> reported bk t = reported bk target"
  by (rule ext)+ (simp add: reported_def)

lemma run_planned:
  assumes "mt_total_results t = Some results" "mt_cache_key t = mt_cache_key target" "mt_request t = mt_request target"
  shows "spared_run (\<lambda>_. planned_keys ps = map (window_page_key bk (mt_request t)) (page_starts n results (max_results (mt_request t))))
    (bind_run (lift_run (refuse_pages bk b m)) (\<lambda>refused. case refused of
       Some (category, msg) \<Rightarrow> lift_run (bindM (complete_window_budget_failure t first category msg) (\<lambda>t. returnM (t, r)))
     | None \<Rightarrow> drain_pages bk t first b timeout ps r)) (reported bk target)"
proof (rule run_pure)
  assume "planned_keys ps = map (window_page_key bk (mt_request t)) (page_starts n results (max_results (mt_request t)))"
  note drained = run_drain_pages [OF assms(1) this, of first b timeout r]
  show "spared_run (\<lambda>_. True) (bind_run (lift_run (refuse_pages bk b m)) (\<lambda>refused. case refused of
       Some (category, msg) \<Rightarrow> lift_run (bindM (complete_window_budget_failure t first category msg) (\<lambda>t. returnM (t, r)))
     | None \<Rightarrow> drain_pages bk t first b timeout ps r)) (reported bk target)"
    unfolding reported_same [OF assms(2,3), symmetric]
    by (rule run_bind [OF run_regular [OF regular_refuse]]) (auto intro!: incomplete_ends drained split: option.split)
qed

lemma run_if: "spared_run P m Q \<Longrightarrow> spared_run P k Q \<Longrightarrow> spared_run P (if c then m else k) Q"
  by simp

lemma run_window:
  assumes "mt_cache_key t = mt_cache_key target" "mt_request t = mt_request target"
  shows "spared_run (\<lambda>_. True) (window_with_first bk t first b timeout r) (reported bk target)"
proof (cases "c_total_results first")
  case None
  show ?thesis unfolding window_with_first_def Let_def None option.case by (rule incomplete_ends) simp
next
  case (Some results)
  let ?t = "t\<lparr>mt_total_results := Some results\<rparr>"
  have planned: "spared_run (\<lambda>_. True) (bind_run (lift_run (plan_pages bk (mt_request ?t)
        (page_starts n results (max_results (mt_request ?t))))) (\<lambda>pages.
      bind_run (lift_run (refuse_pages bk b (m pages))) (\<lambda>refused. case refused of
       Some (category, msg) \<Rightarrow> lift_run (bindM (complete_window_budget_failure ?t first category msg) (\<lambda>t. returnM (t, r)))
     | None \<Rightarrow> drain_pages bk ?t first b timeout pages r))) (reported bk target)" for n m
    by (rule run_bind [OF run_gives [OF silently [OF fetching_plan_pages] gives_plan_pages]], rule run_planned)
      (simp_all add: assms)
  show ?thesis
    unfolding window_with_first_def Let_def Some option.case
    by (rule run_if, rule incomplete_ends, simp)+ (rule planned)
qed

text \<open>C4. A window that sync_windows reports complete is complete in the cache,
  whatever the other clients of the store do meanwhile (they never take away a readable answer): every
  page of the plan, from the first one to the last, is stored with the papers its entry promises, no
  two of these papers are versions of one paper, they are as many as the report counts, and they are
  enough to fill the window from the position the request starts at to the total of its first page.\<close>

theorem complete_window_is_complete:
  assumes "\<And>n d k. spares k d (others w n d)" "mt_coverage target = UNKNOWN"
    "plan_and_drain_complete_window_target bk target r b timeout w = Some (Inr (t, r'), w')"
    "mt_coverage t = COMPLETE"
  shows "\<exists>n results. window_complete (mt_cache_key target # map (window_page_key bk (mt_request target))
      (page_starts n results (max_results (mt_request target)))) results (mt_request target) t (store w')"
proof -
  have window: "spared_run (\<lambda>_. True) (plan_and_drain_complete_window_target bk target r b timeout) (reported bk target)"
    unfolding plan_and_drain_complete_window_target_def
    by (auto intro!: incomplete_ends run_window run_bind [OF run_regular] silently split: option.split simp: assms(2))
  have "runs_under all_spare w" using assms(1) by (simp add: runs_under_def all_spare_def)
  from run_tripleD [OF window this TrueI assms(3)] assms(4) show ?thesis by (simp add: reported_def)
qed

subsection \<open>Concrete windows\<close>

theorem planned_pages_tile_the_window_witness:
  "(2::int) \<in> set (page_starts 2 5 2) \<and> (\<exists>!p. p \<in> set (page_starts 2 5 2) \<and> p \<le> 4 \<and> 4 < p + (2::int))"
proof
  show "(2::int) \<in> set (page_starts 2 5 2)" by (simp add: page_starts_member exI [of _ 0])
  have "\<forall>j. 2 \<le> j \<and> j < 5 \<longrightarrow> (\<exists>!p. p \<in> set (page_starts 2 5 2) \<and> p \<le> j \<and> j < p + (2::int))"
    by (rule planned_pages_tile_the_window [of 2 2 5, THEN conjunct2, THEN conjunct2]) simp
  from spec [OF this, of 4] show "\<exists>!p. p \<in> set (page_starts 2 5 2) \<and> p \<le> 4 \<and> 4 < p + (2::int)" by simp
qed

definition january_call :: sync_call where
  "january_call = \<lparr>sc_requests = [january_request], sc_wait = True, sc_wait_timeout = Some 5,
     sc_mode = MODE_COMPLETE_WINDOW, sc_max_pages = 2, sc_max_requests = 2\<rparr>"

theorem sync_windows_returns_witness:
  "\<exists>res w'. sync_windows sample_broker january_call (alone served_store offline) = Some (res, w')"
  by (rule sync_windows_returns [OF alone_clock])

text \<open>A store that a sync opened: the budget, the job of the window, and its first page already cached.\<close>

definition window_store :: db where
  "window_store = (empty_db (\<lambda>_. 0))
     \<lparr>papers := [\<lparr>pr_paper = sample_paper ''a'', pr_first_seen_at = 0, pr_last_seen_at = 0\<rparr>],
      cache_entries := [completed_entry ''huldra:v1:h'' january_request 0 5 200 1 1 (Some 1) SLICE],
      cache_matches := [\<lparr>m_cache_key = ''huldra:v1:h'', m_arxiv_id = ''a'', m_sort_position = 0, m_matched_at = 5\<rparr>],
      budgets := [\<lparr>b_budget_id = ''u'', b_max_requests = 2, b_requests_started = 0, b_deadline_at = None,
        b_created_at = 0, b_updated_at = 0\<rparr>],
      sync_jobs := [new_sync_job january_request MODE_COMPLETE_WINDOW (Some ''u'') ''j'' 0]\<rparr>"

definition window_budget :: maintenance_budget where
  "window_budget = \<lparr>mb_id = ''u'', mb_max_pages = 2, mb_max_requests = 2, mb_deadline = 100\<rparr>"

definition window_target :: maintenance_target where
  "window_target = new_target january_request ''huldra:v1:h'' ''j''"

lemma window_store_reads:
  "get_cache_entry ''huldra:v1:h'' (window_store\<lparr>sync_pages := y\<rparr>) =
     Some (completed_entry ''huldra:v1:h'' january_request 0 5 200 1 1 (Some 1) SLICE)"
  "completed_cache_integrity_failure ''huldra:v1:h''
     (completed_entry ''huldra:v1:h'' january_request 0 5 200 1 1 (Some 1) SLICE) (window_store\<lparr>sync_pages := y\<rparr>) = None"
  "get_cached_papers ''huldra:v1:h'' (window_store\<lparr>sync_pages := y\<rparr>) = [sample_paper ''a'']"
  "get_upstream_request_budget_requests_started ''u'' (window_store\<lparr>sync_pages := y\<rparr>) = Some 0"
  "get_sync_row ''j'' (window_store\<lparr>sync_pages := y\<rparr>) = Some (new_sync_job january_request MODE_COMPLETE_WINDOW (Some ''u'') ''j'' 0)"
  by (simp_all add: window_store_def get_cache_entry_def completed_cache_integrity_failure_def get_cached_papers_def
      matches_of_def completed_entry_def get_paper_row_def sample_paper_def get_upstream_request_budget_requests_started_def
      get_budget_def get_sync_row_def new_sync_job_def empty_db_def List.map_filter_def tbl_get_Cons)


lemma window_completes:
  "case plan_and_drain_complete_window_target sample_broker window_target r window_budget 5 (alone window_store offline) of
     Some (Inr (t, _), _) \<Rightarrow> mt_coverage t = COMPLETE | _ \<Rightarrow> False"
proof -
  have target: "mt_cache_key window_target = ''huldra:v1:h''" "mt_request window_target = january_request"
    "mt_sync_job_id window_target = ''j''" "mt_error_category window_target = None"
    by (simp_all add: window_target_def new_target_def)
  have settings: "start january_request = 0"
    "\<not> legacy_search_window_result_cap (bk_settings sample_broker) < 1" "mb_max_pages window_budget = 2"
    "mb_max_requests window_budget = 2" "mb_id window_budget = ''u''" "max_results january_request = 1"
    by (simp_all add: january_request_def sample_request_def sample_broker_def default_settings_def window_budget_def)
  have pages: "page_starts 1 1 k = []" for k by (subst page_starts.simps) simp
  have entry: "c_status e = ''completed''" "c_total_results e = Some 1" "c_result_count e = 1"
    if "e = completed_entry ''huldra:v1:h'' january_request 0 5 200 1 1 (Some 1) SLICE" for e
    by (simp_all add: completed_entry_def that)
  have family: "family_ids [sample_paper ''a''] = [arxiv_id_family_base ''a'']" by (simp add: family_ids_def sample_paper_def)
  have world: "others (alone d up) = (\<lambda>_ d. d)" "store (alone d up) = d" for d up by (simp_all add: alone_def)
  note reads = window_store_reads window_store_reads [where y = "sync_pages window_store", simplified]
  show ?thesis
    using settings(2)
    by (simp add: plan_and_drain_complete_window_target_def window_with_first_def bind_run_def lift_run_def
      drain_pages_def drain_targets_until_deadline_def bindM_def target settings pages followup_pages_total_def
      reads entry [OF refl] family world read_completed_cache_def refresh_sync_job_page_from_cache_def readM_def tx_def
      acquire_lock_def sync_page_recorded_def utc_now_def tx_try_def record_sync_job_page_def thenM_def Let_def
      page_of_entry_def planned_page_def refuse_pages_def finalize_complete_window_target_def tally_page_def
      sync_job_completed_def tx_do_def close_target_def tally_complete_def coalesce_def)
qed

theorem complete_window_is_complete_witness:
  "case plan_and_drain_complete_window_target sample_broker window_target empty_maintenance_result window_budget 5
       (alone window_store offline) of
     Some (Inr (t, _), w') \<Rightarrow> \<exists>n results. window_complete (''huldra:v1:h'' #
        map (window_page_key sample_broker january_request) (page_starts n results (max_results january_request)))
        results january_request t (store w') | _ \<Rightarrow> False"
proof -
  obtain t r' w' where run: "plan_and_drain_complete_window_target sample_broker window_target empty_maintenance_result
      window_budget 5 (alone window_store offline) = Some (Inr (t, r'), w')" and t: "mt_coverage t = COMPLETE"
    using window_completes [of empty_maintenance_result] by (auto split: option.splits sum.splits prod.splits)
  have spared: "spares k d (others (alone window_store offline) n d)" for k n d by (simp add: alone_def spares_def)
  have target: "mt_coverage window_target = UNKNOWN" "mt_cache_key window_target = ''huldra:v1:h''"
    "mt_request window_target = january_request"
    by (simp_all add: window_target_def new_target_def)
  from complete_window_is_complete [OF spared target(1) run t] show ?thesis unfolding run target by simp
qed

end
