(* ===== verification/Huldra_Migrations.thy ===== *)
theory Huldra_Migrations
  imports Huldra_Retention
begin

text \<open>
  apply_migrations (huldra/migrations.py), which init_schema runs whenever a broker is built and at
  the start of every worker pass. On a store of the current schema CREATE TABLE IF NOT EXISTS and
  the added columns do nothing, and what remains are the statements that fill in the rows of older
  releases. They settle a store once; no operation of the store unsettles it, so that later calls
  change nothing. The programs of the model leave the call out on this ground. The statement that fills
  in updated_at of harvest jobs is left out: the column is NOT NULL in the current schema, so that
  the statement finds rows only in tables that an older release created.
\<close>

subsection \<open>Filling in rows of older releases\<close>

text \<open>Two UPDATE statements: the second reads the total the first has raised.\<close>

definition backfill_rate_totals :: "rate_state \<Rightarrow> rate_state" where
  "backfill_rate_totals s =
     (let s1 = s\<lparr>rs_upstream_429_total := max (rs_upstream_429_total s) (rs_consecutive_429_total s)\<rparr>
      in s1\<lparr>rs_consecutive_rate_limit_total :=
              max (rs_consecutive_rate_limit_total s1) (rs_consecutive_429_total s1),
            rs_upstream_rate_limited_total :=
              max (rs_upstream_rate_limited_total s1) (rs_upstream_429_total s1)\<rparr>)"

text \<open>INSERT OR IGNORE of the primary budget of a queue item.\<close>

definition backfill_membership :: "queue_row \<Rightarrow> membership_row list \<Rightarrow> membership_row list" where
  "backfill_membership r ms =
     (case q_upstream_budget_id r of
        None \<Rightarrow> ms
      | Some b \<Rightarrow>
          if tbl_get (\<lambda>m. (bm_request_id m, bm_budget_id m)) (q_request_id r, b) ms = None
          then ms @ [\<lparr>bm_request_id = q_request_id r, bm_budget_id = b, bm_created_at = q_created_at r,
                      bm_first_attempt_number = 1, bm_last_charged_attempt = q_attempts_total r\<rparr>]
          else ms)"

definition backfill_refresh_after :: "cache_entry \<Rightarrow> cache_entry" where
  "backfill_refresh_after c =
     (if c_status c = ''completed'' \<and> c_refresh_after c = None
      then c\<lparr>c_refresh_after := c_completed_at c\<rparr> else c)"

definition backfill_coverage :: "cache_entry \<Rightarrow> cache_entry" where
  "backfill_coverage c =
     (if c_api_family c = Legacy_search \<and> c_status c = ''completed'' \<and> c_coverage_status c = UNKNOWN
      then c\<lparr>c_coverage_status := SLICE\<rparr> else c)"

text \<open>OR IGNORE does not cover foreign keys: a new membership of a missing budget rolls all back.\<close>

definition apply_migrations :: "db \<Rightarrow> (store_error + unit) \<times> db" where
  "apply_migrations d =
     (let ms = fold backfill_membership (queue_items d) (memberships d) in
      if \<exists>m\<in>set ms. m \<notin> set (memberships d) \<and> get_budget (bm_budget_id m) d = None
      then (Inl (IntegrityError ''FOREIGN KEY''), d)
      else (Inr (), d\<lparr>rate_states := map backfill_rate_totals (rate_states d), memberships := ms,
              cache_entries := map (\<lambda>c. backfill_coverage (backfill_refresh_after c)) (cache_entries d)\<rparr>))"

subsection \<open>Settled stores\<close>

definition rate_settled :: "rate_state \<Rightarrow> bool" where
  "rate_settled s \<longleftrightarrow> rs_consecutive_429_total s \<le> rs_upstream_429_total s \<and>
     rs_consecutive_429_total s \<le> rs_consecutive_rate_limit_total s \<and>
     rs_upstream_429_total s \<le> rs_upstream_rate_limited_total s"

definition primary_is_member :: "membership_row list \<Rightarrow> queue_row \<Rightarrow> bool" where
  "primary_is_member ms r \<longleftrightarrow> (\<forall>b. q_upstream_budget_id r = Some b \<longrightarrow>
     (\<exists>m\<in>set ms. bm_request_id m = q_request_id r \<and> bm_budget_id m = b))"

definition entry_settled :: "cache_entry \<Rightarrow> bool" where
  "entry_settled c \<longleftrightarrow> c_status c = ''completed'' \<longrightarrow>
     (c_refresh_after c = None \<longrightarrow> c_completed_at c = None) \<and>
     \<not> (c_api_family c = Legacy_search \<and> c_coverage_status c = UNKNOWN)"

definition settled :: "db \<Rightarrow> bool" where
  "settled d \<longleftrightarrow> (\<forall>s\<in>set (rate_states d). rate_settled s) \<and>
     (\<forall>r\<in>set (queue_items d). primary_is_member (memberships d) r) \<and>
     (\<forall>c\<in>set (cache_entries d). entry_settled c)"

lemma backfill_rate_iff: "backfill_rate_totals s = s \<longleftrightarrow> rate_settled s"
  by (cases s) (auto simp: backfill_rate_totals_def rate_settled_def Let_def max_def)

lemma rate_settled_backfill: "rate_settled (backfill_rate_totals s)"
  by (auto simp: backfill_rate_totals_def rate_settled_def Let_def)

lemma backfill_entry_id: "entry_settled c \<Longrightarrow> backfill_coverage (backfill_refresh_after c) = c"
  by (cases c) (auto simp: entry_settled_def backfill_coverage_def backfill_refresh_after_def)

lemma entry_settled_backfill: "entry_settled (backfill_coverage (backfill_refresh_after c))"
  by (auto simp: entry_settled_def backfill_coverage_def backfill_refresh_after_def)

lemma backfill_membership_id: "primary_is_member ms r \<Longrightarrow> backfill_membership r ms = ms"
  by (auto simp: primary_is_member_def backfill_membership_def tbl_get_None split: option.splits)

lemma backfill_membership_sub: "set ms \<subseteq> set (backfill_membership r ms)"
  by (auto simp: backfill_membership_def split: option.splits)

lemma primary_is_member_backfill: "primary_is_member (backfill_membership r ms) r"
  by (auto simp: primary_is_member_def backfill_membership_def tbl_get_None split: option.splits)

lemma primary_is_member_mono: "primary_is_member ms r \<Longrightarrow> set ms \<subseteq> set ms' \<Longrightarrow> primary_is_member ms' r"
  by (fastforce simp: primary_is_member_def)

lemma fold_backfill_id:
  "(\<And>r. r \<in> set qs \<Longrightarrow> primary_is_member ms r) \<Longrightarrow> fold backfill_membership qs ms = ms"
  by (induction qs) (simp_all add: backfill_membership_id)

lemma fold_backfill_sub: "set ms \<subseteq> set (fold backfill_membership qs ms)"
  by (induction qs arbitrary: ms) (use backfill_membership_sub in \<open>fastforce+\<close>)

lemma fold_backfill_members: "r \<in> set qs \<Longrightarrow> primary_is_member (fold backfill_membership qs ms) r"
proof (induction qs arbitrary: ms)
  case (Cons q qs)
  then show ?case
    using primary_is_member_mono [OF primary_is_member_backfill fold_backfill_sub] by auto
qed simp

lemma backfill_membership_origin:
  "m \<in> set (backfill_membership r ms) \<Longrightarrow> m \<in> set ms \<or> bm_request_id m = q_request_id r"
  by (auto simp: backfill_membership_def split: option.splits if_splits)

lemma fold_backfill_origin:
  "m \<in> set (fold backfill_membership qs ms) \<Longrightarrow> m \<in> set ms \<or> (\<exists>r\<in>set qs. bm_request_id m = q_request_id r)"
proof (induction qs arbitrary: ms)
  case (Cons q qs)
  then show ?case using backfill_membership_origin [of m q ms] by auto
qed simp

lemma fold_backfill_keyed:
  "keyed (\<lambda>m. (bm_request_id m, bm_budget_id m)) ms \<Longrightarrow>
   keyed (\<lambda>m. (bm_request_id m, bm_budget_id m)) (fold backfill_membership qs ms)"
proof (induction qs arbitrary: ms)
  case (Cons q qs)
  have "keyed (\<lambda>m. (bm_request_id m, bm_budget_id m)) (backfill_membership q ms)"
    using Cons.prems by (auto simp: backfill_membership_def intro!: keyed_snoc split: option.split)
  then show ?case using Cons.IH by simp
qed simp

lemma settled_no_change: "settled d \<Longrightarrow> apply_migrations d = (Inr (), d)"
  by (simp add: apply_migrations_def settled_def fold_backfill_id map_idI backfill_rate_iff backfill_entry_id)

lemma migrated_settled: "apply_migrations d = (Inr u, d') \<Longrightarrow> settled d'"
  by (auto simp: apply_migrations_def settled_def Let_def rate_settled_backfill entry_settled_backfill
      fold_backfill_members split: if_splits)

subsection \<open>No operation unsettles a store\<close>

lemma settled_cong:
  assumes "settled d" "rate_states d' = rate_states d" "queue_items d' = queue_items d"
    "memberships d' = memberships d" "cache_entries d' = cache_entries d"
  shows "settled d'"
  using assms by (simp add: settled_def)

lemma settled_queue_map:
  assumes "settled d" "\<And>r. q_request_id (f r) = q_request_id r"
    "\<And>r. q_upstream_budget_id (f r) = q_upstream_budget_id r"
  shows "settled (d\<lparr>queue_items := map f (queue_items d)\<rparr>)"
  using assms by (auto simp: settled_def primary_is_member_def)

lemma settled_update:
  assumes "settled d" "\<And>r. q_request_id (f r) = q_request_id r"
    "\<And>r. q_upstream_budget_id (f r) = q_upstream_budget_id r"
  shows "settled (d\<lparr>queue_items := tbl_update P f (queue_items d)\<rparr>)"
  unfolding tbl_update_def by (rule settled_queue_map [OF assms(1)]) (auto simp: assms)

lemma settled_frames [simp]:
  "settled (record_event t p d) = settled d" "settled (d\<lparr>leases := ls\<rparr>) = settled d"
  "settled (d\<lparr>reservations := vs\<rparr>) = settled d" "settled (d\<lparr>budgets := bs\<rparr>) = settled d"
  by (simp_all add: settled_def)

lemma insert_membership_sub: "set ms \<subseteq> set (insert_membership rid b t n ms)"
  by (auto simp: insert_membership_def)

lemma insert_membership_mem: "\<exists>m\<in>set (insert_membership rid b t n ms). bm_request_id m = rid \<and> bm_budget_id m = b"
  by (auto simp: insert_membership_def tbl_get_None)

text \<open>The memberships grow; a row that is new or rewritten has its primary budget among them.\<close>

lemma settled_grow:
  assumes "settled d" "set (memberships d) \<subseteq> set (memberships d')"
    "rate_states d' = rate_states d" "cache_entries d' = cache_entries d"
    "\<And>r'. r' \<in> set (queue_items d') \<Longrightarrow> r' \<in> set (queue_items d) \<or> primary_is_member (memberships d') r'"
  shows "settled d'"
proof -
  have "primary_is_member (memberships d') r'" if "r' \<in> set (queue_items d')" for r'
    using assms(1) assms(5) [OF that] primary_is_member_mono [OF _ assms(2)] by (auto simp: settled_def)
  then show ?thesis using assms(1,3,4) by (simp add: settled_def)
qed

lemma primary_of_join:
  "q_upstream_budget_id (join_row q w b t n r) = coalesce (q_upstream_budget_id r) b"
  by (auto simp: join_row_def Let_def coalesce_def split: option.split)

lemma settled_enqueue:
  assumes "settled d" "enqueue_request_for_work_conn q k w b t now u d = (res, d')"
  shows "settled d'"
  using assms(2)
proof (cases rule: enqueue_cases)
  case (joined r)
  have "primary_is_member (memberships d') x'" if new: "x' \<in> set (queue_items d')" "x' \<notin> set (queue_items d)" for x'
  proof -
    obtain x where x0: "x \<in> set (queue_items d)"
      "x' = (if q_request_id x = q_request_id r then join_row q w b t now x else x)"
      using new(1) by (auto simp: joined(4) set_tbl_update)
    then have x: "x \<in> set (queue_items d)" "q_request_id x = q_request_id r" "x' = join_row q w b t now x"
      using new(2) by (auto split: if_splits)
    have old: "primary_is_member (memberships d) x" using x(1) assms(1) by (simp add: settled_def)
    have sub: "set (memberships d) \<subseteq> set (memberships d')"
      using insert_membership_sub by (auto simp: joined(4) split: option.split)
    from primary_is_member_mono [OF old sub] insert_membership_mem [of "q_request_id r"] x(2)
    show ?thesis unfolding x(3) primary_is_member_def primary_of_join
      by (cases "q_upstream_budget_id x"; cases b) (auto simp: joined(4))
  qed
  moreover have "set (memberships d) \<subseteq> set (memberships d')"
    using insert_membership_sub by (auto simp: joined(4) split: option.split)
  ultimately show ?thesis
    by (intro settled_grow [OF assms(1)]) (auto simp: joined(4))
next
  case (created p)
  have "set (memberships d) \<subseteq> set (memberships d')"
    using insert_membership_sub by (auto simp: created(5) split: option.split)
  moreover have "primary_is_member (memberships d') (new_queue_row q k w b now u)"
    using insert_membership_mem by (auto simp: created(5) primary_is_member_def new_queue_row_def)
  ultimately show ?thesis
    by (intro settled_grow [OF assms(1)]) (auto simp: created(5))
qed (use assms(1) in simp)

lemma settled_entry_map:
  assumes "settled d" "\<And>c. entry_settled c \<Longrightarrow> entry_settled (f c)"
  shows "settled (d\<lparr>cache_entries := map f (cache_entries d)\<rparr>)"
  using assms by (auto simp: settled_def)

lemma settled_set_refresh: "settled d \<Longrightarrow> settled (set_refresh_after k (Some t) d)"
  unfolding set_refresh_after_def tbl_update_def by (rule settled_entry_map) (auto simp: entry_settled_def)

lemma settled_refresh:
  assumes "settled d" shows "settled (snd (enqueue_refresh_if_due q k t now u d))"
proof -
  have enq: "settled d'" if "settled e" "enqueue_request_for_work_conn q k REFRESH_COMPLETED None t now u e = (r, d')" for e r d'
    using settled_enqueue [OF that] .
  show ?thesis using assms
    by (auto simp: enqueue_refresh_if_due_def Let_def settled_set_refresh
        split: option.split prod.split sum.split intro: enq settled_set_refresh)
qed

lemma settled_claim: "settled d \<Longrightarrow> settled (snd (claim_next_queue_item w ttl ks rs now d))"
  by (auto simp: claim_next_queue_item_def Let_def claim_row_def split: list.split intro!: settled_update)

lemma settled_extend_claim: "settled d \<Longrightarrow> settled (extend_claim rid w t now d)"
  by (auto simp: extend_claim_def intro!: settled_update)

lemma settled_renew: "settled d \<Longrightarrow> settled (snd (renew_queue_claim rid w ttl now d))"
  by (simp add: renew_queue_claim_def Let_def settled_extend_claim)

lemma settled_complete: "settled d \<Longrightarrow> settled (complete_queue_item rid now d)"
  by (auto simp: complete_queue_item_def intro!: settled_update)

lemma settled_release: "settled d \<Longrightarrow> settled (snd (release_or_delay_queue_item rid t c m st now d))"
  by (auto simp: release_or_delay_queue_item_def Let_def intro!: settled_update)

lemma settled_fence: "settled d \<Longrightarrow> settled (snd (renew_worker_fetch_ownership rid w l ttl ids now d))"
  by (simp add: renew_worker_fetch_ownership_def Let_def extend_lease_def extend_reservations_def settled_extend_claim)

lemma settled_wake: "settled d \<Longrightarrow> settled (wake_id_fetch_reserved_queue_items ids now d)"
  unfolding wake_id_fetch_reserved_queue_items_def Let_def by (simp add: settled_update)

lemma settled_release_ids: "settled d \<Longrightarrow> settled (release_id_fetch_reservations ids w now d)"
  by (simp add: release_id_fetch_reservations_def Let_def settled_wake)


text \<open>Detaching takes memberships of one item away and gives it one of those that remain, if any.\<close>

lemma settled_detach:
  assumes "settled d"
  shows "settled (detach_queue_budget_memberships rid bs d)" (is "settled ?e")
proof -
  define d1 where "d1 = (if bs = [] then d
     else d\<lparr>memberships := tbl_delete (\<lambda>m. bm_request_id m = rid \<and> bm_budget_id m \<in> set bs) (memberships d)\<rparr>)"
  define rep where "rep = (case membership_rows rid d1 of [] \<Rightarrow> None | m # _ \<Rightarrow> Some (bm_budget_id m))"
  have e: "?e = d1\<lparr>queue_items := tbl_update (\<lambda>r. q_request_id r = rid) (\<lambda>r. r\<lparr>q_upstream_budget_id := rep\<rparr>) (queue_items d1)\<rparr>"
    by (simp add: detach_queue_budget_memberships_def Let_def d1_def rep_def)
  have ms: "m \<in> set (memberships d1)" if "m \<in> set (memberships d)" "bm_request_id m \<noteq> rid" for m
    using that by (simp add: d1_def set_tbl_delete)
  have rep: "\<exists>m\<in>set (memberships d1). bm_request_id m = rid \<and> bm_budget_id m = b" if "rep = Some b" for b
  proof -
    from that obtain m rest where m: "membership_rows rid d1 = m # rest" "bm_budget_id m = b"
      by (auto simp: rep_def split: list.splits)
    then have "m \<in> set (membership_rows rid d1)" by simp
    with m(2) show ?thesis by (auto simp: membership_rows_def)
  qed
  have "primary_is_member (memberships d1) r" if r: "r \<in> set (queue_items ?e)" for r
  proof -
    have "r \<in> (\<lambda>x. if q_request_id x = rid then x\<lparr>q_upstream_budget_id := rep\<rparr> else x) ` set (queue_items d1)"
      using r unfolding e by (simp add: set_tbl_update)
    then obtain x where x: "x \<in> set (queue_items d1)"
      "r = (if q_request_id x = rid then x\<lparr>q_upstream_budget_id := rep\<rparr> else x)"
      by (rule imageE)
    show ?thesis
    proof (cases "q_request_id x = rid")
      case True
      then show ?thesis using rep x(2) by (auto simp: primary_is_member_def)
    next
      case False
      then have "r \<in> set (queue_items d)" "q_request_id r \<noteq> rid" using x by (auto simp: d1_def split: if_splits)
      then have old: "primary_is_member (memberships d) r" using assms by (simp add: settled_def)
      show ?thesis unfolding primary_is_member_def
      proof (intro allI impI)
        fix b assume "q_upstream_budget_id r = Some b"
        with old obtain m where "m \<in> set (memberships d)" "bm_request_id m = q_request_id r" "bm_budget_id m = b"
          by (auto simp: primary_is_member_def)
        with ms [of m] \<open>q_request_id r \<noteq> rid\<close> show "\<exists>m\<in>set (memberships d1). bm_request_id m = q_request_id r \<and> bm_budget_id m = b"
          by auto
      qed
    qed
  qed
  then show ?thesis using assms by (simp add: e settled_def d1_def)
qed

lemma settled_detach_invalid: "settled d \<Longrightarrow> settled (detach_invalid_queue_budgets rid es d)"
proof -
  assume d: "settled d"
  have "settled (fold (exhausted_event rid) es d)"
    using d by (induction es arbitrary: d) (simp_all add: exhausted_event_def)
  then show ?thesis by (simp add: detach_invalid_queue_budgets_def settled_detach)
qed

lemma settled_charge: "settled (fold (charge_budget t) bs d) = settled d"
  by (induction bs arbitrary: d) (simp_all add: charge_budget_def)

lemma primary_is_member_update:
  "primary_is_member (tbl_update P (\<lambda>m. m\<lparr>bm_last_charged_attempt := n\<rparr>) ms) r = primary_is_member ms r"
proof -
  have "(\<exists>m\<in>set (tbl_update P (\<lambda>m. m\<lparr>bm_last_charged_attempt := n\<rparr>) ms). bm_request_id m = i \<and> bm_budget_id m = b) \<longleftrightarrow>
      (\<exists>m\<in>set ms. bm_request_id m = i \<and> bm_budget_id m = b)" for i b
    by (induction ms) (auto simp: tbl_update_def)
  then show ?thesis by (simp add: primary_is_member_def)
qed

lemma settled_mark: "settled d \<Longrightarrow> settled (mark_charged rid n bs d)"
  by (simp add: mark_charged_def settled_def primary_is_member_update)

lemma settled_gate: "settled d \<Longrightarrow> settled (close_gate rid d)"
  by (auto simp: close_gate_def intro!: settled_update)

lemma settled_reserve_item:
  assumes "settled d" "reserve_queue_item_upstream_request rid t d = (res, d')"
  shows "settled d'"
  using assms(2)
proof (cases rule: reserve_queue_item_cases)
  case (refused e invalid)
  then show ?thesis using assms(1) by (simp add: settled_detach_invalid)
next
  case (charged invalid st bs d1 d2)
  then have "settled d2" using assms(1) by (simp add: settled_charge settled_detach_invalid)
  then show ?thesis by (simp add: charged(6) settled_gate settled_mark)
qed

lemma settled_check_item:
  "settled d \<Longrightarrow> settled (snd (check_queue_item_upstream_request_deadlines rid t d))"
  by (simp add: check_queue_item_upstream_request_deadlines_def Let_def settled_detach_invalid)

lemma settled_fail_active:
  assumes "settled d" shows "settled (snd (fail_active_upstream_budget_items b c msg t d))"
proof -
  have step: "settled (snd (fail_budget_item b c msg t rid (n, d)))" if "settled d" for rid n d
    using settled_detach [OF that, of rid "[b]"]
    by (auto simp: fail_budget_item_def Let_def split: option.split intro!: settled_update)
  have "settled (snd (fold (fail_budget_item b c msg t) rids (n, d)))" for rids n
    using assms
  proof (induction rids arbitrary: n d)
    case (Cons rid rids)
    then show ?case using step [of d rid n] by (cases "fail_budget_item b c msg t rid (n, d)") simp
  qed simp
  from this [of "budget_affected b d" 0] show ?thesis
    by (auto simp: fail_active_upstream_budget_items_def Let_def split: prod.split)
qed

lemma settled_create_budget: "settled d \<Longrightarrow> settled (snd (create_upstream_request_budget n dl b t d))"
  by (simp add: create_upstream_request_budget_def Let_def)

lemma settled_set_rate: "settled d \<Longrightarrow> rate_settled s \<Longrightarrow> settled (set_rate_state s d)"
  by (auto simp: settled_def set_rate_state_def tbl_upsert_def set_tbl_update rate_settled_def)

lemma settled_record_completed:
  assumes "settled d" "coverage \<noteq> UNKNOWN"
  shows "settled (record_completed_cache_entry k q ps n coverage st u requested completed d)"
proof -
  obtain ids d1 where u: "upsert_all completed ps d = (ids, d1)" by fastforce
  then have "d1 = snd (upsert_all completed ps d)" by simp
  then have d1: "settled d1"
    using assms(1) by (auto intro!: settled_cong [OF assms(1)])
  show ?thesis using d1 assms(2)
    by (auto simp: record_completed_cache_entry_def u Let_def settled_def tbl_upsert_def set_tbl_update
        entry_settled_def completed_entry_def)
qed

text \<open>The failure of a completed entry keeps its status; the key determines the API family.\<close>

lemma settled_record_failure:
  assumes "settled d" "status \<noteq> ''completed''"
    "\<And>c. c \<in> set (cache_entries d) \<Longrightarrow> c_cache_key c = k \<Longrightarrow> c_api_family c = req_api_family q"
    "keyed c_cache_key (cache_entries d)"
  shows "settled (snd (record_cache_failure k q c msg status cd us n now d))"
proof (cases "get_cache_entry k d")
  case None
  then show ?thesis using assms(1,2)
    by (auto simp: record_cache_failure_def Let_def settled_def get_cache_entry_def tbl_upsert_def entry_settled_def)
next
  case (Some e)
  have "entry_settled (e'\<lparr>c_request := q, c_api_family := req_api_family q, c_status :=
      if c_status e = ''completed'' then ''completed'' else status, c_requested_at := Some now, c_cooldown_until := cd,
      c_upstream_status := us, c_upstream_requests_total := u, c_error_category := Some c, c_error_message := Some m\<rparr>)"
    if "e' \<in> set (cache_entries d)" "c_cache_key e' = k" for e' u m
  proof -
    have "e \<in> set (cache_entries d)" "c_cache_key e = k"
      using Some by (auto simp: get_cache_entry_def dest: tbl_get_SomeD)
    then have "e' = e" using keyed_eqI [OF assms(4) that(1)] that(2) by simp
    then show ?thesis using assms(1,2) assms(3) [OF that] that(1)
      by (auto simp: settled_def entry_settled_def)
  qed
  then show ?thesis using assms(1) Some
    by (auto simp: record_cache_failure_def Let_def settled_def get_cache_entry_def tbl_upsert_def set_tbl_update)
qed

lemma settled_gc:
  assumes "settled d" "schema_ok d"
  shows "settled (snd (gc cutoff dry d))"
proof -
  have "primary_is_member (memberships (gc_result cutoff d)) r" if r: "r \<in> set (queue_items (gc_result cutoff d))" for r
  proof -
    have kept: "r \<in> set (queue_items d)" "\<not> retention_queue_item cutoff r"
      using r by (simp_all add: gc_tables set_tbl_delete)
    have "q_request_id r \<notin> q_request_id ` set (filter (retention_queue_item cutoff) (queue_items d))"
    proof
      assume "q_request_id r \<in> q_request_id ` set (filter (retention_queue_item cutoff) (queue_items d))"
      then obtain x where "x \<in> set (queue_items d)" "retention_queue_item cutoff x" "q_request_id r = q_request_id x"
        by auto
      with keyed_eqI [OF schema_okD(4) [OF assms(2)] kept(1)] kept(2) show False by blast
    qed
    then have same: "m \<in> set (memberships (gc_result cutoff d))"
      if "m \<in> set (memberships d)" "bm_request_id m = q_request_id r" for m
      using that by (simp add: gc_tables set_tbl_delete)
    have "primary_is_member (memberships d) r" using assms(1) kept(1) by (simp add: settled_def)
    then show ?thesis using same unfolding primary_is_member_def by blast
  qed
  then have "settled (gc_result cutoff d)" using assms(1) by (simp add: settled_def gc_tables)
  then show ?thesis using assms(1) by (simp add: gc_snd)
qed

subsection \<open>Restarting changes nothing\<close>

lemma migrated_schema:
  assumes "schema_ok d" "apply_migrations d = (Inr u, d')"
  shows "schema_ok d'"
proof -
  define ms where "ms = fold backfill_membership (queue_items d) (memberships d)"
  have d': "d' = d\<lparr>rate_states := map backfill_rate_totals (rate_states d), memberships := ms,
      cache_entries := map (\<lambda>c. backfill_coverage (backfill_refresh_after c)) (cache_entries d)\<rparr>"
    and fk: "\<And>m. m \<in> set ms \<Longrightarrow> m \<notin> set (memberships d) \<Longrightarrow> get_budget (bm_budget_id m) d \<noteq> None"
    using assms(2) by (auto simp: apply_migrations_def Let_def ms_def split: if_splits)
  note ok = schema_okD [OF assms(1)]
  have rows: "get_queue_row (bm_request_id m) d \<noteq> None \<and> get_budget (bm_budget_id m) d \<noteq> None" if m: "m \<in> set ms" for m
    using fold_backfill_origin [of m "queue_items d" "memberships d"] m fk [OF m] ok(12,13)
    by (auto simp: ms_def get_queue_row_def tbl_get_None)
  have rate: "rs_name (backfill_rate_totals s) = rs_name s" for s by (simp add: backfill_rate_totals_def Let_def)
  have entry: "c_cache_key (backfill_coverage (backfill_refresh_after c)) = c_cache_key c" for c
    by (simp add: backfill_coverage_def backfill_refresh_after_def)
  have "keyed (\<lambda>m. (bm_request_id m, bm_budget_id m)) ms"
    unfolding ms_def by (rule fold_backfill_keyed) (rule ok(6))
  then show ?thesis using assms(1) rows
    by (simp add: schema_ok_def d' keyed_map rate entry get_queue_row_def get_budget_def)
qed

text \<open>
  What the processes do to a store. Other covers the operations on the tables that apply_migrations
  does not touch: leases, reservations, papers, sync jobs, harvests, events.
\<close>

inductive live_step :: "db \<Rightarrow> db \<Rightarrow> bool" where
  Enqueue: "live_step d (snd (enqueue_request_for_work q k w b t now u d))"
| Refresh: "live_step d (snd (enqueue_refresh_if_due q k t now u d))"
| Claim: "live_step d (snd (claim_next_queue_item w ttl ks rs now d))"
| Renew: "live_step d (snd (renew_queue_claim rid w ttl now d))"
| Complete: "live_step d (complete_queue_item rid now d)"
| Release: "live_step d (snd (release_or_delay_queue_item rid next c m st now d))"
| Fence: "live_step d (snd (renew_worker_fetch_ownership rid w l ttl ids now d))"
| Release_ids: "live_step d (release_id_fetch_reservations ids w now d)"
| Budget: "live_step d (snd (create_upstream_request_budget n dl b now d))"
| Reserve: "live_step d (snd (reserve_queue_item_upstream_request rid now d))"
| Check: "live_step d (snd (check_queue_item_upstream_request_deadlines rid now d))"
| Fail: "live_step d (snd (fail_active_upstream_budget_items b c m now d))"
| Rate: "rate_counters_ok s \<Longrightarrow> live_step d (set_rate_state s d)"
| Record: "coverage \<noteq> UNKNOWN \<Longrightarrow>
    live_step d (record_completed_cache_entry k q ps n coverage st us requested completed d)"
| Failure: "status \<noteq> ''completed'' \<Longrightarrow>
    (\<And>e. e \<in> set (cache_entries d) \<Longrightarrow> c_cache_key e = k \<Longrightarrow> c_api_family e = req_api_family q) \<Longrightarrow>
    live_step d (snd (record_cache_failure k q c m status cd us n now d))"
| Gc: "live_step d (snd (gc cutoff dry d))"
| Other: "schema_ok d' \<Longrightarrow> rate_states d' = rate_states d \<Longrightarrow> queue_items d' = queue_items d \<Longrightarrow>
    memberships d' = memberships d \<Longrightarrow> cache_entries d' = cache_entries d \<Longrightarrow> live_step d d'"

lemma live_step_keeps:
  assumes "live_step d d'" "schema_ok d" "settled d"
  shows "schema_ok d' \<and> settled d'"
  using assms
proof (cases rule: live_step.cases)
  case (Enqueue q k w b t now u)
  then show ?thesis using assms(2,3)
    by (cases "enqueue_request_for_work q k w b t now u d")
      (auto simp: enqueue_request_for_work_def dest: schema_ok_enqueue settled_enqueue)
next
  case (Refresh q k t now u)
  then show ?thesis using assms(2,3) settled_refresh [OF assms(3), of q k t now u]
    by (cases "enqueue_refresh_if_due q k t now u d") (auto dest: schema_ok_refresh)
next
  case (Claim w ttl ks rs now)
  then show ?thesis using assms(2,3) settled_claim [OF assms(3), of w ttl ks rs now]
    by (cases "claim_next_queue_item w ttl ks rs now d") (auto dest: schema_ok_claim)
next
  case (Reserve rid now)
  then show ?thesis using assms(2,3)
    by (cases "reserve_queue_item_upstream_request rid now d") (auto dest: schema_ok_reserve_item settled_reserve_item)
next
  case (Rate s)
  then have "rate_settled s" by (simp add: rate_counters_ok_def rate_settled_def)
  with Rate assms(2,3) show ?thesis by (simp add: settled_set_rate schema_ok_set_rate_state)
next
  case (Failure status k q c m cd us n now)
  then show ?thesis using assms(2,3) schema_ok_record_failure [OF assms(2)]
    by (simp add: settled_record_failure schema_okD(2))
next
  case Other
  then show ?thesis using assms(3) settled_cong by blast
qed (use assms(2,3) in \<open>auto intro: table_intros settled_refresh settled_claim settled_renew settled_complete
  settled_release settled_fence settled_release_ids settled_create_budget settled_check_item settled_fail_active
  settled_record_completed settled_gc\<close>)

text \<open>C35. Starting a broker or a worker pass on a live store changes nothing:
  once init_schema has succeeded on a store, it succeeds again after any run of the operations of the
  store, by any number of processes, and it leaves the store as it is, with its constraints intact.\<close>

theorem restarts_change_nothing:
  assumes "schema_ok d0" "apply_migrations d0 = (Inr (), d1)" "live_step\<^sup>*\<^sup>* d1 d2"
  shows "apply_migrations d2 = (Inr (), d2) \<and> schema_ok d2"
proof -
  have "schema_ok d2 \<and> settled d2"
    using assms(3)
    by (induction rule: rtranclp_induct)
      (use migrated_schema [OF assms(1,2)] migrated_settled [OF assms(2)] live_step_keeps in auto)
  then show ?thesis by (simp add: settled_no_change)
qed

text \<open>A store of an older release: no membership rows, and the total of HTTP 429 answers still zero.\<close>

definition old_store :: db where
  "old_store = sample_store\<lparr>memberships := [],
     rate_states := [(new_rate_state ''arxiv_legacy_api'')\<lparr>rs_consecutive_429_total := 3\<rparr>]\<rparr>"

theorem restarts_change_nothing_witness:
  "let d1 = snd (apply_migrations old_store);
       d2 = complete_queue_item ''r'' 5 (snd (reserve_queue_item_upstream_request ''r'' 4 d1))
   in map bm_last_charged_attempt (memberships d1) = [1] \<and> map rs_upstream_429_total (rate_states d1) = [3] \<and>
      apply_migrations d2 = (Inr (), d2)"
proof -
  define d1 where "d1 = snd (apply_migrations old_store)"
  define d2 where "d2 = complete_queue_item ''r'' 5 (snd (reserve_queue_item_upstream_request ''r'' 4 d1))"
  have old: "schema_ok old_store" using sample_store_ok(1) by (simp add: old_store_def schema_ok_def keyed_Cons get_queue_row_def)
  have "fst (apply_migrations old_store) = Inr ()"
    by (simp add: apply_migrations_def old_store_def sample_store_def sample_row_def backfill_membership_def get_budget_def
        tbl_get_Cons)
  then have ok: "apply_migrations old_store = (Inr (), d1)" by (simp add: d1_def prod_eq_iff)
  have "live_step\<^sup>*\<^sup>* d1 d2"
    unfolding d2_def by (meson rtranclp.intros live_step.Reserve live_step.Complete)
  then have "apply_migrations d2 = (Inr (), d2)" using restarts_change_nothing [OF old ok] by blast
  moreover have "map bm_last_charged_attempt (memberships d1) = [1] \<and> map rs_upstream_429_total (rate_states d1) = [3]"
    by (simp add: d1_def apply_migrations_def old_store_def sample_store_def sample_row_def backfill_membership_def
        get_budget_def tbl_get_Cons new_rate_state_def backfill_rate_totals_def)
  ultimately show ?thesis by (simp add: d1_def d2_def)
qed
end
