(* ===== verification/Huldra_Status.thy ===== *)
theory Huldra_Status
  imports Huldra_Retention
begin

text \<open>
  The status report (status_summary of huldra/db.py, collect_status of huldra/metrics.py,
  BrokerStatus of huldra/models.py): the counters of every table, the cooldown of the legacy API,
  the worker heard of last, the oldest pending request. The report is not one transaction: each
  SELECT is a read of its own, and other processes may write between two of them.
\<close>

record broker_status =
  bs_upstream_requests_total :: int
  bs_upstream_429_total :: int
  bs_upstream_rate_limited_total :: int
  bs_oai_503_total :: int
  bs_consecutive_rate_limit_total :: int
  bs_cooldown_until :: "datetime option"
  bs_cooldown_active :: bool
  bs_last_request_started_at :: "datetime option"
  bs_last_rate_wait_seconds :: "seconds option"
  bs_last_request_latency_ms :: "rat option"
  bs_last_retry_after_seconds :: "int option"
  bs_last_effective_cooldown_seconds :: "seconds option"
  bs_last_rate_limit_kind :: "string option"
  bs_last_api_family :: "string option"
  bs_queue_depth :: nat
  bs_queue_ready :: nat
  bs_queue_delayed :: nat
  bs_queue_items :: nat
  bs_queue_terminal :: nat
  bs_cache_entries :: nat
  bs_cache_completed :: nat
  bs_cache_failed :: nat
  bs_papers :: nat
  bs_events :: nat
  bs_sync_jobs :: nat
  bs_sync_jobs_terminal :: nat
  bs_sync_pages :: nat
  bs_worker_last_heartbeat_at :: "datetime option"
  bs_worker_next_wake_at :: "datetime option"
  bs_worker_last_error_category :: "string option"
  bs_worker_last_error_message :: "string option"
  bs_oldest_pending_request_at :: "datetime option"

subsection \<open>One SELECT each\<close>

definition upstream_total :: "db \<Rightarrow> int" where
  "upstream_total d = sum_list (map c_upstream_requests_total (cache_entries d))"

record rate_totals =
  rt_rate_limited :: int
  rt_http_429 :: int
  rt_oai_503 :: int
  rt_consecutive :: int

definition rate_totals_of :: "db \<Rightarrow> rate_totals" where
  "rate_totals_of d =
     (let total = (\<lambda>f. sum_list (map f (rate_states d))) in
      \<lparr>rt_rate_limited = total rs_upstream_rate_limited_total, rt_http_429 = total rs_upstream_429_total,
       rt_oai_503 = total rs_upstream_oai_503_retry_after_total, rt_consecutive = total rs_consecutive_rate_limit_total\<rparr>)"

definition legacy_rate_row :: "db \<Rightarrow> rate_state option" where
  "legacy_rate_row d = tbl_get rs_name ''arxiv_legacy_api'' (rate_states d)"

record queue_counts =
  qc_total :: nat
  qc_depth :: nat
  qc_ready :: nat
  qc_delayed :: nat
  qc_terminal :: nat
  qc_oldest :: "datetime option"

text \<open>MIN over no row is NULL.\<close>

definition earliest :: "datetime list \<Rightarrow> datetime option" where
  "earliest ts = (case ts of [] \<Rightarrow> None | t # rest \<Rightarrow> Some (foldl min t rest))"

definition queue_counts_of :: "db \<Rightarrow> queue_counts" where
  "queue_counts_of d =
     (let count = (\<lambda>P. tbl_count P (queue_items d)) in
      \<lparr>qc_total = length (queue_items d), qc_depth = count (\<lambda>r. pending (q_status r)),
       qc_ready = count (\<lambda>r. q_status r = QUEUED), qc_delayed = count (\<lambda>r. q_status r = DELAYED),
       qc_terminal = count (\<lambda>r. q_status r = COMPLETED \<or> q_status r = FAILED),
       qc_oldest = earliest (map q_created_at (filter (\<lambda>r. pending (q_status r)) (queue_items d)))\<rparr>)"

record cache_counts =
  cc_total :: nat
  cc_completed :: nat
  cc_failed :: nat

definition cache_counts_of :: "db \<Rightarrow> cache_counts" where
  "cache_counts_of d =
     \<lparr>cc_total = length (cache_entries d),
      cc_completed = tbl_count (\<lambda>c. c_status c = ''completed'') (cache_entries d),
      cc_failed = tbl_count (\<lambda>c. c_status c \<in> {''failed'', ''rate_limited''}) (cache_entries d)\<rparr>"

definition sync_job_counts :: "db \<Rightarrow> nat \<times> nat" where
  "sync_job_counts d =
     (length (sync_jobs d),
      tbl_count (\<lambda>j. sj_status j \<in> set terminal_sync_job_statuses \<and> sj_completed_at j \<noteq> None) (sync_jobs d))"

text \<open>ORDER BY last_heartbeat_at DESC LIMIT 1: NULL comes last.\<close>

definition last_worker :: "db \<Rightarrow> worker_row option" where
  "last_worker d =
     (case sort_key (\<lambda>w. case w_last_heartbeat_at w of None \<Rightarrow> (True, 0) | Some t \<Rightarrow> (False, - t)) (worker_states d) of
        [] \<Rightarrow> None | w # _ \<Rightarrow> Some w)"

subsection \<open>The report\<close>

definition from_rate :: "rate_state option \<Rightarrow> (rate_state \<Rightarrow> 'a option) \<Rightarrow> 'a option" where
  "from_rate rate f = Option.bind rate f"

definition broker_status_of ::
  "datetime \<Rightarrow> int \<Rightarrow> rate_totals \<Rightarrow> rate_state option \<Rightarrow> queue_counts \<Rightarrow> cache_counts \<Rightarrow> nat \<Rightarrow> nat \<Rightarrow> nat \<times> nat \<Rightarrow> nat
   \<Rightarrow> worker_row option \<Rightarrow> broker_status" where
  "broker_status_of current up totals rate q c n_papers n_events jobs n_pages worker =
     (let cooldown = from_rate rate rs_cooldown_until in
      \<lparr>bs_upstream_requests_total = up, bs_upstream_429_total = rt_http_429 totals,
       bs_upstream_rate_limited_total = rt_rate_limited totals, bs_oai_503_total = rt_oai_503 totals,
       bs_consecutive_rate_limit_total = rt_consecutive totals, bs_cooldown_until = cooldown,
       bs_cooldown_active = (case cooldown of None \<Rightarrow> False | Some t \<Rightarrow> t > current),
       bs_last_request_started_at = from_rate rate rs_last_request_started_at,
       bs_last_rate_wait_seconds = from_rate rate rs_last_rate_wait_seconds,
       bs_last_request_latency_ms = from_rate rate rs_last_request_latency_ms,
       bs_last_retry_after_seconds = from_rate rate rs_last_retry_after_seconds,
       bs_last_effective_cooldown_seconds = from_rate rate rs_last_effective_cooldown_seconds,
       bs_last_rate_limit_kind = from_rate rate rs_last_rate_limit_kind,
       bs_last_api_family = from_rate rate rs_last_api_family,
       bs_queue_depth = qc_depth q, bs_queue_ready = qc_ready q, bs_queue_delayed = qc_delayed q,
       bs_queue_items = qc_total q, bs_queue_terminal = qc_terminal q,
       bs_cache_entries = cc_total c, bs_cache_completed = cc_completed c, bs_cache_failed = cc_failed c,
       bs_papers = n_papers, bs_events = n_events, bs_sync_jobs = fst jobs, bs_sync_jobs_terminal = snd jobs,
       bs_sync_pages = n_pages,
       bs_worker_last_heartbeat_at = Option.bind worker w_last_heartbeat_at,
       bs_worker_next_wake_at = Option.bind worker w_next_wake_at,
       bs_worker_last_error_category = Option.bind worker w_last_error_category,
       bs_worker_last_error_message = Option.bind worker w_last_error_message,
       bs_oldest_pending_request_at = qc_oldest q\<rparr>)"

definition status_summary :: "datetime option \<Rightarrow> broker_status act" where
  "status_summary now =
     bindM (now_or now) (\<lambda>current.
     bindM (readM upstream_total) (\<lambda>up.
     bindM (readM rate_totals_of) (\<lambda>totals.
     bindM (readM legacy_rate_row) (\<lambda>rate.
     bindM (readM queue_counts_of) (\<lambda>q.
     bindM (readM cache_counts_of) (\<lambda>c.
     bindM (readM (\<lambda>d. length (papers d))) (\<lambda>n_papers.
     bindM (readM (\<lambda>d. length (events d))) (\<lambda>n_events.
     bindM (readM sync_job_counts) (\<lambda>jobs.
     bindM (readM (\<lambda>d. length (sync_pages d))) (\<lambda>n_pages.
     bindM (readM last_worker) (\<lambda>worker.
       returnM (broker_status_of current up totals rate q c n_papers n_events jobs n_pages worker))))))))))))"

definition collect_status :: "broker_status act" where
  "collect_status = status_summary None"


subsection \<open>The numbers agree\<close>

lemma readM_result: "\<exists>d. fst (readM f w) = Inr (f d) \<and> fetches (snd (readM f w)) = fetches w"
  by (auto simp: readM_def tx_def acquire_lock_def Let_def)

lemma bind_readM:
  assumes "fetches w = F"
    "\<And>d w'. fetches w' = F \<Longrightarrow> \<exists>x. fst (k (f d) w') = Inr x \<and> P x \<and> fetches (snd (k (f d) w')) = F"
  shows "\<exists>x. fst (bindM (readM f) k w) = Inr x \<and> P x \<and> fetches (snd (bindM (readM f) k w)) = F"
proof -
  obtain d where d: "fst (readM f w) = Inr (f d)" "fetches (snd (readM f w)) = F"
    using readM_result [of f w] assms(1) by auto
  then have "bindM (readM f) k w = k (f d) (snd (readM f w))"
    by (cases "readM f w") (simp add: bindM_def)
  with assms(2) [OF d(2)] show ?thesis by simp
qed

lemma queue_split: "qc_depth (queue_counts_of d) + qc_terminal (queue_counts_of d) = qc_total (queue_counts_of d)"
proof -
  have "tbl_count (\<lambda>r. pending (q_status r)) qs + tbl_count (\<lambda>r. q_status r = COMPLETED \<or> q_status r = FAILED) qs = length qs" for qs
  proof (induction qs)
    case (Cons r qs)
    then show ?case by (cases "q_status r") (simp_all add: tbl_count_def)
  qed (simp add: tbl_count_def)
  then show ?thesis by (simp add: queue_counts_of_def)
qed

lemma count_two:
  assumes "\<And>r. P r \<Longrightarrow> Q r \<Longrightarrow> False" "\<And>r. P r \<Longrightarrow> R r" "\<And>r. Q r \<Longrightarrow> R r"
  shows "tbl_count P rs + tbl_count Q rs \<le> tbl_count R rs"
  using assms by (induction rs) (force simp: tbl_count_def)+

lemma count_le: "tbl_count P rs \<le> length rs"
  by (simp add: tbl_count_def)

lemma earliest_None: "earliest ts = None \<longleftrightarrow> ts = []"
  by (simp add: earliest_def split: list.split)

lemma queue_ready: "qc_ready (queue_counts_of d) + qc_delayed (queue_counts_of d) \<le> qc_depth (queue_counts_of d)"
  unfolding queue_counts_of_def Let_def by simp (rule count_two, auto)

lemma queue_oldest: "qc_oldest (queue_counts_of d) = None \<longleftrightarrow> qc_depth (queue_counts_of d) = 0"
  by (simp add: queue_counts_of_def earliest_None tbl_count_def)

lemma cache_split: "cc_completed (cache_counts_of d) + cc_failed (cache_counts_of d) \<le> cc_total (cache_counts_of d)"
proof -
  have "tbl_count (\<lambda>c. c_status c = ''completed'') cs + tbl_count (\<lambda>c. c_status c \<in> {''failed'', ''rate_limited''}) cs
      \<le> tbl_count (\<lambda>_. True) cs" for cs
    by (rule count_two) auto
  then show ?thesis by (simp add: cache_counts_of_def tbl_count_def)
qed

definition agree :: "datetime \<Rightarrow> broker_status \<Rightarrow> bool" where
  "agree current st \<longleftrightarrow>
     bs_queue_depth st + bs_queue_terminal st = bs_queue_items st \<and>
     bs_queue_ready st + bs_queue_delayed st \<le> bs_queue_depth st \<and>
     (bs_oldest_pending_request_at st = None \<longleftrightarrow> bs_queue_depth st = 0) \<and>
     bs_cache_completed st + bs_cache_failed st \<le> bs_cache_entries st \<and>
     bs_sync_jobs_terminal st \<le> bs_sync_jobs st \<and>
     (bs_cooldown_active st \<longleftrightarrow> (\<exists>t. bs_cooldown_until st = Some t \<and> current < t))"

lemma agree_report:
  "agree current (broker_status_of current up totals rate (queue_counts_of d1) (cache_counts_of d2) n_papers n_events
     (sync_job_counts d3) n_pages worker)"
  by (auto simp: agree_def broker_status_of_def Let_def queue_split queue_ready queue_oldest cache_split
      sync_job_counts_def count_le split: option.split)

text \<open>C36. Whatever other processes write while the report is taken, its numbers fit
  together: pending and finished requests add up to all requests, ready and delayed ones are pending,
  there is an oldest pending request exactly when one is pending, no more entries are completed or
  failed than there are, and the cooldown is active exactly while its end is ahead of the clock
  reading. The report makes no upstream call, and when nobody else writes it changes nothing and its
  cooldown is the one the limiter of the legacy API goes by.\<close>

theorem status_numbers_agree:
  "\<exists>st. fst (status_summary None w) = Inr st \<and> agree (clock w (reads w)) st \<and>
     fetches (snd (status_summary None w)) = fetches w \<and>
     (quiet w \<longrightarrow> store (snd (status_summary None w)) = store w \<and>
        bs_cooldown_active st = in_cooldown (get_rate_state ''arxiv_legacy_api'' (store w)) (clock w (reads w)))"
proof -
  let ?t = "clock w (reads w)" and ?w = "w\<lparr>reads := Suc (reads w)\<rparr>"
  define rest where "rest = (\<lambda>current. bindM (readM upstream_total) (\<lambda>up.
     bindM (readM rate_totals_of) (\<lambda>totals.
     bindM (readM legacy_rate_row) (\<lambda>rate.
     bindM (readM queue_counts_of) (\<lambda>q.
     bindM (readM cache_counts_of) (\<lambda>c.
     bindM (readM (\<lambda>d. length (papers d))) (\<lambda>n_papers.
     bindM (readM (\<lambda>d. length (events d))) (\<lambda>n_events.
     bindM (readM sync_job_counts) (\<lambda>jobs.
     bindM (readM (\<lambda>d. length (sync_pages d))) (\<lambda>n_pages.
     bindM (readM last_worker) (\<lambda>worker.
       returnM (broker_status_of current up totals rate q c n_papers n_events jobs n_pages worker))))))))))))"
  have run: "status_summary None w = rest ?t ?w"
    by (simp add: status_summary_def rest_def bindM_def now_or_def utc_now_def)
  have "\<exists>st. fst (rest ?t ?w) = Inr st \<and> agree ?t st \<and> fetches (snd (rest ?t ?w)) = fetches w"
    unfolding rest_def by (intro bind_readM) (simp_all add: returnM_def agree_report)
  then obtain st where st: "fst (rest ?t ?w) = Inr st" "agree ?t st" "fetches (snd (rest ?t ?w)) = fetches w"
    by blast
  have "store (snd (rest ?t ?w)) = store w \<and>
      bs_cooldown_active st = in_cooldown (get_rate_state ''arxiv_legacy_api'' (store w)) ?t" if "quiet w"
    using st(1) that
    by (auto simp: rest_def bindM_def readM_quiet returnM_def broker_status_of_def Let_def legacy_rate_row_def
        get_rate_state_def in_cooldown_def from_rate_def new_rate_state_def split: option.split)
  with st show ?thesis unfolding run by blast
qed

definition status_world :: world where
  "status_world = alone (set_rate_state ((new_rate_state ''arxiv_legacy_api'')\<lparr>rs_cooldown_until := Some 100\<rparr>) sample_store)
     (\<lambda>_ _. Inl (OtherExn ''offline''))"

theorem status_numbers_agree_witness:
  "\<exists>st. fst (status_summary None status_world) = Inr st \<and> bs_queue_depth st + bs_queue_terminal st = bs_queue_items st \<and>
     bs_cooldown_active st \<and> store (snd (status_summary None status_world)) = store status_world"
proof -
  have q: "quiet status_world" by (simp add: status_world_def alone_quiet)
  have cd: "in_cooldown (get_rate_state ''arxiv_legacy_api'' (store status_world)) (clock status_world (reads status_world))"
    by (simp add: status_world_def alone_def in_cooldown_def new_rate_state_def)
  show ?thesis using status_numbers_agree [of status_world] q cd by (auto simp: agree_def)
qed
end
