(* ===== verification/Huldra_Api.thy ===== *)
theory Huldra_Api
  imports Huldra_Answers Huldra_Maintenance Huldra_Harvest Huldra_Status
begin

text \<open>
  The HTTP API (huldra/api.py), the models of its bodies (HuldraSyncRequest and HuldraBackfillRequest
  of huldra/models.py) and the client (huldra/client.py). A route is a run that ends in a reply or an
  HTTP error. FastAPI validates a body before the route runs and answers 422 when it is invalid; it
  answers 500 for an exception a route does not handle. JSON and the texts of pydantic's messages are
  not modelled: a body is its fields, as received.
\<close>

datatype 'a reply = Reply 'a | HttpError int string

definition reply :: "'a \<Rightarrow> 'a reply run" where
  "reply x = lift_run (returnM (Reply x))"

definition http_error :: "int \<Rightarrow> string \<Rightarrow> 'a reply run" where
  "http_error code detail = lift_run (returnM (HttpError code detail))"

text \<open>except ValueError: a ValidationError is one.\<close>

definition value_error_text :: "exn \<Rightarrow> string option" where
  "value_error_text e =
     (case e of
        StoreExn (ValueError msg) \<Rightarrow> Some msg
      | OtherExn msg \<Rightarrow>
          if startswith msg ''ValueError: '' then Some (removeprefix msg ''ValueError: '')
          else if msg = ''ValidationError'' then Some msg else None
      | _ \<Rightarrow> None)"

definition or_422 :: "'a run \<Rightarrow> 'a reply run" where
  "or_422 m w =
     (case m w of
        None \<Rightarrow> None
      | Some (Inr x, w') \<Rightarrow> Some (Inr (Reply x), w')
      | Some (Inl e, w') \<Rightarrow>
          (case value_error_text e of
             Some msg \<Rightarrow> Some (Inr (HttpError 422 msg), w') | None \<Rightarrow> Some (Inl e, w')))"

definition found_or_404 :: "string \<Rightarrow> 'a option act \<Rightarrow> 'a reply run" where
  "found_or_404 detail m =
     bind_run (lift_run m) (\<lambda>found. case found of Some x \<Rightarrow> reply x | None \<Rightarrow> http_error 404 detail)"

definition validated :: "string list + 'a \<Rightarrow> ('a \<Rightarrow> 'b reply run) \<Rightarrow> 'b reply run" where
  "validated body route = (case body of Inl errs \<Rightarrow> http_error 422 (join ''; '' errs) | Inr x \<Rightarrow> route x)"

subsection \<open>Bodies\<close>

record sync_body =
  sq_requests :: "raw_request list"
  sq_wait :: bool
  sq_wait_timeout :: "seconds option"
  sq_mode :: legacy_sync_mode
  sq_max_pages :: int
  sq_max_requests :: int

definition range_error :: "string \<Rightarrow> int \<Rightarrow> int \<Rightarrow> int \<Rightarrow> string list" where
  "range_error name low high n = (if n < low \<or> n > high then [name] else [])"

definition positive_timeout :: "seconds option \<Rightarrow> string list" where
  "positive_timeout t = (case t of Some s \<Rightarrow> if s > 0 then [] else [''wait_timeout_seconds''] | None \<Rightarrow> [])"

definition budget_field_errors :: "seconds option \<Rightarrow> int \<Rightarrow> int \<Rightarrow> string list" where
  "budget_field_errors timeout pages requests =
     positive_timeout timeout @ range_error ''max_pages_per_window'' 1 10000 pages @
     range_error ''max_requests_total'' 1 100000 requests"

definition request_errors :: "raw_request list \<Rightarrow> string list" where
  "request_errors rs = concat (map (\<lambda>r. case make_request r of Inl errs \<Rightarrow> errs | Inr _ \<Rightarrow> []) rs)"

definition made_requests :: "raw_request list \<Rightarrow> arxiv_request list" where
  "made_requests rs = List.map_filter (\<lambda>r. case make_request r of Inl _ \<Rightarrow> None | Inr q \<Rightarrow> Some q) rs"

definition make_sync_body :: "sync_body \<Rightarrow> string list + sync_call" where
  "make_sync_body b =
     (let errs = request_errors (sq_requests b) @
            budget_field_errors (sq_wait_timeout b) (sq_max_pages b) (sq_max_requests b) in
      if errs \<noteq> [] then Inl errs
      else if sq_mode b = MODE_COMPLETE_WINDOW \<and> \<not> sq_wait b
      then Inl [''complete_window mode requires wait=True'']
      else Inr \<lparr>sc_requests = made_requests (sq_requests b), sc_wait = sq_wait b,
                sc_wait_timeout = sq_wait_timeout b, sc_mode = sq_mode b, sc_max_pages = sq_max_pages b,
                sc_max_requests = sq_max_requests b\<rparr>)"

text \<open>Dates are days, as in the planner.\<close>

record backfill_body =
  bf_search_queries :: "string list"
  bf_start_date :: int
  bf_end_date :: int
  bf_max_results :: int
  bf_wait :: bool
  bf_wait_timeout :: "seconds option"
  bf_mode :: legacy_sync_mode
  bf_client_id :: string
  bf_max_pages :: int
  bf_max_requests :: int

definition make_backfill_body :: "backfill_body \<Rightarrow> string list + backfill_body" where
  "make_backfill_body b =
     (let queries = stripped_ids (bf_search_queries b); client = strip (bf_client_id b);
          errs = (if queries = [] then [''search_queries cannot be empty''] else []) @
            range_error ''max_results'' 1 2000 (bf_max_results b) @
            (if client = [] then [''client_id cannot be blank''] else []) @
            budget_field_errors (bf_wait_timeout b) (bf_max_pages b) (bf_max_requests b)
      in if errs \<noteq> [] then Inl errs
         else if bf_start_date b > bf_end_date b then Inl [''start_date must be on or before end_date'']
         else if bf_mode b = MODE_COMPLETE_WINDOW \<and> \<not> bf_wait b
         then Inl [''complete_window mode requires wait=True'']
         else Inr (b\<lparr>bf_search_queries := queries, bf_client_id := client\<rparr>))"

subsection \<open>Routes\<close>

definition get_status :: "broker_status reply run" where
  "get_status = bind_run (lift_run collect_status) reply"

definition waiting :: "bool \<Rightarrow> arxiv_request \<Rightarrow> arxiv_request" where
  "waiting wait request = (if wait then request\<lparr>req_cache_policy := WAIT_UNTIL_READY\<rparr> else request)"

definition create_request :: "broker \<Rightarrow> raw_request \<Rightarrow> bool \<Rightarrow> arxiv_result reply run" where
  "create_request bk body wait = validated (make_request body) (\<lambda>request. bind_run (ensure bk (waiting wait request)) reply)"

definition get_request :: "string \<Rightarrow> queue_item reply run" where
  "get_request request_id = found_or_404 ''request not found'' (readM (get_queue_item request_id))"

definition get_result_route :: "string \<Rightarrow> raw_inspection reply run" where
  "get_result_route cache_key = bind_run (lift_run (get_result cache_key)) reply"

definition post_sync :: "broker \<Rightarrow> sync_body \<Rightarrow> maintenance_result reply run" where
  "post_sync bk body = validated (make_sync_body body) (\<lambda>call. or_422 (sync_windows bk call))"

definition post_backfill :: "broker \<Rightarrow> backfill_body \<Rightarrow> maintenance_result reply run" where
  "post_backfill bk body = validated (make_backfill_body body) (\<lambda>b.
     or_422 (backfill_windows bk (bf_search_queries b) (bf_start_date b) (bf_end_date b) (bf_max_results b) (bf_client_id b)
       \<lparr>sc_requests = [], sc_wait = bf_wait b, sc_wait_timeout = bf_wait_timeout b, sc_mode = bf_mode b,
        sc_max_pages = bf_max_pages b, sc_max_requests = bf_max_requests b\<rparr>))"

definition post_harvest :: "harvester \<Rightarrow> oai_request \<Rightarrow> oai_harvest_result reply run" where
  "post_harvest hv body = validated (make_oai_request body) (\<lambda>request.
     bind_run (lift_run uuid4) (\<lambda>owner_id. bind_run (lift_run uuid4) (\<lambda>new_id.
     bind_run (lift_run (harvest_oai hv request owner_id new_id)) reply)))"

definition get_paper_route :: "string \<Rightarrow> arxiv_paper reply run" where
  "get_paper_route arxiv_id = found_or_404 ''paper not found'' (readM (get_paper (normalize_arxiv_id arxiv_id)))"


subsection \<open>The client\<close>

text \<open>_json: a status of 400 or more is raised as a HuldraHTTPError, here the left side.\<close>

type_synonym 'a http_answer = "(int \<times> string) + 'a"

fun client_json :: "exn + 'a reply \<Rightarrow> 'a http_answer" where
  "client_json (Inr (Reply x)) = Inr x"
| "client_json (Inr (HttpError code detail)) = Inl (code, detail)"
| "client_json (Inl e) = Inl (500, ''Internal Server Error'')"

definition client_call :: "'a reply run \<Rightarrow> world \<Rightarrow> ('a http_answer \<times> world) option" where
  "client_call m w = map_option (\<lambda>(r, w'). (client_json r, w')) (m w)"

text \<open>request.model_dump(mode="json") as the server reads it: the bounds are written in UTC.\<close>

definition wire :: "arxiv_request \<Rightarrow> raw_request" where
  "wire q = \<lparr>client_id = client_id q, search_query = search_query q, id_list = id_list q,
     req_sort_by = req_sort_by q, req_sort_order = req_sort_order q, start = start q, max_results = max_results q,
     submitted_start = None, submitted_end = None, req_cache_policy = req_cache_policy q,
     readiness = readiness q, req_maturity_lag_days = req_maturity_lag_days q, priority = priority q,
     timeout_seconds = timeout_seconds q, refresh_interval_seconds = refresh_interval_seconds q,
     req_api_family = req_api_family q,
     raw_start = map_option (\<lambda>t. Aware t 0) (submitted_start q), raw_end = map_option (\<lambda>t. Aware t 0) (submitted_end q)\<rparr>"

definition client_ensure :: "broker \<Rightarrow> arxiv_request \<Rightarrow> bool \<Rightarrow> world \<Rightarrow> (arxiv_result http_answer \<times> world) option" where
  "client_ensure bk request wait = client_call (create_request bk (wire request) wait)"

text \<open>ensure_search and ensure_ids build the request first; their ValidationError never reaches the server.\<close>

definition client_ensure_new ::
  "broker \<Rightarrow> raw_request \<Rightarrow> bool \<Rightarrow> world \<Rightarrow> ((string list + arxiv_result http_answer) \<times> world) option" where
  "client_ensure_new bk raw wait w =
     (case make_request raw of
        Inl errs \<Rightarrow> Some (Inl errs, w)
      | Inr request \<Rightarrow> map_option (\<lambda>(answer, w'). (Inr answer, w')) (client_ensure bk request wait w))"

definition client_get_result :: "string \<Rightarrow> world \<Rightarrow> (raw_inspection http_answer \<times> world) option" where
  "client_get_result cache_key = client_call (get_result_route cache_key)"

definition client_status :: "world \<Rightarrow> (broker_status http_answer \<times> world) option" where
  "client_status = client_call get_status"

definition client_sync_windows :: "broker \<Rightarrow> sync_call \<Rightarrow> world \<Rightarrow> (maintenance_result http_answer \<times> world) option" where
  "client_sync_windows bk call = client_call (post_sync bk
     \<lparr>sq_requests = map wire (sc_requests call), sq_wait = sc_wait call, sq_wait_timeout = sc_wait_timeout call,
      sq_mode = sc_mode call, sq_max_pages = sc_max_pages call, sq_max_requests = sc_max_requests call\<rparr>)"

definition client_backfill_windows :: "broker \<Rightarrow> backfill_body \<Rightarrow> world \<Rightarrow> (maintenance_result http_answer \<times> world) option" where
  "client_backfill_windows bk body = client_call (post_backfill bk body)"

definition client_harvest_oai :: "harvester \<Rightarrow> oai_request \<Rightarrow> world \<Rightarrow> (oai_harvest_result http_answer \<times> world) option" where
  "client_harvest_oai hv request = client_call (post_harvest hv request)"

text \<open>
  urllib.parse.quote(s, safe="") and the unquote of the server, on ASCII. The path arrives as it was
  quoted, but for the ids . and .., which the HTTP client would resolve away.
\<close>

definition unreserved :: "char \<Rightarrow> bool" where
  "unreserved c \<longleftrightarrow> (let n = (of_char c :: nat) in
     48 \<le> n \<and> n \<le> 57 \<or> 65 \<le> n \<and> n \<le> 90 \<or> 97 \<le> n \<and> n \<le> 122) \<or> c \<in> set ''_.-~''"

definition upper_hex :: "nat \<Rightarrow> char" where
  "upper_hex n = ''0123456789ABCDEF'' ! (n mod 16)"

definition quote_char :: "char \<Rightarrow> string" where
  "quote_char c = (if unreserved c then [c]
     else [CHR ''%'', upper_hex (of_char c div 16), upper_hex (of_char c)])"

definition quote :: "string \<Rightarrow> string" where
  "quote s = concat (map quote_char s)"

definition hex_value :: "char \<Rightarrow> nat option" where
  "hex_value c = (let n = (of_char c :: nat) in
     if 48 \<le> n \<and> n \<le> 57 then Some (n - 48)
     else if 65 \<le> n \<and> n \<le> 70 then Some (n - 55)
     else if 97 \<le> n \<and> n \<le> 102 then Some (n - 87) else None)"

fun unquote :: "string \<Rightarrow> string" where
  "unquote (c # a # b # s) =
     (if c = CHR ''%'' then
        (case (hex_value a, hex_value b) of
           (Some x, Some y) \<Rightarrow> char_of (16 * x + y) # unquote s
         | _ \<Rightarrow> c # unquote (a # b # s))
      else c # unquote (a # b # s))"
| "unquote s = s"

text \<open>The route's path converter takes the rest of the path, slashes included.\<close>

definition client_get_paper :: "string \<Rightarrow> world \<Rightarrow> (arxiv_paper option http_answer \<times> world) option" where
  "client_get_paper arxiv_id w =
     (case client_call (get_paper_route (unquote (quote arxiv_id))) w of
        None \<Rightarrow> None
      | Some (Inl (code, detail), w') \<Rightarrow> Some (if code = 404 then Inr None else Inl (code, detail), w')
      | Some (Inr paper, w') \<Rightarrow> Some (Inr (Some paper), w'))"

subsection \<open>Validating a second time\<close>

definition canonical :: "arxiv_request \<Rightarrow> arxiv_request" where
  "canonical q = (if search_query q = Some [] then q\<lparr>search_query := None\<rparr> else q)"

lemma revalidate_shape:
  assumes "validate_shape r = Inr q"
  shows "validate_shape q = Inr (canonical q)"
proof -
  note q = validate_shape_Inr [OF assms]
  have query: "stripped_query (search_query q) = search_query (canonical q)"
    by (auto simp: q(1) canonical_def stripped_query_def split: option.splits)
  have ids: "stripped_ids (id_list q) = id_list q"
    by (auto simp: q(1) stripped_ids_def intro!: map_idI)
  have truth: "truthy (search_query (canonical q)) = truthy (stripped_query (search_query r))"
    "truthy (search_query (canonical q)) \<Longrightarrow> search_query (canonical q) = stripped_query (search_query r)"
    by (auto simp: q(1) canonical_def truthy_def)
  have same: "q\<lparr>search_query := search_query (canonical q), id_list := id_list q\<rparr> = canonical q"
    by (simp add: canonical_def)
  have sel: "submitted_start q = submitted_start r" "submitted_end q = submitted_end r" "start q = start r"
    "req_sort_by q = req_sort_by r" "req_sort_order q = req_sort_order r" "max_results q = max_results r"
    "id_list q = stripped_ids (id_list r)"
    by (simp_all add: q(1))
  note c = assms [unfolded validate_shape_def Let_def]
  show ?thesis
    unfolding validate_shape_def Let_def query ids same
    using c truth unfolding sel by (auto split: if_splits option.splits)
qed

lemma raw_bounds: "map_option ensure_utc (map_option (\<lambda>t. Aware t 0) b) = b"
  by (cases b) simp_all

lemma revalidate:
  assumes "make_request raw = Inr q"
  shows "make_request (wire q) = Inr (canonical q)"
proof -
  have wf: "wf_request q" using assms by (rule make_request_wf)
  obtain p where p: "validate_shape p = Inr q" using assms by (auto simp: make_request_def split: if_splits sum.splits)
  have "bound_ok (map_option (\<lambda>t. Aware t 0) (submitted_start q))" "bound_ok (map_option (\<lambda>t. Aware t 0) (submitted_end q))"
    using wf by (cases "submitted_start q"; cases "submitted_end q"; auto simp: wf_request_def bound_ok_def)+
  then have "field_errors (wire q) = []"
    using wf by (simp add: field_errors_none wire_def wf_request_def)
  moreover have "arxiv_request.truncate (wire q)\<lparr>client_id := strip (client_id (wire q)),
      submitted_start := map_option ensure_utc (raw_start (wire q)),
      submitted_end := map_option ensure_utc (raw_end (wire q))\<rparr> = q"
    using wf by (cases q) (simp add: wire_def arxiv_request.truncate_def raw_bounds wf_request_def)
  ultimately show ?thesis by (simp add: make_request_def revalidate_shape [OF p])
qed

lemma canonical_sel:
  "normalize_search_query (search_query (canonical q)) = normalize_search_query (search_query q)"
  "req_api_family (canonical q) = req_api_family q" "id_list (canonical q) = id_list q" "start (canonical q) = start q"
  "req_sort_by (canonical q) = req_sort_by q" "req_sort_order (canonical q) = req_sort_order q"
  "max_results (canonical q) = max_results q" "submitted_start (canonical q) = submitted_start q"
  "submitted_end (canonical q) = submitted_end q"
  by (simp_all add: canonical_def normalize_search_query_def strip_def lstrip_def rstrip_def)

lemma canonical_key: "request_cache_key h (canonical q) = request_cache_key h q"
  "build_arxiv_api_params (canonical q) = build_arxiv_api_params q"
  unfolding request_cache_key_def request_fingerprint_payload_def build_arxiv_api_params_def canonical_sel by (rule refl)+

subsection \<open>What the client sees\<close>

lemma bind_reply: "bind_run m reply w = (case m w of None \<Rightarrow> None
    | Some (Inl e, w') \<Rightarrow> Some (Inl e, w') | Some (Inr x, w') \<Rightarrow> Some (Inr (Reply x), w'))"
  by (simp add: bind_run_def reply_def lift_run_def returnM_def split: option.split prod.split sum.split)

definition answer_of :: "exn + 'a \<Rightarrow> 'a http_answer" where
  "answer_of r = (case r of Inl e \<Rightarrow> Inl (500, ''Internal Server Error'') | Inr x \<Rightarrow> Inr x)"

lemma client_call_bind: "client_call (bind_run m reply) w = map_option (\<lambda>(r, w'). (answer_of r, w')) (m w)"
  by (auto simp: client_call_def bind_reply answer_of_def split: option.split sum.split)

text \<open>C37. The HTTP API adds nothing and loses nothing: for a request that was
  validated on the client, the client always gets an answer, and it is what ensure answers on the
  server for the request as validated a second time (500 where ensure raises), under the wait policy
  when it asked to wait. The second validation changes at most a blank query into none, so that the
  cache key and the upstream parameters are those of the request the client holds.\<close>

theorem client_gets_the_brokers_answer:
  assumes "make_request raw = Inr q" "clock_goes_on w"
  shows "\<exists>res w' q'. client_ensure bk q wait w = Some (answer_of res, w') \<and>
    ensure bk (waiting wait q') w = Some (res, w') \<and>
    request_cache_key h q' = request_cache_key h q \<and> build_arxiv_api_params q' = build_arxiv_api_params q \<and>
    q'\<lparr>search_query := search_query q\<rparr> = q"
proof -
  obtain out where out: "ensure bk (waiting wait (canonical q)) w = Some out"
    using ensure_returns [OF assms(2)] by blast
  then obtain res w' where run: "ensure bk (waiting wait (canonical q)) w = Some (res, w')" by (cases out) auto
  have "client_ensure bk q wait w = Some (answer_of res, w')"
    by (simp add: client_ensure_def create_request_def validated_def revalidate [OF assms(1)] client_call_bind run)
  moreover have "(canonical q)\<lparr>search_query := search_query q\<rparr> = q" by (simp add: canonical_def)
  ultimately show ?thesis using run canonical_key by blast
qed

subsection \<open>Calls the API refuses\<close>

definition acceptable :: "sync_call \<Rightarrow> bool" where
  "acceptable call \<longleftrightarrow> (\<forall>t. sc_wait_timeout call = Some t \<longrightarrow> 0 < t) \<and> 1 \<le> sc_max_pages call \<and>
     sc_max_pages call \<le> 10000 \<and> 1 \<le> sc_max_requests call \<and> sc_max_requests call \<le> 100000 \<and>
     (sc_mode call = MODE_COMPLETE_WINDOW \<longrightarrow> sc_wait call)"

lemma budget_errors_none: "budget_field_errors t p n = [] \<longleftrightarrow> (\<forall>s. t = Some s \<longrightarrow> 0 < s) \<and> 1 \<le> p \<and> p \<le> 10000 \<and> 1 \<le> n \<and> n \<le> 100000"
  by (cases t) (auto simp: budget_field_errors_def range_error_def positive_timeout_def)

lemma made_wire:
  assumes "\<forall>q\<in>set qs. \<exists>raw. make_request raw = Inr q"
  shows "request_errors (map wire qs) = []" "made_requests (map wire qs) = map canonical qs"
proof -
  have "\<forall>q\<in>set qs. make_request (wire q) = Inr (canonical q)" using assms revalidate by blast
  then show "request_errors (map wire qs) = []" "made_requests (map wire qs) = map canonical qs"
    by (induction qs) (simp_all add: request_errors_def made_requests_def List.map_filter_simps)
qed

definition sync_answer :: "exn + maintenance_result \<Rightarrow> maintenance_result http_answer" where
  "sync_answer r =
     (case r of Inr report \<Rightarrow> Inr report
      | Inl e \<Rightarrow> (case value_error_text e of Some msg \<Rightarrow> Inl (422, msg) | None \<Rightarrow> Inl (500, ''Internal Server Error'')))"

lemma client_call_422: "client_call (or_422 m) w = map_option (\<lambda>(r, w'). (sync_answer r, w')) (m w)"
  by (auto simp: client_call_def or_422_def sync_answer_def split: option.split sum.split)

text \<open>C38. A maintenance call over the API with requests that were validated on the
  client runs sync_windows on those requests exactly when its arguments are acceptable: a positive
  timeout, page and request budgets in their ranges, and complete windows only when it waits; the
  answer is its report, a 422 for a ValueError, a 500 for any other exception. Otherwise the client
  gets a 422 and the server has done nothing: no transaction, no clock reading, no upstream call.\<close>

theorem sync_calls_are_checked_first:
  assumes "\<forall>q\<in>set (sc_requests call). \<exists>raw. make_request raw = Inr q"
  shows "if acceptable call
    then client_sync_windows bk call w = map_option (\<lambda>(r, w'). (sync_answer r, w'))
      (sync_windows bk (call\<lparr>sc_requests := map canonical (sc_requests call)\<rparr>) w)
    else \<exists>msg. client_sync_windows bk call w = Some (Inl (422, msg), w)"
proof -
  define body where "body = \<lparr>sq_requests = map wire (sc_requests call), sq_wait = sc_wait call, sq_wait_timeout = sc_wait_timeout call,
      sq_mode = sc_mode call, sq_max_pages = sc_max_pages call, sq_max_requests = sc_max_requests call\<rparr>"
  have ok: "make_sync_body body = Inr (call\<lparr>sc_requests := map canonical (sc_requests call)\<rparr>)" if "acceptable call"
    using that made_wire [OF assms] budget_errors_none [of "sc_wait_timeout call" "sc_max_pages call" "sc_max_requests call"]
    by (auto simp: make_sync_body_def body_def acceptable_def)
  have bad: "\<exists>errs. make_sync_body body = Inl errs" if "\<not> acceptable call"
    using that made_wire [OF assms] budget_errors_none [of "sc_wait_timeout call" "sc_max_pages call" "sc_max_requests call"]
    by (auto simp: make_sync_body_def body_def acceptable_def)
  have "client_sync_windows bk call = client_call (validated (make_sync_body body) (\<lambda>call. or_422 (sync_windows bk call)))"
    by (simp add: client_sync_windows_def post_sync_def body_def)
  then show ?thesis
    using ok bad by (auto simp: validated_def client_call_422)
      (auto simp: client_call_def http_error_def lift_run_def returnM_def)
qed

subsection \<open>Ids in a path\<close>

lemma hex_value_upper: "hex_value (upper_hex n) = Some (n mod 16)"
proof -
  have "\<forall>m\<in>set [0..<16]. hex_value (''0123456789ABCDEF'' ! m) = Some m" by code_simp
  moreover have "n mod 16 \<in> set [0..<16]" by simp
  ultimately show ?thesis unfolding upper_hex_def by (rule bspec)
qed

lemma unquote_plain: "c \<noteq> CHR ''%'' \<Longrightarrow> unquote (c # s) = c # unquote s"
proof (cases s)
  case (Cons a t)
  then show "c \<noteq> CHR ''%'' \<Longrightarrow> ?thesis" by (cases t) simp_all
qed simp

lemma two_digits: "(m::nat) mod 256 = m \<Longrightarrow> 16 * (m div 16 mod 16) + m mod 16 = m"
proof -
  assume "m mod 256 = m"
  then have "m < 256" by (metis mod_less_divisor zero_less_numeral)
  then have "m div 16 < 16" by (simp add: less_mult_imp_div_less)
  then show ?thesis by simp
qed

lemma unquote_char: "unquote (quote_char c @ s) = c # unquote s"
proof (cases "unreserved c")
  case True
  have "\<not> unreserved (CHR ''%'')" by code_simp
  with True have "c \<noteq> CHR ''%''" by auto
  then show ?thesis using True by (simp add: quote_char_def unquote_plain)
next
  case False
  let ?n = "of_char c :: nat"
  have n: "16 * (?n div 16 mod 16) + ?n mod 16 = ?n" by (rule two_digits [OF of_char_mod_256])
  have "unquote (quote_char c @ s) = char_of (16 * (?n div 16 mod 16) + ?n mod 16) # unquote s"
    using False by (simp only: quote_char_def if_False append_Cons append_Nil unquote.simps(1) if_True simp_thms
        hex_value_upper option.case prod.case)
  then show ?thesis unfolding n by simp
qed

lemma unquote_quote: "unquote (quote s) = s"
  by (induction s) (simp_all add: quote_def unquote_char)

text \<open>The client reads exactly the paper the server has stored: whatever characters
  the id has, slashes of old-style ids included, the answer is the stored paper of the normalised id,
  or none, never an error; and the store is only read.\<close>

theorem client_reads_the_stored_paper:
  "\<exists>w'. client_get_paper arxiv_id w = Some (Inr (get_paper (normalize_arxiv_id arxiv_id) (store (acquire_lock w))), w') \<and>
     store w' = store (acquire_lock w) \<and> fetches w' = fetches w"
  by (auto simp: client_get_paper_def unquote_quote get_paper_route_def found_or_404_def bind_run_def lift_run_def
      readM_def tx_def Let_def client_call_def reply_def http_error_def returnM_def acquire_lock_def split: option.split)

subsection \<open>Examples\<close>

lemma january_valid: "make_request (wire january_request) = Inr january_request"
  by code_simp

theorem client_gets_the_brokers_answer_witness:
  "\<exists>res w'. client_ensure sample_broker january_request True (alone failed_store offline) = Some (answer_of res, w')"
  using client_gets_the_brokers_answer [OF january_valid alone_clock, where wait = True and bk = sample_broker] by blast

definition polled_call :: sync_call where
  "polled_call = \<lparr>sc_requests = [january_request], sc_wait = False, sc_wait_timeout = None, sc_mode = MODE_SLICE,
     sc_max_pages = 1, sc_max_requests = 1\<rparr>"

theorem sync_calls_are_checked_first_witness:
  "client_sync_windows sample_broker polled_call (alone failed_store offline) =
     map_option (\<lambda>(r, w'). (sync_answer r, w')) (sync_windows sample_broker polled_call (alone failed_store offline)) \<and>
   (\<exists>msg. client_sync_windows sample_broker (polled_call\<lparr>sc_mode := MODE_COMPLETE_WINDOW\<rparr>) (alone failed_store offline) =
     Some (Inl (422, msg), alone failed_store offline))"
proof
  have valid: "\<forall>q\<in>set (sc_requests polled_call). \<exists>raw. make_request raw = Inr q"
    using january_valid by (auto simp: polled_call_def)
  have same: "polled_call\<lparr>sc_requests := map canonical (sc_requests polled_call)\<rparr> = polled_call"
    by (simp add: polled_call_def canonical_def january_request_def)
  have "acceptable polled_call" by (simp add: acceptable_def polled_call_def)
  with sync_calls_are_checked_first [OF valid, of sample_broker "alone failed_store offline"]
  show "client_sync_windows sample_broker polled_call (alone failed_store offline) =
     map_option (\<lambda>(r, w'). (sync_answer r, w')) (sync_windows sample_broker polled_call (alone failed_store offline))"
    by (simp only: if_True same)
  have "\<not> acceptable (polled_call\<lparr>sc_mode := MODE_COMPLETE_WINDOW\<rparr>)" by (simp add: acceptable_def polled_call_def)
  with sync_calls_are_checked_first [of "polled_call\<lparr>sc_mode := MODE_COMPLETE_WINDOW\<rparr>" sample_broker "alone failed_store offline"] valid
  show "\<exists>msg. client_sync_windows sample_broker (polled_call\<lparr>sc_mode := MODE_COMPLETE_WINDOW\<rparr>) (alone failed_store offline) =
     Some (Inl (422, msg), alone failed_store offline)" by simp
qed
end
