(* ===== verification/Huldra_Atom.thy ===== *)
theory Huldra_Atom
  imports Huldra_Harvest
begin

text \<open>
  The legacy API (huldra/atom.py, huldra/fetcher.py): the entries of a feed become papers, an error
  feed is told from a paper, and the HTTP answer becomes a result or one of the fetch errors. The
  feedparser package and the HTTP client are parameters: a function from the text to the fields of
  the entries that the code reads, and a function from the parameters to the response.
\<close>

subsection \<open>Python strings\<close>

text \<open>str.split() and " ".join(..).\<close>

fun split_acc :: "string \<Rightarrow> string \<Rightarrow> string list" where
  "split_acc w [] = (if w = [] then [] else [w])"
| "split_acc w (c # s) =
     (if is_space c then (if w = [] then split_acc [] s else w # split_acc [] s) else split_acc (w @ [c]) s)"

definition py_split :: "string \<Rightarrow> string list" where
  "py_split s = split_acc [] s"

fun join_with :: "string \<Rightarrow> string list \<Rightarrow> string" where
  "join_with sep [] = []"
| "join_with sep [w] = w"
| "join_with sep (w # v # ws) = w @ sep @ join_with sep (v # ws)"

definition normalize_space :: "string \<Rightarrow> string" where
  "normalize_space s = join_with '' '' (py_split s)"

text \<open>x or None on a string.\<close>

definition nonempty :: "string \<Rightarrow> string option" where
  "nonempty s = (if s = [] then None else Some s)"

text \<open>str.replace for a substring that is not empty.\<close>

function replace_all :: "string \<Rightarrow> string \<Rightarrow> string \<Rightarrow> string" where
  "replace_all old new s =
     (if old = [] \<or> s = [] then s
      else if startswith s old then new @ replace_all old new (drop (length old) s)
      else hd s # replace_all old new (tl s))"
  by pat_completeness auto
termination by (relation "measure (\<lambda>(_, _, s). length s)") auto

declare replace_all.simps [simp del]

text \<open>int(text) for text: spaces around, a sign, digits with single underscores between them.\<close>

fun int_digits :: "string \<Rightarrow> string option" where
  "int_digits [] = None"
| "int_digits [c] = (if is_digit c then Some [c] else None)"
| "int_digits (c # d # s) =
     (if \<not> is_digit c then None
      else if d = CHR ''_'' then map_option ((#) c) (int_digits s) else map_option ((#) c) (int_digits (d # s)))"

definition py_int :: "string \<Rightarrow> int option" where
  "py_int text =
     (let s = strip text in
      case s of
        [] \<Rightarrow> None
      | c # r \<Rightarrow> if c = CHR ''-'' then map_option (\<lambda>ds. - digits_value ds) (int_digits r)
                 else map_option digits_value (int_digits (if c = CHR ''+'' then r else s)))"

subsection \<open>What feedparser gives\<close>

record feed_link =
  fl_rel :: "string option"
  fl_href :: "string option"
  fl_title :: "string option"
  fl_type :: "string option"

text \<open>published_parsed and updated_parsed are time tuples of which six numbers are read.\<close>

type_synonym time_tuple = "int \<times> int \<times> int \<times> int \<times> int \<times> int"

record feed_entry =
  fe_id :: "string option"
  fe_title :: "string option"
  fe_summary :: "string option"
  fe_subtitle :: "string option"
  fe_authors :: "string option list"
  fe_tags :: "string option list"
  fe_links :: "feed_link list"
  fe_published :: "string option"
  fe_published_parsed :: "time_tuple option"
  fe_updated :: "string option"
  fe_updated_parsed :: "time_tuple option"
  fe_comment :: "string option"
  fe_journal_ref :: "string option"
  fe_doi :: "string option"
  fe_primary_term :: "string option"

record feed =
  fd_entries :: "feed_entry list"
  fd_total_results :: "string option"

record atom_error =
  ae_title :: string
  ae_message :: "string option"
  ae_entry_id :: "string option"
  ae_alternate_url :: "string option"

record parsed_feed =
  pf_papers :: "arxiv_paper list"
  pf_total_results :: "int option"
  pf_errors :: "atom_error list"

subsection \<open>Fields of an entry\<close>

definition entry_text :: "string option \<Rightarrow> string option" where
  "entry_text v = Option.bind v (\<lambda>s. nonempty (normalize_space s))"

fun alternate_link :: "feed_link list \<Rightarrow> string option" where
  "alternate_link [] = None"
| "alternate_link (l # ls) =
     (let href = strip (or_empty (fl_href l)) in
      if fl_rel l = Some ''alternate'' \<and> href \<noteq> [] then Some href else alternate_link ls)"

fun pdf_link :: "feed_link list \<Rightarrow> string option" where
  "pdf_link [] = None"
| "pdf_link (l # ls) =
     (let href = strip (or_empty (fl_href l));
          title = lower (or_empty (fl_title l));
          content_type = lower (or_empty (fl_type l))
      in if href \<noteq> [] \<and> (title = ''pdf'' \<or> content_type = ''application/pdf'') then Some href else pdf_link ls)"

text \<open>[str(x).strip() for x if str(x or "").strip()].\<close>

definition stripped_texts :: "string option list \<Rightarrow> string list" where
  "stripped_texts vs = filter (\<lambda>s. s \<noteq> []) (map (strip \<circ> or_empty) vs)"

definition primary_category :: "feed_entry \<Rightarrow> string option" where
  "primary_category e = Option.bind (fe_primary_term e) (\<lambda>t. if t = [] then None else Some (strip t))"

definition coerce_int :: "string option \<Rightarrow> int option" where
  "coerce_int v = Option.bind v py_int"

text \<open>datetime(..): the parts out of range are a ValueError that nothing catches.\<close>

definition tuple_datetime :: "time_tuple \<Rightarrow> exn + datetime" where
  "tuple_datetime p = (case p of (y, m, d, h, mi, s) \<Rightarrow>
     if valid_ymd y m d \<and> 0 \<le> h \<and> h < 24 \<and> 0 \<le> mi \<and> mi < 60 \<and> 0 \<le> s \<and> s < 60
     then Inr (day_of_ymd y m d * us_per_day + clock_us (h, mi, s, 0)) else Inl (OtherExn ''ValueError''))"

definition entry_datetime :: "time_tuple option \<Rightarrow> string option \<Rightarrow> exn + datetime option" where
  "entry_datetime parsed value =
     (case parsed of
        Some p \<Rightarrow> map_sum id Some (tuple_datetime p)
      | None \<Rightarrow>
          if \<not> truthy value then Inr None
          else (case fromisoformat (replace_z (or_empty value)) of
              None \<Rightarrow> Inr None
            | Some v \<Rightarrow> (case to_utc v of Inl err \<Rightarrow> Inl (OtherExn ''OverflowError'') | Inr t \<Rightarrow> Inr (Some t))))"

subsection \<open>Error feeds\<close>

definition is_paper_abs_url :: "string option \<Rightarrow> bool" where
  "is_paper_abs_url value \<longleftrightarrow> truthy value \<and>
     (let parsed = urlparse (strip (or_empty value)) in
      url_scheme parsed \<in> {''http'', ''https''} \<and> endswith (url_netloc parsed) ''arxiv.org'' \<and>
      (url_path parsed = ''/abs'' \<or> startswith (url_path parsed) ''/abs/''))"

definition rstrip_slash :: "string \<Rightarrow> string" where
  "rstrip_slash s = rev (dropWhile (\<lambda>c. c = CHR ''/'') (rev s))"

definition is_api_error_url :: "string option \<Rightarrow> bool" where
  "is_api_error_url value \<longleftrightarrow> truthy value \<and>
     (let parsed = urlparse (strip (or_empty value));
          path = rstrip_slash (url_path parsed);
          fragment = dropWhile (\<lambda>c. c = CHR ''/'') (rstrip_slash (url_fragment parsed))
      in path = ''/api/errors'' \<or> startswith path ''/api/errors/'' \<or>
         fragment = ''api/errors'' \<or> startswith fragment ''api/errors/'')"

definition error_feed_entries :: "feed_entry list \<Rightarrow> atom_error list" where
  "error_feed_entries entries =
     (case entries of
        [e] \<Rightarrow>
          (let title = normalize_space (or_empty (fe_title e));
               raw_id = strip (or_empty (fe_id e));
               alternate_url = alternate_link (fe_links e);
               summary = entry_text (fe_summary e)
           in if lower title \<noteq> ''error'' then []
              else if is_paper_abs_url (Some raw_id) then []
              else if \<not> (is_api_error_url (Some raw_id) \<or> is_api_error_url alternate_url) then []
              else [\<lparr>ae_title = title,
                     ae_message = (if truthy summary then summary else entry_text (fe_subtitle e)),
                     ae_entry_id = nonempty raw_id, ae_alternate_url = alternate_url\<rparr>])
      | _ \<Rightarrow> [])"

subsection \<open>Papers\<close>

definition entry_paper :: "feed_entry \<Rightarrow> datetime option \<Rightarrow> datetime option \<Rightarrow> arxiv_paper" where
  "entry_paper e published updated =
     (let alternate = alternate_link (fe_links e);
          raw_id = (if truthy (fe_id e) then or_empty (fe_id e) else or_empty alternate);
          arxiv_id = normalize_arxiv_id raw_id;
          categories = stripped_texts (fe_tags e);
          primary = primary_category e;
          canonical = (case alternate of Some u \<Rightarrow> u | None \<Rightarrow> abs_url arxiv_id)
      in \<lparr>p_arxiv_id = arxiv_id, p_version = arxiv_version arxiv_id,
          p_canonical_url = replace_all ''http://'' ''https://'' canonical,
          p_title = normalize_space (or_empty (fe_title e)),
          p_abstract = nonempty (normalize_space (or_empty (fe_summary e))),
          p_authors = stripped_texts (fe_authors e),
          p_primary_category = (if truthy primary then primary
                                else case categories of [] \<Rightarrow> None | c # _ \<Rightarrow> Some c),
          p_categories = categories, p_published_at = published, p_updated_at = updated,
          p_comment = entry_text (fe_comment e), p_journal_ref = entry_text (fe_journal_ref e),
          p_doi = entry_text (fe_doi e),
          p_raw_atom = JObj [(''entry_id'', JStr raw_id), (''alternate_url'', JStr canonical),
                             (''pdf_url'', jstr (pdf_link (fe_links e)))],
          p_authors_detail = [], p_license = None, p_oai_identifier = None, p_oai_datestamp = None,
          p_oai_set_specs = [], p_links = [], p_versions = [], p_withdrawn = False, p_deleted = False,
          p_raw_metadata = JObj []\<rparr>)"

definition paper_from_entry :: "feed_entry \<Rightarrow> exn + arxiv_paper" where
  "paper_from_entry e =
     (case entry_datetime (fe_published_parsed e) (fe_published e) of
        Inl err \<Rightarrow> Inl err
      | Inr published \<Rightarrow>
          (case entry_datetime (fe_updated_parsed e) (fe_updated e) of
             Inl err \<Rightarrow> Inl err
           | Inr updated \<Rightarrow> Inr (entry_paper e published updated)))"

text \<open>A list comprehension whose body may raise: the first exception ends it.\<close>

fun map_raising :: "('a \<Rightarrow> 'e + 'b) \<Rightarrow> 'a list \<Rightarrow> 'e + 'b list" where
  "map_raising f [] = Inr []"
| "map_raising f (x # xs) =
     (case f x of Inl err \<Rightarrow> Inl err
      | Inr y \<Rightarrow> (case map_raising f xs of Inl err \<Rightarrow> Inl err | Inr ys \<Rightarrow> Inr (y # ys)))"

definition parse_arxiv_atom :: "feed \<Rightarrow> exn + parsed_feed" where
  "parse_arxiv_atom fd =
     (let errors = error_feed_entries (fd_entries fd); results = coerce_int (fd_total_results fd) in
      if errors \<noteq> [] then Inr \<lparr>pf_papers = [], pf_total_results = results, pf_errors = errors\<rparr>
      else (case map_raising paper_from_entry (fd_entries fd) of
          Inl err \<Rightarrow> Inl err
        | Inr ps \<Rightarrow> Inr \<lparr>pf_papers = ps, pf_total_results = results, pf_errors = []\<rparr>))"

subsection \<open>HTTP answers\<close>

record http_response =
  rs_status :: int
  rs_retry_after :: "string option"
  rs_text :: string

text \<open>
  The client gives a response or the text of an httpx.RequestError. parsedate_to_datetime is a
  parameter whose None stands for the exceptions that the code catches.
\<close>

record http_env =
  he_settings :: huldra_settings
  he_get :: "(string \<times> string) list \<Rightarrow> seconds \<Rightarrow> string + http_response"
  he_parse_feed :: "string \<Rightarrow> feed"
  he_http_date :: "string \<Rightarrow> py_datetime option"
  he_now :: datetime

text \<open>ceil(delta.total_seconds()).\<close>

definition ceil_seconds :: "int \<Rightarrow> int" where
  "ceil_seconds us = - ((- us) div us_per_second)"

definition parse_retry_after_seconds :: "http_env \<Rightarrow> string option \<Rightarrow> exn + int option" where
  "parse_retry_after_seconds he raw =
     (case raw of
        None \<Rightarrow> Inr None
      | Some r \<Rightarrow>
          (let value = strip r in
           if value = [] then Inr None
           else if list_all is_digit value then Inr (Some (max 0 (digits_value value)))
           else (case he_http_date he value of
               None \<Rightarrow> Inr None
             | Some target \<Rightarrow>
                 (case to_utc target of
                    Inl err \<Rightarrow> Inl (OtherExn ''OverflowError'')
                  | Inr t \<Rightarrow> Inr (Some (max 0 (ceil_seconds (t - he_now he))))))))"

definition raise_rate_limited :: "http_env \<Rightarrow> http_response \<Rightarrow> string \<Rightarrow> exn" where
  "raise_rate_limited he response msg =
     (case parse_retry_after_seconds he (rs_retry_after response) of
        Inl err \<Rightarrow> err
      | Inr seconds \<Rightarrow> RateLimitedError seconds (Some (rs_status response)) msg)"

definition fetch :: "http_env \<Rightarrow> arxiv_request \<Rightarrow> exn + fetch_result" where
  "fetch he request =
     (case he_get he (build_arxiv_api_params request)
             (timeout_or (timeout_seconds request) (request_timeout_seconds (he_settings he))) of
        Inl msg \<Rightarrow> Inl (TransientFetchError None (''arXiv API request failed: '' @ msg))
      | Inr response \<Rightarrow>
          (let status = rs_status response; returned = ''arXiv API returned HTTP '' @ int_text status in
           if status = 429 then Inl (raise_rate_limited he response ''rate limited'')
           else if status \<ge> 500 then Inl (TransientFetchError (Some status) returned)
           else if status < 200 \<or> status \<ge> 300 then Inl (NonRetryableFetchError (Some status) returned)
           else (case parse_arxiv_atom (he_parse_feed he (rs_text response)) of
               Inl err \<Rightarrow> Inl err
             | Inr parsed \<Rightarrow>
                 (case pf_errors parsed of
                    err # _ \<Rightarrow> Inl (NonRetryableFetchError (Some status)
                      (''arXiv API returned an error feed: '' @
                        (if truthy (ae_message err) then or_empty (ae_message err) else ae_title err)))
                  | [] \<Rightarrow> Inr \<lparr>f_papers = pf_papers parsed, f_total_results = pf_total_results parsed,
                              f_upstream_status = status\<rparr>))))"

subsection \<open>Normalised text\<close>

abbreviation word :: "string \<Rightarrow> bool" where
  "word w \<equiv> w \<noteq> [] \<and> (\<forall>c\<in>set w. \<not> is_space c)"

lemma split_acc_words: "(\<forall>c\<in>set u. \<not> is_space c) \<Longrightarrow> w \<in> set (split_acc u s) \<Longrightarrow> word w"
proof (induction u s rule: split_acc.induct)
  case (2 u c s)
  show ?case
  proof (cases "is_space c")
    case True
    show ?thesis
    proof (cases "u = []")
      case u: True
      have "w \<in> set (split_acc [] s)" using "2.prems"(2) True u by simp
      from "2.IH"(1) [OF True u _ this] show ?thesis by simp
    next
      case u: False
      then have "w = u \<or> w \<in> set (split_acc [] s)" using "2.prems"(2) True by simp
      then show ?thesis using "2.IH"(2) [OF True u] "2.prems"(1) u by (elim disjE) simp_all
    qed
  next
    case False
    then have "w \<in> set (split_acc (u @ [c]) s)" using "2.prems"(2) by simp
    from "2.IH"(3) [OF False _ this] show ?thesis using False "2.prems"(1) by simp
  qed
qed (simp split: if_splits)

lemma py_split_words: "w \<in> set (py_split s) \<Longrightarrow> word w"
  unfolding py_split_def by (rule split_acc_words [of "[]"]) simp_all

lemma split_acc_word: "(\<forall>c\<in>set w. \<not> is_space c) \<Longrightarrow> split_acc u (w @ s) = split_acc (u @ w) s"
  by (induction w arbitrary: u) auto

lemma split_join: "(\<forall>w\<in>set ws. word w) \<Longrightarrow> py_split (join_with '' '' ws) = ws"
proof (induction "'' ''" ws rule: join_with.induct)
  case (2 w)
  then show ?case using split_acc_word [of w "[]" "[]"] by (simp add: py_split_def)
next
  case (3 w v ws)
  have "is_space (CHR '' '')" by (simp add: is_space_def)
  then show ?case
    using 3 split_acc_word [of w "[]" "CHR '' '' # join_with '' '' (v # ws)"] by (simp add: py_split_def)
qed (simp add: py_split_def)

lemma normalize_space_idem [simp]: "normalize_space (normalize_space s) = normalize_space s"
  unfolding normalize_space_def using split_join py_split_words by metis

lemma entry_text_Some: "entry_text v = Some s \<Longrightarrow> s \<noteq> [] \<and> normalize_space s = s"
  by (cases v) (auto simp: entry_text_def nonempty_def split: if_splits)

lemma map_raising_iff: "map_raising f xs = Inr ys \<longleftrightarrow> list_all2 (\<lambda>x y. f x = Inr y) xs ys"
proof (induction xs arbitrary: ys)
  case (Cons x xs)
  show ?case
    by (cases "f x"; cases "map_raising f xs") (auto simp: list_all2_Cons1 simp flip: Cons.IH)
qed auto

subsection \<open>Numbers in text\<close>

lemma nat_text_digits: "list_all is_digit (nat_text n) \<and> nat_text n \<noteq> [] \<and> digits_value (nat_text n) = int n"
proof (induction n rule: nat_text.induct)
  case (1 n)
  have d: "is_digit (digit (int k))" "(of_char (digit (int k)) :: nat) = 48 + k" if "k < 10" for k
    using of_char_digit [of "int k"] that by (simp_all add: is_digit_def)
  show ?case
  proof (cases "n < 10")
    case True
    then show ?thesis using d [OF True] by (subst (1 2 3) nat_text.simps) (simp add: digits_value_def)
  next
    case False
    have "n mod 10 < 10" by simp
    note d' = d [OF this]
    have "10 * int (n div 10) + int (n mod 10) = int n" by (simp add: zdiv_int zmod_int)
    with 1 False d' show ?thesis
      by (subst (1 2 3) nat_text.simps) (simp add: digits_value_snoc)
  qed
qed

lemma digit_not_space: "is_digit c \<Longrightarrow> \<not> is_space c"
  by (auto simp: is_digit_def is_space_def)

lemma dropWhile_pad: "list_all P a \<Longrightarrow> s \<noteq> [] \<Longrightarrow> \<not> P (hd s) \<Longrightarrow> dropWhile P (a @ s @ b) = s @ b"
  by (induction a) (auto simp: neq_Nil_conv)

lemma strip_pad:
  assumes "list_all is_space a" "list_all is_space b" "s \<noteq> []" "\<not> is_space (hd s)" "\<not> is_space (last s)"
  shows "strip (a @ s @ b) = s"
  using dropWhile_pad [of is_space a s b] dropWhile_pad [of is_space "rev b" "rev s" "[]"] assms
  by (simp add: strip_def lstrip_def rstrip_def hd_rev)

lemma digits_pad:
  assumes "list_all is_space a" "list_all is_space b" "0 \<le> n"
  shows "strip (a @ int_text n @ b) = int_text n \<and> int_text n \<noteq> [] \<and> list_all is_digit (int_text n) \<and>
    digits_value (int_text n) = n"
proof -
  have d: "list_all is_digit (int_text n)" "int_text n \<noteq> []" "digits_value (int_text n) = n"
    using assms(3) nat_text_digits [of "nat n"] by (simp_all add: int_text_def)
  then have "\<not> is_space (hd (int_text n))" "\<not> is_space (last (int_text n))"
    by (auto intro!: digit_not_space simp: list_all_iff)
  with strip_pad [OF assms(1,2) d(2)] d show ?thesis by simp
qed

text \<open>A Retry-After header with a number of seconds, written with any white
  space around it, is read as that number; and whatever the header holds, a number or a date, past
  or future, the seconds to wait are never negative.\<close>

theorem retry_after_reads_back:
  assumes "list_all is_space before_text" "list_all is_space after_text" "0 \<le> seconds"
  shows "parse_retry_after_seconds he (Some (before_text @ int_text seconds @ after_text)) = Inr (Some seconds) \<and>
    (\<forall>header k. parse_retry_after_seconds he header = Inr (Some k) \<longrightarrow> 0 \<le> k)"
proof
  show "parse_retry_after_seconds he (Some (before_text @ int_text seconds @ after_text)) = Inr (Some seconds)"
    using digits_pad [OF assms] assms(3) by (simp add: parse_retry_after_seconds_def)
  show "\<forall>header k. parse_retry_after_seconds he header = Inr (Some k) \<longrightarrow> 0 \<le> k"
    by (auto simp: parse_retry_after_seconds_def Let_def split: option.splits sum.splits if_splits)
qed

subsection \<open>Papers of a feed\<close>

definition entry_id :: "feed_entry \<Rightarrow> string" where
  "entry_id e = normalize_arxiv_id (if truthy (fe_id e) then or_empty (fe_id e)
     else or_empty (alternate_link (fe_links e)))"

definition clean_paper :: "arxiv_paper \<Rightarrow> bool" where
  "clean_paper p \<longleftrightarrow> legacy_paper p \<and> normalize_space (p_title p) = p_title p \<and>
     (\<forall>s. p_abstract p = Some s \<longrightarrow> s \<noteq> [] \<and> normalize_space s = s) \<and>
     [] \<notin> set (p_authors p) \<and> [] \<notin> set (p_categories p) \<and> p_primary_category p \<noteq> Some [] \<and>
     p_version p = arxiv_version (p_arxiv_id p)"

lemma entry_paper_clean: "p_arxiv_id (entry_paper e u v) = entry_id e \<and> clean_paper (entry_paper e u v)"
proof -
  have "[] \<notin> set (stripped_texts vs)" for vs by (simp add: stripped_texts_def)
  moreover have "(case stripped_texts vs of [] \<Rightarrow> None | c # _ \<Rightarrow> Some c) \<noteq> Some []" for vs
    using calculation [of vs] by (auto split: list.splits)
  ultimately show ?thesis
    by (auto simp: entry_paper_def clean_paper_def legacy_paper_def entry_id_def Let_def nonempty_def truthy_def
        split: if_splits)
qed

lemma paper_from_entry_clean: "paper_from_entry e = Inr p \<Longrightarrow> p_arxiv_id p = entry_id e \<and> clean_paper p"
  using entry_paper_clean by (auto simp: paper_from_entry_def split: sum.splits)

text \<open>C32. What a fetch returns is the feed of a 2xx response that is not an
  error feed: one paper per entry, in the order of the entries, with the normalised id of its entry;
  and each paper is clean: it has no OAI identity and no tombstone, its title and abstract have single
  spaces, and it has no empty author or category.\<close>

theorem fetched_papers_match_the_feed:
  assumes "fetch he request = Inr res"
  shows "\<exists>response. he_get he (build_arxiv_api_params request)
        (timeout_or (timeout_seconds request) (request_timeout_seconds (he_settings he))) = Inr response \<and>
      200 \<le> rs_status response \<and> rs_status response < 300 \<and> f_upstream_status res = rs_status response \<and>
      error_feed_entries (fd_entries (he_parse_feed he (rs_text response))) = [] \<and>
      map p_arxiv_id (f_papers res) = map entry_id (fd_entries (he_parse_feed he (rs_text response))) \<and>
      (\<forall>p\<in>set (f_papers res). clean_paper p)"
proof -
  obtain response parsed where r: "he_get he (build_arxiv_api_params request)
        (timeout_or (timeout_seconds request) (request_timeout_seconds (he_settings he))) = Inr response"
    "200 \<le> rs_status response" "rs_status response < 300" "f_upstream_status res = rs_status response"
    and parsed: "parse_arxiv_atom (he_parse_feed he (rs_text response)) = Inr parsed" "pf_errors parsed = []"
      "f_papers res = pf_papers parsed"
    using assms by (auto simp: fetch_def Let_def split: sum.splits if_splits list.splits)
  let ?es = "fd_entries (he_parse_feed he (rs_text response))"
  from parsed have feed: "error_feed_entries ?es = []" "map_raising paper_from_entry ?es = Inr (f_papers res)"
    by (auto simp: parse_arxiv_atom_def Let_def split: if_splits sum.splits)
  from feed(2) have all: "list_all2 (\<lambda>e p. p_arxiv_id p = entry_id e \<and> clean_paper p) ?es (f_papers res)"
    unfolding map_raising_iff by (rule list_all2_mono) (rule paper_from_entry_clean)
  have "map p_arxiv_id (f_papers res) = map entry_id ?es"
    using all by (intro list_all2_eq [THEN iffD2, symmetric] ) (auto simp: list_all2_conv_all_nth)
  moreover have "\<forall>p\<in>set (f_papers res). clean_paper p"
    using all by (auto simp: list_all2_conv_all_nth in_set_conv_nth)
  ultimately show ?thesis using r feed(1) by blast
qed

subsection \<open>A concrete feed\<close>

text \<open>A paper whose title is Error: its id is an abs URL, so the feed is not an error feed.\<close>

definition blank_entry :: feed_entry where
  "blank_entry = \<lparr>fe_id = None, fe_title = None, fe_summary = None, fe_subtitle = None, fe_authors = [], fe_tags = [],
     fe_links = [], fe_published = None, fe_published_parsed = None, fe_updated = None, fe_updated_parsed = None,
     fe_comment = None, fe_journal_ref = None, fe_doi = None, fe_primary_term = None\<rparr>"

definition error_titled_entry :: feed_entry where
  "error_titled_entry = blank_entry\<lparr>fe_id := Some ''http://arxiv.org/abs/2401.00001v2'', fe_title := Some ''Error''\<rparr>"

definition sample_http :: http_env where
  "sample_http = \<lparr>he_settings = default_settings,
     he_get = (\<lambda>_ _. Inr \<lparr>rs_status = 200, rs_retry_after = None, rs_text = ''feed''\<rparr>),
     he_parse_feed = (\<lambda>_. \<lparr>fd_entries = [error_titled_entry], fd_total_results = Some ''1''\<rparr>),
     he_http_date = (\<lambda>_. None), he_now = 0\<rparr>"

lemma sample_fetch:
  "case fetch sample_http sample_request of Inr res \<Rightarrow> map p_title (f_papers res) = [''Error''] | _ \<Rightarrow> False"
  by code_simp

theorem retry_after_reads_back_witness: "parse_retry_after_seconds sample_http (Some '' 120 '') = Inr (Some 120)"
proof -
  have "int_text 120 = ''120''" by code_simp
  with retry_after_reads_back [of "'' ''" "'' ''" 120 sample_http] show ?thesis by (simp add: is_space_def)
qed

theorem fetched_papers_match_the_feed_witness:
  "case fetch sample_http sample_request of Inr res \<Rightarrow> map p_arxiv_id (f_papers res) = [entry_id error_titled_entry] | _ \<Rightarrow> False"
proof -
  obtain res where run: "fetch sample_http sample_request = Inr res" using sample_fetch by (auto split: sum.splits)
  from fetched_papers_match_the_feed [OF run] show ?thesis unfolding run by (auto simp: sample_http_def)
qed

end
