(* ===== verification/Huldra_Oaipmh.thy ===== *)
theory Huldra_Oaipmh
  imports Huldra_Atom
begin

text \<open>
  The OAI-PMH fetcher (huldra/oai.py): one request, the classes of its failures, and the reading of
  an XML list of records. The XML library is a parameter that turns text into an element or fails;
  elements are those of xml.etree.ElementTree.
\<close>

subsection \<open>Elements\<close>

datatype element = Element (el_tag: string) (el_attrib: "(string \<times> string) list") (el_text: "string option")
  (el_children: "element list") (el_tail: "string option")

definition find_child :: "string \<Rightarrow> element \<Rightarrow> element option" where
  "find_child tag e = List.find (\<lambda>c. el_tag c = tag) (el_children e)"

definition find_children :: "string \<Rightarrow> element \<Rightarrow> element list" where
  "find_children tag e = filter (\<lambda>c. el_tag c = tag) (el_children e)"

definition text_piece :: "string option \<Rightarrow> string list" where
  "text_piece v = (if truthy v then [or_empty v] else [])"

text \<open>itertext(): the text, then every child with its tail.\<close>

fun itertext :: "element \<Rightarrow> string list" and itertext_children :: "element list \<Rightarrow> string list" where
  "itertext (Element tag attrib txt children tail) = text_piece txt @ itertext_children children"
| "itertext_children [] = []"
| "itertext_children (c # cs) = itertext c @ text_piece (el_tail c) @ itertext_children cs"

definition oai_ns :: string where "oai_ns = ''http://www.openarchives.org/OAI/2.0/''"
definition arxiv_ns :: string where "arxiv_ns = ''http://arxiv.org/OAI/arXiv/''"
definition arxiv_raw_ns :: string where "arxiv_raw_ns = ''http://arxiv.org/OAI/arXivRaw/''"

definition qname :: "string \<Rightarrow> string \<Rightarrow> string" where
  "qname namespace name = ''{'' @ namespace @ ''}'' @ name"

definition text_of :: "element option \<Rightarrow> string option" where
  "text_of e = Option.bind (Option.bind e el_text) (\<lambda>s. nonempty (normalize_space s))"

definition child_text :: "element \<Rightarrow> string \<Rightarrow> string \<Rightarrow> string option" where
  "child_text parent name namespace = text_of (find_child (qname namespace name) parent)"

definition raw_child_text :: "element \<Rightarrow> string \<Rightarrow> string option" where
  "raw_child_text parent name = or_else (child_text parent name arxiv_raw_ns) (child_text parent name arxiv_ns)"

definition raw_child :: "element \<Rightarrow> string \<Rightarrow> element option" where
  "raw_child parent name = coalesce (find_child (qname arxiv_raw_ns name) parent) (find_child (qname arxiv_ns name) parent)"

subsection \<open>More Python strings\<close>

text \<open>str.split(sep) for a separator that is not empty.\<close>

function split_on :: "string \<Rightarrow> string \<Rightarrow> string \<Rightarrow> string list" where
  "split_on sep w s =
     (if s = [] then [w]
      else if sep \<noteq> [] \<and> startswith s sep then w # split_on sep [] (drop (length sep) s)
      else split_on sep (w @ [hd s]) (tl s))"
  by pat_completeness auto
termination by (relation "measure (\<lambda>(_, _, s). length s)") auto

declare split_on.simps [simp del]

text \<open>str.splitlines(): LF, VT, FF, CR, CR LF, FS, GS and RS end a line.\<close>

function lines_acc :: "string \<Rightarrow> string \<Rightarrow> string list" where
  "lines_acc w s =
     (case s of
        [] \<Rightarrow> if w = [] then [] else [w]
      | c # r \<Rightarrow>
          if (of_char c :: nat) \<in> {10, 11, 12, 13, 28, 29, 30}
          then w # lines_acc [] (if of_char c = (13::nat) \<and> r \<noteq> [] \<and> of_char (hd r) = (10::nat) then tl r else r)
          else lines_acc (w @ [c]) r)"
  by pat_completeness auto
termination by (relation "measure (\<lambda>(_, s). length s)") (auto split: if_splits)

declare lines_acc.simps [simp del]

definition splitlines :: "string \<Rightarrow> string list" where
  "splitlines s = lines_acc [] s"

subsection \<open>Dates\<close>

text \<open>None is a ValueError that the code turns into None; an OverflowError of astimezone stays one.\<close>

definition parse_oai_datestamp :: "string option \<Rightarrow> date_error + datetime option" where
  "parse_oai_datestamp value =
     (if \<not> truthy value then Inr None
      else (let raw = replace_z (or_empty value) in
        case fromisoformat raw of
          None \<Rightarrow> Inr None
        | Some (Naive t) \<Rightarrow> Inr (Some t)
        | Some (Aware t z) \<Rightarrow> if length raw = 10 then Inr (Some t) else map_sum id Some (to_utc (Aware t z))))"

text \<open>
  datetime.strptime for the two formats, in the C locale: a field takes two digits when they are in
  range and one otherwise, a space of the format is \s+, case does not matter, and nothing may follow.
\<close>

definition field :: "int \<Rightarrow> int \<Rightarrow> string \<Rightarrow> (int \<times> string) option" where
  "field low high s =
     (let two = take 2 s; one = take 1 s in
      if length two = 2 \<and> list_all is_digit two \<and> low \<le> digits_value two \<and> digits_value two \<le> high
      then Some (digits_value two, drop 2 s)
      else if length one = 1 \<and> list_all is_digit one \<and> low \<le> digits_value one then Some (digits_value one, drop 1 s)
      else None)"

text \<open>%d also takes a space and a digit.\<close>

definition day_field :: "string \<Rightarrow> (int \<times> string) option" where
  "day_field s =
     (case field 1 31 s of
        Some v \<Rightarrow> Some v
      | None \<Rightarrow> (case s of
            c # d # r \<Rightarrow> if c = CHR '' '' \<and> is_digit d \<and> d \<noteq> CHR ''0'' then Some (digits_value [d], r) else None
          | _ \<Rightarrow> None))"

definition spaces :: "string \<Rightarrow> string option" where
  "spaces s = (case s of [] \<Rightarrow> None | c # r \<Rightarrow> if is_space c then Some (dropWhile is_space r) else None)"

definition named_field :: "string list \<Rightarrow> string \<Rightarrow> (int \<times> string) option" where
  "named_field names s =
     (let low = lower (take 3 s) in
      case List.find (\<lambda>i. names ! i = low) [0..<length names] of
        None \<Rightarrow> None | Some i \<Rightarrow> Some (int i + 1, drop 3 s))"

definition weekdays :: "string list" where
  "weekdays = [''mon'', ''tue'', ''wed'', ''thu'', ''fri'', ''sat'', ''sun'']"

definition months :: "string list" where
  "months = [''jan'', ''feb'', ''mar'', ''apr'', ''may'', ''jun'', ''jul'', ''aug'', ''sep'', ''oct'', ''nov'', ''dec'']"

definition strptime_day :: "string \<Rightarrow> datetime option" where
  "strptime_day s = do {
     (y, r) \<leftarrow> take_num 4 s;
     r \<leftarrow> expect True (CHR ''-'') r;
     (m, r) \<leftarrow> field 1 12 r;
     r \<leftarrow> expect True (CHR ''-'') r;
     (d, r) \<leftarrow> day_field r;
     if r = [] \<and> valid_ymd y m d then Some (day_of_ymd y m d * us_per_day) else None
   }"

text \<open>%Z is utc, gmt or a local name; the weekday is read and dropped; a second of 60 or 61 is refused later.\<close>

definition strptime_http :: "string list \<Rightarrow> string \<Rightarrow> datetime option" where
  "strptime_http zones s = do {
     (wd, r) \<leftarrow> named_field weekdays s;
     r \<leftarrow> expect True (CHR '','') r;
     r \<leftarrow> spaces r;
     (d, r) \<leftarrow> day_field r;
     r \<leftarrow> spaces r;
     (m, r) \<leftarrow> named_field months r;
     r \<leftarrow> spaces r;
     (y, r) \<leftarrow> take_num 4 r;
     r \<leftarrow> spaces r;
     (h, r) \<leftarrow> field 0 23 r;
     r \<leftarrow> expect True (CHR '':'') r;
     (mi, r) \<leftarrow> field 0 59 r;
     r \<leftarrow> expect True (CHR '':'') r;
     (sec, r) \<leftarrow> field 0 61 r;
     r \<leftarrow> spaces r;
     if lower r \<in> set ([''utc'', ''gmt''] @ zones) \<and> valid_ymd y m d \<and> sec < 60
     then Some (day_of_ymd y m d * us_per_day + clock_us (h, mi, sec, 0)) else None
   }"

definition parse_arxiv_date :: "string list \<Rightarrow> string option \<Rightarrow> date_error + datetime option" where
  "parse_arxiv_date zones value =
     (if \<not> truthy value then Inr None
      else (case strptime_day (or_empty value) of
          Some t \<Rightarrow> Inr (Some t)
        | None \<Rightarrow> (case strptime_http zones (or_empty value) of
              Some t \<Rightarrow> Inr (Some t)
            | None \<Rightarrow> parse_oai_datestamp value)))"

subsection \<open>Identifiers, authors and versions\<close>

definition last_segment :: "string \<Rightarrow> string" where
  "last_segment path = rev (takeWhile (\<lambda>c. c \<noteq> CHR ''/'') (rev path))"

definition arxiv_id_from_oai_identifier :: "string \<Rightarrow> string option" where
  "arxiv_id_from_oai_identifier identifier =
     (let raw = strip identifier; path = url_path (urlparse raw) in
      if startswith raw ''oai:arXiv.org:'' then Some (normalize_arxiv_id (removeprefix raw ''oai:arXiv.org:''))
      else if path \<noteq> [] then Some (normalize_arxiv_id (last_segment path)) else None)"

record author_detail =
  ad_name :: string
  ad_affiliation :: "string option"

definition author_json :: "author_detail \<Rightarrow> json" where
  "author_json a = JObj [(''name'', JStr (ad_name a)), (''affiliation'', jstr (ad_affiliation a))]"

definition author_of :: "element \<Rightarrow> author_detail" where
  "author_of a =
     (let part = (\<lambda>name. child_text a name arxiv_ns);
          parts = List.map_filter (\<lambda>v. if truthy v then v else None) [part ''forenames'', part ''keyname'', part ''suffix'']
      in \<lparr>ad_name = normalize_space (join_with '' '' parts), ad_affiliation = part ''affiliation''\<rparr>)"

definition authors_detail :: "element \<Rightarrow> author_detail list" where
  "authors_detail arxiv =
     (case find_child (qname arxiv_ns ''authors'') arxiv of
        None \<Rightarrow> []
      | Some parent \<Rightarrow> filter (\<lambda>a. ad_name a \<noteq> []) (map author_of (find_children (qname arxiv_ns ''author'') parent)))"

definition spaced_texts :: "string list \<Rightarrow> string list" where
  "spaced_texts parts = filter (\<lambda>s. s \<noteq> []) (map normalize_space parts)"

definition all_text :: "element \<Rightarrow> string" where
  "all_text e = join_with '' '' (itertext e)"

definition raw_authors :: "element \<Rightarrow> string list" where
  "raw_authors raw =
     (case raw_child raw ''authors'' of
        None \<Rightarrow> []
      | Some parent \<Rightarrow>
          (let nested = spaced_texts (map all_text (el_children parent)); txt = normalize_space (all_text parent) in
           if nested \<noteq> [] then nested
           else if txt = [] then []
           else if contains txt '';'' then spaced_texts (split_on '';'' [] txt)
           else if contains txt '' and '' then spaced_texts (split_on '' and '' [] txt)
           else (let ls = spaced_texts (splitlines txt) in if ls \<noteq> [] then ls else [txt])))"

record raw_version =
  rv_label :: "string option"
  rv_number :: "int option"
  rv_date :: "string option"
  rv_size :: "string option"
  rv_source_type :: "string option"

definition version_json :: "raw_version \<Rightarrow> json" where
  "version_json v = JObj ([(''version'', jstr (rv_label v)), (''version_number'', jint (rv_number v)),
     (''date'', jstr (rv_date v))]
     @ (case rv_size v of None \<Rightarrow> [] | Some s \<Rightarrow> [(''size'', JStr s)])
     @ (case rv_source_type v of None \<Rightarrow> [] | Some s \<Rightarrow> [(''source_type'', JStr s)]))"

definition raw_version_of :: "element \<Rightarrow> raw_version" where
  "raw_version_of e =
     (let label = or_else (map_of (el_attrib e) ''version'') (raw_child_text e ''version'') in
      \<lparr>rv_label = label, rv_number = arxiv_version (or_empty label), rv_date = raw_child_text e ''date'',
       rv_size = raw_child_text e ''size'', rv_source_type = raw_child_text e ''source_type''\<rparr>)"

definition raw_versions :: "element \<Rightarrow> raw_version list" where
  "raw_versions raw = (case raw_child raw ''versions'' of None \<Rightarrow> [] | Some p \<Rightarrow> map raw_version_of (el_children p))"

definition latest_raw_version_number :: "raw_version list \<Rightarrow> int option" where
  "latest_raw_version_number vs =
     (case List.map_filter rv_number vs of [] \<Rightarrow> None | n # ns \<Rightarrow> Some (foldl max n ns))"

subsection \<open>Papers and records\<close>

record oai_env =
  oe_settings :: huldra_settings
  oe_get :: "(string \<times> string) list \<Rightarrow> seconds \<Rightarrow> string + http_response"
  oe_http_date :: "string \<Rightarrow> py_datetime option"
  oe_now :: datetime
  oe_parse_xml :: "string \<Rightarrow> element option"
  oe_to_xml :: "element \<Rightarrow> string"
  oe_zones :: "string list"

text \<open>The header of a record, as the papers of both formats take it.\<close>

record oai_header =
  oh_prefix :: oai_metadata_prefix
  oh_identifier :: string
  oh_datestamp :: datetime
  oh_set_specs :: "string list"
  oh_raw_xml :: string

datatype oai_failure = OaiValueError string | OaiOverflow

definition date_or_fail :: "date_error + 'a \<Rightarrow> oai_failure + 'a" where
  "date_or_fail v = (case v of Inl err \<Rightarrow> Inl OaiOverflow | Inr x \<Rightarrow> Inr x)"

text \<open>What both formats share: the arXiv id, the fields taken from the header, the links.\<close>

definition oai_paper :: "oai_header \<Rightarrow> string \<Rightarrow> arxiv_paper" where
  "oai_paper h arxiv_id =
     \<lparr>p_arxiv_id = arxiv_id, p_version = None, p_canonical_url = abs_url arxiv_id, p_title = [],
      p_abstract = None, p_authors = [], p_primary_category = None, p_categories = [], p_published_at = None,
      p_updated_at = None, p_comment = None, p_journal_ref = None, p_doi = None, p_raw_atom = JObj [],
      p_authors_detail = [], p_license = None, p_oai_identifier = Some (oh_identifier h),
      p_oai_datestamp = Some (oh_datestamp h), p_oai_set_specs = oh_set_specs h,
      p_links = [JObj [(''rel'', JStr ''alternate''), (''href'', JStr (abs_url arxiv_id))],
                 JObj [(''rel'', JStr ''pdf''), (''href'', JStr (''https://arxiv.org/pdf/'' @ arxiv_id))]],
      p_versions = [], p_withdrawn = False, p_deleted = False,
      p_raw_metadata = JObj [(''metadata_prefix'', JStr (metadata_prefix_value (oh_prefix h))),
                             (''raw_xml'', JStr (oh_raw_xml h))]\<rparr>"

definition head_or_none :: "string list \<Rightarrow> string option" where
  "head_or_none xs = (case xs of [] \<Rightarrow> None | x # _ \<Rightarrow> Some x)"

definition paper_from_arxiv :: "oai_env \<Rightarrow> oai_header \<Rightarrow> element \<Rightarrow> oai_failure + arxiv_paper" where
  "paper_from_arxiv oe h arxiv =
     (let part = (\<lambda>name. child_text arxiv name arxiv_ns);
          arxiv_id = normalize_arxiv_id (or_empty (or_else (part ''id'') (arxiv_id_from_oai_identifier (oh_identifier h))));
          categories = py_split (or_empty (part ''categories''));
          authors = authors_detail arxiv
      in case date_or_fail (parse_arxiv_date (oe_zones oe) (part ''created'')) of
           Inl err \<Rightarrow> Inl err
         | Inr created \<Rightarrow> (case date_or_fail (parse_arxiv_date (oe_zones oe) (part ''updated'')) of
             Inl err \<Rightarrow> Inl err
           | Inr updated \<Rightarrow> Inr ((oai_paper h arxiv_id)
               \<lparr>p_title := normalize_space (or_empty (part ''title'')),
                p_abstract := nonempty (normalize_space (or_empty (part ''abstract''))),
                p_authors := map ad_name authors, p_authors_detail := map author_json authors,
                p_primary_category := head_or_none categories, p_categories := categories,
                p_published_at := created, p_updated_at := coalesce updated created,
                p_comment := part ''comments'', p_journal_ref := part ''journal-ref'', p_doi := part ''doi'',
                p_license := part ''license''\<rparr>)))"

definition paper_from_arxiv_raw :: "oai_env \<Rightarrow> oai_header \<Rightarrow> element \<Rightarrow> oai_failure + arxiv_paper" where
  "paper_from_arxiv_raw oe h raw =
     (let part = raw_child_text raw;
          arxiv_id = normalize_arxiv_id (or_empty (or_else (or_else
            (child_text raw ''id'' arxiv_raw_ns) (child_text raw ''id'' arxiv_ns)) (arxiv_id_from_oai_identifier (oh_identifier h))));
          categories = py_split (or_empty (part ''categories''));
          authors = raw_authors raw; versions = raw_versions raw;
          dates = map_raising (\<lambda>d. date_or_fail (parse_arxiv_date (oe_zones oe) (Some d))) (List.map_filter rv_date versions)
      in case dates of
           Inl err \<Rightarrow> Inl err
         | Inr ds \<Rightarrow> Inr ((oai_paper h arxiv_id)
             \<lparr>p_version := latest_raw_version_number versions,
              p_title := normalize_space (or_empty (or_else (part ''title'') (Some arxiv_id))),
              p_abstract := nonempty (normalize_space (or_empty (part ''abstract''))),
              p_authors := authors,
              p_authors_detail := map (\<lambda>a. author_json \<lparr>ad_name = a, ad_affiliation = None\<rparr>) authors,
              p_primary_category := head_or_none categories, p_categories := categories,
              p_published_at := (if ds = [] then None else hd ds), p_updated_at := (if ds = [] then None else last ds),
              p_comment := part ''comments'', p_journal_ref := part ''journal-ref'', p_doi := part ''doi'',
              p_license := part ''license'', p_versions := map version_json versions\<rparr>))"

definition paper_from_oai_metadata :: "oai_env \<Rightarrow> oai_header \<Rightarrow> element \<Rightarrow> oai_failure + arxiv_paper" where
  "paper_from_oai_metadata oe h metadata =
     (case find_child (qname arxiv_ns ''arXiv'') metadata of
        Some arxiv \<Rightarrow> paper_from_arxiv oe h arxiv
      | None \<Rightarrow> (case find_child (qname arxiv_raw_ns ''arXivRaw'') metadata of
            None \<Rightarrow> Inl (OaiValueError ''OAI metadata missing arXiv payload'')
          | Some raw \<Rightarrow> paper_from_arxiv_raw oe h raw))"

definition oai_child :: "element \<Rightarrow> string \<Rightarrow> element option" where
  "oai_child e name = find_child (qname oai_ns name) e"

definition header_of :: "oai_env \<Rightarrow> oai_metadata_prefix \<Rightarrow> element \<Rightarrow> oai_failure + oai_header \<times> element" where
  "header_of oe metadata_prefix e =
     (case oai_child e ''header'' of
        None \<Rightarrow> Inl (OaiValueError ''OAI record missing header'')
      | Some header \<Rightarrow>
          (case text_of (oai_child header ''identifier'') of
             None \<Rightarrow> Inl (OaiValueError ''OAI record missing identifier'')
           | Some identifier \<Rightarrow>
               (case text_of (oai_child header ''datestamp'') of
                  None \<Rightarrow> Inl (OaiValueError ''OAI record missing datestamp'')
                | Some raw \<Rightarrow>
                    (case date_or_fail (parse_oai_datestamp (Some raw)) of
                       Inl err \<Rightarrow> Inl err
                     | Inr None \<Rightarrow> Inl (OaiValueError (''OAI record '' @ identifier @ '' has invalid datestamp''))
                     | Inr (Some t) \<Rightarrow> Inr (\<lparr>oh_prefix = metadata_prefix, oh_identifier = identifier, oh_datestamp = t,
                         oh_set_specs = List.map_filter (\<lambda>s. text_of (Some s)) (find_children (qname oai_ns ''setSpec'') header),
                         oh_raw_xml = oe_to_xml oe e\<rparr>, header)))))"

definition oai_record_of :: "oai_header \<Rightarrow> string option \<Rightarrow> arxiv_paper option \<Rightarrow> oai_record" where
  "oai_record_of h arxiv_id paper =
     \<lparr>or_oai_identifier = oh_identifier h, or_arxiv_id = arxiv_id, or_metadata_prefix = oh_prefix h,
      or_datestamp = Some (oh_datestamp h), or_set_specs = oh_set_specs h, or_deleted = (paper = None),
      or_paper = paper, or_raw_xml = Some (oh_raw_xml h)\<rparr>"

definition record_from_element :: "oai_env \<Rightarrow> oai_metadata_prefix \<Rightarrow> element \<Rightarrow> oai_failure + oai_record" where
  "record_from_element oe metadata_prefix e =
     (case header_of oe metadata_prefix e of
        Inl err \<Rightarrow> Inl err
      | Inr (h, header) \<Rightarrow>
          if map_of (el_attrib header) ''status'' = Some ''deleted''
          then Inr (oai_record_of h (arxiv_id_from_oai_identifier (oh_identifier h)) None)
          else (case oai_child e ''metadata'' of
              None \<Rightarrow> Inl (OaiValueError (''OAI record '' @ oh_identifier h @ '' missing metadata''))
            | Some metadata \<Rightarrow>
                (case paper_from_oai_metadata oe h metadata of
                   Inl err \<Rightarrow> Inl err
                 | Inr paper \<Rightarrow> Inr (oai_record_of h (Some (p_arxiv_id paper)) (Some paper)))))"

text \<open>fromstring has succeeded: the page, or the failure that becomes a fetch error.\<close>

definition parse_oai_pmh_list_records :: "oai_env \<Rightarrow> oai_metadata_prefix \<Rightarrow> element \<Rightarrow> oai_failure + oai_page" where
  "parse_oai_pmh_list_records oe metadata_prefix doc =
     (let response_date = text_of (oai_child doc ''responseDate'');
          errors = map (\<lambda>e. \<lparr>pe_code = map_of (el_attrib e) ''code'', pe_message = normalize_space (or_empty (el_text e))\<rparr>)
            (find_children (qname oai_ns ''error'') doc)
      in case oai_child doc ''ListRecords'' of
           None \<Rightarrow>
             if errors = [] then Inl (OaiValueError ''OAI response missing ListRecords'')
             else Inr \<lparr>og_records = [], og_response_date = response_date, og_token = None, og_errors = errors,
                       og_request_params = []\<rparr>
         | Some list_records \<Rightarrow>
             (case map_raising (record_from_element oe metadata_prefix) (find_children (qname oai_ns ''record'') list_records) of
                Inl err \<Rightarrow> Inl err
              | Inr rs \<Rightarrow> Inr \<lparr>og_records = rs, og_response_date = response_date,
                    og_token = text_of (oai_child list_records ''resumptionToken''), og_errors = errors,
                    og_request_params = []\<rparr>))"

subsection \<open>The request\<close>

definition oai_http :: "oai_env \<Rightarrow> http_env" where
  "oai_http oe = \<lparr>he_settings = oe_settings oe, he_get = oe_get oe,
     he_parse_feed = (\<lambda>_. \<lparr>fd_entries = [], fd_total_results = None\<rparr>), he_http_date = oe_http_date oe, he_now = oe_now oe\<rparr>"

definition parse_oai_response :: "oai_env \<Rightarrow> oai_metadata_prefix \<Rightarrow> http_response \<Rightarrow> exn + oai_page" where
  "parse_oai_response oe metadata_prefix response =
     (let status = Some (rs_status response) in
      case oe_parse_xml oe (rs_text response) of
        None \<Rightarrow> Inl (TransientFetchError status ''arXiv OAI-PMH returned malformed XML'')
      | Some doc \<Rightarrow>
          (case parse_oai_pmh_list_records oe metadata_prefix doc of
             Inl (OaiValueError msg) \<Rightarrow>
               Inl (TransientFetchError status (''arXiv OAI-PMH returned malformed OAI record: '' @ msg))
           | Inl OaiOverflow \<Rightarrow> Inl (OtherExn ''OverflowError'')
           | Inr page \<Rightarrow> Inr page))"

definition accept_oai_page :: "(string \<times> string) list \<Rightarrow> http_response \<Rightarrow> oai_page \<Rightarrow> exn + oai_page" where
  "accept_oai_page params response page =
     (case filter (\<lambda>e. pe_code e \<noteq> Some ''noRecordsMatch'') (og_errors page) of
        [] \<Rightarrow> Inr (page\<lparr>og_request_params := params\<rparr>)
      | e # _ \<Rightarrow> Inl (NonRetryableFetchError (Some (rs_status response))
          (''arXiv OAI-PMH error '' @ or_empty (or_else (pe_code e) (Some ''unknown'')) @ '': '' @ pe_message e)))"

definition classify_oai_response ::
  "oai_env \<Rightarrow> (string \<times> string) list \<Rightarrow> oai_metadata_prefix \<Rightarrow> http_response \<Rightarrow> exn + oai_page" where
  "classify_oai_response oe params metadata_prefix response =
     (let status = rs_status response; returned = ''arXiv OAI-PMH returned HTTP '' @ int_text status in
      if status = 429 then Inl (raise_rate_limited (oai_http oe) response ''rate limited'')
      else if status = 503 \<and> rs_retry_after response \<noteq> None
      then Inl (raise_rate_limited (oai_http oe) response ''arXiv OAI-PMH returned HTTP 503 with Retry-After'')
      else if status \<ge> 500 then Inl (TransientFetchError (Some status) returned)
      else if status < 200 \<or> status \<ge> 300 then Inl (NonRetryableFetchError (Some status) returned)
      else (case parse_oai_response oe metadata_prefix response of
          Inl err \<Rightarrow> Inl err
        | Inr page \<Rightarrow> accept_oai_page params response page))"

definition list_records :: "oai_env \<Rightarrow> oai_call \<Rightarrow> exn + oai_page" where
  "list_records oe c =
     (let params = build_list_records_params (oc_metadata_prefix c) (oc_set_spec c) (oc_from c) (oc_until c) (oc_token c) in
      if oc_timeout c \<le> 0 then Inl (OtherExn ''ValueError: timeout_seconds must be positive'')
      else (case oe_get oe params (min (request_timeout_seconds (oe_settings oe)) (oc_timeout c)) of
          Inl msg \<Rightarrow> Inl (TransientFetchError None (''arXiv OAI-PMH request failed: '' @ msg))
        | Inr response \<Rightarrow> classify_oai_response oe params (oc_metadata_prefix c) response))"

subsection \<open>Dates that were written are read\<close>

lemma replace_z_same: "CHR ''Z'' \<notin> set s \<Longrightarrow> replace_z s = s"
  by (induction s) (auto simp: replace_z_def)

lemma dec_no_z: "CHR ''Z'' \<notin> set (dec w n)"
  using dec_mark by blast

lemma valid_ymd_bounds:
  assumes "valid_ymd y m d"
  shows "0 \<le> y" "y < 10 ^ 4" "1 \<le> m" "m \<le> 12" "1 \<le> d" "d \<le> 31"
proof -
  have "d \<le> month_lengths (is_leap y) ! nat (m - 1)" "nat (m - 1) < 12" using assms by (auto simp: valid_ymd_def)
  then show "d \<le> 31"
    using month_lengths_facts(1,2) [of "is_leap y"] nth_mem [of "nat (m - 1)" "month_lengths (is_leap y)"] by fastforce
qed (use assms in \<open>auto simp: valid_ymd_def\<close>)

lemma date_text_fields:
  assumes "valid_datetime t"
  obtains y m d where "date_text t = dec 4 y @ ''-'' @ dec 2 m @ ''-'' @ dec 2 d" "valid_ymd y m d"
    "day_of_ymd y m d * us_per_day = utc_day_floor t" "0 \<le> day_of_ymd y m d" "day_of_ymd y m d < 3652059"
proof -
  obtain y m d h mi s us where f: "time_fields t = ((y, m, d), h, mi, s, us)" by (metis prod.exhaust)
  define n where "n = t div us_per_day"
  have n: "0 \<le> n" "n < 3652059" using assms by (auto simp: n_def valid_datetime_def us_per_day_def)
  have "ymd_of_day n = (y, m, d)" using f by (simp add: time_fields_def n_def Let_def)
  from ymd_of_day_valid [OF n this] have "valid_ymd y m d" "day_of_ymd y m d = n" by auto
  with n that [of y m d] show thesis by (simp add: date_text_def f utc_day_floor_def n_def del: dec.simps)
qed

lemma fromisoformat_date:
  assumes "valid_ymd y m d" "0 \<le> day_of_ymd y m d" "day_of_ymd y m d < 3652059"
  shows "fromisoformat (dec 4 y @ ''-'' @ dec 2 m @ ''-'' @ dec 2 d) = Some (Naive (day_of_ymd y m d * us_per_day))"
proof -
  let ?D = "dec 4 y @ ''-'' @ dec 2 m @ ''-'' @ dec 2 d"
  have l: "length ?D = 10" by (simp del: dec.simps)
  have "?D ! 4 = CHR ''-''" by (simp add: nth_append del: dec.simps)
  moreover have "?D ! 5 \<noteq> CHR ''W''"
  proof -
    have "?D ! 5 = dec 2 m ! 0" by (simp add: nth_append del: dec.simps)
    moreover have "is_digit (dec 2 m ! 0)" using digits_dec [of 2 m] by (simp add: list_all_length del: dec.simps)
    ultimately show ?thesis by (auto simp: is_digit_def)
  qed
  ultimately have "date_length ?D = Some 10" using l by (simp add: date_length_def del: dec.simps append_assoc)
  moreover have "take 10 ?D = ?D" "\<not> length ?D > 10 + 1" using l by (simp_all del: dec.simps append_assoc)
  ultimately show ?thesis using parse_date_text [OF assms(1)] assms(2,3) by (simp add: fromisoformat_def del: dec.simps)
qed

lemma field_dec:
  assumes "low \<le> n" "n \<le> high" "0 \<le> n" "n < 100"
  shows "field low high (dec 2 n @ r) = Some (n, r)"
  using assms digits_dec [of 2 n] digits_value_dec [of n 2]
  by (simp add: field_def del: dec.simps)

lemma strptime_day_text:
  assumes "valid_ymd y m d"
  shows "strptime_day (dec 4 y @ ''-'' @ dec 2 m @ ''-'' @ dec 2 d) = Some (day_of_ymd y m d * us_per_day)"
proof -
  note b = valid_ymd_bounds [OF assms]
  have "day_field (dec 2 d) = Some (d, [])" using field_dec [of 1 d 31 "[]"] b by (simp add: day_field_def del: dec.simps)
  moreover have "field 1 12 (dec 2 m @ r) = Some (m, r)" for r using field_dec [of 1 m 12] b by simp
  ultimately show ?thesis
    using b assms by (simp add: strptime_day_def take_num_dec expect_def del: dec.simps)
qed

lemma isoformat_no_z: "CHR ''Z'' \<notin> set (isoformat t) \<and> length (isoformat t) \<noteq> 10"
proof -
  obtain y m d h mi s us where "time_fields t = ((y, m, d), h, mi, s, us)" by (metis prod.exhaust)
  then show ?thesis by (auto simp: isoformat_def utc_fraction_def dec_no_z simp del: dec.simps)
qed

lemma dec_nonempty: "dec (Suc w) n \<noteq> []" by simp
text \<open>The fixed-length form of an HTTP date: Tue, 02 Jan 2024 03:04:05 GMT.\<close>

definition weekday_names :: "string list" where
  "weekday_names = [''Mon'', ''Tue'', ''Wed'', ''Thu'', ''Fri'', ''Sat'', ''Sun'']"

definition month_names :: "string list" where
  "month_names = [''Jan'', ''Feb'', ''Mar'', ''Apr'', ''May'', ''Jun'', ''Jul'', ''Aug'', ''Sep'', ''Oct'', ''Nov'', ''Dec'']"

definition http_date_text :: "datetime \<Rightarrow> string" where
  "http_date_text t = (case time_fields t of ((y, m, d), h, mi, s, _) \<Rightarrow>
     weekday_names ! nat (t div us_per_day mod 7) @ '', '' @ dec 2 d @ '' '' @ month_names ! nat (m - 1) @ '' '' @ dec 4 y @
     '' '' @ dec 2 h @ '':'' @ dec 2 mi @ '':'' @ dec 2 s @ '' GMT'')"

lemma named_weekday: "i < 7 \<Longrightarrow> named_field weekdays (weekday_names ! i @ r) = Some (int i + 1, r)"
proof -
  have "list_all (\<lambda>i. length (weekday_names ! i) = 3 \<and> List.find (\<lambda>j. weekdays ! j = lower (weekday_names ! i)) [0..<length weekdays] = Some i) [0..<7]"
    by code_simp
  moreover assume "i < 7"
  ultimately show ?thesis by (simp add: named_field_def list_all_iff)
qed

lemma named_month: "1 \<le> m \<Longrightarrow> m \<le> 12 \<Longrightarrow> named_field months (month_names ! nat (m - 1) @ r) = Some (m, r)"
proof -
  have "list_all (\<lambda>i. length (month_names ! i) = 3 \<and> List.find (\<lambda>j. months ! j = lower (month_names ! i)) [0..<length months] = Some i) [0..<12]"
    by code_simp
  moreover assume "1 \<le> m" "m \<le> 12"
  moreover from this have "nat (m - 1) < 12" by simp
  ultimately show ?thesis by (simp add: named_field_def list_all_iff)
qed

lemma weekday_no_digit: "i < 7 \<Longrightarrow> take_num 4 (weekday_names ! i @ r) = None"
proof -
  assume i: "i < 7"
  have "list_all (\<lambda>i. weekday_names ! i \<noteq> [] \<and> \<not> is_digit (hd (weekday_names ! i))) [0..<7]" by code_simp
  with i have "weekday_names ! i \<noteq> []" "\<not> is_digit (hd (weekday_names ! i))" by (simp_all add: list_all_iff)
  then show ?thesis by (cases "weekday_names ! i") (auto simp: take_num_def)
qed

lemma spaces_one: "r \<noteq> [] \<Longrightarrow> \<not> is_space (hd r) \<Longrightarrow> spaces (CHR '' '' # r) = Some r"
proof -
  assume "r \<noteq> []" "\<not> is_space (hd r)"
  moreover have "is_space (CHR '' '')" by code_simp
  ultimately show ?thesis by (cases r) (simp_all add: spaces_def)
qed

lemma spaces_dec: "0 < w \<Longrightarrow> spaces (CHR '' '' # dec w n @ r) = Some (dec w n @ r)"
proof -
  assume "0 < w"
  then obtain c s where c: "dec w n = c # s" by (cases "dec w n"; cases w) (simp_all add: dec_nonempty)
  moreover have "is_digit c" using digits_dec [of w n] c by simp
  then have "\<not> is_space c" by (auto simp: is_digit_def is_space_def)
  ultimately show ?thesis by (simp add: spaces_one)
qed

lemma spaces_month:
  "1 \<le> m \<Longrightarrow> m \<le> 12 \<Longrightarrow> spaces (CHR '' '' # month_names ! nat (m - 1) @ r) = Some (month_names ! nat (m - 1) @ r)"
proof -
  assume m: "1 \<le> m" "m \<le> 12"
  then have "nat (m - 1) < 12" by simp
  moreover have "list_all (\<lambda>i. month_names ! i \<noteq> [] \<and> \<not> is_space (hd (month_names ! i))) [0..<12]" by code_simp
  ultimately have "month_names ! nat (m - 1) \<noteq> []" "\<not> is_space (hd (month_names ! nat (m - 1)))"
    by (simp_all add: list_all_iff)
  then show ?thesis by (simp add: spaces_one)
qed

lemma strptime_http_text:
  assumes "valid_datetime t"
  shows "strptime_http zones (http_date_text t) = Some (t - t mod us_per_second)" "strptime_day (http_date_text t) = None"
proof -
  obtain y m d h mi s us where f: "time_fields t = ((y, m, d), h, mi, s, us)" by (metis prod.exhaust)
  define n where "n = t div us_per_day"
  define q where "q = t mod us_per_day div us_per_second"
  have n: "0 \<le> n" "n < 3652059" using assms by (auto simp: n_def valid_datetime_def us_per_day_def)
  have q: "0 \<le> q" "q < 86400" by (auto simp: q_def us_per_day_def us_per_second_def)
  have hms: "h = q div 3600" "mi = q mod 3600 div 60" "s = q mod 60"
    using f by (simp_all add: time_fields_def Let_def q_def)
  have b2: "0 \<le> h" "h \<le> 23" "0 \<le> mi" "mi \<le> 59" "0 \<le> s" "s \<le> 59" unfolding hms using q by linarith+
  have "ymd_of_day n = (y, m, d)" using f by (simp add: time_fields_def n_def Let_def)
  from ymd_of_day_valid [OF n this] have ymd: "valid_ymd y m d" "day_of_ymd y m d = n" by auto
  note b1 = valid_ymd_bounds [OF ymd(1)]
  have "h * 3600 + mi * 60 + s = q"
  proof -
    have "q mod 60 = q mod 3600 mod 60" by (simp add: mod_mod_cancel)
    moreover have "q mod 3600 = q mod 3600 div 60 * 60 + q mod 3600 mod 60" by simp
    moreover have "q = q div 3600 * 3600 + q mod 3600" by simp
    ultimately show ?thesis unfolding hms by linarith
  qed
  moreover have "t - t mod us_per_second = n * us_per_day + q * us_per_second"
  proof -
    have "t mod us_per_day mod us_per_second = t mod us_per_second"
      by (rule mod_mod_cancel) (simp add: us_per_day_def us_per_second_def)
    moreover have "t mod us_per_day = q * us_per_second + t mod us_per_day mod us_per_second" by (simp add: q_def)
    moreover have "t = n * us_per_day + t mod us_per_day" by (simp add: n_def)
    ultimately show ?thesis by linarith
  qed
  ultimately have t: "day_of_ymd y m d * us_per_day + clock_us (h, mi, s, 0) = t - t mod us_per_second"
    by (simp add: clock_us_def ymd(2))
  have wd: "nat (n mod 7) < 7" by simp
  have comma: "expect True (CHR '','') (CHR '','' # r) = Some r" and colon: "expect True (CHR '':'') (CHR '':'' # r) = Some r" for r
    by (simp_all add: expect_def)
  have day: "day_field (dec 2 d @ r) = Some (d, r)" for r
    using field_dec [of 1 d 31 r] b1 by (simp add: day_field_def del: dec.simps)
  have gmt: "spaces '' GMT'' = Some ''GMT''" "lower ''GMT'' = ''gmt''" by code_simp+
  have tx: "http_date_text t = weekday_names ! nat (n mod 7) @ '', '' @ dec 2 d @ '' '' @ month_names ! nat (m - 1) @ '' '' @ dec 4 y @
     '' '' @ dec 2 h @ '':'' @ dec 2 mi @ '':'' @ dec 2 s @ '' GMT''"
    by (simp add: http_date_text_def f n_def del: dec.simps)
  show "strptime_http zones (http_date_text t) = Some (t - t mod us_per_second)"
    unfolding tx strptime_http_def
    using b1 b2 t ymd(1)
    by (simp add: named_weekday [OF wd] comma colon spaces_dec spaces_month named_month day take_num_dec field_dec gmt
      del: dec.simps)
  show "strptime_day (http_date_text t) = None"
    unfolding tx strptime_day_def weekday_no_digit [OF wd] by simp
qed

lemma http_date_nonempty: "http_date_text t \<noteq> []"
  by (simp add: http_date_text_def del: dec.simps split: prod.split)

text \<open>C33. The dates of a record are read right: for every instant of the years 1 to
  9999, its ISO text read as a datestamp is the instant; its date alone, read as a datestamp or as a
  date of a paper, is the midnight of that day in UTC; and its HTTP date (Tue, 02 Jan 2024 03:04:05 GMT),
  read as a date of a paper, is the instant to the second.\<close>

theorem oai_dates_read_back:
  assumes "valid_datetime t"
  shows "parse_oai_datestamp (Some (isoformat t)) = Inr (Some t) \<and>
    parse_oai_datestamp (Some (date_text t)) = Inr (Some (utc_day_floor t)) \<and>
    parse_arxiv_date zones (Some (date_text t)) = Inr (Some (utc_day_floor t)) \<and>
    parse_arxiv_date zones (Some (http_date_text t)) = Inr (Some (t - t mod us_per_second))"
proof (intro conjI)
  have "isoformat t \<noteq> []" using isoformat_ends [of t] by auto
  then show "parse_oai_datestamp (Some (isoformat t)) = Inr (Some t)"
    using isoformat_no_z [of t] fromisoformat_isoformat [OF assms] assms
    by (simp add: parse_oai_datestamp_def truthy_def or_empty_def replace_z_same to_utc_def)
  obtain y m d where f: "date_text t = dec 4 y @ ''-'' @ dec 2 m @ ''-'' @ dec 2 d" "valid_ymd y m d"
    "day_of_ymd y m d * us_per_day = utc_day_floor t" "0 \<le> day_of_ymd y m d" "day_of_ymd y m d < 3652059"
    using date_text_fields [OF assms] by blast
  have "CHR ''Z'' \<notin> set (date_text t)" unfolding f(1) by (simp add: dec_no_z del: dec.simps)
  then show "parse_oai_datestamp (Some (date_text t)) = Inr (Some (utc_day_floor t))"
    using fromisoformat_date [OF f(2,4,5)] f(1,3)
    by (simp add: parse_oai_datestamp_def truthy_def or_empty_def replace_z_same del: dec.simps)
  show "parse_arxiv_date zones (Some (date_text t)) = Inr (Some (utc_day_floor t))"
    using strptime_day_text [OF f(2)] f(1,3) by (simp add: parse_arxiv_date_def truthy_def or_empty_def del: dec.simps)
  show "parse_arxiv_date zones (Some (http_date_text t)) = Inr (Some (t - t mod us_per_second))"
    using strptime_http_text [OF assms] http_date_nonempty [of t]
    by (simp add: parse_arxiv_date_def truthy_def or_empty_def)
qed

subsection \<open>Records of a page\<close>

lemma text_of_Some: "text_of e = Some s \<Longrightarrow> s \<noteq> [] \<and> normalize_space s = s"
  by (auto simp: text_of_def nonempty_def bind_eq_Some_conv split: if_splits)

definition identifier_of :: "element \<Rightarrow> string option" where
  "identifier_of e = text_of (Option.bind (oai_child e ''header'') (\<lambda>h. oai_child h ''identifier''))"

definition well_formed_record :: "oai_metadata_prefix \<Rightarrow> oai_record \<Rightarrow> bool" where
  "well_formed_record metadata_prefix r \<longleftrightarrow>
     or_oai_identifier r \<noteq> [] \<and> normalize_space (or_oai_identifier r) = or_oai_identifier r \<and>
     or_metadata_prefix r = metadata_prefix \<and> or_datestamp r \<noteq> None \<and> [] \<notin> set (or_set_specs r) \<and>
     (or_deleted r \<longleftrightarrow> or_paper r = None) \<and>
     (\<forall>p. or_paper r = Some p \<longrightarrow> or_arxiv_id r = Some (p_arxiv_id p) \<and>
        p_oai_identifier p = Some (or_oai_identifier r) \<and> p_oai_datestamp p = or_datestamp r \<and>
        p_oai_set_specs p = or_set_specs r \<and> \<not> p_deleted p \<and> p_canonical_url p = abs_url (p_arxiv_id p))"

lemma header_of_facts:
  assumes "header_of oe pre e = Inr (h, header)"
  shows "oh_prefix h = pre \<and> identifier_of e = Some (oh_identifier h) \<and> oh_identifier h \<noteq> [] \<and>
    normalize_space (oh_identifier h) = oh_identifier h \<and> [] \<notin> set (oh_set_specs h)"
proof -
  have "[] \<notin> set (List.map_filter (\<lambda>s. text_of (Some s)) xs)" for xs
    using text_of_Some by (fastforce simp: List.map_filter_def)
  with assms show ?thesis
    by (auto simp: header_of_def identifier_of_def dest: text_of_Some split: option.splits sum.splits)
qed

lemma oai_paper_fields:
  assumes "paper_from_oai_metadata oe h metadata = Inr p"
  shows "p_oai_identifier p = Some (oh_identifier h) \<and> p_oai_datestamp p = Some (oh_datestamp h) \<and>
    p_oai_set_specs p = oh_set_specs h \<and> \<not> p_deleted p \<and> p_canonical_url p = abs_url (p_arxiv_id p)"
  using assms
  by (auto simp: paper_from_oai_metadata_def paper_from_arxiv_def paper_from_arxiv_raw_def Let_def oai_paper_def
      split: option.splits sum.splits)

lemma record_facts:
  assumes "record_from_element oe pre e = Inr r"
  shows "identifier_of e = Some (or_oai_identifier r) \<and> well_formed_record pre r"
proof -
  obtain h header where h: "header_of oe pre e = Inr (h, header)"
    using assms by (auto simp: record_from_element_def split: sum.splits)
  show ?thesis
    using assms header_of_facts [OF h] oai_paper_fields [of oe h]
    by (auto simp: record_from_element_def h oai_record_of_def well_formed_record_def split: if_splits option.splits sum.splits)
qed

text \<open>The elements of a response that stand for records.\<close>

definition record_elements :: "element \<Rightarrow> element list" where
  "record_elements doc = (case oai_child doc ''ListRecords'' of None \<Rightarrow> [] | Some l \<Rightarrow> find_children (qname oai_ns ''record'') l)"

definition params_of :: "oai_call \<Rightarrow> (string \<times> string) list" where
  "params_of c = build_list_records_params (oc_metadata_prefix c) (oc_set_spec c) (oc_from c) (oc_until c) (oc_token c)"

lemma parsed_page:
  assumes "parse_oai_pmh_list_records oe pre doc = Inr page"
  shows "list_all2 (\<lambda>e r. record_from_element oe pre e = Inr r) (record_elements doc) (og_records page) \<and> og_token page \<noteq> Some []"
  using assms
  by (auto simp: parse_oai_pmh_list_records_def record_elements_def Let_def map_raising_iff
      split: option.splits sum.splits if_splits dest: text_of_Some)

lemma accepted_page:
  assumes "list_records oe c = Inr page"
  obtains response doc page0 where
    "oe_get oe (params_of c) (min (request_timeout_seconds (oe_settings oe)) (oc_timeout c)) = Inr response"
    "200 \<le> rs_status response" "rs_status response < 300" "oe_parse_xml oe (rs_text response) = Some doc"
    "parse_oai_pmh_list_records oe (oc_metadata_prefix c) doc = Inr page0"
    "filter (\<lambda>e. pe_code e \<noteq> Some ''noRecordsMatch'') (og_errors page0) = []"
    "page = page0\<lparr>og_request_params := params_of c\<rparr>" "0 < oc_timeout c"
proof -
  have timeout: "0 < oc_timeout c" using assms by (auto simp: list_records_def Let_def split: if_splits)
  then obtain response where r: "oe_get oe (params_of c) (min (request_timeout_seconds (oe_settings oe)) (oc_timeout c)) = Inr response"
    and c: "classify_oai_response oe (params_of c) (oc_metadata_prefix c) response = Inr page"
    using assms by (auto simp: list_records_def params_of_def Let_def split: sum.splits)
  from c obtain page0 where s: "200 \<le> rs_status response" "rs_status response < 300"
    and p: "parse_oai_response oe (oc_metadata_prefix c) response = Inr page0"
    and a: "accept_oai_page (params_of c) response page0 = Inr page"
    by (auto simp: classify_oai_response_def Let_def split: if_splits sum.splits)
  from p obtain doc where doc: "oe_parse_xml oe (rs_text response) = Some doc"
    "parse_oai_pmh_list_records oe (oc_metadata_prefix c) doc = Inr page0"
    by (auto simp: parse_oai_response_def Let_def split: option.splits sum.splits oai_failure.splits)
  from a have "filter (\<lambda>e. pe_code e \<noteq> Some ''noRecordsMatch'') (og_errors page0) = []" "page = page0\<lparr>og_request_params := params_of c\<rparr>"
    by (auto simp: accept_oai_page_def split: list.splits)
  with r s doc timeout that show thesis by blast
qed

text \<open>C31. What list_records returns is well formed: every record has a
  normalised identifier, a datestamp and the metadata prefix that was asked for; it has a paper exactly
  when it is not deleted, and that paper carries the identifier, the datestamp and the sets of its
  header; the token is not empty, and the only protocol error that passes is noRecordsMatch.\<close>

theorem listed_page_is_well_formed:
  assumes "list_records oe c = Inr page"
  shows "(\<forall>r\<in>set (og_records page). well_formed_record (oc_metadata_prefix c) r) \<and> og_token page \<noteq> Some [] \<and>
    (\<forall>e\<in>set (og_errors page). pe_code e = Some ''noRecordsMatch'') \<and> og_request_params page = params_of c"
proof -
  obtain doc page0 where p: "parse_oai_pmh_list_records oe (oc_metadata_prefix c) doc = Inr page0"
    "filter (\<lambda>e. pe_code e \<noteq> Some ''noRecordsMatch'') (og_errors page0) = []"
    "page = page0\<lparr>og_request_params := params_of c\<rparr>"
    using accepted_page [OF assms] by blast
  from parsed_page [OF p(1)] have "\<forall>r\<in>set (og_records page0). well_formed_record (oc_metadata_prefix c) r"
    by (auto simp: list_all2_conv_all_nth in_set_conv_nth dest!: record_facts)
  with parsed_page [OF p(1)] p(2,3) show ?thesis by (auto simp: filter_empty_conv)
qed

text \<open>C34. A page is all or nothing: when list_records returns, the response was a 2xx
  answer whose XML could be read, and the records are those of its record elements, all of them and in
  their order, each under the identifier of its header. One record that cannot be read fails the call.\<close>

theorem no_record_is_lost:
  assumes "list_records oe c = Inr page"
  shows "\<exists>response doc. oe_get oe (params_of c) (min (request_timeout_seconds (oe_settings oe)) (oc_timeout c)) = Inr response \<and>
    200 \<le> rs_status response \<and> rs_status response < 300 \<and> oe_parse_xml oe (rs_text response) = Some doc \<and>
    map identifier_of (record_elements doc) = map (\<lambda>r. Some (or_oai_identifier r)) (og_records page)"
proof -
  obtain response doc page0 where p:
    "oe_get oe (params_of c) (min (request_timeout_seconds (oe_settings oe)) (oc_timeout c)) = Inr response"
    "200 \<le> rs_status response" "rs_status response < 300" "oe_parse_xml oe (rs_text response) = Some doc"
    "parse_oai_pmh_list_records oe (oc_metadata_prefix c) doc = Inr page0"
    "page = page0\<lparr>og_request_params := params_of c\<rparr>"
    using accepted_page [OF assms] by blast
  from parsed_page [OF p(5)] have "map identifier_of (record_elements doc) = map (\<lambda>r. Some (or_oai_identifier r)) (og_records page0)"
    by (intro nth_equalityI) (auto simp: list_all2_conv_all_nth dest!: record_facts)
  with p show ?thesis by auto
qed

subsection \<open>Authors on lines of their own\<close>

lemma lines_acc_one:
  "(\<forall>c\<in>set s. (of_char c :: nat) \<notin> {10, 11, 12, 13, 28, 29, 30}) \<Longrightarrow> w @ s \<noteq> [] \<Longrightarrow> lines_acc w s = [w @ s]"
proof (induction s arbitrary: w)
  case Nil
  then show ?case by (subst lines_acc.simps) simp
next
  case (Cons c s)
  then show ?case by (subst lines_acc.simps) simp
qed

lemma set_join: "c \<in> set (join_with sep ws) \<Longrightarrow> c \<in> set sep \<or> (\<exists>w\<in>set ws. c \<in> set w)"
  by (induction sep ws rule: join_with.induct) auto

lemma normalized_chars: "c \<in> set (normalize_space s) \<Longrightarrow> c = CHR '' '' \<or> \<not> is_space c"
  unfolding normalize_space_def using set_join [of c "'' ''" "py_split s"] py_split_words by fastforce

text \<open>
  The branch of raw_authors that splits lines is dead: the text has been normalised, so its line ends
  are spaces by then, and authors listed one per line come out as a single author.
\<close>

theorem author_lines_are_never_split:
  assumes "raw_child raw ''authors'' = Some parent" "el_children parent = []"
    "normalize_space (all_text parent) \<noteq> []" "\<not> contains (normalize_space (all_text parent)) '';''"
    "\<not> contains (normalize_space (all_text parent)) '' and ''"
  shows "raw_authors raw = [normalize_space (all_text parent)]"
proof -
  let ?t = "normalize_space (all_text parent)"
  have "\<forall>c\<in>set ?t. (of_char c :: nat) \<notin> {10, 11, 12, 13, 28, 29, 30}"
    using normalized_chars [of _ "all_text parent"] by (fastforce simp: is_space_def)
  then have "splitlines ?t = [?t]" using lines_acc_one [of ?t "[]"] assms(3) by (simp add: splitlines_def)
  with assms show ?thesis by (simp add: raw_authors_def spaced_texts_def Let_def)
qed

subsection \<open>A concrete response\<close>

definition leaf :: "string \<Rightarrow> string \<Rightarrow> string \<Rightarrow> element" where
  "leaf namespace name txt = Element (qname namespace name) [] (Some txt) [] None"

definition node :: "string \<Rightarrow> string \<Rightarrow> element list \<Rightarrow> element" where
  "node namespace name children = Element (qname namespace name) [] None children None"

definition sample_header :: "string \<Rightarrow> string \<Rightarrow> element" where
  "sample_header status identifier = Element (qname oai_ns ''header'') [(''status'', status)] None
     [leaf oai_ns ''identifier'' identifier, leaf oai_ns ''datestamp'' ''2024-01-02''] None"

definition sample_doc :: element where
  "sample_doc = node oai_ns ''OAI-PMH'' [node oai_ns ''ListRecords''
     [node oai_ns ''record'' [sample_header ''deleted'' ''oai:arXiv.org:2401.00002''],
      node oai_ns ''record'' [sample_header '''' ''oai:arXiv.org:2401.00001'',
        node oai_ns ''metadata'' [node arxiv_ns ''arXiv'' [leaf arxiv_ns ''id'' ''2401.00001'',
          leaf arxiv_ns ''title'' '' On  time '']]]]]"

definition sample_oai :: oai_env where
  "sample_oai = \<lparr>oe_settings = default_settings,
     oe_get = (\<lambda>_ _. Inr \<lparr>rs_status = 200, rs_retry_after = None, rs_text = ''xml''\<rparr>),
     oe_http_date = (\<lambda>_. None), oe_now = 0, oe_parse_xml = (\<lambda>_. Some sample_doc), oe_to_xml = (\<lambda>_. ''xml''),
     oe_zones = [''utc'']\<rparr>"

definition sample_call :: oai_call where
  "sample_call = \<lparr>oc_metadata_prefix = ArXiv, oc_set_spec = None, oc_from = None, oc_until = None, oc_token = None,
     oc_timeout = 5\<rparr>"

lemma sample_listed:
  "case list_records sample_oai sample_call of
     Inr page \<Rightarrow> map or_arxiv_id (og_records page) = [Some ''2401.00002'', Some ''2401.00001''] | _ \<Rightarrow> False"
  by code_simp

theorem oai_dates_read_back_witness:
  "parse_oai_datestamp (Some (date_text 63839000000000001)) = Inr (Some 63838972800000000) \<and>
   http_date_text 63839000000000001 = ''Sun, 24 Dec 2023 07:33:20 GMT'' \<and>
   parse_arxiv_date [''utc''] (Some (http_date_text 63839000000000001)) = Inr (Some 63839000000000000)"
proof -
  have "http_date_text 63839000000000001 = ''Sun, 24 Dec 2023 07:33:20 GMT''" by code_simp
  then show ?thesis
    using oai_dates_read_back [of 63839000000000001 "[''utc'']"]
    by (simp add: valid_datetime_def us_per_day_def utc_day_floor_def us_per_second_def)
qed

theorem listed_page_is_well_formed_witness:
  "case list_records sample_oai sample_call of
     Inr page \<Rightarrow> og_records page \<noteq> [] \<and> (\<forall>r\<in>set (og_records page). well_formed_record ArXiv r) | _ \<Rightarrow> False"
proof -
  obtain page where run: "list_records sample_oai sample_call = Inr page" and ids: "og_records page \<noteq> []"
    using sample_listed by (auto split: sum.splits)
  from listed_page_is_well_formed [OF run] ids show ?thesis unfolding run by (simp add: sample_call_def)
qed

theorem no_record_is_lost_witness:
  "case list_records sample_oai sample_call of
     Inr page \<Rightarrow> map identifier_of (record_elements sample_doc) = map (\<lambda>r. Some (or_oai_identifier r)) (og_records page) | _ \<Rightarrow> False"
proof -
  obtain page where run: "list_records sample_oai sample_call = Inr page" using sample_listed by (auto split: sum.splits)
  from no_record_is_lost [OF run] show ?thesis unfolding run by (auto simp: sample_oai_def)
qed

end
