(* ===== verification/Huldra_Cli.thy ===== *)
theory Huldra_Cli
  imports Huldra_Api Huldra_Oaipmh
begin

text \<open>
  The command line (huldra/cli.py): how the options of a command become a request, the commands as
  programs over the broker and the store, and the worker command, which makes passes until it is
  stopped. typer checks the ranges of numeric options; what a command prints is its value. The
  daemon, its probe and the vacuum are not modelled.
\<close>

subsection \<open>Options\<close>

datatype 'a option_value = Given 'a | BadParameter string

definition bad_parameter :: "string \<Rightarrow> 'a run" where
  "bad_parameter msg = lift_run (raiseM (OtherExn (''BadParameter: '' @ msg)))"

definition with_option :: "'a option_value \<Rightarrow> ('a \<Rightarrow> 'b run) \<Rightarrow> 'b run" where
  "with_option v k = (case v of BadParameter msg \<Rightarrow> bad_parameter msg | Given x \<Rightarrow> k x)"

text \<open>date.fromisoformat: the forms of 7, 8 and 10 characters.\<close>

definition parse_day :: "string \<Rightarrow> int option_value" where
  "parse_day value =
     (case (if length value \<in> {7, 8, 10} then parse_date value else None) of
        Some day \<Rightarrow> if 0 \<le> day \<and> day < 3652059 then Given day else BadParameter ''expected YYYY-MM-DD''
      | None \<Rightarrow> BadParameter ''expected YYYY-MM-DD'')"

definition underscored :: "string \<Rightarrow> string" where
  "underscored value = map (\<lambda>c. if c = CHR ''-'' then CHR ''_'' else c) (strip value)"

definition parse_sync_mode :: "string \<Rightarrow> legacy_sync_mode option_value" where
  "parse_sync_mode value =
     (if underscored value = sync_mode_value MODE_SLICE then Given MODE_SLICE
      else if underscored value = sync_mode_value MODE_COMPLETE_WINDOW then Given MODE_COMPLETE_WINDOW
      else BadParameter ''expected slice or complete-window'')"

definition validate_sync_mode_wait :: "legacy_sync_mode \<Rightarrow> bool \<Rightarrow> unit option_value" where
  "validate_sync_mode_wait mode wait =
     (if mode = MODE_COMPLETE_WINDOW \<and> \<not> wait then BadParameter ''--mode complete-window requires --wait'' else Given ())"

definition parse_oai_mode :: "string \<Rightarrow> oai_harvest_mode option_value" where
  "parse_oai_mode value =
     (if underscored value = harvest_mode_value INITIAL then Given INITIAL
      else if underscored value = harvest_mode_value INCREMENTAL then Given INCREMENTAL
      else BadParameter ''expected initial or incremental'')"

definition ranged :: "string list \<Rightarrow> 'b run \<Rightarrow> 'b run" where
  "ranged errs m = (case errs of [] \<Rightarrow> m | msg # _ \<Rightarrow> bad_parameter msg)"

subsection \<open>query\<close>

record query_options =
  qo_client_id :: string
  qo_search_query :: "string option"
  qo_id_list :: "string option"
  qo_max_results :: int
  qo_start :: int
  qo_sort_by :: string
  qo_sort_order :: string
  qo_wait :: bool
  qo_timeout :: "seconds option"
  qo_submitted_start :: "string option"
  qo_submitted_end :: "string option"

definition sort_by_of :: "string \<Rightarrow> sort_by option" where
  "sort_by_of s = List.find (\<lambda>v. sort_by_value v = s) [Relevance, LastUpdatedDate, SubmittedDate]"

definition sort_order_of :: "string \<Rightarrow> sort_order option" where
  "sort_order_of s = List.find (\<lambda>v. sort_order_value v = s) [Ascending, Descending]"

definition id_parts :: "string option \<Rightarrow> string list" where
  "id_parts v = map normalize_arxiv_id (filter (\<lambda>p. strip p \<noteq> []) (split_on '','' [] (or_empty v)))"

definition bound_of :: "string option \<Rightarrow> date_error + datetime option" where
  "bound_of v = (if truthy v then map_sum id Some (parse_datetime (or_empty v)) else Inr None)"

definition query_request :: "query_options \<Rightarrow> datetime option \<Rightarrow> datetime option \<Rightarrow> string list + arxiv_request" where
  "query_request opts from_t to_t =
     (case (sort_by_of (qo_sort_by opts), sort_order_of (qo_sort_order opts)) of
        (Some by, Some order) \<Rightarrow>
          make_request \<lparr>client_id = qo_client_id opts, search_query = qo_search_query opts,
            id_list = id_parts (qo_id_list opts), req_sort_by = by, req_sort_order = order, start = qo_start opts,
            max_results = qo_max_results opts, submitted_start = None, submitted_end = None,
            req_cache_policy = (if qo_wait opts then WAIT_UNTIL_READY else CACHE_OR_ENQUEUE),
            readiness = RAW_COMPLETED, req_maturity_lag_days = None, priority = 0,
            timeout_seconds = qo_timeout opts, refresh_interval_seconds = 3600, req_api_family = Legacy_search,
            raw_start = map_option (\<lambda>t. Aware t 0) from_t, raw_end = map_option (\<lambda>t. Aware t 0) to_t\<rparr>
      | _ \<Rightarrow> Inl [''sort''])"

definition raise_run :: "exn \<Rightarrow> 'a run" where
  "raise_run e = lift_run (raiseM e)"

definition date_exn :: "date_error \<Rightarrow> exn" where
  "date_exn e = OtherExn (case e of DateValueError \<Rightarrow> ''ValueError'' | DateOverflowError \<Rightarrow> ''OverflowError'')"

definition cli_query :: "broker \<Rightarrow> query_options \<Rightarrow> arxiv_result run" where
  "cli_query bk opts =
     ranged (range_error ''--max-results'' 1 2000 (qo_max_results opts) @ (if qo_start opts < 0 then [''--start''] else []))
     (case bound_of (qo_submitted_start opts) of
        Inl e \<Rightarrow> raise_run (date_exn e)
      | Inr from_t \<Rightarrow> (case bound_of (qo_submitted_end opts) of
            Inl e \<Rightarrow> raise_run (date_exn e)
          | Inr to_t \<Rightarrow> (case query_request opts from_t to_t of
                Inl errs \<Rightarrow> raise_run (OtherExn ''ValidationError'')
              | Inr request \<Rightarrow> ensure bk request)))"

subsection \<open>sync and backfill\<close>

record window_options =
  wo_search_queries :: "string list"
  wo_start_date :: "string option"
  wo_end_date :: "string option"
  wo_max_results :: int
  wo_mode :: string
  wo_client_id :: string
  wo_wait :: bool
  wo_wait_timeout :: "seconds option"
  wo_max_pages :: int
  wo_max_requests :: int

definition window_ranges :: "window_options \<Rightarrow> string list" where
  "window_ranges opts = range_error ''--max-results'' 1 2000 (wo_max_results opts) @
     range_error ''--max-pages-per-window'' 1 10000 (wo_max_pages opts) @
     range_error ''--max-requests-total'' 1 100000 (wo_max_requests opts)"

definition call_of :: "window_options \<Rightarrow> legacy_sync_mode \<Rightarrow> arxiv_request list \<Rightarrow> sync_call" where
  "call_of opts mode requests = \<lparr>sc_requests = requests, sc_wait = wo_wait opts, sc_wait_timeout = wo_wait_timeout opts,
     sc_mode = mode, sc_max_pages = wo_max_pages opts, sc_max_requests = wo_max_requests opts\<rparr>"

text \<open>--date is wo_start_date.\<close>

definition cli_sync :: "broker \<Rightarrow> window_options \<Rightarrow> maintenance_result run" where
  "cli_sync bk opts = ranged (window_ranges opts)
     (case wo_start_date opts of
        None \<Rightarrow> bad_parameter ''--date is required''
      | Some text_day \<Rightarrow> with_option (parse_day text_day) (\<lambda>day.
          case build_submitted_date_windows (wo_search_queries opts) day day (wo_max_results opts) (wo_client_id opts) of
            Inl err \<Rightarrow> raise_run (plan_exn err)
          | Inr requests \<Rightarrow> with_option (parse_sync_mode (wo_mode opts)) (\<lambda>mode.
              with_option (validate_sync_mode_wait mode (wo_wait opts)) (\<lambda>_.
                sync_windows bk (call_of opts mode requests)))))"

definition cli_backfill :: "broker \<Rightarrow> window_options \<Rightarrow> maintenance_result run" where
  "cli_backfill bk opts = ranged (window_ranges opts)
     (case wo_start_date opts of
        None \<Rightarrow> bad_parameter ''--start-date is required''
      | Some text_day \<Rightarrow> with_option (parse_day text_day) (\<lambda>first.
          with_option (case wo_end_date opts of None \<Rightarrow> Given first | Some s \<Rightarrow> parse_day s) (\<lambda>last_one.
          with_option (parse_sync_mode (wo_mode opts)) (\<lambda>mode.
          with_option (validate_sync_mode_wait mode (wo_wait opts)) (\<lambda>_.
            backfill_windows bk (wo_search_queries opts) first last_one (wo_max_results opts) (wo_client_id opts)
              (call_of opts mode []))))))"

subsection \<open>Harvest, reads and retention\<close>

definition metadata_prefix_of :: "string \<Rightarrow> oai_metadata_prefix option_value" where
  "metadata_prefix_of s =
     (if s = metadata_prefix_value ArXiv then Given ArXiv else if s = metadata_prefix_value ArXivRaw then Given ArXivRaw
      else BadParameter ''--metadata-prefix must be arXiv or arXivRaw'')"

text \<open>The options as a request whose prefix and mode are the texts given.\<close>

definition cli_harvest :: "harvester \<Rightarrow> string \<Rightarrow> string \<Rightarrow> oai_request \<Rightarrow> oai_harvest_result run" where
  "cli_harvest hv prefix mode opts =
     with_option (metadata_prefix_of prefix) (\<lambda>metadata_prefix.
     with_option (parse_oai_mode mode) (\<lambda>m.
       case make_oai_request (opts\<lparr>o_metadata_prefix := metadata_prefix, o_mode := m\<rparr>) of
         Inl errs \<Rightarrow> raise_run (OtherExn ''ValidationError'')
       | Inr request \<Rightarrow> bind_run (lift_run uuid4) (\<lambda>owner_id. bind_run (lift_run uuid4) (\<lambda>new_id.
           lift_run (harvest_oai hv request owner_id new_id)))))"

definition cli_paper :: "string \<Rightarrow> arxiv_paper option act" where
  "cli_paper arxiv_id = readM (get_paper (normalize_arxiv_id arxiv_id))"

definition store_gc :: "int \<Rightarrow> bool \<Rightarrow> retention_result run" where
  "store_gc older_than_days apply_changes =
     ranged (if older_than_days < 1 then [''--older-than-days''] else [])
     (lift_run (bindM utc_now (\<lambda>now. tx (gc (now - older_than_days * us_per_day) (\<not> apply_changes)))))"

subsection \<open>worker\<close>

definition immediate_worker_statuses :: "string list" where
  "immediate_worker_statuses = [''cache_hit'', ''completed'', ''failed'']"

definition worker_sleep_seconds :: "pass_result \<Rightarrow> huldra_settings \<Rightarrow> seconds act" where
  "worker_sleep_seconds result cfg =
     (if wr_status result \<in> set immediate_worker_statuses then returnM 0
      else (case wr_cooldown_until result of
          Some t \<Rightarrow> bindM utc_now (\<lambda>now. returnM (max 0 (total_seconds (t - now))))
        | None \<Rightarrow> returnM (worker_poll_interval_seconds cfg)))"

definition as_payload :: "pass_result \<Rightarrow> (string \<times> json) list" where
  "as_payload r =
     [(''status'', JStr (wr_status r)), (''request_id'', jstr (wr_request_id r)), (''cache_key'', jstr (wr_cache_key r)),
      (''papers_total'', JInt (wr_papers_total r)), (''cooldown_until'', jtime (wr_cooldown_until r)),
      (''retry_after_seconds'', jint (wr_retry_after_seconds r)), (''error_category'', jstr (wr_error_category r)),
      (''error_message'', jstr (wr_error_message r))]"

text \<open>The lines one pass prints.\<close>

definition printed :: "bool \<Rightarrow> pass_result \<Rightarrow> (string \<times> json) list list" where
  "printed emit_idle result = (if wr_status result \<noteq> ''idle'' \<or> emit_idle then [as_payload result] else [])"

definition worker_turn :: "worker \<Rightarrow> bool \<Rightarrow> (string \<times> json) list list act" where
  "worker_turn wk emit_idle =
     bindM (run_once wk None) (\<lambda>result.
     bindM (worker_sleep_seconds result (wk_settings wk)) (\<lambda>seconds.
     thenM (if seconds > 0 then sleepM seconds else returnM ())
       (returnM (printed emit_idle result))))"

text \<open>--once returns before it would sleep; without it the loop has no end, and this is its first n turns.\<close>

definition worker_once :: "worker \<Rightarrow> bool \<Rightarrow> (string \<times> json) list list act" where
  "worker_once wk emit_idle = bindM (run_once wk None) (\<lambda>result. returnM (printed emit_idle result))"

fun worker_turns :: "nat \<Rightarrow> worker \<Rightarrow> bool \<Rightarrow> (string \<times> json) list list act" where
  "worker_turns 0 wk emit_idle = returnM []"
| "worker_turns (Suc n) wk emit_idle =
     bindM (worker_turn wk emit_idle) (\<lambda>out. bindM (worker_turns n wk emit_idle) (\<lambda>more_out. returnM (out @ more_out)))"

definition polling_worker :: "worker \<Rightarrow> seconds option \<Rightarrow> worker" where
  "polling_worker wk poll = (case poll of None \<Rightarrow> wk
     | Some s \<Rightarrow> wk\<lparr>wk_settings := (wk_settings wk)\<lparr>worker_poll_interval_seconds := s\<rparr>\<rparr>)"


subsection \<open>The worker command paces itself\<close>

lemma fetching_sleep_seconds: "fetching 0 P (worker_sleep_seconds r cfg)"
  by (auto simp: worker_sleep_seconds_def intro!: fetching_bind0 split: option.split)

lemma fetching_turn: "fetching (Suc 0) (\<lambda>_. True) (worker_turn wk e)"
proof -
  have "fetching (Suc 0 + 0) (\<lambda>_. True) (worker_turn wk e)"
    unfolding worker_turn_def
    by (intro fetching_bind fetching_bind0 fetching_then0 fetching_run_once fetching_sleep_seconds) auto
  then show ?thesis by simp
qed

lemma fetching_turns: "fetching n (\<lambda>_. True) (worker_turns n wk e)"
proof (induction n)
  case (Suc n)
  have "fetching (Suc 0 + (n + 0)) (\<lambda>_. True) (worker_turns (Suc n) wk e)"
    unfolding worker_turns.simps by (intro fetching_bind fetching_turn Suc) auto
  then show ?case by simp
qed (simp del: runM_return)

text \<open>C39. However long the worker command runs, n passes make at most n upstream calls; and
  after a pass that ended in a cooldown without having finished anything the worker sleeps until the
  cooldown is over: the clock reading it takes, plus what it sleeps, is not before the end of the cooldown.\<close>

theorem worker_paces_itself:
  "(\<exists>rs. fetches (snd (worker_turns n wk e w)) = fetches w @ rs \<and> length rs \<le> n) \<and>
   (\<forall>result w1 t. run_once wk None w = (Inr result, w1) \<and> wr_cooldown_until result = Some t \<and>
        wr_status result \<notin> {''cache_hit'', ''completed'', ''failed''} \<longrightarrow>
      (\<exists>w2 naps. worker_turn wk e w = (Inr (printed e result), w2) \<and> slept w2 = slept w1 @ naps \<and>
         t \<le> clock w1 (reads w1) + timedelta_seconds (sum_list naps)))"
proof (intro conjI allI impI)
  show "\<exists>rs. fetches (snd (worker_turns n wk e w)) = fetches w @ rs \<and> length rs \<le> n"
    by (rule fetchingE [OF fetching_turns prod.collapse [symmetric], of n wk e w]) auto
next
  fix result w1 t
  assume r: "run_once wk None w = (Inr result, w1) \<and> wr_cooldown_until result = Some t \<and>
    wr_status result \<notin> {''cache_hit'', ''completed'', ''failed''}"
  define s where "s = max 0 (total_seconds (t - clock w1 (reads w1)))"
  have turn: "worker_turn wk e w = (Inr (printed e result), w1\<lparr>reads := Suc (reads w1), slept := slept w1 @ (if s > 0 then [s] else [])\<rparr>)"
    using r by (simp add: worker_turn_def bindM_def worker_sleep_seconds_def immediate_worker_statuses_def utc_now_def
        returnM_def thenM_def sleepM_def s_def [symmetric])
  have "t \<le> clock w1 (reads w1) + timedelta_seconds (sum_list (if s > 0 then [s] else []))"
  proof (cases "s > 0")
    case True
    then have "s = total_seconds (t - clock w1 (reads w1))" by (simp add: s_def)
    then show ?thesis using True by (simp add: total_seconds_roundtrip)
  next
    case False
    then have "(of_int (t - clock w1 (reads w1)) :: rat) \<le> 0"
      by (simp add: s_def total_seconds_def us_per_second_def not_less)
    then have "t \<le> clock w1 (reads w1)" unfolding of_int_le_0_iff by simp
    moreover have "timedelta_seconds 0 = 0" by code_simp
    ultimately show ?thesis using False by simp
  qed
  with turn show "\<exists>w2 naps. worker_turn wk e w = (Inr (printed e result), w2) \<and> slept w2 = slept w1 @ naps \<and>
      t \<le> clock w1 (reads w1) + timedelta_seconds (sum_list naps)"
    by (intro exI conjI) (assumption, simp_all)
qed

text \<open>One queued item while the API is in a cooldown that ends at 100 s.\<close>

definition cli_worker :: worker where
  "cli_worker = \<lparr>wk_name = ''w'', wk_token = ''w:1'', wk_settings = default_settings,
     wk_limiter = bk_limiter sample_broker, wk_store_timeout = 30\<rparr>"

definition cooling_world :: world where
  "cooling_world = alone (set_rate_state ((new_rate_state ''arxiv_legacy_api'')\<lparr>rs_cooldown_until := Some (100 * us_per_second)\<rparr>)
     ((empty_db (\<lambda>_. 0))\<lparr>queue_items := [sample_row\<lparr>q_status := QUEUED, q_claimed_by := None, q_claimed_until := None,
        q_upstream_budget_id := None, q_unbudgeted_demand := True\<rparr>]\<rparr>)) offline"

lemma cooling_pass:
  "case run_once cli_worker None cooling_world of
     (Inr r, w1) \<Rightarrow> wr_cooldown_until r = Some (100 * us_per_second) \<and> wr_status r \<notin> {''cache_hit'', ''completed'', ''failed''} \<and>
       slept w1 = [] \<and> clock w1 (reads w1) < 50
   | _ \<Rightarrow> False"
  by code_simp

theorem worker_paces_itself_witness:
  "\<exists>out w2. worker_turn cli_worker False cooling_world = (Inr out, w2) \<and>
     100 * us_per_second \<le> 50 + timedelta_seconds (sum_list (slept w2)) \<and> length (fetches (snd (worker_turns 3 cli_worker False cooling_world))) \<le> 3"
proof -
  obtain r w1 where run: "run_once cli_worker None cooling_world = (Inr r, w1)"
    and r: "wr_cooldown_until r = Some (100 * us_per_second)" "wr_status r \<notin> {''cache_hit'', ''completed'', ''failed''}"
    and w1: "slept w1 = []" "clock w1 (reads w1) < 50"
    using cooling_pass by (auto split: prod.splits sum.splits)
  note paced = worker_paces_itself [of 3 cli_worker False cooling_world]
  from paced have calls: "length (fetches (snd (worker_turns 3 cli_worker False cooling_world))) \<le> 3"
    by (auto simp: cooling_world_def alone_def)
  from paced [THEN conjunct2, rule_format, OF conjI [OF run conjI [OF r]]]
  obtain w2 naps where "worker_turn cli_worker False cooling_world = (Inr (printed False r), w2)" "slept w2 = slept w1 @ naps"
    "100 * us_per_second \<le> clock w1 (reads w1) + timedelta_seconds (sum_list naps)" by blast
  with calls w1 show ?thesis by auto
qed
end
