(* ===== verification/Spec2Isabelle.thy ===== *)
theory Spec2Isabelle
  imports Huldra_Planner Huldra_Handback Huldra_Guard Huldra_Lookup Huldra_Oai Huldra_Iso Huldra_Resume Huldra_Completeness Huldra_Migrations Huldra_Cli
begin

text \<open>
  Huldra: a local broker for arXiv metadata (src/src/huldra).

  The program. Clients ask the broker for search results; the answers live in one SQLite database
  (db.py). What is missing or stale becomes a row of a request queue. Worker processes claim queue
  items, take the single upstream lease, reserve arXiv ids, charge request budgets, wait for the
  rate limiter, make one upstream request and record its papers as a completed cache entry. Any
  number of processes share the database; every store operation is one BEGIN IMMEDIATE transaction.

  The model. One store operation is a function from its arguments, the clock reading it takes and
  the database to its result and the new database; an exception is the left side of a sum. A
  uuid4 is an argument. Programs of several transactions (the limiter, a pass of the worker, the
  broker) are actions of the state-exception monad of Huldra_World: between two transactions the
  other processes apply an arbitrary function to the database, the two clocks (utc_now and
  time.monotonic) give arbitrary readings, and the upstream answers come from an arbitrary function.
  Programs that poll until a deadline are runs: partial functions to an option whose None is a loop
  that never ends, so that coming back is a theorem, under the one hypothesis that the monotonic
  clock passes every bound (clock_goes_on). ORDER BY is a stable sort of the rows in rowid order, TEXT
  timestamps are instants (isoformat_less_iff shows that their text order is the time order), the
  _json columns hold the values they encode, floats are exact rationals, strings are ASCII.

  Theories, in import order.
    Huldra_Prelude    tables as row lists and the SQL statements on them; the locale keyed_table.
    Huldra_Time       time.py: instants, timedelta, calendar, ISO text.
    Huldra_Models     models.py, config.py: enumerations, request validation, settings.
    Huldra_Keys       keys.py: arXiv ids, cache keys, API parameters.
    Huldra_Iso        reading ISO 8601 text; a timestamp column reads back the instant written.
    Huldra_Store      migrations.py and the rows of db.py; events, worker state; schema_ok states
                      the keys, the partial unique index and the foreign keys of the memberships.
    Huldra_Leases     leases and id reservations; the locale exclusive_grant: whatever is taken only
                      when free or expired has one unexpired holder along any run.
    Huldra_Budgets    upstream request budgets and their memberships.
    Huldra_Queue      enqueue, refresh, claim, renew, complete, release.
    Huldra_Ownership  the fence of claim, lease and reservations; the interpretations of
                      exclusive_grant for leases, reservations and claims, and mutual exclusion.
    Huldra_World      transactions interleaved with other processes, upstream calls.
    Huldra_Limiter    limiter.py: spacing, cooldowns, counters; what before_request and after_rate_limit
                      guarantee while other processes write in between.
    Huldra_Cache      papers, version families, completed entries, failures.
    Huldra_Retention  gc: what is old enough, the dry run, what stays.
    Huldra_Planner    planner.py: the windows of a backfill.
    Huldra_Programs   a rely logic for actions: triples with interference, upstream calls, exceptions.
    Huldra_Worker     worker.py: one pass, helper by helper.
    Huldra_Passes     at most one upstream call; what the token of a worker holds and how every store
                      operation changes it.
    Huldra_Handback   a pass gives back the lease, the reservations and the claim.
    Huldra_Guard      what a worker holds when it calls upstream.
    Huldra_Lookup     the id lookup of the worker against a specification; the answer is complete.
    Huldra_Oai        the harvest tables of db.py: jobs, pages, records, watermarks; a page is committed as
                      a whole, and the audit of the pages accounts for the counters of the job.
    Huldra_Harvest    harvest_oai of broker.py: the scope lease, the page loop, budgets, tokens; the loop is
                      a function whose measure is max_pages - page_index.
    Huldra_Resume     the loop state is the durable cursor a successor resumes from.
    Huldra_Sync       the sync jobs of db.py and their pages.
    Huldra_Serve      broker.py: ensure, get_result, the wait, readiness, composed id lists.
    Huldra_Runs       triples and returning for runs; what a broker program does to the clocks.
    Huldra_Answers    ensure answers by the deadline of its wait; an answer shows what is stored, and an
                      immature window only in a terminal state that is not marked ready.
    Huldra_Windows    broker.py: maintenance targets, inline drains, the pages of a complete window.
    Huldra_Maintenance  broker.py: sync_windows, backfill_windows, the maintenance report.
    Huldra_Completeness  maintenance comes back; planned pages tile the window; a window reported
                      complete is complete in the cache.
    Huldra_Atom       atom.py and fetcher.py: the entries of a feed to papers, answers to exceptions.
    Huldra_Oaipmh     oai.py: the XML tree of a ListRecords answer to records, dates (ISO and HTTP), the OAI
                      request.
    Huldra_Migrations the part of apply_migrations that changes rows; a start leaves a live store as it is.
    Huldra_Status     status_summary: the counters read by one SELECT after the other.
    Huldra_Api        api.py, the bodies of models.py and client.py: routes, validation, what the client sees.
    Huldra_Cli        cli.py: options to requests, the commands, the loop of the worker command.

  Lemma groups. schema_ok_* : every operation keeps what SQLite enforces. budgets_ok_* : no budget is
  overspent. *_get_*, *_row, *_simps : how a table reads after an operation. The properties stand at
  the end of each theory, each followed by a witness on a concrete store.

  Bounds. No fuel is used: the loops of the model are structural, have a measure (date_windows by
  the days left, page_starts by the results left) or are partial functions (poll_until). The power 2.0 ** 1024 at which a float overflows is FLOAT_LIMIT.

  How the layers meet. The programs take any upstream, so that their theorems hold for the fetchers of
  Huldra_Atom and Huldra_Oaipmh and for any other; what those two return is stated on their own. The
  programs leave out the call of init_schema with which brokers and worker passes begin: on a live
  store it changes nothing (restarts_change_nothing).

  Interference. Three guards of the code are weaker than the promise they serve, and the theorems say
  what they rest on instead. complete_queue_item, release_or_delay_queue_item and the failures do not
  ask who holds the claim, so a claim counts until anyone ends the item (claim_takes and claim_drops,
  release_not_fenced_by_owner). The limiter guarantees spacing and cooldowns as long as the other
  processes keep what is recorded and record under the lease (hands_over;
  before_request_erases_late_cooldown shows a process that does not). A waiting request can see the
  papers of an immature window, in an answer that is not marked ready (waiting_exposes_immature_window).

  Parameters. sha256, date() of SQLite, feedparser, the XML parser and printer, the HTTP client,
  parsedate_to_datetime, the local time zone names, the jitter of the limiter.

  Idealised. Instants and timedeltas are unbounded integers of microseconds: the OverflowError of a
  result outside the years 1 to 9999 is modelled only where the code meets it on its own inputs (the
  maturity cutoff, astimezone), not in expiry, timedelta_seconds or the cooldowns of after_rate_limit.
  Seconds are exact rationals, not floats. urlparse is total: the ValueError it raises on a malformed
  bracketed host (http://[) is left out of normalize_arxiv_id, is_paper_abs_url and
  arxiv_id_from_oai_identifier. The client sees the answer of the server however long it takes: the
  timeout of httpx is not modelled. updated_at of a harvest job is not optional, as the current
  schema declares it NOT NULL, so that the UPDATE of apply_migrations that fills it in for rows of
  older tables has no counterpart.

  Not modelled: SQLite itself, the CREATE and ALTER statements of the migrations, file-level operations
  (vacuum, storage size), the transports (JSON, FastAPI, httpx, typer), the daemon and its probe, what
  the commands print, log output, and the unused wrapper class of queue.py.
\<close>

end
